(* ===== verification/Prelude.thy ===== *)
theory Prelude
  imports Complex_Main "HOL-Library.Word"
begin

text \<open>
  What the components share: the C library's character, number and string routines as the code
  uses them, the widths of the integers the code declares, and the generic lemmas on lists.
  A \<open>char *\<close> that ends at its first NUL byte is a \<open>string\<close> (a list of bytes, type \<open>char\<close>);
  the bytes in it are the bytes of the C string.
\<close>

named_theorems cstr_simps \<open>defining equations of the C string routines\<close>

type_synonym bytes = "char list"

section \<open>Integers of the code\<close>

text \<open>
  \<open>int\<close>, \<open>int32_t\<close> and \<open>int64_t\<close>/\<open>time_t\<close> values are kept as \<open>int\<close>; \<open>wrap32\<close> and \<open>wrap64\<close>
  are the conversions to these types (modulo \<open>2 ^ n\<close>, as gcc defines them), written wherever the code
  converts or adds. \<open>uint32_t\<close> masks are \<open>32 word\<close>.
\<close>

definition wrap32 :: "int \<Rightarrow> int" where
  "wrap32 x = (x + 2 ^ 31) mod 2 ^ 32 - 2 ^ 31"

definition wrap64 :: "int \<Rightarrow> int" where
  "wrap64 x = (x + 2 ^ 63) mod 2 ^ 64 - 2 ^ 63"

definition in_int32 :: "int \<Rightarrow> bool" where
  "in_int32 x \<longleftrightarrow> - (2 ^ 31) \<le> x \<and> x < 2 ^ 31"

definition in_int64 :: "int \<Rightarrow> bool" where
  "in_int64 x \<longleftrightarrow> - (2 ^ 63) \<le> x \<and> x < 2 ^ 63"

lemma wrap32_id [simp]: "in_int32 x \<Longrightarrow> wrap32 x = x"
  by (simp add: wrap32_def in_int32_def)

lemma wrap64_id [simp]: "in_int64 x \<Longrightarrow> wrap64 x = x"
  by (simp add: wrap64_def in_int64_def)

lemma wrap32_range: "in_int32 (wrap32 x)"
proof -
  have "0 \<le> (x + 2 ^ 31) mod 2 ^ 32" and "(x + 2 ^ 31) mod 2 ^ 32 < 2 ^ 32"
    by (rule pos_mod_sign, simp) (rule pos_mod_bound, simp)
  then show ?thesis
    by (simp add: wrap32_def in_int32_def)
qed

lemma wrap64_range: "in_int64 (wrap64 x)"
proof -
  have "0 \<le> (x + 2 ^ 63) mod 2 ^ 64" and "(x + 2 ^ 63) mod 2 ^ 64 < 2 ^ 64"
    by (rule pos_mod_sign, simp) (rule pos_mod_bound, simp)
  then show ?thesis
    by (simp add: wrap64_def in_int64_def)
qed

section \<open>Characters\<close>

text \<open>\<open>isspace\<close> and \<open>isdigit\<close> in the C locale; \<open>tolower\<close> as \<open>strcasecmp\<close> applies it.\<close>

definition c_isspace :: "char \<Rightarrow> bool" where
  "c_isspace c \<longleftrightarrow> c = CHR '' '' \<or> c = CHR 0x09 \<or> c = CHR 0x0A \<or> c = CHR 0x0B \<or> c = CHR 0x0C \<or> c = CHR 0x0D"

definition c_isdigit :: "char \<Rightarrow> bool" where
  "c_isdigit c \<longleftrightarrow> c \<in> set ''0123456789''"

definition digit_val :: "char \<Rightarrow> int" where
  "digit_val c = int (of_char c) - 48"

definition c_tolower :: "char \<Rightarrow> char" where
  "c_tolower c = (if 65 \<le> (of_char c :: nat) \<and> (of_char c :: nat) \<le> 90 then char_of ((of_char c :: nat) + 32) else c)"

lemma isdigit_not_isspace: "c_isdigit c \<Longrightarrow> \<not> c_isspace c"
  by (auto simp: c_isdigit_def c_isspace_def)

section \<open>Numbers in text\<close>

text \<open>
  \<open>strtol\<close> in base 10: leading white space, an optional sign, the digits, saturated to 64 bits; the
  rest of the text is ignored and no digits give 0. glibc's \<open>atoi\<close> is \<open>strtol\<close> converted to \<open>int\<close>.
\<close>

definition digits_value :: "string \<Rightarrow> int" where
  "digits_value ds = foldl (\<lambda>a c. 10 * a + digit_val c) 0 ds"

definition strtol :: "string \<Rightarrow> int" where
  "strtol s =
     (let t = dropWhile c_isspace s;
          neg = (take 1 t = ''-'');
          u = (if take 1 t = ''-'' \<or> take 1 t = ''+'' then drop 1 t else t);
          v = digits_value (takeWhile c_isdigit u);
          w = (if neg then - v else v)
      in max (- (2 ^ 63)) (min (2 ^ 63 - 1) w))"

definition atoi :: "string \<Rightarrow> int" where
  "atoi s = wrap32 (strtol s)"

text \<open>
  \<open>strtoul\<close> in base 10: the same text, saturated to an unsigned 64-bit value and negated modulo
  \<open>2 ^ 64\<close> after a minus sign; it also returns what follows the digits.
\<close>

definition strtoul :: "string \<Rightarrow> int \<times> string" where
  "strtoul s =
     (let t = dropWhile c_isspace s;
          neg = (take 1 t = ''-'');
          u = (if take 1 t = ''-'' \<or> take 1 t = ''+'' then drop 1 t else t);
          ds = takeWhile c_isdigit u;
          v = digits_value ds
      in if ds = [] then (0, s)
         else if 2 ^ 64 \<le> v then (2 ^ 64 - 1, dropWhile c_isdigit u)
         else ((if neg then (- v) mod 2 ^ 64 else v), dropWhile c_isdigit u))"

text \<open>
  \<open>strtod\<close>, and \<open>atof\<close>, for decimal notation, with the exact value of the text: neither the rounding to
  a \<open>double\<close> nor hexadecimal, \<open>inf\<close> and \<open>nan\<close> notation is part of the model.
\<close>

definition exponent_of :: "string \<Rightarrow> int" where
  "exponent_of r =
     (if take 1 r = ''e'' \<or> take 1 r = ''E''
      then let e = drop 1 r;
               ds = takeWhile c_isdigit (if take 1 e = ''-'' \<or> take 1 e = ''+'' then drop 1 e else e)
           in if take 1 e = ''-'' then - digits_value ds else digits_value ds
      else 0)"

definition atof :: "string \<Rightarrow> real" where
  "atof s =
     (let t = dropWhile c_isspace s;
          u = (if take 1 t = ''-'' \<or> take 1 t = ''+'' then drop 1 t else t);
          ip = takeWhile c_isdigit u;
          r = dropWhile c_isdigit u;
          fp = (if take 1 r = ''.'' then takeWhile c_isdigit (drop 1 r) else []);
          r' = (if take 1 r = ''.'' then dropWhile c_isdigit (drop 1 r) else r);
          m = real_of_int (digits_value (ip @ fp)) / 10 ^ length fp;
          e = exponent_of r';
          v = (if ip = [] \<and> fp = [] then 0 else if 0 \<le> e then m * 10 ^ nat e else m / 10 ^ nat (- e))
      in if take 1 t = ''-'' then - v else v)"

text \<open>Decimal output, as \<open>printf\<close> does \<open>%d\<close>, \<open>%lld\<close>, \<open>%lu\<close>.\<close>

fun show_nat :: "nat \<Rightarrow> string" where
  "show_nat n = (if n < 10 then [char_of (48 + n)] else show_nat (n div 10) @ [char_of (48 + n mod 10)])"

declare show_nat.simps [simp del]

definition show_int :: "int \<Rightarrow> string" where
  "show_int i = (if i < 0 then CHR ''-'' # show_nat (nat (- i)) else show_nat (nat i))"

lemma digits_value_snoc: "digits_value (ds @ [d]) = 10 * digits_value ds + digit_val d"
  by (simp add: digits_value_def)

lemma digit_char:
  assumes "n < (10::nat)"
  shows "c_isdigit (char_of (48 + n))" and "digit_val (char_of (48 + n)) = int n"
proof -
  have n: "n = 0 \<or> n = 1 \<or> n = 2 \<or> n = 3 \<or> n = 4 \<or> n = 5 \<or> n = 6 \<or> n = 7 \<or> n = 8 \<or> n = 9"
    using assms by presburger
  then show "c_isdigit (char_of (48 + n))"
    by (elim disjE) (simp_all add: c_isdigit_def char_of_def bit_simps)
  from n show "digit_val (char_of (48 + n)) = int n"
    by (elim disjE) (simp_all add: digit_val_def)
qed

lemma show_nat_digits: "list_all c_isdigit (show_nat n)"
proof (induction n rule: show_nat.induct)
  case (1 n)
  show ?case
  proof (cases "n < 10")
    case True
    then show ?thesis by (simp add: show_nat.simps [of n] digit_char)
  next
    case False
    with 1 show ?thesis by (simp add: show_nat.simps [of n] digit_char)
  qed
qed

lemma show_nat_nonempty [simp]: "show_nat n \<noteq> []"
  by (subst show_nat.simps) simp

lemma digits_value_show_nat: "digits_value (show_nat n) = int n"
proof (induction n rule: show_nat.induct)
  case (1 n)
  show ?case
  proof (cases "n < 10")
    case True
    then have "digits_value (show_nat n) = digit_val (char_of (48 + n))"
      by (subst show_nat.simps) (simp add: digits_value_def)
    with True show ?thesis by (simp add: digit_char)
  next
    case False
    with 1 have "digits_value (show_nat n) = 10 * int (n div 10) + int (n mod 10)"
      by (subst show_nat.simps) (simp add: digits_value_snoc digit_char)
    also have "\<dots> = int n"
      by (metis mult_div_mod_eq of_nat_add of_nat_mult of_nat_numeral)
    finally show ?thesis .
  qed
qed

lemma takeWhile_all_app: "list_all P xs \<Longrightarrow> ys = [] \<or> \<not> P (hd ys) \<Longrightarrow> takeWhile P (xs @ ys) = xs"
  by (induction xs) (auto simp: takeWhile_eq_Nil_iff)

lemma dropWhile_all_app: "list_all P xs \<Longrightarrow> ys = [] \<or> \<not> P (hd ys) \<Longrightarrow> dropWhile P (xs @ ys) = ys"
  by (induction xs) (auto simp: dropWhile_eq_self_iff)

text \<open>Reading back what was printed: \<open>atoi\<close> of the decimal text of an \<open>int\<close> is that \<open>int\<close>.\<close>

lemma isdigit_not_sign: "c_isdigit c \<Longrightarrow> c \<noteq> CHR ''-'' \<and> c \<noteq> CHR ''+''"
  by (auto simp: c_isdigit_def)

lemma show_nat_Cons: obtains d ds where "show_nat n = d # ds" "c_isdigit d"
proof -
  obtain d ds where eq: "show_nat n = d # ds" by (cases "show_nat n") simp_all
  with show_nat_digits [of n] have "c_isdigit d" by simp
  with eq show thesis by (rule that)
qed

lemma strtol_show_int:
  assumes "in_int64 i"
  shows "strtol (show_int i) = i"
proof (cases "i < 0")
  case True
  have "takeWhile c_isdigit (show_nat (nat (- i))) = show_nat (nat (- i))"
    using takeWhile_all_app [OF show_nat_digits, of "[]"] by simp
  then have "digits_value (takeWhile c_isdigit (show_nat (nat (- i)))) = - i"
    by (simp only:) (use True in \<open>simp add: digits_value_show_nat\<close>)
  with True assms show ?thesis
    by (simp del: takeWhile_eq_all_conv add: strtol_def show_int_def Let_def c_isspace_def in_int64_def)
next
  case False
  obtain d ds where dds: "show_nat (nat i) = d # ds" "c_isdigit d" by (rule show_nat_Cons)
  have tw: "takeWhile c_isdigit (show_nat (nat i)) = show_nat (nat i)"
    using takeWhile_all_app [OF show_nat_digits, of "[]"] by simp
  have "dropWhile c_isspace (show_nat (nat i)) = show_nat (nat i)"
    using dds by (simp add: isdigit_not_isspace)
  moreover have "take 1 (show_nat (nat i)) \<noteq> ''-''" "take 1 (show_nat (nat i)) \<noteq> ''+''"
    using dds isdigit_not_sign [of d] by auto
  ultimately show ?thesis using False assms tw
    by (simp del: takeWhile_eq_all_conv add: strtol_def show_int_def Let_def digits_value_show_nat in_int64_def)
qed

lemma in_int32_in_int64: "in_int32 i \<Longrightarrow> in_int64 i"
  by (simp add: in_int32_def in_int64_def)

lemma atoi_show_int: "in_int32 i \<Longrightarrow> atoi (show_int i) = i"
  by (simp add: atoi_def strtol_show_int in_int32_in_int64)

section \<open>C strings\<close>

text \<open>What a C function sees of a text: the bytes before the first NUL. A \<open>c_text\<close> is seen in full.\<close>

definition c_str :: "string \<Rightarrow> string" where
  "c_str s = takeWhile (\<lambda>c. c \<noteq> CHR 0x00) s"

definition c_text :: "string \<Rightarrow> bool" where
  "c_text s \<longleftrightarrow> CHR 0x00 \<notin> set s"

lemma c_text_simps [simp]:
  "c_text []" "c_text (c # s) \<longleftrightarrow> c \<noteq> CHR 0x00 \<and> c_text s" "c_text (s @ s') \<longleftrightarrow> c_text s \<and> c_text s'"
  by (auto simp: c_text_def)

lemma c_str_id [simp]: "c_text s \<Longrightarrow> c_str s = s"
  by (auto simp: c_text_def c_str_def takeWhile_eq_all_conv)

lemma c_str_Cons [simp]: "c \<noteq> CHR 0x00 \<Longrightarrow> c_str (c # s) = c # c_str s"
  by (simp add: c_str_def)

lemma c_text_show_nat [simp]: "c_text (show_nat n)"
proof -
  have "\<not> c_isdigit (CHR 0x00)" by (simp add: c_isdigit_def)
  then show ?thesis using show_nat_digits [of n] by (auto simp: c_text_def list_all_iff)
qed

lemma c_text_show_int [simp]: "c_text (show_int i)"
  by (simp add: show_int_def)

section \<open>String comparison\<close>

text \<open>
  \<open>strcmp\<close> compares bytes as \<open>unsigned char\<close>; the standard fixes only the sign of its result, which is
  all the code uses. \<open>strncmp a b (length b) = 0\<close> is the prefix test the code writes with literals.
\<close>

fun strcmp :: "string \<Rightarrow> string \<Rightarrow> int" where
  "strcmp [] [] = 0"
| "strcmp [] (b # bs) = -1"
| "strcmp (a # as) [] = 1"
| "strcmp (a # as) (b # bs) =
     (if (of_char a :: nat) < of_char b then -1
      else if (of_char b :: nat) < of_char a then 1
      else strcmp as bs)"

definition strcasecmp :: "string \<Rightarrow> string \<Rightarrow> int" where
  "strcasecmp a b = strcmp (map c_tolower a) (map c_tolower b)"

definition has_prefix :: "string \<Rightarrow> string \<Rightarrow> bool" where
  "has_prefix p s \<longleftrightarrow> take (length p) s = p"

lemma strcmp_refl [simp]: "strcmp a a = 0"
  by (induction a) auto

lemma strcmp_eq_0 [simp]: "strcmp a b = 0 \<longleftrightarrow> a = b"
  by (induction a b rule: strcmp.induct) (auto simp: not_less)

lemma strcmp_sym: "strcmp b a = - strcmp a b"
  by (induction a b rule: strcmp.induct) auto

lemma strcmp_values: "strcmp a b \<in> {-1, 0, 1}"
  by (induction a b rule: strcmp.induct) auto

lemma strcmp_Nil2: "strcmp a [] \<le> 0 \<longleftrightarrow> a = []"
  by (cases a) auto

lemma strcmp_Cons_le:
  "strcmp (a # as) (b # bs) \<le> 0 \<longleftrightarrow>
     (of_char a :: nat) < of_char b \<or> (of_char a :: nat) = of_char b \<and> strcmp as bs \<le> 0"
  by auto

lemma strcmp_trans: "strcmp a b \<le> 0 \<Longrightarrow> strcmp b c \<le> 0 \<Longrightarrow> strcmp a c \<le> 0"
proof (induction a arbitrary: b c)
  case Nil
  then show ?case by (cases c) auto
next
  case (Cons x xs)
  from Cons.prems(1) obtain y ys where b: "b = y # ys" by (cases b) auto
  with Cons.prems(2) obtain z zs where c: "c = z # zs" by (cases c) auto
  from Cons.IH [of ys zs] Cons.prems show ?case
    unfolding b c strcmp_Cons_le by linarith
qed

lemma strcmp_less_trans:
  assumes "strcmp a b < 0" and "strcmp b c < 0"
  shows "strcmp a c < 0"
proof -
  have "strcmp a c \<le> 0" using assms strcmp_trans [of a b c] by simp
  moreover have "strcmp a c \<noteq> 0" using assms strcmp_sym [of b a] by auto
  ultimately show ?thesis by linarith
qed

section \<open>Lists\<close>

lemma take_takeWhile_split: "takeWhile P xs @ dropWhile P xs = xs"
  by (rule takeWhile_dropWhile_id)

lemma dropWhile_length_less: "xs \<noteq> [] \<Longrightarrow> P (hd xs) \<Longrightarrow> length (dropWhile P xs) < length xs"
  by (cases xs) (auto simp: le_imp_less_Suc dropWhile_eq_drop)

lemma filter_imp_filter: "(\<And>x. x \<in> set xs \<Longrightarrow> P x \<Longrightarrow> Q x) \<Longrightarrow> filter P (filter Q xs) = filter P xs"
  by (induction xs) auto

lemma strtoul_nonneg: "0 \<le> fst (strtoul t)"
proof -
  have "0 \<le> digits_value ds" if "list_all c_isdigit ds" for ds
    using that
  proof (induction ds rule: rev_induct)
    case (snoc d ds)
    have "0 \<le> digit_val d" if "c_isdigit d" using that by (auto simp: c_isdigit_def digit_val_def)
    with snoc show ?case by (simp add: digits_value_def)
  qed (simp add: digits_value_def)
  moreover have "list_all c_isdigit (takeWhile c_isdigit u)" for u by (auto simp: list_all_iff dest: set_takeWhileD)
  ultimately show ?thesis by (simp add: strtoul_def Let_def)
qed

lemma strtoul_show_nat:
  assumes "i < 2 ^ 64"
  shows "strtoul (show_nat i) = (int i, [])"
proof -
  obtain d ds where d: "show_nat i = d # ds" "c_isdigit d" by (rule show_nat_Cons)
  have "takeWhile c_isdigit (show_nat i) = show_nat i" "dropWhile c_isdigit (show_nat i) = []"
    using takeWhile_all_app [OF show_nat_digits, of "[]" i] dropWhile_all_app [OF show_nat_digits, of "[]" i] by simp_all
  moreover have "dropWhile c_isspace (show_nat i) = show_nat i" "take 1 (show_nat i) \<noteq> ''-''" "take 1 (show_nat i) \<noteq> ''+''"
    using d isdigit_not_sign [of d] by (auto simp: isdigit_not_isspace)
  moreover have "\<not> 2 ^ 64 \<le> int i" using assms by simp
  ultimately show ?thesis
    using digits_value_show_nat [of i] d(1)
    unfolding strtoul_def Let_def by (simp del: takeWhile_eq_all_conv dropWhile_eq_Nil_conv split del: if_split)
qed

section \<open>Rows\<close>

text \<open>
  A table offers its rows one by one to the query, which keeps a state and answers whether it wants
  more of them (\<open>Query::processDataset\<close>).
\<close>

fun offer_rows :: "('r \<Rightarrow> 's \<Rightarrow> bool \<times> 's) \<Rightarrow> 'r list \<Rightarrow> 's \<Rightarrow> 's" where
  "offer_rows consume [] st = st"
| "offer_rows consume (r # rs) st = (case consume r st of (False, st1) \<Rightarrow> st1 | (True, st1) \<Rightarrow> offer_rows consume rs st1)"

text \<open>A query that wants every row and keeps those it accepts.\<close>

definition keep_if :: "('r \<Rightarrow> bool) \<Rightarrow> 'r \<Rightarrow> 'r list \<Rightarrow> bool \<times> 'r list" where
  "keep_if P r rs = (True, if P r then rs @ [r] else rs)"

lemma offer_rows_keep [simp]: "offer_rows (keep_if P) rs acc = acc @ filter P rs"
  by (induction rs arbitrary: acc) (simp_all add: keep_if_def)

end
