(* ===== verification/Columns.thy ===== *)
theory Columns
  imports Prelude Complex_Main
begin

text \<open>
  The column classes (\<open>src/Column.h\<close> and its subclasses) and their \<open>compare\<close> method. A row is the
  \<open>void *data\<close> the tables hand to the query, type \<open>'r\<close>; the value of a column in a row is what the
  subclass reads at its offset in the core's struct, so \<open>getValue\<close> is a function of the row. A column
  keeps its name and that function; its constructor is the C++ class whose methods it dispatches to.
  A \<open>double\<close> read from the core is a \<open>real\<close> (the structs hold finite values). An object pointer of a
  list column is a \<open>nat\<close>, with the name the column prints for it; no list at all (the pointer the column
  shifts by is null) is \<open>None\<close>.
\<close>

record host_member =
  hm_name :: string
  hm_state :: int
  hm_has_been_checked :: int

record svc_member =
  sm_host_name :: string
  sm_description :: string
  sm_state :: int
  sm_has_been_checked :: int
  sm_plugin_output :: string

datatype cvt = CVT_VARNAMES | CVT_VALUES | CVT_DICT

datatype coltype = COLTYPE_INT | COLTYPE_DOUBLE | COLTYPE_STRING | COLTYPE_LIST | COLTYPE_TIME | COLTYPE_DICT

text \<open>
  What the other classes print, call by call: numbers, texts, lists, sublists and dictionaries of them, or nothing at all.
  These classes are one constructor, \<open>StructColumn\<close>: its type, the test its own filter class makes of a row (\<open>None\<close> when it makes
  no filter) and what it prints.
\<close>

datatype printed =
    Shown_text string
  | Shown_int int
  | Shown_int64 int
  | Shown_ulong "64 word"
  | Shown_time int
  | Shown_double real
  | Shown_list "printed list"
  | Shown_sublist "printed list"
  | Shown_dict "(string \<times> printed) list"
  | Shown_nothing

datatype 'r column =
    IntColumn string "'r \<Rightarrow> int"
  | DoubleColumn string "'r \<Rightarrow> real"
  | StringColumn string "'r \<Rightarrow> string"
  | MacroColumn string "'r \<Rightarrow> string" "'r \<Rightarrow> string"
  | TimeColumn string "'r \<Rightarrow> int"
  | TimeValColumn string "'r \<Rightarrow> int \<times> int"
  | AttributelistColumn string bool "'r \<Rightarrow> 64 word"
  | ListColumn string "string \<Rightarrow> nat option" "'r \<Rightarrow> (nat \<times> string) list option"
  | HostlistColumn string bool "'r \<Rightarrow> host_member list"
  | ServicelistColumn string bool nat "'r \<Rightarrow> svc_member list"
  | CustomVarsColumn string cvt "'r \<Rightarrow> (string \<times> string) list"
  | StructColumn string coltype "(int \<Rightarrow> string \<Rightarrow> 'r \<Rightarrow> bool) option" "'r \<Rightarrow> printed"
  | EmptyColumn string

fun column_name :: "'r column \<Rightarrow> string" where
  "column_name (IntColumn n _) = n"
| "column_name (DoubleColumn n _) = n"
| "column_name (StringColumn n _) = n"
| "column_name (MacroColumn n _ _) = n"
| "column_name (TimeColumn n _) = n"
| "column_name (TimeValColumn n _) = n"
| "column_name (AttributelistColumn n _ _) = n"
| "column_name (ListColumn n _ _) = n"
| "column_name (HostlistColumn n _ _) = n"
| "column_name (ServicelistColumn n _ _ _) = n"
| "column_name (CustomVarsColumn n _ _) = n"
| "column_name (StructColumn n _ _ _) = n"
| "column_name (EmptyColumn n) = n"

text \<open>\<open>Column::type\<close>; a dummy column says it is an empty string.\<close>

fun column_type :: "'r column \<Rightarrow> coltype" where
  "column_type (IntColumn _ _) = COLTYPE_INT"
| "column_type (DoubleColumn _ _) = COLTYPE_DOUBLE"
| "column_type (StringColumn _ _) = COLTYPE_STRING"
| "column_type (MacroColumn _ _ _) = COLTYPE_STRING"
| "column_type (TimeColumn _ _) = COLTYPE_INT"
| "column_type (TimeValColumn _ _) = COLTYPE_INT"
| "column_type (AttributelistColumn _ show_list _) = (if show_list then COLTYPE_LIST else COLTYPE_INT)"
| "column_type (ListColumn _ _ _) = COLTYPE_LIST"
| "column_type (HostlistColumn _ _ _) = COLTYPE_LIST"
| "column_type (ServicelistColumn _ _ _ _) = COLTYPE_LIST"
| "column_type (CustomVarsColumn _ what _) = (if what = CVT_DICT then COLTYPE_DICT else COLTYPE_LIST)"
| "column_type (StructColumn _ ty _ _) = ty"
| "column_type (EmptyColumn _) = COLTYPE_STRING"

section \<open>Custom variables\<close>

text \<open>
  The variables a column shows: all but those whose name begins with the configured hidden prefix (an
  empty prefix hides nothing). \<open>contains\<close> compares the names or, for any other kind, the values;
  \<open>getVariable\<close> is the value of the first visible variable of the name.
\<close>

definition visible_vars :: "string \<Rightarrow> (string \<times> string) list \<Rightarrow> (string \<times> string) list" where
  "visible_vars hidden cvm = filter (\<lambda>(n, v). hidden = [] \<or> \<not> has_prefix hidden n) cvm"

definition cv_contains :: "string \<Rightarrow> cvt \<Rightarrow> (string \<times> string) list \<Rightarrow> string \<Rightarrow> bool" where
  "cv_contains hidden what cvm x =
     list_ex (\<lambda>(n, v). (if what = CVT_VARNAMES then n else v) = x) (visible_vars hidden cvm)"

definition getVariable :: "string \<Rightarrow> (string \<times> string) list \<Rightarrow> string \<Rightarrow> string option" where
  "getVariable hidden cvm varname = map_of (visible_vars hidden cvm) varname"

section \<open>Comparison of two rows by one column\<close>

definition int_compare :: "int \<Rightarrow> int \<Rightarrow> int" where
  "int_compare a b = (if a = b then 0 else if b < a then 1 else -1)"

definition double_compare :: "real \<Rightarrow> real \<Rightarrow> int" where
  "double_compare a b = (if b < a then 1 else if a < b then -1 else 0)"

fun timeval_compare :: "int \<times> int \<Rightarrow> int \<times> int \<Rightarrow> int" where
  "timeval_compare (as, au) (bs, bu) =
     (if as = bs \<and> au = bu then 0
      else if bs < as \<or> as = bs \<and> bu < au then 1 else -1)"

text \<open>An attribute list is an \<open>IntColumn\<close>: the comparison sees its \<open>unsigned long\<close> converted to \<open>int32_t\<close>.\<close>

definition attr_int :: "64 word \<Rightarrow> int" where
  "attr_int w = wrap32 (uint w)"

fun column_compare :: "'r column \<Rightarrow> 'r \<Rightarrow> 'r \<Rightarrow> int" where
  "column_compare (IntColumn _ g) x y = int_compare (g x) (g y)"
| "column_compare (DoubleColumn _ g) x y = double_compare (g x) (g y)"
| "column_compare (StringColumn _ g) x y = strcmp (g x) (g y)"
| "column_compare (MacroColumn _ g _) x y = strcmp (g x) (g y)"
| "column_compare (TimeColumn _ g) x y = int_compare (g x) (g y)"
| "column_compare (TimeValColumn _ g) x y = timeval_compare (g x) (g y)"
| "column_compare (AttributelistColumn _ _ g) x y = int_compare (attr_int (g x)) (attr_int (g y))"
| "column_compare (ListColumn _ _ _) x y = 0"
| "column_compare (HostlistColumn _ _ _) x y = 0"
| "column_compare (ServicelistColumn _ _ _ _) x y = 0"
| "column_compare (CustomVarsColumn _ _ _) x y = 0"
| "column_compare (StructColumn _ _ _ _) x y = 0"
| "column_compare (EmptyColumn _) x y = 0"

section \<open>The contract of a comparison\<close>

text \<open>
  The row sorter works with any three-way comparison that is a total preorder; it asks a column, or a
  list of columns with directions, for one.
\<close>

locale row_order =
  fixes cmp :: "'r \<Rightarrow> 'r \<Rightarrow> int"
  assumes cmp_neg: "cmp y x = - cmp x y"
    and cmp_trans: "cmp x y \<le> 0 \<Longrightarrow> cmp y z \<le> 0 \<Longrightarrow> cmp x z \<le> 0"
begin

lemma cmp_refl [simp]: "cmp x x = 0"
  using cmp_neg [of x x] by linarith

lemma cmp_total: "cmp x y \<le> 0 \<or> cmp y x \<le> 0"
  using cmp_neg [of x y] by linarith

lemma cmp_gt_iff: "0 < cmp x y \<longleftrightarrow> cmp y x < 0"
  using cmp_neg [of x y] by linarith

lemma cmp_less_imp: "cmp x y < 0 \<Longrightarrow> cmp y z \<le> 0 \<Longrightarrow> cmp x z \<le> 0"
  using cmp_trans [of x y z] by linarith

lemma cmp_le_less_trans: "cmp x y \<le> 0 \<Longrightarrow> cmp y z < 0 \<Longrightarrow> cmp x z < 0"
proof -
  assume le: "cmp x y \<le> 0" and less: "cmp y z < 0"
  have "\<not> cmp z x \<le> 0"
  proof
    assume "cmp z x \<le> 0"
    with le have "cmp z y \<le> 0" by (blast intro: cmp_trans)
    with less show False using cmp_neg [of y z] by linarith
  qed
  then show ?thesis using cmp_neg [of z x] by linarith
qed

lemma cmp_less_le_trans: "cmp x y < 0 \<Longrightarrow> cmp y z \<le> 0 \<Longrightarrow> cmp x z < 0"
proof -
  assume less: "cmp x y < 0" and le: "cmp y z \<le> 0"
  have "\<not> cmp z x \<le> 0"
  proof
    assume "cmp z x \<le> 0"
    with le have "cmp y x \<le> 0" by (blast intro: cmp_trans)
    with less show False using cmp_neg [of x y] by linarith
  qed
  then show ?thesis using cmp_neg [of z x] by linarith
qed

lemma sorted_rel_trans: "transp (\<lambda>x y. cmp x y \<le> 0)"
  by (rule transpI) (rule cmp_trans)

end

lemma int_compare_neg: "int_compare b a = - int_compare a b"
  by (auto simp: int_compare_def)

lemma int_compare_le: "int_compare a b \<le> 0 \<longleftrightarrow> a \<le> b"
  by (auto simp: int_compare_def)

lemma double_compare_le: "double_compare a b \<le> 0 \<longleftrightarrow> a \<le> b"
  by (auto simp: double_compare_def)

lemma double_compare_neg: "double_compare b a = - double_compare a b"
  by (auto simp: double_compare_def)

lemma timeval_compare_neg: "timeval_compare b a = - timeval_compare a b"
  by (cases a; cases b) auto

lemma timeval_compare_le:
  "timeval_compare a b \<le> 0 \<longleftrightarrow> fst a < fst b \<or> fst a = fst b \<and> snd a \<le> snd b"
  by (cases a; cases b) auto

lemma column_compare_neg: "column_compare c y x = - column_compare c x y"
  by (cases c) (simp_all add: int_compare_neg [symmetric] double_compare_neg [symmetric]
      strcmp_sym [symmetric] timeval_compare_neg [symmetric])

lemma column_compare_trans:
  "column_compare c x y \<le> 0 \<Longrightarrow> column_compare c y z \<le> 0 \<Longrightarrow> column_compare c x z \<le> 0"
proof (cases c)
  case (StringColumn n g)
  assume "column_compare c x y \<le> 0" "column_compare c y z \<le> 0"
  with StringColumn show ?thesis using strcmp_trans [of "g x" "g y" "g z"] by simp
next
  case (MacroColumn n g h)
  assume "column_compare c x y \<le> 0" "column_compare c y z \<le> 0"
  with MacroColumn show ?thesis using strcmp_trans [of "g x" "g y" "g z"] by simp
qed (auto simp: int_compare_le double_compare_le timeval_compare_le)

interpretation col_order: row_order "column_compare c" for c
  by unfold_locales (rule column_compare_neg, rule column_compare_trans)

section \<open>The value of a column as text\<close>

text \<open>
  \<open>valueAsString\<close>, the key of a stats group. \<open>fmt\<close> is the C library's \<open>"%.10e"\<close>. The base class, which
  list columns and the dummy column of an unknown name inherit, answers \<open>"invalid"\<close> for every row. The
  attribute list prints its mask into a buffer of 16 bytes.
\<close>

definition pad_left :: "nat \<Rightarrow> char \<Rightarrow> string \<Rightarrow> string" where
  "pad_left n c s = replicate (n - length s) c @ s"

fun value_as_string :: "(real \<Rightarrow> string) \<Rightarrow> 'r column \<Rightarrow> 'r \<Rightarrow> string" where
  "value_as_string fmt (IntColumn _ g) x = show_int (g x)"
| "value_as_string fmt (DoubleColumn _ g) x = fmt (g x)"
| "value_as_string fmt (StringColumn _ g) x = g x"
| "value_as_string fmt (MacroColumn _ _ h) x = h x"
| "value_as_string fmt (TimeColumn _ g) x = show_int (g x)"
| "value_as_string fmt (TimeValColumn _ g) x =
     show_int (fst (g x) mod 2 ^ 64) @ ''.'' @ pad_left 6 (CHR ''0'') (show_int (snd (g x) mod 2 ^ 64))"
| "value_as_string fmt (AttributelistColumn _ _ g) x = take 15 (show_int (uint (g x)))"
| "value_as_string fmt (ListColumn _ _ _) x = ''invalid''"
| "value_as_string fmt (HostlistColumn _ _ _) x = ''invalid''"
| "value_as_string fmt (ServicelistColumn _ _ _ _) x = ''invalid''"
| "value_as_string fmt (CustomVarsColumn _ _ _) x = ''invalid''"
| "value_as_string fmt (StructColumn _ _ _ _) x = ''invalid''"
| "value_as_string fmt (EmptyColumn _) x = ''invalid''"

end
