(* ===== verification/Row_Sorted_Set.thy ===== *)
theory Row_Sorted_Set
  imports Columns "HOL-Library.Multiset"
begin

text \<open>
  The bounded sorter of \<open>src/RowSortedSet.cc\<close>: a binary max-heap in a vector, ordered by a list of sort
  columns, from which the largest row is dropped as soon as more than \<open>limit\<close> rows are held. The heap is
  the list of the vector's elements; an index is a \<open>nat\<close> (the code's \<open>int\<close> indices do not overflow for a
  heap of less than \<open>2 ^ 30\<close> rows). \<open>extract\<close> answers \<open>None\<close> where the code returns the null pointer.
\<close>

record 'r row_sorted_set =
  heap :: "'r list"
  sort_cols :: "('r column \<times> bool) list"

definition empty_sorter :: "'r row_sorted_set" where
  "empty_sorter = \<lparr>heap = [], sort_cols = []\<rparr>"

definition add_sort_column :: "'r column \<Rightarrow> bool \<Rightarrow> 'r row_sorted_set \<Rightarrow> 'r row_sorted_set" where
  "add_sort_column col desc s = s\<lparr>sort_cols := sort_cols s @ [(col, desc)]\<rparr>"

section \<open>Comparison by several columns\<close>

fun sort_compare :: "('r column \<times> bool) list \<Rightarrow> 'r \<Rightarrow> 'r \<Rightarrow> int" where
  "sort_compare [] a b = 0"
| "sort_compare ((c, desc) # cs) a b =
     (let diff = (if desc then - column_compare c a b else column_compare c a b)
      in if diff \<noteq> 0 then diff else sort_compare cs a b)"

lemma row_order_neg:
  assumes "row_order cmp"
  shows "row_order (\<lambda>a b. - cmp a b)"
proof
  note neg = row_order.cmp_neg [OF assms] and tr = row_order.cmp_trans [OF assms]
  show "- cmp y x = - (- cmp x y)" for x y using neg [of x y] by simp
  show "- cmp x z \<le> 0" if "- cmp x y \<le> 0" "- cmp y z \<le> 0" for x y z
    using that tr [of z y x] neg [of x y] neg [of y z] neg [of x z] by simp
qed

lemma row_order_lex:
  assumes "row_order c1" "row_order c2"
  shows "row_order (\<lambda>a b. if c1 a b \<noteq> 0 then c1 a b else c2 a b)"
proof
  note neg1 = row_order.cmp_neg [OF assms(1)] and neg2 = row_order.cmp_neg [OF assms(2)]
  note le1 = row_order.cmp_trans [OF assms(1)] and le2 = row_order.cmp_trans [OF assms(2)]
  show "(if c1 y x \<noteq> 0 then c1 y x else c2 y x) = - (if c1 x y \<noteq> 0 then c1 x y else c2 x y)" for x y
    using neg1 [of y x] neg2 [of y x] by auto
  show "(if c1 x z \<noteq> 0 then c1 x z else c2 x z) \<le> 0"
    if xy: "(if c1 x y \<noteq> 0 then c1 x y else c2 x y) \<le> 0"
      and yz: "(if c1 y z \<noteq> 0 then c1 y z else c2 y z) \<le> 0" for x y z
  proof -
    from xy yz have le: "c1 x y \<le> 0" "c1 y z \<le> 0" by (auto split: if_splits)
    then have xz: "c1 x z \<le> 0" by (rule le1)
    show ?thesis
    proof (cases "c1 x z = 0")
      case True
      then have "c1 z x \<le> 0" using neg1 [of z x] by simp
      with le have "c1 z y \<le> 0" "c1 y x \<le> 0" by (blast intro: le1)+
      with le have "c1 x y = 0" "c1 y z = 0" using neg1 [of y x] neg1 [of z y] by simp_all
      with xy yz True show ?thesis using le2 [of x y z] by simp
    qed (use xz in simp)
  qed
qed

lemma row_order_sort_compare: "row_order (sort_compare cs)"
proof (induction cs)
  case Nil
  show ?case by unfold_locales simp_all
next
  case (Cons p cs)
  obtain c d where p: "p = (c, d)" by (cases p)
  have col: "row_order (\<lambda>a b. if d then - column_compare c a b else column_compare c a b)"
    using row_order_neg [OF col_order.row_order_axioms [of c]] col_order.row_order_axioms [of c]
    by (cases d) simp_all
  have "sort_compare (p # cs) =
      (\<lambda>a b. if (if d then - column_compare c a b else column_compare c a b) \<noteq> 0
             then (if d then - column_compare c a b else column_compare c a b) else sort_compare cs a b)"
    by (intro ext) (simp add: p Let_def)
  with row_order_lex [OF col Cons] show ?case by simp
qed

interpretation sort_order: row_order "sort_compare cs" for cs
  by (rule row_order_sort_compare)

section \<open>The heap operations\<close>

function sift_up :: "('r \<Rightarrow> 'r \<Rightarrow> int) \<Rightarrow> 'r list \<Rightarrow> nat \<Rightarrow> 'r \<Rightarrow> 'r list" where
  "sift_up cmp h cur data =
     (if cur \<noteq> 0 \<and> cmp (h ! ((cur - 1) div 2)) data < 0
      then sift_up cmp (h[cur := h ! ((cur - 1) div 2)]) ((cur - 1) div 2) data
      else h[cur := data])"
  by pat_completeness auto
termination
  by (relation "measure (\<lambda>(cmp, h, cur, data). cur)") auto

function sift_down :: "('r \<Rightarrow> 'r \<Rightarrow> int) \<Rightarrow> 'r list \<Rightarrow> nat \<Rightarrow> 'r \<Rightarrow> 'r list" where
  "sift_down cmp h cur lst =
     (if 2 * cur + 1 < length h
      then let child0 = 2 * cur + 1;
               child = (if child0 + 1 < length h \<and> 0 < cmp (h ! (child0 + 1)) (h ! child0)
                        then child0 + 1 else child0)
           in if 0 < cmp (h ! child) lst
              then sift_down cmp (h[cur := h ! child]) child lst
              else h[cur := lst]
      else h[cur := lst])"
  by pat_completeness auto
termination
  by (relation "measure (\<lambda>(cmp, h, cur, lst). length h - cur)") (auto simp: Let_def)

declare sift_up.simps [simp del] sift_down.simps [simp del]

fun extract_row :: "('r \<Rightarrow> 'r \<Rightarrow> int) \<Rightarrow> 'r list \<Rightarrow> 'r option \<times> 'r list" where
  "extract_row cmp [] = (None, [])"
| "extract_row cmp [d] = (Some d, [])"
| "extract_row cmp h = (Some (h ! 0), sift_down cmp (butlast h) 0 (last h))"

definition insert_row :: "('r \<Rightarrow> 'r \<Rightarrow> int) \<Rightarrow> 'r list \<Rightarrow> 'r \<Rightarrow> int \<Rightarrow> 'r list" where
  "insert_row cmp h data limit =
     (let h' = sift_up cmp (h @ [data]) (length h) data
      in if 0 < limit \<and> limit < int (length h') then snd (extract_row cmp h') else h')"

definition sorter_insert :: "'r \<Rightarrow> int \<Rightarrow> 'r row_sorted_set \<Rightarrow> 'r row_sorted_set" where
  "sorter_insert data limit s = s\<lparr>heap := insert_row (sort_compare (sort_cols s)) (heap s) data limit\<rparr>"

definition sorter_extract :: "'r row_sorted_set \<Rightarrow> 'r option \<times> 'r row_sorted_set" where
  "sorter_extract s =
     (let (d, h) = extract_row (sort_compare (sort_cols s)) (heap s) in (d, s\<lparr>heap := h\<rparr>))"

definition sorter_size :: "'r row_sorted_set \<Rightarrow> int" where
  "sorter_size s = int (length (heap s))"

section \<open>The heap invariant\<close>

definition is_heap :: "('r \<Rightarrow> 'r \<Rightarrow> int) \<Rightarrow> 'r list \<Rightarrow> bool" where
  "is_heap cmp h \<longleftrightarrow> (\<forall>i. 0 < i \<longrightarrow> i < length h \<longrightarrow> cmp (h ! i) (h ! ((i - 1) div 2)) \<le> 0)"

text \<open>
  While a row moves, the vector is a heap but for the hole at \<open>k\<close>: the edges at \<open>k\<close> are not required, the
  children of \<open>k\<close> stay below \<open>k\<close>'s parent. The moving row is above the children (on the way up) or below
  the parent (on the way down) of the hole.
\<close>

definition heap_hole :: "('r \<Rightarrow> 'r \<Rightarrow> int) \<Rightarrow> 'r list \<Rightarrow> nat \<Rightarrow> bool" where
  "heap_hole cmp h k \<longleftrightarrow> k < length h \<and>
     (\<forall>i. 0 < i \<longrightarrow> i < length h \<longrightarrow> i \<noteq> k \<longrightarrow> (i - 1) div 2 \<noteq> k \<longrightarrow> cmp (h ! i) (h ! ((i - 1) div 2)) \<le> 0) \<and>
     (\<forall>i. 0 < i \<longrightarrow> i < length h \<longrightarrow> (i - 1) div 2 = k \<longrightarrow> 0 < k \<longrightarrow> cmp (h ! i) (h ! ((k - 1) div 2)) \<le> 0)"

definition below_hole :: "('r \<Rightarrow> 'r \<Rightarrow> int) \<Rightarrow> 'r list \<Rightarrow> nat \<Rightarrow> 'r \<Rightarrow> bool" where
  "below_hole cmp h k d \<longleftrightarrow> (\<forall>i. 0 < i \<longrightarrow> i < length h \<longrightarrow> (i - 1) div 2 = k \<longrightarrow> cmp (h ! i) d \<le> 0)"

lemma parent_less: "0 < i \<Longrightarrow> (i - 1) div 2 < (i::nat)"
  by linarith

lemma parent_is: "0 < i \<Longrightarrow> (i - 1) div 2 = k \<longleftrightarrow> i = 2 * k + 1 \<or> i = 2 * k + 2" for i k :: nat
  by presburger

lemma mset_swap_hole:
  assumes "i < length h" "j < length h" "i \<noteq> j"
  shows "add_mset (h ! i) (mset (h[i := h ! j])) = add_mset (h ! j) (mset h)"
  using assms by (simp add: mset_update)

lemma mset_hole_step:
  assumes "i < length h" "j < length h" "i \<noteq> j"
  shows "mset ((h[i := h ! j])[j := d]) = mset (h[i := d])"
proof -
  have "j < length (h[i := h ! j])" and "(h[i := h ! j]) ! j = h ! j" using assms by simp_all
  then have "mset ((h[i := h ! j])[j := d]) = add_mset d (mset (h[i := h ! j]) - {#h ! j#})"
    by (simp add: mset_update)
  also have "mset (h[i := h ! j]) - {#h ! j#} = mset h - {#h ! i#}"
    using assms by (simp add: mset_update)
  finally show ?thesis using assms by (simp add: mset_update)
qed

lemma sift_up_length [simp]: "length (sift_up cmp h cur data) = length h"
proof (induction cmp h cur data rule: sift_up.induct)
  case (1 cmp h cur data)
  then show ?case by (subst sift_up.simps) simp
qed

lemma sift_up_mset: "cur < length h \<Longrightarrow> mset (sift_up cmp h cur data) = mset (h[cur := data])"
proof (induction cmp h cur data rule: sift_up.induct)
  case (1 cmp h cur data)
  show ?case
  proof (cases "cur \<noteq> 0 \<and> cmp (h ! ((cur - 1) div 2)) data < 0")
    case True
    let ?p = "(cur - 1) div 2"
    have p: "?p < cur" using True parent_less [of cur] by simp
    with 1 True have "mset (sift_up cmp (h[cur := h ! ?p]) ?p data) = mset ((h[cur := h ! ?p])[?p := data])"
      by simp
    also have "\<dots> = mset (h[cur := data])"
      by (rule mset_hole_step) (use p 1 in simp_all)
    finally show ?thesis using True by (subst sift_up.simps) simp
  next
    case False
    then show ?thesis by (subst sift_up.simps) auto
  qed
qed

lemma sift_down_length [simp]: "length (sift_down cmp h cur lst) = length h"
proof (induction cmp h cur lst rule: sift_down.induct)
  case (1 cmp h cur lst)
  then show ?case by (subst sift_down.simps) (simp add: Let_def)
qed

definition larger_child :: "('r \<Rightarrow> 'r \<Rightarrow> int) \<Rightarrow> 'r list \<Rightarrow> nat \<Rightarrow> nat" where
  "larger_child cmp h cur =
     (if 2 * cur + 2 < length h \<and> 0 < cmp (h ! (2 * cur + 2)) (h ! (2 * cur + 1))
      then 2 * cur + 2 else 2 * cur + 1)"

lemma larger_child_less: "2 * cur + 1 < length h \<Longrightarrow> larger_child cmp h cur < length h"
  by (simp add: larger_child_def)

lemma larger_child_gt: "cur < larger_child cmp h cur"
  and larger_child_parent: "(larger_child cmp h cur - 1) div 2 = cur"
  by (simp_all add: larger_child_def)

lemma sift_down_unfold:
  "sift_down cmp h cur lst =
     (if 2 * cur + 1 < length h \<and> 0 < cmp (h ! larger_child cmp h cur) lst
      then sift_down cmp (h[cur := h ! larger_child cmp h cur]) (larger_child cmp h cur) lst
      else h[cur := lst])"
  by (subst sift_down.simps) (simp add: larger_child_def Let_def)

lemma sift_down_induct [case_names step]:
  assumes "\<And>h cur. (2 * cur + 1 < length h \<Longrightarrow> 0 < cmp (h ! larger_child cmp h cur) d \<Longrightarrow>
             P (h[cur := h ! larger_child cmp h cur]) (larger_child cmp h cur)) \<Longrightarrow> P h cur"
  shows "P h cur"
proof (induction "length h - cur" arbitrary: h cur rule: less_induct)
  case less
  show ?case
  proof (rule assms)
    assume "2 * cur + 1 < length h"
    then have "length (h[cur := h ! larger_child cmp h cur]) - larger_child cmp h cur < length h - cur"
      using larger_child_less [of cur h cmp] larger_child_gt [of cur cmp h] by simp
    then show "P (h[cur := h ! larger_child cmp h cur]) (larger_child cmp h cur)" by (rule less)
  qed
qed

lemma sift_down_mset: "cur < length h \<Longrightarrow> mset (sift_down cmp h cur d) = mset (h[cur := d])"
proof (induction h cur rule: sift_down_induct [where cmp = cmp and d = d])
  case (step h cur)
  let ?c = "larger_child cmp h cur"
  show ?case
  proof (cases "2 * cur + 1 < length h \<and> 0 < cmp (h ! ?c) d")
    case True
    then have c: "?c < length h" "cur \<noteq> ?c"
      using larger_child_less [of cur h cmp] larger_child_gt [of cur cmp h] by simp_all
    then have "mset (sift_down cmp (h[cur := h ! ?c]) ?c d) = mset ((h[cur := h ! ?c])[?c := d])"
      using step True by simp
    also have "\<dots> = mset (h[cur := d])"
      by (rule mset_hole_step) (use c step in simp_all)
    finally show ?thesis using True by (subst sift_down_unfold) simp
  next
    case False
    then show ?thesis by (subst sift_down_unfold) auto
  qed
qed

section \<open>Correctness of the heap operations\<close>

text \<open>Proved once for any comparison that keeps the contract.\<close>

context row_order
begin

lemma sift_up_heap:
  "heap_hole cmp h cur \<Longrightarrow> below_hole cmp h cur data \<Longrightarrow> is_heap cmp (sift_up cmp h cur data)"
proof (induction "cur" arbitrary: h rule: less_induct)
  case (less cur h)
  let ?p = "(cur - 1) div 2"
  from less.prems have len: "cur < length h"
    and edge: "\<And>i. 0 < i \<Longrightarrow> i < length h \<Longrightarrow> i \<noteq> cur \<Longrightarrow> (i - 1) div 2 \<noteq> cur \<Longrightarrow>
                 cmp (h ! i) (h ! ((i - 1) div 2)) \<le> 0"
    and skip: "\<And>i. 0 < i \<Longrightarrow> i < length h \<Longrightarrow> (i - 1) div 2 = cur \<Longrightarrow> 0 < cur \<Longrightarrow>
                 cmp (h ! i) (h ! ?p) \<le> 0"
    and below: "\<And>i. 0 < i \<Longrightarrow> i < length h \<Longrightarrow> (i - 1) div 2 = cur \<Longrightarrow> cmp (h ! i) data \<le> 0"
    by (auto simp: heap_hole_def below_hole_def)
  show ?case
  proof (cases "cur \<noteq> 0 \<and> cmp (h ! ?p) data < 0")
    case True
    let ?h = "h[cur := h ! ?p]"
    have p: "?p < cur" using True parent_less [of cur] by simp
    have "heap_hole cmp ?h ?p"
      unfolding heap_hole_def length_list_update
    proof (intro conjI allI impI)
      show "?p < length h" using p len by simp
    next
      fix i
      assume i: "0 < i" "i < length h" "i \<noteq> ?p" "(i - 1) div 2 \<noteq> ?p"
      then have "i \<noteq> cur" by auto
      show "cmp (?h ! i) (?h ! ((i - 1) div 2)) \<le> 0"
      proof (cases "(i - 1) div 2 = cur")
        case True
        with skip [of i] i \<open>cur \<noteq> 0 \<and> _\<close> \<open>i \<noteq> cur\<close> len show ?thesis by simp
      next
        case False
        with edge [of i] i \<open>i \<noteq> cur\<close> show ?thesis by simp
      qed
    next
      fix i
      assume i: "0 < i" "i < length h" "(i - 1) div 2 = ?p" "0 < ?p"
      have pp: "(?p - 1) div 2 \<noteq> cur" "?p \<noteq> cur" "?p \<noteq> 0" using p i(4) parent_less [of ?p] by linarith+
      then have up: "cmp (h ! ?p) (h ! ((?p - 1) div 2)) \<le> 0"
        using edge [of ?p] p len by simp
      show "cmp (?h ! i) (?h ! ((?p - 1) div 2)) \<le> 0"
      proof (cases "i = cur")
        case True
        with up pp len show ?thesis by simp
      next
        case False
        then have "cmp (h ! i) (h ! ?p) \<le> 0" using edge [of i] i pp by simp
        with up have "cmp (h ! i) (h ! ((?p - 1) div 2)) \<le> 0" by (blast intro: cmp_trans)
        with False pp show ?thesis by simp
      qed
    qed
    moreover have "below_hole cmp ?h ?p data"
      unfolding below_hole_def length_list_update
    proof (intro allI impI)
      fix i
      assume i: "0 < i" "i < length h" "(i - 1) div 2 = ?p"
      show "cmp (?h ! i) data \<le> 0"
      proof (cases "i = cur")
        case True
        then show ?thesis using \<open>cur \<noteq> 0 \<and> _\<close> len by simp
      next
        case False
        then have "cmp (h ! i) (h ! ?p) \<le> 0" using edge [of i] i p by simp
        then have "cmp (h ! i) data < 0" using \<open>cur \<noteq> 0 \<and> _\<close> by (blast intro: cmp_le_less_trans)
        with False show ?thesis by simp
      qed
    qed
    ultimately have "is_heap cmp (sift_up cmp ?h ?p data)" by (rule less.IH [OF p])
    with True show ?thesis by (subst sift_up.simps) simp
  next
    case False
    have "is_heap cmp (h[cur := data])"
      unfolding is_heap_def length_list_update
    proof (intro allI impI)
      fix i
      assume i: "0 < i" "i < length h"
      consider "i = cur" | "i \<noteq> cur" "(i - 1) div 2 = cur" | "i \<noteq> cur" "(i - 1) div 2 \<noteq> cur" by blast
      then show "cmp (h[cur := data] ! i) (h[cur := data] ! ((i - 1) div 2)) \<le> 0"
      proof cases
        case 1
        then have "\<not> cmp (h ! ?p) data < 0" "?p \<noteq> cur" using False i parent_less [of i] by auto
        then have "cmp data (h ! ?p) \<le> 0" using cmp_neg [of data "h ! ?p"] by linarith
        with 1 \<open>?p \<noteq> cur\<close> len show ?thesis by simp
      next
        case 2
        with below [of i] i len show ?thesis by simp
      next
        case 3
        with edge [of i] i show ?thesis by simp
      qed
    qed
    with False show ?thesis by (subst sift_up.simps) auto
  qed
qed

lemma larger_child_max:
  assumes "0 < i" "i < length h" "(i - 1) div 2 = cur"
  shows "cmp (h ! i) (h ! larger_child cmp h cur) \<le> 0"
proof -
  from assms have i: "i = 2 * cur + 1 \<or> i = 2 * cur + 2" using parent_is [OF assms(1), of cur] by blast
  show ?thesis
  proof (cases "2 * cur + 2 < length h \<and> 0 < cmp (h ! (2 * cur + 2)) (h ! (2 * cur + 1))")
    case True
    with i show ?thesis
      using cmp_neg [of "h ! (2 * cur + 1)" "h ! (2 * cur + 2)"] by (auto simp: larger_child_def)
  next
    case False
    then have eq: "larger_child cmp h cur = 2 * cur + 1" by (auto simp: larger_child_def)
    from i False assms(2) show ?thesis unfolding eq by auto
  qed
qed

lemma heap_hole_down:
  assumes hole: "heap_hole cmp h cur" and c: "2 * cur + 1 < length h"
  shows "heap_hole cmp (h[cur := h ! larger_child cmp h cur]) (larger_child cmp h cur)"
proof -
  let ?c = "larger_child cmp h cur"
  let ?h = "h[cur := h ! ?c]"
  from hole have len: "cur < length h"
    and edge: "\<And>i. 0 < i \<Longrightarrow> i < length h \<Longrightarrow> i \<noteq> cur \<Longrightarrow> (i - 1) div 2 \<noteq> cur \<Longrightarrow>
                 cmp (h ! i) (h ! ((i - 1) div 2)) \<le> 0"
    and skip: "\<And>i. 0 < i \<Longrightarrow> i < length h \<Longrightarrow> (i - 1) div 2 = cur \<Longrightarrow> 0 < cur \<Longrightarrow>
                 cmp (h ! i) (h ! ((cur - 1) div 2)) \<le> 0"
    by (auto simp: heap_hole_def)
  have cl: "?c < length h" by (rule larger_child_less [OF c])
  note cg = larger_child_gt [of cur cmp h] and cp = larger_child_parent [of cmp h cur]
  show ?thesis
    unfolding heap_hole_def length_list_update
  proof (intro conjI allI impI)
    show "?c < length h" by (rule cl)
  next
    fix i
    assume i: "0 < i" "i < length h" "i \<noteq> ?c" "(i - 1) div 2 \<noteq> ?c"
    consider "i = cur" | "i \<noteq> cur" "(i - 1) div 2 = cur" | "i \<noteq> cur" "(i - 1) div 2 \<noteq> cur" by blast
    then show "cmp (?h ! i) (?h ! ((i - 1) div 2)) \<le> 0"
    proof cases
      case 1
      then have "(cur - 1) div 2 \<noteq> cur" using i(1) parent_less [of i] by simp
      with 1 skip [of ?c] cl cg cp i(1) len show ?thesis by simp
    next
      case 2
      with larger_child_max [of i h cur] i len show ?thesis by simp
    next
      case 3
      with edge [of i] i show ?thesis by simp
    qed
  next
    fix i
    assume i: "0 < i" "i < length h" "(i - 1) div 2 = ?c" "0 < ?c"
    have "i \<noteq> cur" using i cg parent_less [of i] by linarith
    moreover have "(i - 1) div 2 \<noteq> cur" using i cg by simp
    ultimately have "cmp (h ! i) (h ! ?c) \<le> 0" using edge [of i] i by simp
    with \<open>i \<noteq> cur\<close> cp len show "cmp (?h ! i) (?h ! ((?c - 1) div 2)) \<le> 0" by simp
  qed
qed

text \<open>The moving row stays below the parent of the hole.\<close>

lemma sift_down_heap:
  "heap_hole cmp h cur \<Longrightarrow> (0 < cur \<Longrightarrow> cmp d (h ! ((cur - 1) div 2)) \<le> 0) \<Longrightarrow>
   is_heap cmp (sift_down cmp h cur d)"
proof (induction h cur rule: sift_down_induct [where cmp = cmp and d = d])
  case (step h cur)
  let ?c = "larger_child cmp h cur"
  from step.prems(1) have len: "cur < length h"
    and edge: "\<And>i. 0 < i \<Longrightarrow> i < length h \<Longrightarrow> i \<noteq> cur \<Longrightarrow> (i - 1) div 2 \<noteq> cur \<Longrightarrow>
                 cmp (h ! i) (h ! ((i - 1) div 2)) \<le> 0"
    by (auto simp: heap_hole_def)
  show ?case
  proof (cases "2 * cur + 1 < length h \<and> 0 < cmp (h ! ?c) d")
    case True
    have "heap_hole cmp (h[cur := h ! ?c]) ?c"
      using step.prems(1) True by (blast intro: heap_hole_down)
    moreover have "cmp d (h[cur := h ! ?c] ! ((?c - 1) div 2)) \<le> 0"
      unfolding larger_child_parent using True cmp_neg [of d "h ! ?c"] len by simp
    ultimately have "is_heap cmp (sift_down cmp (h[cur := h ! ?c]) ?c d)"
      using step.IH True by simp
    with True show ?thesis by (subst sift_down_unfold) simp
  next
    case False
    have "is_heap cmp (h[cur := d])"
      unfolding is_heap_def length_list_update
    proof (intro allI impI)
      fix i
      assume i: "0 < i" "i < length h"
      consider "i = cur" | "i \<noteq> cur" "(i - 1) div 2 = cur" | "i \<noteq> cur" "(i - 1) div 2 \<noteq> cur" by blast
      then show "cmp (h[cur := d] ! i) (h[cur := d] ! ((i - 1) div 2)) \<le> 0"
      proof cases
        case 1
        then have "(cur - 1) div 2 \<noteq> cur" using i parent_less [of i] by simp
        with 1 step.prems(2) i len show ?thesis by simp
      next
        case 2
        with i have "2 * cur + 1 < length h" using parent_is [of i cur] by auto
        with False have "cmp (h ! ?c) d \<le> 0" by auto
        with larger_child_max [of i h cur] i 2 have "cmp (h ! i) d \<le> 0" by (blast intro: cmp_trans)
        with 2 len show ?thesis by simp
      next
        case 3
        with edge [of i] i show ?thesis by simp
      qed
    qed
    with False show ?thesis by (subst sift_down_unfold) auto
  qed
qed

lemma heap_root_max: "is_heap cmp h \<Longrightarrow> i < length h \<Longrightarrow> cmp (h ! i) (h ! 0) \<le> 0"
proof (induction i rule: less_induct)
  case (less i)
  show ?case
  proof (cases "i = 0")
    case False
    then have p: "(i - 1) div 2 < i" by (simp add: parent_less)
    with less have "cmp (h ! ((i - 1) div 2)) (h ! 0) \<le> 0" by simp
    moreover have "cmp (h ! i) (h ! ((i - 1) div 2)) \<le> 0" using less.prems False by (simp add: is_heap_def)
    ultimately show ?thesis by (blast intro: cmp_trans)
  qed simp
qed

text \<open>\<open>extract\<close> on a heap takes out a row that no other exceeds, and leaves a heap.\<close>

lemma extract_row_heap:
  assumes "is_heap cmp h" "h \<noteq> []"
  obtains d h' where "extract_row cmp h = (Some d, h')" "is_heap cmp h'" "mset h = add_mset d (mset h')"
    "\<And>x. x \<in> set h \<Longrightarrow> cmp x d \<le> 0"
proof -
  have max: "\<And>x. x \<in> set h \<Longrightarrow> cmp x (h ! 0) \<le> 0"
    using assms(1) by (auto simp: in_set_conv_nth intro: heap_root_max)
  show thesis
  proof (cases "length h = 1")
    case True
    then obtain d where h: "h = [d]" by (auto simp: length_Suc_conv)
    show thesis by (rule that [of d "[]"]) (use h in \<open>simp_all add: is_heap_def\<close>)
  next
    case False
    with assms(2) obtain a b bs where h: "h = a # b # bs" by (cases h; cases "tl h") auto
    let ?t = "butlast h"
    have t0: "?t \<noteq> []" "?t ! 0 = a" and len: "length ?t < length h" by (simp_all add: h)
    have edge: "cmp (?t ! i) (?t ! ((i - 1) div 2)) \<le> 0" if "0 < i" "i < length ?t" for i
    proof -
      have "(i - 1) div 2 < length ?t" using that parent_less [of i] by linarith
      then show ?thesis using assms(1) that by (simp add: is_heap_def nth_butlast)
    qed
    moreover have tl: "0 < length ?t" using t0(1) unfolding length_greater_0_conv .
    ultimately have "heap_hole cmp ?t 0" unfolding heap_hole_def by blast
    then have "is_heap cmp (sift_down cmp ?t 0 (last h))" by (rule sift_down_heap) simp
    moreover have "mset h = add_mset a (mset (sift_down cmp ?t 0 (last h)))"
    proof -
      have "mset h = add_mset (last h) (mset ?t)"
        using assms(2) append_butlast_last_id [of h] by (metis mset_append mset_single_iff_right union_commute add_mset_add_single mset.simps)
      also have "mset ?t = add_mset a (mset ?t - {#a#})" using t0 by (metis insert_DiffM2 add_mset_add_single nth_mem length_greater_0_conv set_mset_mset)
      finally show ?thesis unfolding sift_down_mset [OF tl] mset_update [OF tl] t0(2) by simp
    qed
    ultimately show thesis
      by (intro that [of a "sift_down cmp ?t 0 (last h)"]) (use max h in simp_all)
  qed
qed

lemma insert_row_unbounded_heap:
  "is_heap cmp h \<Longrightarrow> is_heap cmp (sift_up cmp (h @ [x]) (length h) x)"
proof (rule sift_up_heap)
  assume h: "is_heap cmp h"
  have par: "(i - 1) div 2 < length h" if "0 < i" "i < length h" for i
    using that parent_less [of i] by linarith
  show "heap_hole cmp (h @ [x]) (length h)"
    unfolding heap_hole_def
  proof (intro conjI allI impI)
    fix i
    assume "0 < i" "i < length (h @ [x])" "i \<noteq> length h"
    then have "0 < i" "i < length h" by auto
    with h par show "cmp ((h @ [x]) ! i) ((h @ [x]) ! ((i - 1) div 2)) \<le> 0"
      by (simp add: is_heap_def nth_append)
  next
    fix i
    assume "0 < i" "i < length (h @ [x])" "(i - 1) div 2 = length h"
    then show "cmp ((h @ [x]) ! i) ((h @ [x]) ! ((length h - 1) div 2)) \<le> 0"
      using parent_less [of i] by auto
  qed simp
  show "below_hole cmp (h @ [x]) (length h) x"
    unfolding below_hole_def
  proof (intro allI impI)
    fix i
    assume "0 < i" "i < length (h @ [x])" "(i - 1) div 2 = length h"
    then show "cmp ((h @ [x]) ! i) x \<le> 0" using parent_less [of i] by auto
  qed
qed

lemma insert_row_heap: "is_heap cmp h \<Longrightarrow> is_heap cmp (insert_row cmp h x limit)"
proof -
  assume "is_heap cmp h"
  then have up: "is_heap cmp (sift_up cmp (h @ [x]) (length h) x)" by (rule insert_row_unbounded_heap)
  have "sift_up cmp (h @ [x]) (length h) x \<noteq> []"
    by (metis sift_up_length length_0_conv append_is_Nil_conv not_Cons_self2)
  with up obtain d h' where "extract_row cmp (sift_up cmp (h @ [x]) (length h) x) = (Some d, h')" "is_heap cmp h'"
    by (rule extract_row_heap)
  with up show ?thesis by (simp add: insert_row_def Let_def)
qed

end

lemma sift_up_snoc_mset: "mset (sift_up cmp (h @ [x]) (length h) x) = add_mset x (mset h)"
  by (simp add: sift_up_mset)

lemma insert_row_unbounded_mset: "limit \<le> 0 \<Longrightarrow> mset (insert_row cmp h x limit) = add_mset x (mset h)"
  by (simp add: insert_row_def Let_def sift_up_snoc_mset)

end
