(* ===== verification/Paging.thy ===== *)
theory Paging
  imports Row_Sorted_Set
begin

text \<open>
  How a sorted query is paged (\<open>Query::processDataset\<close> and \<open>Query::finish\<close> in \<open>src/Query.cc\<close>): each
  accepted row goes into the sorter with the bound \<open>_limit + _offset\<close>; at the end the largest rows are
  extracted, as many as the page holds, and printed in reverse order.
\<close>

section \<open>The model\<close>

text \<open>
  The number of rows to take out (\<open>numelems\<close>, a \<open>long\<close>), and the loop
  \<open>while (((data = _sorter.extract()) != 0) && numelems--)\<close>: a negative number never reaches 0, so the
  loop empties the sorter; each time the loop ends it has extracted one row too many, which is dropped.
\<close>

definition page_numelems :: "int \<Rightarrow> int \<Rightarrow> int \<Rightarrow> int" where
  "page_numelems limit offset n_rows =
     (if n_rows < wrap32 (limit + offset)
      then (let n = wrap32 (n_rows - offset) in if n < 0 then 0 else n)
      else limit)"

lemma extract_row_shorter: "extract_row cmp h = (Some d, h') \<Longrightarrow> length h' < length h"
  by (induction cmp h rule: extract_row.induct) auto

function collect_rows :: "('r \<Rightarrow> 'r \<Rightarrow> int) \<Rightarrow> 'r list \<Rightarrow> int \<Rightarrow> 'r list" where
  "collect_rows cmp h numelems =
     (case extract_row cmp h of
        (None, _) \<Rightarrow> []
      | (Some d, h') \<Rightarrow> if numelems = 0 then [] else d # collect_rows cmp h' (numelems - 1))"
  by pat_completeness auto
termination
  by (relation "measure (\<lambda>(cmp, h, n). length h)") (auto dest: extract_row_shorter [OF sym])

declare collect_rows.simps [simp del]

definition sorter_page :: "int \<Rightarrow> int \<Rightarrow> 'r row_sorted_set \<Rightarrow> 'r list" where
  "sorter_page limit offset s =
     rev (collect_rows (sort_compare (sort_cols s)) (heap s) (page_numelems limit offset (sorter_size s)))"

definition insert_all :: "'r list \<Rightarrow> int \<Rightarrow> 'r row_sorted_set \<Rightarrow> 'r row_sorted_set" where
  "insert_all rows limit s = foldl (\<lambda>t x. sorter_insert x limit t) s rows"

section \<open>What the sorter keeps\<close>

context row_order
begin

lemma insert_row_bounded:
  assumes h: "is_heap cmp h" and over: "0 < limit" "limit < int (length h) + 1"
  obtains d where "add_mset x (mset h) = add_mset d (mset (insert_row cmp h x limit))"
    "\<And>y. y \<in> set (x # h) \<Longrightarrow> cmp y d \<le> 0"
proof -
  let ?u = "sift_up cmp (h @ [x]) (length h) x"
  have up: "is_heap cmp ?u" using h by (rule insert_row_unbounded_heap)
  have ms: "mset ?u = add_mset x (mset h)" by (rule sift_up_snoc_mset)
  then have "?u \<noteq> []" by auto
  with up obtain d h' where ex: "extract_row cmp ?u = (Some d, h')" "mset ?u = add_mset d (mset h')"
    "\<And>y. y \<in> set ?u \<Longrightarrow> cmp y d \<le> 0"
    by (rule extract_row_heap) blast
  have "set ?u = set (x # h)" using arg_cong [OF ms, of set_mset] by simp
  moreover have "insert_row cmp h x limit = h'" using over ex(1) by (simp add: insert_row_def Let_def)
  ultimately show thesis using that [of d] ex(2,3) ms by simp
qed

lemma insert_row_no_overflow:
  "int (length h) + 1 \<le> limit \<or> limit \<le> 0 \<Longrightarrow> mset (insert_row cmp h x limit) = add_mset x (mset h)"
  by (auto simp: insert_row_def Let_def sift_up_snoc_mset)

text \<open>
  After any number of insertions the heap holds rows no larger than the rows that were dropped, and
  nothing was dropped before the bound was reached.
\<close>

lemma insert_rows_kept:
  assumes "0 < limit"
  shows "\<exists>D. is_heap cmp (foldl (\<lambda>h x. insert_row cmp h x limit) [] rows) \<and>
     mset rows = mset (foldl (\<lambda>h x. insert_row cmp h x limit) [] rows) + D \<and>
     (\<forall>k \<in># mset (foldl (\<lambda>h x. insert_row cmp h x limit) [] rows). \<forall>y \<in># D. cmp k y \<le> 0) \<and>
     (if D = {#} then int (length (foldl (\<lambda>h x. insert_row cmp h x limit) [] rows)) \<le> limit
      else int (length (foldl (\<lambda>h x. insert_row cmp h x limit) [] rows)) = limit)"
proof (induction rows rule: rev_induct)
  case Nil
  show ?case by (rule exI [of _ "{#}"]) (use assms in \<open>simp add: is_heap_def\<close>)
next
  case (snoc x rows)
  let ?f = "\<lambda>rows. foldl (\<lambda>h x. insert_row cmp h x limit) [] rows"
  from snoc obtain D where h: "is_heap cmp (?f rows)" and ms: "mset rows = mset (?f rows) + D"
    and le: "\<forall>k \<in># mset (?f rows). \<forall>y \<in># D. cmp k y \<le> 0"
    and sz: "if D = {#} then int (length (?f rows)) \<le> limit else int (length (?f rows)) = limit"
    by blast
  have f: "?f (rows @ [x]) = insert_row cmp (?f rows) x limit" by simp
  have h': "is_heap cmp (?f (rows @ [x]))" unfolding f using h by (rule insert_row_heap)
  show ?case
  proof (cases "int (length (?f rows)) < limit")
    case True
    with sz have D: "D = {#}" by (auto split: if_splits)
    have ms': "mset (?f (rows @ [x])) = add_mset x (mset (?f rows))"
      unfolding f by (rule insert_row_no_overflow) (use True in simp)
    then have "length (?f (rows @ [x])) = Suc (length (?f rows))" using size_mset [of "?f (rows @ [x])"] by simp
    with True D h' ms ms' show ?thesis by (intro exI [of _ "{#}"]) simp
  next
    case False
    then have over: "limit < int (length (?f rows)) + 1" by simp
    from h assms over obtain d where d: "add_mset x (mset (?f rows)) = add_mset d (mset (?f (rows @ [x])))"
      "\<And>y. y \<in> set (x # ?f rows) \<Longrightarrow> cmp y d \<le> 0"
      unfolding f by (rule insert_row_bounded [of "?f rows" limit x]) blast
    have ms': "mset (rows @ [x]) = mset (?f (rows @ [x])) + add_mset d D"
      using ms d(1) by simp
    have len: "length (?f (rows @ [x])) = length (?f rows)"
      using arg_cong [OF d(1), of size] by simp
    have sub: "k \<in># add_mset x (mset (?f rows))" if "k \<in># mset (?f (rows @ [x]))" for k
      unfolding d(1) using that by simp
    have leD: "cmp k y \<le> 0" if k: "k \<in># mset (?f (rows @ [x]))" and y: "y \<in># D" for k y
    proof (cases "k \<in># mset (?f rows)")
      case True
      with le y show ?thesis by blast
    next
      case False
      with sub [OF k] have kx: "k = x" by simp
      have "d \<in># add_mset x (mset (?f rows))" unfolding d(1) by simp
      moreover have "d \<noteq> x"
      proof
        assume "d = x"
        with d(1) have "mset (?f rows) = mset (?f (rows @ [x]))" by simp
        with k False show False by simp
      qed
      ultimately have "d \<in># mset (?f rows)" by simp
      with le y have "cmp d y \<le> 0" by blast
      moreover have "cmp k d \<le> 0" using d(2) [of x] kx by simp
      ultimately show ?thesis by (blast intro: cmp_trans)
    qed
    have led: "cmp k d \<le> 0" if "k \<in># mset (?f (rows @ [x]))" for k
      using sub [OF that] d(2) [of k] by auto
    have "int (length (?f rows)) \<le> limit" using sz by (cases "D = {#}") auto
    with len False have "int (length (?f (rows @ [x]))) = limit" by simp
    with h' ms' leD led show ?thesis by (intro exI [of _ "add_mset d D"]) auto
  qed
qed

lemma insert_rows_unbounded:
  assumes "limit \<le> 0"
  shows "is_heap cmp (foldl (\<lambda>h x. insert_row cmp h x limit) [] rows) \<and>
     mset (foldl (\<lambda>h x. insert_row cmp h x limit) [] rows) = mset rows"
proof (induction rows rule: rev_induct)
  case Nil
  show ?case by (simp add: is_heap_def)
next
  case (snoc x rows)
  then show ?case using assms by (simp add: insert_row_heap insert_row_no_overflow)
qed

end

section \<open>What the loop takes out\<close>

lemma collect_rows_Nil: "collect_rows cmp [] n = []"
  by (subst collect_rows.simps) simp

lemma collect_rows_step:
  "extract_row cmp h = (Some d, h') \<Longrightarrow>
   collect_rows cmp h n = (if n = 0 then [] else d # collect_rows cmp h' (n - 1))"
  by (subst collect_rows.simps) simp

lemma extract_row_None: "extract_row cmp h = (None, h') \<Longrightarrow> h = []"
  by (induction cmp h rule: extract_row.induct) auto

lemma collect_rows_neg: "n < 0 \<Longrightarrow> collect_rows cmp h n = collect_rows cmp h (-1)"
proof (induction "length h" arbitrary: h n rule: less_induct)
  case less
  show ?case
  proof (cases "extract_row cmp h")
    case (Pair o' h')
    show ?thesis
    proof (cases o')
      case None
      with Pair have "h = []" by (simp add: extract_row_None)
      then show ?thesis by (simp add: collect_rows_Nil)
    next
      case (Some d)
      with Pair have ex: "extract_row cmp h = (Some d, h')" by simp
      note sh = extract_row_shorter [OF ex]
      from less.hyps [OF sh, of "n - 1"] less.hyps [OF sh, of "-2"] less.prems
      show ?thesis by (simp add: collect_rows_step [OF ex])
    qed
  qed
qed

lemma collect_rows_take: "0 \<le> n \<Longrightarrow> collect_rows cmp h n = take (nat n) (collect_rows cmp h (-1))"
proof (induction "length h" arbitrary: h n rule: less_induct)
  case less
  show ?case
  proof (cases "extract_row cmp h")
    case (Pair o' h')
    show ?thesis
    proof (cases o')
      case None
      with Pair have "h = []" by (simp add: extract_row_None)
      then show ?thesis by (simp add: collect_rows_Nil)
    next
      case (Some d)
      with Pair have ex: "extract_row cmp h = (Some d, h')" by simp
      note sh = extract_row_shorter [OF ex]
      show ?thesis
      proof (cases "n = 0")
        case True
        then show ?thesis by (simp add: collect_rows_step [OF ex])
      next
        case False
        with less.prems have n: "nat n = Suc (nat (n - 1))" by simp
        from less.hyps [OF sh, of "n - 1"] less.prems False
        show ?thesis by (simp add: collect_rows_step [OF ex] n collect_rows_neg [of "-2"])
      qed
    qed
  qed
qed

context row_order
begin

lemma collect_all:
  "is_heap cmp h \<Longrightarrow> mset (collect_rows cmp h (-1)) = mset h \<and>
     sorted_wrt (\<lambda>a b. cmp b a \<le> 0) (collect_rows cmp h (-1))"
proof (induction "length h" arbitrary: h rule: less_induct)
  case less
  show ?case
  proof (cases "h = []")
    case True
    then show ?thesis by (simp add: collect_rows_Nil)
  next
    case False
    with less.prems obtain d h' where ex: "extract_row cmp h = (Some d, h')" and h': "is_heap cmp h'"
      and ms: "mset h = add_mset d (mset h')" and max: "\<And>x. x \<in> set h \<Longrightarrow> cmp x d \<le> 0"
      by (rule extract_row_heap) blast
    from less.hyps [OF extract_row_shorter [OF ex] h']
    have IH: "mset (collect_rows cmp h' (-1)) = mset h'"
      "sorted_wrt (\<lambda>a b. cmp b a \<le> 0) (collect_rows cmp h' (-1))" by blast+
    have eq: "collect_rows cmp h (-1) = d # collect_rows cmp h' (-1)"
      using collect_rows_neg [of "-2" cmp h'] by (simp add: collect_rows_step [OF ex])
    have "set (collect_rows cmp h' (-1)) \<subseteq> set h"
      using arg_cong [OF IH(1), of set_mset] arg_cong [OF ms, of set_mset] by auto
    with IH ms max show ?thesis unfolding eq by auto
  qed
qed

text \<open>Every multiset of rows has a sorted arrangement: the heap finds one.\<close>

lemma sorted_arrangement:
  obtains zs where "mset zs = M" "sorted_wrt (\<lambda>a b. cmp a b \<le> 0) zs"
proof -
  obtain xs where xs: "mset xs = M" using ex_mset by blast
  let ?h = "foldl (\<lambda>h x. insert_row cmp h x 0) [] xs"
  have h: "is_heap cmp ?h" "mset ?h = mset xs" using insert_rows_unbounded [of 0 xs] by auto
  show thesis
    by (rule that [of "rev (collect_rows cmp ?h (-1))"])
       (use collect_all [OF h(1)] h(2) xs in \<open>simp_all add: sorted_wrt_rev\<close>)
qed

lemma sorted_wrt_append_le:
  assumes "sorted_wrt (\<lambda>a b. cmp a b \<le> 0) xs" "sorted_wrt (\<lambda>a b. cmp a b \<le> 0) ys"
    and "\<forall>k \<in># mset xs. \<forall>y \<in># mset ys. cmp k y \<le> 0"
  shows "sorted_wrt (\<lambda>a b. cmp a b \<le> 0) (xs @ ys)"
  using assms by (simp add: sorted_wrt_append)

lemma page_of_rows:
  assumes "0 \<le> limit" "0 \<le> offset" "limit + offset < 2 ^ 31" "int (length rows) < 2 ^ 31"
  defines "h \<equiv> foldl (\<lambda>h x. insert_row cmp h x (limit + offset)) [] rows"
  shows "\<exists>zs. mset zs = mset rows \<and> sorted_wrt (\<lambda>a b. cmp a b \<le> 0) zs \<and>
     rev (collect_rows cmp h (page_numelems limit offset (int (length h)))) = take (nat limit) (drop (nat offset) zs)"
proof -
  let ?s = "rev (collect_rows cmp h (-1))"
  have w: "wrap32 (limit + offset) = limit + offset" using assms by (simp add: in_int32_def)
  have "\<exists>D. is_heap cmp h \<and> mset rows = mset h + D \<and> (\<forall>k \<in># mset h. \<forall>y \<in># D. cmp k y \<le> 0) \<and>
      (limit + offset = 0 \<and> D = {#} \<or>
       (if D = {#} then int (length h) \<le> limit + offset else int (length h) = limit + offset))"
  proof (cases "0 < limit + offset")
    case True
    then show ?thesis unfolding h_def using insert_rows_kept [OF True, of rows] by blast
  next
    case False
    with assms have "limit + offset = 0" by simp
    then show ?thesis unfolding h_def using insert_rows_unbounded [of "limit + offset" rows] by auto
  qed
  then obtain D where hp: "is_heap cmp h" and ms: "mset rows = mset h + D"
    and le: "\<forall>k \<in># mset h. \<forall>y \<in># D. cmp k y \<le> 0"
    and sz: "limit + offset = 0 \<and> D = {#} \<or>
       (if D = {#} then int (length h) \<le> limit + offset else int (length h) = limit + offset)" by blast
  obtain ds where ds: "mset ds = D" "sorted_wrt (\<lambda>a b. cmp a b \<le> 0) ds" by (rule sorted_arrangement)
  have s: "mset ?s = mset h" "sorted_wrt (\<lambda>a b. cmp a b \<le> 0) ?s"
    using collect_all [OF hp] by (simp_all add: sorted_wrt_rev)
  then have len: "length ?s = length h" by (metis size_mset)
  have srt: "sorted_wrt (\<lambda>a b. cmp a b \<le> 0) (?s @ ds)"
    by (rule sorted_wrt_append_le [OF s(2) ds(2)]) (use le s(1) ds(1) in simp)
  have mz: "mset (?s @ ds) = mset rows" using s(1) ds(1) ms by simp
  let ?n = "page_numelems limit offset (int (length h))"
  have lh: "int (length h) < 2 ^ 31"
  proof -
    have "size (mset h) \<le> size (mset rows)" using ms by simp
    then show ?thesis using assms(4) by simp
  qed
  have n0: "0 \<le> ?n" using assms(1) by (simp add: page_numelems_def Let_def)
  have page: "rev (collect_rows cmp h ?n) = drop (length h - nat ?n) ?s"
    using collect_rows_take [OF n0, of cmp h] len by (simp add: rev_take)
  have "drop (length h - nat ?n) ?s = take (nat limit) (drop (nat offset) (?s @ ds))"
  proof (cases "int (length h) < limit + offset")
    case True
    then have D: "ds = []" using sz ds(1) by (auto split: if_splits)
    have "?n = max 0 (int (length h) - offset)"
      using True lh assms by (simp add: page_numelems_def w Let_def in_int32_def max_def)
    then have "length h - nat ?n = min (nat offset) (length h)" using assms(2) by linarith
    moreover have "drop (min (nat offset) (length h)) ?s = drop (nat offset) ?s" using len
      by (cases "nat offset \<le> length h") (simp_all add: min_def)
    moreover have "length (drop (nat offset) ?s) \<le> nat limit" using True len assms(1,2) by simp
    ultimately show ?thesis using D by simp
  next
    case False
    then have n: "?n = limit" by (simp add: page_numelems_def w)
    show ?thesis
    proof (cases "limit + offset = 0")
      case True
      with assms have "limit = 0" by simp
      then show ?thesis unfolding n using len by simp
    next
      case nz: False
      then have "int (length h) = limit + offset" using False sz by (auto split: if_splits)
      then have lh': "length h = nat limit + nat offset" using assms(1,2) by linarith
      then show ?thesis unfolding n using len by simp
    qed
  qed
  with page mz srt show ?thesis by (intro exI [of _ "?s @ ds"]) simp
qed

text \<open>Without a bound on the heap and with a negative count, the loop returns every row.\<close>

lemma all_rows_sorted:
  fixes rows :: "'r list"
  assumes "limit < 0" "wrap32 (limit + offset) \<le> 0"
  defines "h \<equiv> foldl (\<lambda>h x. insert_row cmp h x (wrap32 (limit + offset))) [] rows"
  shows "mset (rev (collect_rows cmp h (page_numelems limit offset (int (length h))))) = mset rows \<and>
     sorted_wrt (\<lambda>a b. cmp a b \<le> 0) (rev (collect_rows cmp h (page_numelems limit offset (int (length h)))))"
proof -
  have h: "is_heap cmp h" "mset h = mset rows"
    using insert_rows_unbounded [OF assms(2), of rows] by (auto simp: h_def)
  have "page_numelems limit offset (int (length h)) = limit" using assms(2) by (simp add: page_numelems_def)
  then show ?thesis
    using collect_all [OF h(1)] h(2) collect_rows_neg [OF assms(1), of cmp h] by (simp add: sorted_wrt_rev)
qed

lemma bounded_rows_sorted:
  assumes "limit < 0" "wrap32 (limit + offset) = bound" "0 < bound" "bound \<le> int (length rows)"
  defines "h \<equiv> foldl (\<lambda>h x. insert_row cmp h x bound) [] rows"
  shows "\<exists>zs. mset zs = mset rows \<and> sorted_wrt (\<lambda>a b. cmp a b \<le> 0) zs \<and>
     rev (collect_rows cmp h (page_numelems limit offset (int (length h)))) = take (nat bound) zs"
proof -
  let ?s = "rev (collect_rows cmp h (-1))"
  obtain D where hp: "is_heap cmp h" and ms: "mset rows = mset h + D"
    and le: "\<forall>k \<in># mset h. \<forall>y \<in># D. cmp k y \<le> 0"
    and sz: "if D = {#} then int (length h) \<le> bound else int (length h) = bound"
    unfolding h_def using insert_rows_kept [OF assms(3), of rows] by blast
  obtain ds where ds: "mset ds = D" "sorted_wrt (\<lambda>a b. cmp a b \<le> 0) ds" by (rule sorted_arrangement)
  have "length rows = length h + size D" using ms by (metis size_mset size_union)
  then have lh: "int (length h) = bound" using sz assms(4) by (auto split: if_splits)
  have s: "mset ?s = mset h" "sorted_wrt (\<lambda>a b. cmp a b \<le> 0) ?s"
    using collect_all [OF hp] by (simp_all add: sorted_wrt_rev)
  then have len: "length ?s = length h" by (metis size_mset)
  have "page_numelems limit offset (int (length h)) = limit" using lh assms(2) by (simp add: page_numelems_def)
  then have "rev (collect_rows cmp h (page_numelems limit offset (int (length h)))) = take (nat bound) (?s @ ds)"
    using collect_rows_neg [OF assms(1), of cmp h] len lh by simp
  moreover have "sorted_wrt (\<lambda>a b. cmp a b \<le> 0) (?s @ ds)"
    by (rule sorted_wrt_append_le [OF s(2) ds(2)]) (use le s(1) ds(1) in simp)
  moreover have "mset (?s @ ds) = mset rows" using s(1) ds(1) ms by simp
  ultimately show ?thesis by blast
qed

end

section \<open>Pages of the sorter\<close>

lemma insert_all_heap:
  "heap (insert_all rows limit s) =
     foldl (\<lambda>h x. insert_row (sort_compare (sort_cols s)) h x limit) (heap s) rows"
  and insert_all_cols: "sort_cols (insert_all rows limit s) = sort_cols s"
  unfolding insert_all_def by (induction rows arbitrary: s) (simp_all add: sorter_insert_def)

definition demo_sorter :: "int row_sorted_set" where
  "demo_sorter = \<lparr>heap = [], sort_cols = [(IntColumn ''n'' (\<lambda>x. x), False)]\<rparr>"

text \<open>
  C12. A sorted query with a Limit and an Offset prints the slice of the sorted result that the two headers
  ask for: there is an arrangement of all accepted rows in sort order whose rows number
  \<open>offset + 1 .. offset + limit\<close> are, in this order, the rows the bounded heap gives back.
\<close>

theorem sorted_page_is_slice:
  assumes "0 \<le> limit" "0 \<le> offset" "limit + offset < 2 ^ 31" "int (length rows) < 2 ^ 31" "heap s = []"
  shows "\<exists>zs. mset zs = mset rows \<and> sorted_wrt (\<lambda>a b. sort_compare (sort_cols s) a b \<le> 0) zs \<and>
     sorter_page limit offset (insert_all rows (wrap32 (limit + offset)) s) =
       take (nat limit) (drop (nat offset) zs)"
proof -
  have "wrap32 (limit + offset) = limit + offset" using assms by (simp add: in_int32_def)
  then show ?thesis
    using sort_order.page_of_rows [OF assms(1-4), of "sort_cols s"]
    by (simp add: sorter_page_def sorter_size_def insert_all_heap insert_all_cols assms(5))
qed

theorem sorted_page_is_slice_witness:
  "\<exists>zs. mset zs = mset [3, 1, 2 :: int] \<and>
     sorted_wrt (\<lambda>a b. sort_compare (sort_cols demo_sorter) a b \<le> 0) zs \<and>
     sorter_page 1 1 (insert_all [3, 1, 2] (wrap32 (1 + 1)) demo_sorter) = take (nat 1) (drop (nat 1) zs)"
  by (rule sorted_page_is_slice) (simp_all add: demo_sorter_def)

text \<open>
  A sorted query with neither header prints every accepted row, in sort order.
\<close>

theorem sorted_query_prints_all:
  assumes "heap s = []"
  shows "mset (sorter_page (-1) 0 (insert_all rows (wrap32 (-1 + 0)) s)) = mset rows \<and>
     sorted_wrt (\<lambda>a b. sort_compare (sort_cols s) a b \<le> 0) (sorter_page (-1) 0 (insert_all rows (wrap32 (-1 + 0)) s))"
proof -
  have "wrap32 (-1 + 0) \<le> 0" by (simp add: in_int32_def)
  from sort_order.all_rows_sorted [where cs = "sort_cols s" and rows = rows, OF _ this] show ?thesis
    by (simp add: sorter_page_def sorter_size_def insert_all_heap insert_all_cols assms)
qed

theorem sorted_query_prints_all_witness:
  "sorter_page (-1) 0 (insert_all [3, 1, 2] (wrap32 (-1 + 0)) demo_sorter) = [1, 2, 3] \<and>
   mset (sorter_page (-1) 0 (insert_all [3, 1, 2] (wrap32 (-1 + 0)) demo_sorter)) = mset [3, 1, 2 :: int]"
proof -
  have "heap demo_sorter = []" by (simp add: demo_sorter_def)
  note all = sorted_query_prints_all [OF this, of "[3, 1, 2]"]
  have "sorter_page (-1) 0 (insert_all [3, 1, 2] (wrap32 (-1 + 0)) demo_sorter) = [1, 2, 3]"
    by code_simp
  with all show ?thesis by simp
qed

text \<open>
  With an Offset but no Limit header, \<open>_limit\<close> is \<open>-1\<close> and the sorter is bounded to \<open>offset - 1\<close> rows:
  the query prints the first \<open>offset - 1\<close> rows of the sorted result, not the rows after \<open>offset\<close>.
\<close>

theorem offset_without_limit_prints_head:
  assumes "2 \<le> offset" "offset < 2 ^ 31" "offset - 1 \<le> int (length rows)" "heap s = []"
  shows "\<exists>zs. mset zs = mset rows \<and> sorted_wrt (\<lambda>a b. sort_compare (sort_cols s) a b \<le> 0) zs \<and>
     sorter_page (-1) offset (insert_all rows (wrap32 (-1 + offset)) s) = take (nat (offset - 1)) zs"
proof -
  have w: "wrap32 (-1 + offset) = offset - 1" using assms by (simp add: in_int32_def)
  then have w': "wrap32 (offset - 1) = offset - 1" by simp
  show ?thesis
    using sort_order.bounded_rows_sorted [where cs = "sort_cols s" and rows = rows, OF _ w _ assms(3)] assms(1)
    by (simp add: sorter_page_def sorter_size_def insert_all_heap insert_all_cols assms(4) w')
qed

theorem offset_without_limit_prints_head_witness:
  "\<exists>zs. mset zs = mset [3, 1, 2 :: int] \<and>
     sorted_wrt (\<lambda>a b. sort_compare (sort_cols demo_sorter) a b \<le> 0) zs \<and>
     sorter_page (-1) 2 (insert_all [3, 1, 2] (wrap32 (-1 + 2)) demo_sorter) = take (nat (2 - 1)) zs"
  by (rule offset_without_limit_prints_head) (simp_all add: demo_sorter_def)

end
