(* ===== verification/Strutil.thy ===== *)
theory Strutil
  imports Prelude
begin

text \<open>
  The text helpers of \<open>src/strutil.cc\<close>. The code works in place on a NUL-terminated buffer and moves a
  \<open>char **\<close> through it; a definition here takes the text from the pointer to its NUL and returns the
  text the result points to, with the text the moved pointer points to where there is one. A NUL the
  code writes ends the field it returns, and the two never overlap.
\<close>

section \<open>Stripping\<close>

fun rstrip :: "string \<Rightarrow> string" where
  "rstrip c = (if c \<noteq> [] \<and> c_isspace (last c) then rstrip (butlast c) else c)"

declare rstrip.simps [simp del]

fun lstrip :: "string \<Rightarrow> string" where
  "lstrip [] = []"
| "lstrip (c # cs) = (if c_isspace c then lstrip cs else c # cs)"

lemma lstrip_eq_dropWhile: "lstrip s = dropWhile c_isspace s"
  by (induction s) auto

lemma rstrip_eq: "rstrip s = rev (dropWhile c_isspace (rev s))"
proof (induction s rule: rev_induct)
  case Nil
  then show ?case by (simp add: rstrip.simps)
next
  case (snoc x xs)
  then show ?case by (subst rstrip.simps) simp
qed

section \<open>Fields and tokens\<close>

definition next_field :: "string \<Rightarrow> string option \<times> string" where
  "next_field c =
     (let begin = lstrip c
      in if begin = [] then (None, [])
         else (Some (takeWhile (\<lambda>x. \<not> c_isspace x) begin),
               drop 1 (dropWhile (\<lambda>x. \<not> c_isspace x) begin)))"

definition next_token :: "string \<Rightarrow> char \<Rightarrow> string option \<times> string" where
  "next_token c delim =
     (if c = [] then (None, [])
      else (Some (takeWhile (\<lambda>x. x \<noteq> delim) c),
            drop 1 (dropWhile (\<lambda>x. x \<noteq> delim) c)))"

definition save_next_token :: "string \<Rightarrow> char \<Rightarrow> string \<times> string" where
  "save_next_token c delim =
     (case next_token c delim of (None, r) \<Rightarrow> ([], r) | (Some t, r) \<Rightarrow> (t, r))"

text \<open>
  \<open>ends_with\<close> compares from \<open>a + strlen a - strlen b\<close> on: when \<open>b\<close> is longer than \<open>a\<close> that pointer is
  before the text and what it reads is undefined, here \<open>None\<close>.
\<close>

definition ends_with :: "string \<Rightarrow> string \<Rightarrow> bool option" where
  "ends_with a b =
     (if length b \<le> length a then Some (strcmp (drop (length a - length b) a) b = 0) else None)"

fun unescape_newlines :: "string \<Rightarrow> string" where
  "unescape_newlines [] = []"
| "unescape_newlines (c # cs) =
     (if c = CHR 0x5C
      then (case cs of
              [] \<Rightarrow> []
            | d # ds \<Rightarrow> (if d = CHR ''n'' then CHR 0x0A else d) # unescape_newlines ds)
      else c # unescape_newlines cs)"

section \<open>Each call consumes text\<close>

lemma next_field_shorter: "next_field s = (Some f, r) \<Longrightarrow> length r < length s"
proof -
  assume "next_field s = (Some f, r)"
  then have b: "lstrip s \<noteq> []" and r: "r = drop 1 (dropWhile (\<lambda>x. \<not> c_isspace x) (lstrip s))"
    by (auto simp: next_field_def Let_def split: if_splits)
  have "length (dropWhile (\<lambda>x. \<not> c_isspace x) (lstrip s)) \<le> length (lstrip s)"
    by (rule length_dropWhile_le)
  moreover have "length (lstrip s) \<le> length s"
    by (simp add: lstrip_eq_dropWhile length_dropWhile_le)
  moreover have "0 < length (lstrip s)" using b by simp
  ultimately show ?thesis
    unfolding r length_drop by linarith
qed

lemma next_token_shorter: "next_token s d = (Some t, r) \<Longrightarrow> length r < length s"
proof -
  assume "next_token s d = (Some t, r)"
  then have s: "s \<noteq> []" and r: "r = drop 1 (dropWhile (\<lambda>x. x \<noteq> d) s)"
    by (auto simp: next_token_def split: if_splits)
  have "length (dropWhile (\<lambda>x. x \<noteq> d) s) \<le> length s"
    by (rule length_dropWhile_le)
  moreover have "0 < length s" using s by simp
  ultimately show ?thesis
    unfolding r length_drop by linarith
qed

text \<open>The loops \<open>while (0 != (f = next_field(&line)))\<close> and \<open>while ((t = next_token(&scan, d)))\<close>.\<close>

function fields :: "string \<Rightarrow> string list" where
  "fields s = (case next_field s of (None, _) \<Rightarrow> [] | (Some f, r) \<Rightarrow> f # fields r)"
  by pat_completeness auto
termination
  by (relation "measure length") (auto dest: next_field_shorter [OF sym])

declare fields.simps [simp del]

function tokens :: "char \<Rightarrow> string \<Rightarrow> string list" where
  "tokens d s = (case next_token s d of (None, _) \<Rightarrow> [] | (Some t, r) \<Rightarrow> t # tokens d r)"
  by pat_completeness auto
termination
  by (relation "measure (\<lambda>(d, s). length s)") (auto dest: next_token_shorter [OF sym])

declare tokens.simps [simp del]

text \<open>
  What the callers rely on in either tokenizer: a loop over it ends, after at most one token per byte.
\<close>

locale tokenizer =
  fixes step :: "string \<Rightarrow> string option \<times> string"
    and loop :: "string \<Rightarrow> string list"
  assumes step_shorter: "step s = (Some t, r) \<Longrightarrow> length r < length s"
    and loop_eq: "loop s = (case step s of (None, _) \<Rightarrow> [] | (Some t, r) \<Rightarrow> t # loop r)"
begin

lemma loop_Some: "step s = (Some t, r) \<Longrightarrow> loop s = t # loop r"
  by (subst loop_eq) simp

lemma loop_None: "step s = (None, r) \<Longrightarrow> loop s = []"
  by (subst loop_eq) simp

lemma loop_length: "length (loop s) \<le> length s"
proof (induction s rule: length_induct)
  case (1 s)
  show ?case
  proof (cases "step s")
    case (Pair o' r)
    then show ?thesis
    proof (cases o')
      case None
      with Pair show ?thesis by (simp add: loop_None)
    next
      case (Some t)
      with Pair have st: "step s = (Some t, r)" by simp
      then have "length r < length s" by (rule step_shorter)
      moreover from this 1 have "length (loop r) \<le> length r" by blast
      ultimately show ?thesis by (simp add: loop_Some [OF st])
    qed
  qed
qed

end

interpretation fld: tokenizer next_field fields
  by unfold_locales (auto dest: next_field_shorter, subst fields.simps, simp)

interpretation tok: tokenizer "\<lambda>s. next_token s d" "tokens d" for d
  by unfold_locales (auto dest: next_token_shorter, subst tokens.simps, simp)

section \<open>What the loops return\<close>

lemma next_field_word:
  assumes "w \<noteq> []" "list_all (\<lambda>x. \<not> c_isspace x) w" "c_isspace c"
  shows "next_field (w @ c # r) = (Some w, r)"
proof -
  obtain x xs where w: "w = x # xs" using assms(1) by (cases w) auto
  have ls: "lstrip (w @ c # r) = w @ c # r" and ne: "w @ c # r \<noteq> []" using assms(2) w by simp_all
  have "takeWhile (\<lambda>x. \<not> c_isspace x) (w @ c # r) = w"
    by (rule takeWhile_all_app) (use assms in auto)
  moreover have "dropWhile (\<lambda>x. \<not> c_isspace x) (w @ c # r) = c # r"
    by (rule dropWhile_all_app) (use assms in auto)
  ultimately show ?thesis unfolding next_field_def ls Let_def using ne by (simp only: if_False) simp
qed

lemma next_field_space: "c_isspace c \<Longrightarrow> next_field (c # s) = next_field s"
  by (simp add: next_field_def)

lemma fields_space: "c_isspace c \<Longrightarrow> fields (c # s) = fields s"
  by (subst (1 2) fields.simps) (simp add: next_field_space)

lemma fields_word:
  assumes "w \<noteq> []" "list_all (\<lambda>x. \<not> c_isspace x) w" "c_isspace c"
  shows "fields (w @ c # r) = w # fields r"
  by (rule fld.loop_Some) (rule next_field_word [OF assms])

lemma fields_of_words:
  assumes "\<forall>w \<in> set ws. w \<noteq> [] \<and> list_all (\<lambda>x. \<not> c_isspace x) w" and "c_isspace c"
  shows "fields (concat (map (\<lambda>w. w @ [c]) ws)) = ws"
  using assms(1)
proof (induction ws)
  case Nil
  then show ?case by (simp add: fields.simps next_field_def)
next
  case (Cons w ws)
  then show ?case using fields_word [of w c "concat (map (\<lambda>w. w @ [c]) ws)"] assms(2) by simp
qed

lemma filter_nonspace_takeWhile:
  "filter (\<lambda>x. \<not> c_isspace x) (takeWhile (\<lambda>x. \<not> c_isspace x) s) = takeWhile (\<lambda>x. \<not> c_isspace x) s"
  by (induction s) auto

lemma filter_nonspace_drop1:
  "filter (\<lambda>x. \<not> c_isspace x) (drop 1 (dropWhile (\<lambda>x. \<not> c_isspace x) s)) =
   filter (\<lambda>x. \<not> c_isspace x) (dropWhile (\<lambda>x. \<not> c_isspace x) s)"
  by (induction s) auto

lemma filter_nonspace_lstrip: "filter (\<lambda>x. \<not> c_isspace x) (lstrip s) = filter (\<lambda>x. \<not> c_isspace x) s"
  by (induction s) auto

lemma next_field_keeps_text:
  assumes "next_field s = (Some f, r)"
  shows "f @ filter (\<lambda>x. \<not> c_isspace x) r = filter (\<lambda>x. \<not> c_isspace x) s"
proof -
  let ?b = "lstrip s" and ?P = "\<lambda>x. \<not> c_isspace x"
  from assms have f: "f = takeWhile ?P ?b" and r: "r = drop 1 (dropWhile ?P ?b)"
    by (auto simp: next_field_def Let_def split: if_splits)
  have "f @ filter ?P r = filter ?P (takeWhile ?P ?b) @ filter ?P (dropWhile ?P ?b)"
    unfolding f r filter_nonspace_drop1 filter_nonspace_takeWhile ..
  also have "\<dots> = filter ?P ?b"
    by (simp only: filter_append [symmetric] takeWhile_dropWhile_id)
  finally show ?thesis by (simp add: filter_nonspace_lstrip)
qed

lemma next_field_None_blank:
  assumes "next_field s = (None, r)"
  shows "filter (\<lambda>x. \<not> c_isspace x) s = []"
proof -
  from assms have "lstrip s = []"
    by (auto simp: next_field_def Let_def split: if_splits)
  then show ?thesis using filter_nonspace_lstrip [of s] by simp
qed

lemma concat_fields: "concat (fields s) = filter (\<lambda>x. \<not> c_isspace x) s"
proof (induction s rule: fields.induct)
  case (1 s)
  show ?case
  proof (cases "next_field s")
    case (Pair o' r)
    then show ?thesis
    proof (cases o')
      case None
      with Pair show ?thesis by (simp add: fld.loop_None next_field_None_blank)
    next
      case (Some f)
      with Pair have st: "next_field s = (Some f, r)" by simp
      from 1 [OF st [symmetric] refl] have "concat (fields r) = filter (\<lambda>x. \<not> c_isspace x) r" by simp
      with next_field_keeps_text [OF st] show ?thesis by (simp add: fld.loop_Some [OF st])
    qed
  qed
qed

lemma next_token_word: "d \<notin> set t \<Longrightarrow> next_token (t @ d # r) d = (Some t, r)"
proof -
  assume "d \<notin> set t"
  then have t: "list_all (\<lambda>x. x \<noteq> d) t" by (auto simp: list_all_iff)
  have "takeWhile (\<lambda>x. x \<noteq> d) (t @ d # r) = t"
    by (rule takeWhile_all_app [OF t]) simp
  moreover have "dropWhile (\<lambda>x. x \<noteq> d) (t @ d # r) = d # r"
    by (rule dropWhile_all_app [OF t]) simp
  ultimately show ?thesis by (simp add: next_token_def)
qed

lemma next_token_last: "d \<notin> set t \<Longrightarrow> t \<noteq> [] \<Longrightarrow> next_token t d = (Some t, [])"
proof -
  assume d: "d \<notin> set t" and "t \<noteq> []"
  then have "takeWhile (\<lambda>x. x \<noteq> d) t = t" and "dropWhile (\<lambda>x. x \<noteq> d) t = []" by auto
  with \<open>t \<noteq> []\<close> show ?thesis by (simp only: next_token_def if_False) simp
qed

section \<open>Properties\<close>

text \<open>
  The text a command carries, with its newlines and backslashes escaped as a client sends them.
\<close>

fun escape_newlines :: "string \<Rightarrow> string" where
  "escape_newlines [] = []"
| "escape_newlines (c # cs) =
     (if c = CHR 0x0A then CHR 0x5C # CHR ''n'' # escape_newlines cs
      else if c = CHR 0x5C then CHR 0x5C # CHR 0x5C # escape_newlines cs
      else c # escape_newlines cs)"

lemma unescape_escape: "unescape_newlines (escape_newlines s) = s"
  by (induction s) auto

lemma unescape_length: "length (unescape_newlines s) \<le> length s"
  by (induction s rule: unescape_newlines.induct) (auto split: list.splits)

end
