(* ===== verification/Input_Buffer.thy ===== *)
theory Input_Buffer
  imports Strutil
begin

text \<open>
  The request reader (\<open>src/InputBuffer.cc\<close>, \<open>src/InputBuffer.h\<close>): a read-ahead buffer of
  \<open>IB_BUFFER_SIZE\<close> bytes from which the lines of one request are collected. The state is the bytes
  before \<open>_write_pointer\<close>, the position \<open>_read_pointer\<close> in them and the lines stored so far. The size of
  the buffer is a parameter \<open>N\<close> of the operations.
\<close>

section \<open>The model\<close>

definition IB_BUFFER_SIZE :: nat where
  "IB_BUFFER_SIZE = 65536"

datatype ib_result =
    IB_REQUEST_READ | IB_UNEXPECTED_END_OF_FILE | IB_SHOULD_TERMINATE | IB_LINE_TOO_LONG
  | IB_END_OF_FILE | IB_EMPTY_REQUEST | IB_TIMEOUT

record input_buffer =
  ib_data :: bytes
  ib_read :: nat
  ib_lines :: "string list"

definition new_input_buffer :: input_buffer where
  "new_input_buffer = \<lparr> ib_data = [], ib_read = 0, ib_lines = [] \<rparr>"

definition set_fd :: "input_buffer \<Rightarrow> input_buffer" where
  "set_fd ib = ib\<lparr> ib_data := [], ib_read := 0, ib_lines := [] \<rparr>"

definition more_lines :: "input_buffer \<Rightarrow> bool" where
  "more_lines ib \<longleftrightarrow> ib_lines ib \<noteq> []"

definition next_line :: "input_buffer \<Rightarrow> string \<times> input_buffer" where
  "next_line ib = (hd (ib_lines ib), ib\<lparr> ib_lines := tl (ib_lines ib) \<rparr>)"

text \<open>
  \<open>storeRequestLine\<close> drops white space at the end; the loop's pointer stops before the first byte of the
  line, which it still tests, so a line of white space only becomes empty and is ignored.
\<close>

definition store_request_line :: "string \<Rightarrow> string list \<Rightarrow> string list" where
  "store_request_line line ls = (let t = rstrip line in if t \<noteq> [] then ls @ [t] else ls)"

text \<open>
  The rounds of the loop of \<open>readData\<close>, in the order it looks: the termination flag is raised; the query
  timeout has passed (with what \<open>timeout_reached\<close> then says of the idle timeout, which \<open>readRequest\<close>
  asks next); \<open>select\<close> reports nothing; \<open>read\<close> is called, with the bytes that are waiting, none when the
  stream has ended or failed. A read takes what fits, the rest keeps waiting; an end of file stays.
  \<open>None\<close> is a reader that still waits when the rounds are over.
\<close>

datatype read_event = Ev_terminated | Ev_timeout bool | Ev_nothing | Ev_read bytes

datatype read_result = RD_TIMEOUT bool | RD_END_OF_FILE | RD_SHOULD_TERMINATE | RD_DATA bytes

fun read_data :: "nat \<Rightarrow> read_event list \<Rightarrow> (read_result \<times> read_event list) option" where
  "read_data space [] = None"
| "read_data space (Ev_terminated # es) = Some (RD_SHOULD_TERMINATE, Ev_terminated # es)"
| "read_data space (Ev_timeout idle # es) = Some (RD_TIMEOUT idle, es)"
| "read_data space (Ev_nothing # es) = read_data space es"
| "read_data space (Ev_read c # es) =
     (if c = [] then Some (RD_END_OF_FILE, Ev_read c # es)
      else Some (RD_DATA (take space c), if length c \<le> space then es else Ev_read (drop space c) # es))"

text \<open>
  \<open>readRequest\<close>. The scan position \<open>r\<close> of the code is \<open>ib_read + off\<close>; it never passes the write pointer.
\<close>

fun events_size :: "read_event list \<Rightarrow> nat" where
  "events_size [] = 0"
| "events_size (Ev_read c # es) = Suc (length c) + events_size es"
| "events_size (_ # es) = Suc (events_size es)"

lemma read_data_smaller:
  "read_data space es = Some (RD_TIMEOUT b, es') \<Longrightarrow> events_size es' < events_size es"
  "read_data space es = Some (RD_DATA c, es') \<Longrightarrow> 0 < space \<longrightarrow> events_size es' < events_size es"
  by (induction space es rule: read_data.induct) (auto split: if_splits)

function read_request ::
  "nat \<Rightarrow> read_event list \<Rightarrow> input_buffer \<Rightarrow> nat \<Rightarrow> bool \<Rightarrow> (ib_result \<times> input_buffer \<times> read_event list) option" where
  "read_request N es ib off query_started =
     (let rp = ib_read ib;
          wp = length (ib_data ib);
          r = rp + off + length (takeWhile (\<lambda>c. c \<noteq> CHR 0x0A) (drop (rp + off) (ib_data ib)))
      in if wp \<le> r
         then if wp < N
              then (case read_data (N - wp) es of
                      None \<Rightarrow> None
                    | Some (RD_TIMEOUT idle, es') \<Rightarrow>
                        if query_started then Some (IB_TIMEOUT, ib, es')
                        else if idle then Some (IB_TIMEOUT, ib, es')
                        else read_request N es' ib (r - rp) query_started
                    | Some (RD_END_OF_FILE, es') \<Rightarrow>
                        if r = rp
                        then (if ib_lines ib = [] then Some (IB_END_OF_FILE, ib, es') else Some (IB_REQUEST_READ, ib, es'))
                        else Some (IB_UNEXPECTED_END_OF_FILE, ib, es')
                    | Some (RD_SHOULD_TERMINATE, es') \<Rightarrow> Some (IB_SHOULD_TERMINATE, ib, es')
                    | Some (RD_DATA c, es') \<Rightarrow>
                        read_request N es' (ib\<lparr> ib_data := ib_data ib @ c \<rparr>) (r - rp) query_started)
              else if 0 < rp
              then read_request N es (ib\<lparr> ib_data := drop rp (ib_data ib), ib_read := 0 \<rparr>) (r - rp) query_started
              else Some (IB_LINE_TOO_LONG, ib, es)
         else if rp = r
         then (if ib_lines ib = [] then Some (IB_EMPTY_REQUEST, ib\<lparr> ib_read := r + 1 \<rparr>, es)
               else Some (IB_REQUEST_READ, ib\<lparr> ib_read := r + 1 \<rparr>, es))
         else read_request N es
                (ib\<lparr> ib_lines := store_request_line (take (r - rp) (drop rp (ib_data ib))) (ib_lines ib),
                     ib_read := r + 1 \<rparr>) 0 True)"
  by pat_completeness auto
termination
  by (relation "measures [\<lambda>(N, es, ib, off, q). events_size es, \<lambda>(N, es, ib, off, q). length (ib_data ib) - ib_read ib,
      \<lambda>(N, es, ib, off, q). ib_read ib]")
    (auto dest: read_data_smaller dest!: sym [of "Some _"])

declare read_request.simps [simp del]

section \<open>Requests as a property of the byte stream\<close>

text \<open>
  The specification sees only the bytes the client sends, not how they arrive: a request is the lines up
  to an empty line, or up to the end of the stream if it ends after a line feed.
\<close>

function spec_request :: "nat \<Rightarrow> string list \<Rightarrow> bytes \<Rightarrow> ib_result \<times> string list \<times> bytes" where
  "spec_request N ls s =
     (let line = takeWhile (\<lambda>c. c \<noteq> CHR 0x0A) s;
          rest = dropWhile (\<lambda>c. c \<noteq> CHR 0x0A) s
      in if N \<le> length line then (IB_LINE_TOO_LONG, ls, s)
         else if rest = []
         then (if line \<noteq> [] then (IB_UNEXPECTED_END_OF_FILE, ls, line)
               else if ls = [] then (IB_END_OF_FILE, ls, []) else (IB_REQUEST_READ, ls, []))
         else if line = [] then (if ls = [] then IB_EMPTY_REQUEST else IB_REQUEST_READ, ls, tl rest)
         else spec_request N (store_request_line line ls) (tl rest))"
  by pat_completeness auto
termination
proof (relation "measure (\<lambda>(N, ls, s). length s)", goal_cases)
  case (2 N ls s line rest)
  have "length rest \<le> length s" unfolding 2(2) by (rule length_dropWhile_le)
  moreover have "0 < length rest" using 2(4) by simp
  ultimately have "length (tl rest) < length s" by (cases rest) auto
  then show ?case by simp
qed simp

declare spec_request.simps [simp del]

text \<open>What the events still bring, for a stream that is only read from until it ends.\<close>

fun pending :: "read_event list \<Rightarrow> bytes" where
  "pending [] = []"
| "pending (Ev_read c # es) = (if c = [] then [] else c @ pending es)"
| "pending (_ # es) = pending es"

fun until_eof :: "read_event list \<Rightarrow> bool" where
  "until_eof [] = False"
| "until_eof (Ev_read c # es) = (c = [] \<or> until_eof es)"
| "until_eof (Ev_nothing # es) = until_eof es"
| "until_eof (_ # es) = False"

lemma read_data_until_eof:
  "until_eof es \<Longrightarrow> 0 < space \<Longrightarrow>
     (\<exists>c es'. read_data space es = Some (RD_DATA c, es') \<and> pending es = c @ pending es' \<and> until_eof es' \<and>
        length c \<le> space) \<or>
     (\<exists>es'. read_data space es = Some (RD_END_OF_FILE, es') \<and> pending es = [] \<and> pending es' = [] \<and> until_eof es')"
  by (induction space es rule: read_data.induct) auto

definition ib_ok :: "nat \<Rightarrow> input_buffer \<Rightarrow> nat \<Rightarrow> bool" where
  "ib_ok N ib off \<longleftrightarrow> length (ib_data ib) \<le> N \<and> ib_read ib + off \<le> length (ib_data ib) \<and>
     CHR 0x0A \<notin> set (take off (drop (ib_read ib) (ib_data ib)))"

lemma scan_eq:
  assumes "CHR 0x0A \<notin> set (take off u)" and "off \<le> length u"
  shows "off + length (takeWhile (\<lambda>c. c \<noteq> CHR 0x0A) (drop off u)) = length (takeWhile (\<lambda>c. c \<noteq> CHR 0x0A) u)"
proof -
  have "takeWhile (\<lambda>c. c \<noteq> CHR 0x0A) (take off u @ drop off u) = take off u @ takeWhile (\<lambda>c. c \<noteq> CHR 0x0A) (drop off u)"
    using assms by (intro takeWhile_append2) auto
  then show ?thesis using assms(2) by simp
qed

definition unread :: "input_buffer \<Rightarrow> bytes" where
  "unread ib = drop (ib_read ib) (ib_data ib)"

text \<open>One round of the loop, in terms of the unread bytes and the length \<open>k\<close> of their first line.\<close>

lemma read_request_round:
  assumes "ib_ok N ib off"
  defines "k \<equiv> length (takeWhile (\<lambda>c. c \<noteq> CHR 0x0A) (unread ib))"
  shows "read_request N es ib off q =
    (if k = length (unread ib)
     then if length (ib_data ib) < N
          then (case read_data (N - length (ib_data ib)) es of
                  None \<Rightarrow> None
                | Some (RD_TIMEOUT idle, es') \<Rightarrow>
                    if q then Some (IB_TIMEOUT, ib, es') else if idle then Some (IB_TIMEOUT, ib, es')
                    else read_request N es' ib k q
                | Some (RD_END_OF_FILE, es') \<Rightarrow>
                    if k = 0 then (if ib_lines ib = [] then Some (IB_END_OF_FILE, ib, es') else Some (IB_REQUEST_READ, ib, es'))
                    else Some (IB_UNEXPECTED_END_OF_FILE, ib, es')
                | Some (RD_SHOULD_TERMINATE, es') \<Rightarrow> Some (IB_SHOULD_TERMINATE, ib, es')
                | Some (RD_DATA c, es') \<Rightarrow> read_request N es' (ib\<lparr> ib_data := ib_data ib @ c \<rparr>) k q)
          else if 0 < ib_read ib
          then read_request N es (ib\<lparr> ib_data := unread ib, ib_read := 0 \<rparr>) k q
          else Some (IB_LINE_TOO_LONG, ib, es)
     else if k = 0
     then (if ib_lines ib = [] then Some (IB_EMPTY_REQUEST, ib\<lparr> ib_read := ib_read ib + k + 1 \<rparr>, es)
           else Some (IB_REQUEST_READ, ib\<lparr> ib_read := ib_read ib + k + 1 \<rparr>, es))
     else read_request N es
            (ib\<lparr> ib_lines := store_request_line (take k (unread ib)) (ib_lines ib), ib_read := ib_read ib + k + 1 \<rparr>) 0 True)"
proof -
  have r: "ib_read ib + off + length (takeWhile (\<lambda>c. c \<noteq> CHR 0x0A) (drop (ib_read ib + off) (ib_data ib))) = ib_read ib + k"
    using scan_eq [of off "unread ib"] assms(1) by (auto simp: ib_ok_def k_def unread_def add.commute)
  have k: "k \<le> length (unread ib)" unfolding k_def by (rule length_takeWhile_le)
  have wp: "length (ib_data ib) = ib_read ib + length (unread ib)"
    using assms(1) by (simp add: ib_ok_def unread_def)
  have full: "(length (ib_data ib) \<le> ib_read ib + k) = (k = length (unread ib))"
    using k unfolding wp by auto
  have zero: "(ib_read ib + k = ib_read ib) = (k = 0)" "(ib_read ib = ib_read ib + k) = (k = 0)" by auto
  show ?thesis
    by (subst read_request.simps, unfold Let_def r full zero add_diff_cancel_left' unread_def [symmetric], rule refl)
qed

lemma no_newline_all:
  "length (takeWhile (\<lambda>c. c \<noteq> CHR 0x0A) u) = length u \<Longrightarrow> CHR 0x0A \<notin> set u"
  by (metis (mono_tags, lifting) order_refl set_takeWhileD takeWhile_eq_take take_all)

text \<open>The specification on a stream whose first line is known.\<close>

lemma spec_no_newline:
  "CHR 0x0A \<notin> set u \<Longrightarrow> length u < N \<Longrightarrow>
     spec_request N ls u =
       (if u \<noteq> [] then (IB_UNEXPECTED_END_OF_FILE, ls, u) else if ls = [] then (IB_END_OF_FILE, ls, []) else (IB_REQUEST_READ, ls, []))"
proof -
  assume "CHR 0x0A \<notin> set u" "length u < N"
  then have tw: "takeWhile (\<lambda>c. c \<noteq> CHR 0x0A) u = u" and dw: "dropWhile (\<lambda>c. c \<noteq> CHR 0x0A) u = []" by auto
  show ?thesis unfolding spec_request.simps [of N ls u] Let_def tw dw using \<open>length u < N\<close> by simp
qed

lemma spec_too_long:
  "CHR 0x0A \<notin> set u \<Longrightarrow> N \<le> length u \<Longrightarrow> spec_request N ls (u @ v) = (IB_LINE_TOO_LONG, ls, u @ v)"
proof -
  assume "CHR 0x0A \<notin> set u" "N \<le> length u"
  then have "takeWhile (\<lambda>c. c \<noteq> CHR 0x0A) (u @ v) = u @ takeWhile (\<lambda>c. c \<noteq> CHR 0x0A) v"
    by (intro takeWhile_append2) auto
  with \<open>N \<le> length u\<close> show ?thesis by (subst spec_request.simps) (simp add: Let_def)
qed

lemma spec_line:
  assumes k: "k = length (takeWhile (\<lambda>c. c \<noteq> CHR 0x0A) u)" "k < length u" "length u \<le> N"
  shows "spec_request N ls (u @ v) =
     (if k = 0 then (if ls = [] then IB_EMPTY_REQUEST else IB_REQUEST_READ, ls, drop (Suc k) u @ v)
      else spec_request N (store_request_line (take k u) ls) (drop (Suc k) u @ v))"
proof -
  have tk: "takeWhile (\<lambda>c. c \<noteq> CHR 0x0A) u = take k u" unfolding k(1) by (rule takeWhile_eq_take)
  have dk: "dropWhile (\<lambda>c. c \<noteq> CHR 0x0A) u = drop k u" unfolding k(1) by (rule dropWhile_eq_drop)
  have x: "u ! k \<in> set u" "\<not> u ! k \<noteq> CHR 0x0A"
    using k(2) nth_mem nth_length_takeWhile [of "\<lambda>c. c \<noteq> CHR 0x0A" u, folded k(1)] by blast+
  have tw: "takeWhile (\<lambda>c. c \<noteq> CHR 0x0A) (u @ v) = take k u"
    using takeWhile_append1 [of "u ! k" u "\<lambda>c. c \<noteq> CHR 0x0A" v, OF x] tk by simp
  have dw: "dropWhile (\<lambda>c. c \<noteq> CHR 0x0A) (u @ v) = drop k u @ v"
    using dropWhile_append1 [of "u ! k" u "\<lambda>c. c \<noteq> CHR 0x0A" v, OF x] dk by simp
  have tl: "tl (drop k u @ v) = drop (Suc k) u @ v" "drop k u @ v \<noteq> []"
    using k(2) by (simp_all add: Cons_nth_drop_Suc [symmetric])
  have c: "(N \<le> length (take k u)) = False" "(take k u = []) = (k = 0)" "(drop k u @ v = []) = False"
    using k(2,3) tl(2) by auto
  show ?thesis
    unfolding spec_request.simps [of N ls "u @ v"] Let_def tw dw tl(1) c if_False by (rule refl)
qed

text \<open>
  The reader meets the specification in a state: it returns what the specification says of the unread
  bytes and those still to come, and leaves a good state. Each kind of round keeps this.
\<close>

definition meets_spec :: "nat \<Rightarrow> read_event list \<Rightarrow> input_buffer \<Rightarrow> nat \<Rightarrow> bool \<Rightarrow> bool" where
  "meets_spec N es ib off q \<longleftrightarrow> (\<exists>code ib' es'. read_request N es ib off q = Some (code, ib', es') \<and>
     (code, ib_lines ib', unread ib' @ pending es') = spec_request N (ib_lines ib) (unread ib @ pending es) \<and>
     until_eof es' \<and> ib_ok N ib' 0)"

lemma meets_specI:
  "read_request N es ib off q = Some (code, ib', es') \<Longrightarrow>
   spec_request N (ib_lines ib) (unread ib @ pending es) = (code, ib_lines ib', unread ib' @ pending es') \<Longrightarrow>
   until_eof es' \<Longrightarrow> ib_ok N ib' 0 \<Longrightarrow> meets_spec N es ib off q"
  by (auto simp: meets_spec_def)

lemma meets_spec_step:
  "read_request N es ib off q = read_request N es1 ib1 off1 q1 \<Longrightarrow>
   spec_request N (ib_lines ib) (unread ib @ pending es) = spec_request N (ib_lines ib1) (unread ib1 @ pending es1) \<Longrightarrow>
   meets_spec N es1 ib1 off1 q1 \<Longrightarrow> meets_spec N es ib off q"
  by (simp add: meets_spec_def)

lemma ib_ok_0: "ib_ok N ib off \<Longrightarrow> ib_ok N ib 0"
  by (auto simp: ib_ok_def)

lemma ib_ok_length: "ib_ok N ib off \<Longrightarrow> length (ib_data ib) = ib_read ib + length (unread ib) \<and> length (unread ib) \<le> N"
  by (auto simp: ib_ok_def unread_def)

lemma round_read:
  assumes N: "length (ib_data ib) < N" and ok: "ib_ok N ib off" and es: "until_eof es"
    and k: "length (takeWhile (\<lambda>c. c \<noteq> CHR 0x0A) (unread ib)) = length (unread ib)"
    and IH: "\<And>es' c. events_size es' < events_size es \<Longrightarrow> until_eof es' \<Longrightarrow>
       ib_ok N (ib\<lparr> ib_data := ib_data ib @ c \<rparr>) (length (unread ib)) \<Longrightarrow>
       meets_spec N es' (ib\<lparr> ib_data := ib_data ib @ c \<rparr>) (length (unread ib)) q"
  shows "meets_spec N es ib off q"
proof -
  have nl: "CHR 0x0A \<notin> set (unread ib)" by (rule no_newline_all [OF k])
  note step = read_request_round [OF ok, of es q, unfolded k]
  have "0 < N - length (ib_data ib)" using N by simp
  from read_data_until_eof [OF es this] show ?thesis
  proof (elim disjE exE conjE)
    fix c es'
    assume rd: "read_data (N - length (ib_data ib)) es = Some (RD_DATA c, es')" "pending es = c @ pending es'"
      "until_eof es'" "length c \<le> N - length (ib_data ib)"
    let ?ib = "ib\<lparr> ib_data := ib_data ib @ c \<rparr>"
    have u: "unread ?ib = unread ib @ c" using ok by (simp add: unread_def ib_ok_def)
    have "ib_ok N ?ib (length (unread ib))"
      using ok rd(4) nl u N by (simp add: ib_ok_def unread_def)
    with read_data_smaller(2) [OF rd(1)] N rd(3) have "meets_spec N es' ?ib (length (unread ib)) q"
      by (intro IH) auto
    moreover have "read_request N es ib off q = read_request N es' ?ib (length (unread ib)) q"
      using N rd(1) by (simp add: step)
    ultimately show ?thesis using rd(2) u by (intro meets_spec_step [of N es ib off q es' ?ib]) simp_all
  next
    fix es'
    assume rd: "read_data (N - length (ib_data ib)) es = Some (RD_END_OF_FILE, es')" "pending es = []"
      "pending es' = []" "until_eof es'"
    with nl N ib_ok_length [OF ok] ib_ok_0 [OF ok] show ?thesis
      by (auto simp: meets_spec_def step spec_no_newline)
  qed
qed

lemma round_full:
  assumes N: "\<not> length (ib_data ib) < N" and ok: "ib_ok N ib off" and es: "until_eof es"
    and k: "length (takeWhile (\<lambda>c. c \<noteq> CHR 0x0A) (unread ib)) = length (unread ib)"
    and IH: "0 < ib_read ib \<Longrightarrow> ib_ok N (ib\<lparr> ib_data := unread ib, ib_read := 0 \<rparr>) (length (unread ib)) \<Longrightarrow>
       meets_spec N es (ib\<lparr> ib_data := unread ib, ib_read := 0 \<rparr>) (length (unread ib)) q"
  shows "meets_spec N es ib off q"
proof -
  have nl: "CHR 0x0A \<notin> set (unread ib)" by (rule no_newline_all [OF k])
  note step = read_request_round [OF ok, of es q, unfolded k]
  let ?ib = "ib\<lparr> ib_data := unread ib, ib_read := 0 \<rparr>"
  show ?thesis
  proof (cases "0 < ib_read ib")
    case True
    have "ib_ok N ?ib (length (unread ib))" using ib_ok_length [OF ok] nl by (simp add: ib_ok_def)
    with True have "meets_spec N es ?ib (length (unread ib)) q" by (rule IH)
    then show ?thesis using N True by (intro meets_spec_step [of N es ib off q es ?ib]) (simp_all add: step unread_def)
  next
    case False
    with N ib_ok_length [OF ok] have "N \<le> length (unread ib)" by simp
    with nl have "spec_request N (ib_lines ib) (unread ib @ pending es) = (IB_LINE_TOO_LONG, ib_lines ib, unread ib @ pending es)"
      by (rule spec_too_long)
    with False N es ib_ok_0 [OF ok] show ?thesis by (intro meets_specI) (simp_all add: step)
  qed
qed

lemma round_line:
  assumes ok: "ib_ok N ib off" and es: "until_eof es"
    and k_def: "k = length (takeWhile (\<lambda>c. c \<noteq> CHR 0x0A) (unread ib))" and k: "k < length (unread ib)"
    and IH: "\<And>ls. ib_ok N (ib\<lparr> ib_lines := ls, ib_read := ib_read ib + k + 1 \<rparr>) 0 \<Longrightarrow>
       meets_spec N es (ib\<lparr> ib_lines := ls, ib_read := ib_read ib + k + 1 \<rparr>) 0 True"
  shows "meets_spec N es ib off q"
proof -
  have ne: "(k = length (unread ib)) = False" using k by simp
  note step = read_request_round [OF ok, of es q, folded k_def, unfolded ne if_False]
  note len = ib_ok_length [OF ok]
  have "length (unread ib) \<le> N" using len by simp
  note spec = spec_line [OF k_def k this, of "ib_lines ib" "pending es"]
  have u: "unread (ib\<lparr> ib_lines := ls, ib_read := ib_read ib + k + 1 \<rparr>) = drop (Suc k) (unread ib)" for ls
    by (simp add: unread_def add.commute)
  have good: "ib_ok N (ib\<lparr> ib_lines := ls, ib_read := ib_read ib + k + 1 \<rparr>) 0" for ls
    using ok len k by (simp add: ib_ok_def)
  show ?thesis
  proof (cases "k = 0")
    case True
    let ?ib = "ib\<lparr> ib_read := ib_read ib + k + 1 \<rparr>"
    have "read_request N es ib off q =
        Some (if ib_lines ib = [] then IB_EMPTY_REQUEST else IB_REQUEST_READ, ?ib, es)"
      using step True by (cases "ib_lines ib = []"; simp only: simp_thms if_False if_True)
    moreover have "ib_ok N ?ib 0" "unread ?ib = drop (Suc k) (unread ib)"
      using good [of "ib_lines ib"] u [of "ib_lines ib"] by simp_all
    ultimately show ?thesis using es True by (intro meets_specI) (simp_all add: spec)
  next
    case False
    let ?ls = "store_request_line (take k (unread ib)) (ib_lines ib)"
    have "read_request N es ib off q = read_request N es (ib\<lparr> ib_lines := ?ls, ib_read := ib_read ib + k + 1 \<rparr>) 0 True"
      using step False by (simp only: if_False)
    moreover have "spec_request N (ib_lines ib) (unread ib @ pending es) =
        spec_request N ?ls (unread (ib\<lparr> ib_lines := ?ls, ib_read := ib_read ib + k + 1 \<rparr>) @ pending es)"
      unfolding u spec using False by simp
    ultimately show ?thesis using IH [OF good, of ?ls]
      by (intro meets_spec_step [of N es ib off q es "ib\<lparr> ib_lines := ?ls, ib_read := ib_read ib + k + 1 \<rparr>" 0 True]) simp_all
  qed
qed

lemma read_request_refines:
  assumes "0 < N"
  shows "until_eof es \<Longrightarrow> ib_ok N ib off \<Longrightarrow> meets_spec N es ib off q"
proof (induction "(es, ib)" arbitrary: es ib off q rule: wf_induct_rule
    [OF wf_measures, of "[\<lambda>(es, ib). events_size es, \<lambda>(es, ib). length (unread ib), \<lambda>(es, ib). ib_read ib]", case_names less])
  case (less es ib off q)
  let ?k = "length (takeWhile (\<lambda>c. c \<noteq> CHR 0x0A) (unread ib))"
  have k: "?k \<le> length (unread ib)" by (rule length_takeWhile_le)
  show ?case
  proof (cases "?k = length (unread ib)")
    case True
    show ?thesis
    proof (cases "length (ib_data ib) < N")
      case space: True
      show ?thesis
        by (rule round_read [OF space less.prems(2,1) True], rule less.hyps) simp_all
    next
      case full: False
      show ?thesis
        by (rule round_full [OF full less.prems(2,1) True], rule less.hyps) (use less.prems in \<open>simp_all add: unread_def\<close>)
    qed
  next
    case False
    with k have k': "?k < length (unread ib)" by simp
    show ?thesis
      by (rule round_line [OF less.prems(2,1) refl k'], rule less.hyps)
        (use less.prems k' in \<open>simp_all add: unread_def\<close>)
  qed
qed

definition demo_events :: "read_event list" where
  "demo_events = [Ev_read (''GET a'' @ [CHR 0x0A] @ ''Or''), Ev_nothing, Ev_read ('': 2'' @ [CHR 0x0A, CHR 0x0A] @ ''GET''), Ev_read []]"

text \<open>
  C17. Reading a request is a property of the bytes alone: however the client's stream is cut into reads,
  and whatever the buffer already holds, \<open>readRequest\<close> returns, with the code, the lines and the unread
  rest that the specification gives for the stream; the buffer is moved and refilled without losing a byte.
\<close>

theorem read_request_meets_stream_spec:
  assumes "0 < N" and "until_eof es" and "ib_ok N ib 0"
  shows "\<exists>code ib' es'. read_request N es ib 0 False = Some (code, ib', es') \<and>
     (code, ib_lines ib', unread ib' @ pending es') = spec_request N (ib_lines ib) (unread ib @ pending es) \<and>
     until_eof es' \<and> ib_ok N ib' 0"
  using read_request_refines [OF assms] by (simp add: meets_spec_def)

theorem read_request_meets_stream_spec_witness:
  "\<exists>code ib' es'. read_request 8 demo_events new_input_buffer 0 False = Some (code, ib', es') \<and>
     (code, ib_lines ib', unread ib' @ pending es') =
       spec_request 8 (ib_lines new_input_buffer) (unread new_input_buffer @ pending demo_events) \<and>
     until_eof es' \<and> ib_ok 8 ib' 0"
  by (rule read_request_meets_stream_spec) (simp_all add: demo_events_def ib_ok_def new_input_buffer_def)

definition good_line :: "nat \<Rightarrow> string \<Rightarrow> bool" where
  "good_line N l \<longleftrightarrow> l \<noteq> [] \<and> CHR 0x0A \<notin> set l \<and> \<not> c_isspace (last l) \<and> length l < N"

text \<open>The lines the reader takes: not blank, without a line feed and shorter than the buffer.\<close>

definition text_line :: "nat \<Rightarrow> string \<Rightarrow> bool" where
  "text_line N l \<longleftrightarrow> rstrip l \<noteq> [] \<and> CHR 0x0A \<notin> set l \<and> length l < N"

lemma spec_text_lines:
  "0 < N \<Longrightarrow> list_all (text_line N) ls \<Longrightarrow>
     spec_request N acc (concat (map (\<lambda>l. l @ [CHR 0x0A]) ls) @ CHR 0x0A # tail) =
       (if acc @ ls = [] then IB_EMPTY_REQUEST else IB_REQUEST_READ, acc @ map rstrip ls, tail)"
proof (induction ls arbitrary: acc)
  case Nil
  then show ?case by (subst spec_request.simps) (simp add: Let_def)
next
  case (Cons l ls)
  then have l: "rstrip l \<noteq> []" "CHR 0x0A \<notin> set l" "length l < N"
    by (auto simp: text_line_def)
  have ne: "l \<noteq> []" using l(1) by (auto simp: rstrip_eq)
  have st: "store_request_line l acc = acc @ [rstrip l]"
    using l(1) by (simp add: store_request_line_def)
  let ?s = "concat (map (\<lambda>l. l @ [CHR 0x0A]) ls) @ CHR 0x0A # tail"
  have tw: "takeWhile (\<lambda>c. c \<noteq> CHR 0x0A) (l @ CHR 0x0A # ?s) = l"
    using l(2) by (intro takeWhile_all_app) (auto simp: list_all_iff)
  have dw: "dropWhile (\<lambda>c. c \<noteq> CHR 0x0A) (l @ CHR 0x0A # ?s) = CHR 0x0A # ?s"
    using l(2) by (intro dropWhile_all_app) (auto simp: list_all_iff)
  have "spec_request N acc (l @ CHR 0x0A # ?s) = spec_request N (acc @ [rstrip l]) ?s"
    unfolding spec_request.simps [of N acc "l @ CHR 0x0A # ?s"] Let_def tw dw using l(3) ne st by simp
  with Cons show ?case by simp
qed

lemma spec_good_lines:
  assumes "0 < N" and "list_all (good_line N) ls"
  shows "spec_request N acc (concat (map (\<lambda>l. l @ [CHR 0x0A]) ls) @ CHR 0x0A # tail) =
     (if acc @ ls = [] then IB_EMPTY_REQUEST else IB_REQUEST_READ, acc @ ls, tail)"
proof -
  have "rstrip l = l \<and> text_line N l" if "l \<in> set ls" for l
  proof -
    have l: "good_line N l" using that assms(2) by (simp add: list_all_iff)
    then have "rstrip l = l" by (subst rstrip.simps) (simp add: good_line_def)
    with l show ?thesis by (simp add: good_line_def text_line_def)
  qed
  then have "map rstrip ls = ls" "list_all (text_line N) ls" by (simp_all add: list_all_iff map_idI)
  with spec_text_lines [OF assms(1), of ls acc tail] show ?thesis by simp
qed

text \<open>
  A well-formed request is read as it was written: lines that are not empty, do not end in white space
  and are shorter than the buffer, followed by an empty line, are returned in order, and what follows
  the empty line is left for the next request.
\<close>

theorem well_formed_request_is_read:
  assumes "0 < N" and "until_eof es" and "ib_ok N ib 0" and "ib_lines ib = []"
    and "ls \<noteq> []" and "list_all (good_line N) ls"
    and "unread ib @ pending es = concat (map (\<lambda>l. l @ [CHR 0x0A]) ls) @ CHR 0x0A # tail"
  shows "\<exists>ib' es'. read_request N es ib 0 False = Some (IB_REQUEST_READ, ib', es') \<and>
     ib_lines ib' = ls \<and> unread ib' @ pending es' = tail"
  using read_request_refines [OF assms(1-3), of False] spec_good_lines [OF assms(1,6), of "[]" tail] assms(4,5,7)
  by (auto simp: meets_spec_def)

theorem well_formed_request_is_read_witness:
  "\<exists>ib' es'. read_request 8 demo_events new_input_buffer 0 False = Some (IB_REQUEST_READ, ib', es') \<and>
     ib_lines ib' = [''GET a'', ''Or: 2''] \<and> unread ib' @ pending es' = ''GET''"
  by (rule well_formed_request_is_read)
    (simp_all add: demo_events_def ib_ok_def new_input_buffer_def good_line_def c_isspace_def unread_def)

end
