(* ===== verification/State_Columns.thy ===== *)
theory State_Columns
  imports Prelude
begin

text \<open>
  The columns that summarise the services of a host or service group and the hosts of a host group
  (\<open>src/ServicelistStateColumn.cc\<close>, \<open>src/HostlistStateColumn.cc\<close> and their headers), with the caches of
  \<open>Query::serviceAggregates\<close> and \<open>Query::hostAggregates\<close>. One traversal of a list computes the values of
  all columns. A list is named by the address of its head, the key of the cache; \<open>svcs\<close> and \<open>hsts\<close> give the
  members. \<open>auth\<close> says which objects the query's user may see (everything, for a query without one).
  The counters are \<open>int32_t\<close> in the code and wrap here; a state is compared with independent tables of
  severities.
\<close>

section \<open>Services\<close>

record svc_row =
  sv_current_state :: int
  sv_last_hard_state :: int
  sv_has_been_checked :: bool

record service_aggregates =
  sa_num :: int
  sa_num_pending :: int
  sa_soft :: "int list"
  sa_hard :: "int list"
  sa_worst_soft :: int
  sa_worst_hard :: int

definition no_services :: service_aggregates where
  "no_services = \<lparr> sa_num = 0, sa_num_pending = 0, sa_soft = [0, 0, 0, 0], sa_hard = [0, 0, 0, 0],
     sa_worst_soft = 0, sa_worst_hard = 0 \<rparr>"

definition sa_get :: "service_aggregates \<Rightarrow> int \<Rightarrow> int" where
  "sa_get a logictype =
     (let lt = (if 60 \<le> logictype then logictype - 64 else logictype);
          use_hard = (60 \<le> logictype)
      in if lt = -1 then sa_num a
         else if lt = 4 then sa_num_pending a
         else if lt = -2 then (if use_hard then sa_worst_hard a else sa_worst_soft a)
         else if 0 \<le> lt \<and> lt \<le> 3 then (if use_hard then sa_hard a ! nat lt else sa_soft a ! nat lt)
         else 0)"

definition svcStateIsWorse :: "int \<Rightarrow> int \<Rightarrow> bool" where
  "svcStateIsWorse state1 state2 =
     (if state1 = 0 then False
      else if state2 = 0 then True
      else if state2 = 2 then False
      else if state1 = 2 then True
      else state2 < state1)"

definition bump :: "int \<Rightarrow> int list \<Rightarrow> int list" where
  "bump i xs = (if 0 \<le> i \<and> i \<le> 3 then xs[nat i := wrap32 (xs ! nat i + 1)] else xs)"

definition add_service :: "svc_row \<Rightarrow> service_aggregates \<Rightarrow> service_aggregates" where
  "add_service svc a =
     (let a1 = a\<lparr> sa_num := wrap32 (sa_num a + 1) \<rparr>;
          a2 = (if \<not> sv_has_been_checked svc
                then a1\<lparr> sa_num_pending := wrap32 (sa_num_pending a1 + 1) \<rparr>
                else a1\<lparr> sa_soft := bump (sv_current_state svc) (sa_soft a1),
                         sa_hard := bump (sv_last_hard_state svc) (sa_hard a1) \<rparr>);
          a3 = (if svcStateIsWorse (sv_current_state svc) (sa_worst_soft a2)
                then a2\<lparr> sa_worst_soft := sv_current_state svc \<rparr> else a2)
      in if svcStateIsWorse (sv_last_hard_state svc) (sa_worst_hard a3)
         then a3\<lparr> sa_worst_hard := sv_last_hard_state svc \<rparr> else a3)"

fun compute_service_aggregates :: "(svc_row \<Rightarrow> bool) \<Rightarrow> service_aggregates \<Rightarrow> svc_row list \<Rightarrow> service_aggregates" where
  "compute_service_aggregates auth a [] = a"
| "compute_service_aggregates auth a (svc # mem) =
     compute_service_aggregates auth (if auth svc then add_service svc a else a) mem"

text \<open>\<open>Query::serviceAggregates\<close>: the cache lives as long as the query.\<close>

type_synonym service_cache = "nat \<Rightarrow> service_aggregates option"

definition service_aggregates ::
  "(svc_row \<Rightarrow> bool) \<Rightarrow> (nat \<Rightarrow> svc_row list) \<Rightarrow> service_cache \<Rightarrow> nat \<Rightarrow> service_aggregates \<times> service_cache" where
  "service_aggregates auth svcs cache services =
     (case cache services of
        Some a \<Rightarrow> (a, cache)
      | None \<Rightarrow> let a = compute_service_aggregates auth no_services (svcs services)
                in (a, cache(services \<mapsto> a)))"

definition servicelist_state_value ::
  "(svc_row \<Rightarrow> bool) \<Rightarrow> (nat \<Rightarrow> svc_row list) \<Rightarrow> int \<Rightarrow> service_cache \<Rightarrow> nat \<Rightarrow> int \<times> service_cache" where
  "servicelist_state_value auth svcs logictype cache mem =
     (let (a, cache') = service_aggregates auth svcs cache mem in (sa_get a logictype, cache'))"

section \<open>Hosts\<close>

record hst_row =
  hs_current_state :: int
  hs_has_been_checked :: bool
  hs_services :: nat

record host_aggregates =
  ha_num :: int
  ha_num_pending :: int
  ha_up :: int
  ha_down :: int
  ha_unreach :: int
  ha_worst_host :: int

definition no_hosts :: host_aggregates where
  "no_hosts = \<lparr> ha_num = 0, ha_num_pending = 0, ha_up = 0, ha_down = 0, ha_unreach = 0, ha_worst_host = 0 \<rparr>"

abbreviation (input) "HLSC_NUM_HST_UP \<equiv> 10 :: int"
abbreviation (input) "HLSC_NUM_HST_DOWN \<equiv> 11 :: int"
abbreviation (input) "HLSC_NUM_HST_UNREACH \<equiv> 12 :: int"
abbreviation (input) "HLSC_NUM_HST_PENDING \<equiv> 13 :: int"
abbreviation (input) "HLSC_NUM_HST \<equiv> -11 :: int"
abbreviation (input) "HLSC_WORST_HST_STATE \<equiv> -12 :: int"

definition ha_get :: "host_aggregates \<Rightarrow> int \<Rightarrow> int" where
  "ha_get a logictype =
     (if logictype = HLSC_NUM_HST then ha_num a
      else if logictype = HLSC_NUM_HST_PENDING then ha_num_pending a
      else if logictype = HLSC_NUM_HST_UP then ha_up a
      else if logictype = HLSC_NUM_HST_DOWN then ha_down a
      else if logictype = HLSC_NUM_HST_UNREACH then ha_unreach a
      else if logictype = HLSC_WORST_HST_STATE then ha_worst_host a
      else 0)"

definition hst_state_is_worse :: "int \<Rightarrow> int \<Rightarrow> bool" where
  "hst_state_is_worse state1 state2 =
     (if state1 = 0 then False
      else if state2 = 0 then True
      else if state2 = 1 then False
      else if state1 = 1 then True
      else False)"

definition add_host :: "hst_row \<Rightarrow> host_aggregates \<Rightarrow> host_aggregates" where
  "add_host hst a =
     (let a1 = a\<lparr> ha_num := wrap32 (ha_num a + 1) \<rparr>;
          a2 = (if \<not> hs_has_been_checked hst then a1\<lparr> ha_num_pending := wrap32 (ha_num_pending a1 + 1) \<rparr>
                else if hs_current_state hst = 0 then a1\<lparr> ha_up := wrap32 (ha_up a1 + 1) \<rparr>
                else if hs_current_state hst = 1 then a1\<lparr> ha_down := wrap32 (ha_down a1 + 1) \<rparr>
                else if hs_current_state hst = 2 then a1\<lparr> ha_unreach := wrap32 (ha_unreach a1 + 1) \<rparr>
                else a1)
      in if hst_state_is_worse (hs_current_state hst) (ha_worst_host a2)
         then a2\<lparr> ha_worst_host := hs_current_state hst \<rparr> else a2)"

fun compute_host_aggregates :: "(hst_row \<Rightarrow> bool) \<Rightarrow> host_aggregates \<Rightarrow> hst_row list \<Rightarrow> host_aggregates" where
  "compute_host_aggregates auth a [] = a"
| "compute_host_aggregates auth a (hst # mem) =
     compute_host_aggregates auth (if \<not> auth hst then a else add_host hst a) mem"

type_synonym host_cache = "nat \<Rightarrow> host_aggregates option"

definition host_aggregates ::
  "(hst_row \<Rightarrow> bool) \<Rightarrow> (nat \<Rightarrow> hst_row list) \<Rightarrow> host_cache \<Rightarrow> nat \<Rightarrow> host_aggregates \<times> host_cache" where
  "host_aggregates auth hsts cache members =
     (case cache members of
        Some a \<Rightarrow> (a, cache)
      | None \<Rightarrow> let a = compute_host_aggregates auth no_hosts (hsts members)
                in (a, cache(members \<mapsto> a)))"

text \<open>
  \<open>HostlistStateColumn::getValue\<close>: the host columns come from the cached aggregates; the service columns
  walk the hosts with \<open>get_subvalue\<close>, whose switch has no case for the hard variants.
\<close>

definition isHostStateLogicType :: "int \<Rightarrow> bool" where
  "isHostStateLogicType logictype \<longleftrightarrow> logictype \<in> {HLSC_NUM_HST, HLSC_NUM_HST_PENDING, HLSC_NUM_HST_UP,
     HLSC_NUM_HST_DOWN, HLSC_NUM_HST_UNREACH, HLSC_WORST_HST_STATE}"

definition get_subvalue ::
  "(svc_row \<Rightarrow> bool) \<Rightarrow> (nat \<Rightarrow> svc_row list) \<Rightarrow> (hst_row \<Rightarrow> bool) \<Rightarrow> int \<Rightarrow> hst_row \<Rightarrow> int \<times> service_cache \<Rightarrow> int \<times> service_cache" where
  "get_subvalue sauth svcs hauth logictype hst rc =
     (let (result, cache) = rc
      in if \<not> hauth hst then (result, cache)
         else if logictype \<in> {4, 0, 1, 2, 3, -1}
         then let (v, cache') = servicelist_state_value sauth svcs logictype cache (hs_services hst) in (wrap32 (result + v), cache')
         else if logictype = -2
         then let (v, cache') = servicelist_state_value sauth svcs logictype cache (hs_services hst)
              in (if svcStateIsWorse v result then v else result, cache')
         else if logictype \<in> {HLSC_NUM_HST_UP, HLSC_NUM_HST_DOWN, HLSC_NUM_HST_UNREACH}
         then (if hs_has_been_checked hst \<and> hs_current_state hst = logictype - HLSC_NUM_HST_UP then wrap32 (result + 1) else result, cache)
         else if logictype = HLSC_NUM_HST_PENDING then (if \<not> hs_has_been_checked hst then wrap32 (result + 1) else result, cache)
         else if logictype = HLSC_NUM_HST then (wrap32 (result + 1), cache)
         else if logictype = HLSC_WORST_HST_STATE
         then (if hst_state_is_worse (hs_current_state hst) result then hs_current_state hst else result, cache)
         else (result, cache))"

definition hostlist_state_value ::
  "(svc_row \<Rightarrow> bool) \<Rightarrow> (nat \<Rightarrow> svc_row list) \<Rightarrow> (hst_row \<Rightarrow> bool) \<Rightarrow> (nat \<Rightarrow> hst_row list) \<Rightarrow> int \<Rightarrow>
     service_cache \<times> host_cache \<Rightarrow> nat \<Rightarrow> int \<times> service_cache \<times> host_cache" where
  "hostlist_state_value sauth svcs hauth hsts logictype caches mem =
     (let (sc, hc) = caches
      in if isHostStateLogicType logictype
         then let (a, hc') = host_aggregates hauth hsts hc mem in (ha_get a logictype, sc, hc')
         else let (r, sc') = fold (get_subvalue sauth svcs hauth logictype) (hsts mem) (0, sc) in (r, sc', hc))"

section \<open>One traversal computes every column\<close>

lemma length_bump [simp]: "length (bump i xs) = length xs"
  by (simp add: bump_def)

lemma wrap32_add_wrap32 [simp]: "wrap32 (wrap32 x + y) = wrap32 (x + y)" "wrap32 (x + wrap32 y) = wrap32 (x + y)"
proof -
  have "wrap32 (wrap32 x + y) = wrap32 (x + y)" for x y
    by (simp add: wrap32_def mod_simps algebra_simps)
  from this this [of y x] show "wrap32 (wrap32 x + y) = wrap32 (x + y)" "wrap32 (x + wrap32 y) = wrap32 (x + y)"
    by (simp_all add: add.commute)
qed

lemma nth_bump: "length xs = 4 \<Longrightarrow> n < 4 \<Longrightarrow> bump i xs ! n = (if i = int n then wrap32 (xs ! n + 1) else xs ! n)"
  by (auto simp: bump_def nth_list_update)

lemma compute_services_counts:
  assumes "length (sa_soft a) = 4" and "length (sa_hard a) = 4" and "n < 4"
    and "in_int32 (sa_num a)" and "in_int32 (sa_num_pending a)" and "in_int32 (sa_soft a ! n)" and "in_int32 (sa_hard a ! n)"
  shows "sa_num (compute_service_aggregates auth a mem) = wrap32 (sa_num a + int (length (filter auth mem)))"
    and "sa_num_pending (compute_service_aggregates auth a mem) =
      wrap32 (sa_num_pending a + int (length (filter (\<lambda>s. auth s \<and> \<not> sv_has_been_checked s) mem)))"
    and "sa_soft (compute_service_aggregates auth a mem) ! n =
      wrap32 (sa_soft a ! n + int (length (filter (\<lambda>s. auth s \<and> sv_has_been_checked s \<and> sv_current_state s = int n) mem)))"
    and "sa_hard (compute_service_aggregates auth a mem) ! n =
      wrap32 (sa_hard a ! n + int (length (filter (\<lambda>s. auth s \<and> sv_has_been_checked s \<and> sv_last_hard_state s = int n) mem)))"
  using assms by (induction mem arbitrary: a) (simp_all add: add_service_def Let_def nth_bump wrap32_range add.assoc)

text \<open>
  The worst state. The severities of the states are tables of their own: a service is OK, WARNING, UNKNOWN or
  CRITICAL in this order, a host UP, UNREACHABLE or DOWN. The code keeps a running worst with a comparison; what
  it has to know is that on the states of the core the comparison is the one of the severities.
\<close>

definition svc_severity :: "int \<Rightarrow> nat" where
  "svc_severity state = the (map_of [(0, 0), (1, 1), (3, 2), (2, 3)] state)"

definition hst_severity :: "int \<Rightarrow> nat" where
  "hst_severity state = the (map_of [(0, 0), (2, 1), (1, 2)] state)"

locale worse_order =
  fixes worse :: "int \<Rightarrow> int \<Rightarrow> bool" and severity :: "int \<Rightarrow> nat" and states :: "int set"
  assumes worse_severity: "x \<in> states \<Longrightarrow> y \<in> states \<Longrightarrow> worse x y \<longleftrightarrow> severity y < severity x"
begin

lemma running_worst_member: "fold (\<lambda>x w. if worse x w then x else w) xs w0 \<in> insert w0 (set xs)"
proof (induction xs arbitrary: w0)
  case (Cons x xs)
  from Cons [of "if worse x w0 then x else w0"] show ?case by (cases "worse x w0") auto
qed simp

lemma running_worst_max:
  assumes "set xs \<subseteq> states" and "w0 \<in> states"
  shows "\<forall>x \<in> insert w0 (set xs). severity x \<le> severity (fold (\<lambda>x w. if worse x w then x else w) xs w0)"
  using assms
proof (induction xs arbitrary: w0)
  case (Cons x xs)
  define w1 where "w1 = (if worse x w0 then x else w0)"
  from Cons.prems have "w1 \<in> states" "severity w0 \<le> severity w1" "severity x \<le> severity w1"
    by (simp_all add: w1_def worse_severity)
  with Cons.IH [of w1] Cons.prems show ?case by (fastforce simp: w1_def [symmetric])
qed simp

end

interpretation svc_worse: worse_order svcStateIsWorse svc_severity "{0, 1, 2, 3}"
  by unfold_locales (auto simp: svcStateIsWorse_def svc_severity_def)

interpretation hst_worse: worse_order hst_state_is_worse hst_severity "{0, 1, 2}"
  by unfold_locales (auto simp: hst_state_is_worse_def hst_severity_def)

lemma compute_services_worst:
  "sa_worst_soft (compute_service_aggregates auth a mem) =
     fold (\<lambda>x w. if svcStateIsWorse x w then x else w) (map sv_current_state (filter auth mem)) (sa_worst_soft a)"
  "sa_worst_hard (compute_service_aggregates auth a mem) =
     fold (\<lambda>x w. if svcStateIsWorse x w then x else w) (map sv_last_hard_state (filter auth mem)) (sa_worst_hard a)"
  by (induction mem arbitrary: a) (simp_all add: add_service_def Let_def)

lemma add_host_fields:
  "ha_num (add_host h a) = wrap32 (ha_num a + 1)"
  "ha_num_pending (add_host h a) = (if hs_has_been_checked h then ha_num_pending a else wrap32 (ha_num_pending a + 1))"
  "ha_up (add_host h a) = (if hs_has_been_checked h \<and> hs_current_state h = 0 then wrap32 (ha_up a + 1) else ha_up a)"
  "ha_down (add_host h a) = (if hs_has_been_checked h \<and> hs_current_state h = 1 then wrap32 (ha_down a + 1) else ha_down a)"
  "ha_unreach (add_host h a) = (if hs_has_been_checked h \<and> hs_current_state h = 2 then wrap32 (ha_unreach a + 1) else ha_unreach a)"
  "ha_worst_host (add_host h a) =
     (if hst_state_is_worse (hs_current_state h) (ha_worst_host a) then hs_current_state h else ha_worst_host a)"
  by (simp_all add: add_host_def Let_def)

lemma compute_hosts_counts:
  assumes "in_int32 (ha_num a)" "in_int32 (ha_num_pending a)" "in_int32 (ha_up a)" "in_int32 (ha_down a)" "in_int32 (ha_unreach a)"
  shows "ha_num (compute_host_aggregates auth a mem) = wrap32 (ha_num a + int (length (filter auth mem)))"
    and "ha_num_pending (compute_host_aggregates auth a mem) =
     wrap32 (ha_num_pending a + int (length (filter (\<lambda>h. auth h \<and> \<not> hs_has_been_checked h) mem)))"
    and "ha_up (compute_host_aggregates auth a mem) =
     wrap32 (ha_up a + int (length (filter (\<lambda>h. auth h \<and> hs_has_been_checked h \<and> hs_current_state h = 0) mem)))"
    and "ha_down (compute_host_aggregates auth a mem) =
     wrap32 (ha_down a + int (length (filter (\<lambda>h. auth h \<and> hs_has_been_checked h \<and> hs_current_state h = 1) mem)))"
    and "ha_unreach (compute_host_aggregates auth a mem) =
     wrap32 (ha_unreach a + int (length (filter (\<lambda>h. auth h \<and> hs_has_been_checked h \<and> hs_current_state h = 2) mem)))"
    and "ha_worst_host (compute_host_aggregates auth a mem) =
     fold (\<lambda>x w. if hst_state_is_worse x w then x else w) (map hs_current_state (filter auth mem)) (ha_worst_host a)"
  using assms by (induction mem arbitrary: a) (simp_all add: add_host_fields wrap32_range add.assoc)

lemma wrap32_length_filter: "int (length xs) < 2 ^ 31 \<Longrightarrow> wrap32 (int (length (filter P xs))) = int (length (filter P xs))"
  using length_filter_le [of P xs] by (intro wrap32_id) (unfold in_int32_def, linarith)

text \<open>What each column means, stated on the list and without the traversal.\<close>

definition service_column_spec :: "svc_row list \<Rightarrow> int \<Rightarrow> int \<Rightarrow> bool" where
  "service_column_spec vis logictype v \<longleftrightarrow>
     (if logictype = -1 then v = int (length vis)
      else if logictype = 4 then v = int (length (filter (\<lambda>s. \<not> sv_has_been_checked s) vis))
      else if 0 \<le> logictype \<and> logictype \<le> 3
      then v = int (length (filter (\<lambda>s. sv_has_been_checked s \<and> sv_current_state s = logictype) vis))
      else if 64 \<le> logictype \<and> logictype \<le> 67
      then v = int (length (filter (\<lambda>s. sv_has_been_checked s \<and> sv_last_hard_state s = logictype - 64) vis))
      else if logictype = -2
      then v \<in> insert 0 (sv_current_state ` set vis) \<and> (\<forall>s \<in> set vis. svc_severity (sv_current_state s) \<le> svc_severity v)
      else if logictype = 62
      then v \<in> insert 0 (sv_last_hard_state ` set vis) \<and> (\<forall>s \<in> set vis. svc_severity (sv_last_hard_state s) \<le> svc_severity v)
      else False)"

definition service_logictypes :: "int list" where
  "service_logictypes = [-1, 4, 0, 1, 2, 3, -2, 64, 65, 66, 67, 62]"

text \<open>The lists the columns are specified for: an \<open>int32_t\<close> counts them, and their states are states of the core.\<close>

definition service_list_ok :: "svc_row list \<Rightarrow> bool" where
  "service_list_ok vis \<longleftrightarrow> int (length vis) < 2 ^ 31 \<and>
     list_all (\<lambda>s. sv_current_state s \<in> {0, 1, 2, 3} \<and> sv_last_hard_state s \<in> {0, 1, 2, 3}) vis"

definition host_list_ok :: "hst_row list \<Rightarrow> bool" where
  "host_list_ok vis \<longleftrightarrow> int (length vis) < 2 ^ 31 \<and> list_all (\<lambda>h. hs_current_state h \<in> {0, 1, 2}) vis"

lemma service_counts_bounded:
  assumes "int (length (filter auth mem)) < 2 ^ 31"
  shows "sa_num (compute_service_aggregates auth no_services mem) = int (length (filter auth mem))"
    and "sa_num_pending (compute_service_aggregates auth no_services mem) =
      int (length (filter (\<lambda>s. \<not> sv_has_been_checked s) (filter auth mem)))"
    and "n < 4 \<Longrightarrow> sa_soft (compute_service_aggregates auth no_services mem) ! n =
      int (length (filter (\<lambda>s. sv_has_been_checked s \<and> sv_current_state s = int n) (filter auth mem)))"
    and "n < 4 \<Longrightarrow> sa_hard (compute_service_aggregates auth no_services mem) ! n =
      int (length (filter (\<lambda>s. sv_has_been_checked s \<and> sv_last_hard_state s = int n) (filter auth mem)))"
proof -
  have len: "length (sa_soft no_services) = 4" "length (sa_hard no_services) = 4" by (simp_all add: no_services_def)
  have num: "sa_num no_services = 0" "sa_num_pending no_services = 0" by (simp_all add: no_services_def)
  have nth: "sa_soft no_services ! n = 0" "sa_hard no_services ! n = 0" if "n < 4" for n
    using that by (auto simp: no_services_def less_Suc_eq numeral_eq_Suc)
  have z: "in_int32 0" by (simp add: in_int32_def)
  have w: "wrap32 (int (length (filter (\<lambda>s. auth s \<and> P s) mem))) = int (length (filter (\<lambda>s. auth s \<and> P s) mem))" for P
    using wrap32_length_filter [OF assms, of P] by simp
  note counts = compute_services_counts [OF len, of _ auth mem, unfolded num]
  show "sa_num (compute_service_aggregates auth no_services mem) = int (length (filter auth mem))"
    using counts(1) [of 0] nth [of 0] z w [of "\<lambda>_. True"] by simp
  show "sa_num_pending (compute_service_aggregates auth no_services mem) =
      int (length (filter (\<lambda>s. \<not> sv_has_been_checked s) (filter auth mem)))"
    using counts(2) [of 0] nth [of 0] z w by simp
  show "sa_soft (compute_service_aggregates auth no_services mem) ! n =
      int (length (filter (\<lambda>s. sv_has_been_checked s \<and> sv_current_state s = int n) (filter auth mem)))" if "n < 4"
    using counts(3) [OF that] nth [OF that] z w by simp
  show "sa_hard (compute_service_aggregates auth no_services mem) ! n =
      int (length (filter (\<lambda>s. sv_has_been_checked s \<and> sv_last_hard_state s = int n) (filter auth mem)))" if "n < 4"
    using counts(4) [OF that] nth [OF that] z w by simp
qed

lemma service_count_meets_spec:
  assumes "int (length (filter auth mem)) < 2 ^ 31" and "logictype \<in> {-1, 4, 0, 1, 2, 3, 64, 65, 66, 67}"
  shows "service_column_spec (filter auth mem) logictype (sa_get (compute_service_aggregates auth no_services mem) logictype)"
proof -
  note counts = service_counts_bounded [OF assms(1)]
  consider "logictype \<in> {-1, 4}" | n where "logictype = int n" "n < 4" | n where "logictype = 64 + int n" "n < 4"
    using assms(2) by force
  then show ?thesis
  proof cases
    case 1
    with counts show ?thesis by (auto simp: service_column_spec_def sa_get_def)
  next
    case 2
    with counts(3) [of n] show ?thesis by (simp add: service_column_spec_def sa_get_def)
  next
    case 3
    with counts(4) [of n] show ?thesis by (simp add: service_column_spec_def sa_get_def Let_def)
  qed
qed

lemma service_aggregates_meet_spec:
  assumes "logictype \<in> set service_logictypes" and "service_list_ok (filter auth mem)"
  shows "service_column_spec (filter auth mem) logictype (sa_get (compute_service_aggregates auth no_services mem) logictype)"
proof -
  have zero: "sa_worst_soft no_services = 0" "sa_worst_hard no_services = 0" by (simp_all add: no_services_def)
  have st: "set (map sv_current_state (filter auth mem)) \<subseteq> {0, 1, 2, 3}" "set (map sv_last_hard_state (filter auth mem)) \<subseteq> {0, 1, 2, 3}"
    using assms(2) by (auto simp: service_list_ok_def list_all_iff)
  note worst = svc_worse.running_worst_member [where ?w0.0 = 0] svc_worse.running_worst_max [where ?w0.0 = 0]
  consider "logictype = -2" | "logictype = 62" | "logictype \<in> {-1, 4, 0, 1, 2, 3, 64, 65, 66, 67}"
    using assms(1) unfolding service_logictypes_def by force
  then show ?thesis
  proof cases
    case 1
    with worst(1) [of "map sv_current_state (filter auth mem)"] worst(2) [OF st(1)] show ?thesis
      by (simp add: service_column_spec_def sa_get_def compute_services_worst zero Let_def)
  next
    case 2
    with worst(1) [of "map sv_last_hard_state (filter auth mem)"] worst(2) [OF st(2)] show ?thesis
      by (simp add: service_column_spec_def sa_get_def compute_services_worst zero Let_def)
  next
    case 3
    with service_count_meets_spec assms(2) show ?thesis by (simp add: service_list_ok_def)
  qed
qed

definition host_column_spec :: "hst_row list \<Rightarrow> int \<Rightarrow> int \<Rightarrow> bool" where
  "host_column_spec vis logictype v \<longleftrightarrow>
     (if logictype = HLSC_NUM_HST then v = int (length vis)
      else if logictype = HLSC_NUM_HST_PENDING then v = int (length (filter (\<lambda>h. \<not> hs_has_been_checked h) vis))
      else if logictype \<in> {HLSC_NUM_HST_UP, HLSC_NUM_HST_DOWN, HLSC_NUM_HST_UNREACH}
      then v = int (length (filter (\<lambda>h. hs_has_been_checked h \<and> hs_current_state h = logictype - HLSC_NUM_HST_UP) vis))
      else if logictype = HLSC_WORST_HST_STATE
      then v \<in> insert 0 (hs_current_state ` set vis) \<and> (\<forall>h \<in> set vis. hst_severity (hs_current_state h) \<le> hst_severity v)
      else False)"

lemma host_aggregates_meet_spec:
  assumes "isHostStateLogicType logictype" and "host_list_ok (filter auth mem)"
  shows "host_column_spec (filter auth mem) logictype (ha_get (compute_host_aggregates auth no_hosts mem) logictype)"
proof -
  have st: "set (map hs_current_state (filter auth mem)) \<subseteq> {0, 1, 2}" and len: "int (length (filter auth mem)) < 2 ^ 31"
    using assms(2) by (auto simp: host_list_ok_def list_all_iff)
  have w: "wrap32 (int (length (filter (\<lambda>h. auth h \<and> P h) mem))) = int (length (filter (\<lambda>h. auth h \<and> P h) mem))" for P
    using wrap32_length_filter [OF len, of P] by simp
  have "wrap32 (int (length (filter auth mem))) = int (length (filter auth mem))" using w [of "\<lambda>_. True"] by simp
  then show ?thesis
    using assms(1) hst_worse.running_worst_member [where xs = "map hs_current_state (filter auth mem)" and ?w0.0 = 0]
      hst_worse.running_worst_max [OF st, where ?w0.0 = 0]
    unfolding isHostStateLogicType_def
    by (elim insertE emptyE) (simp_all add: host_column_spec_def ha_get_def compute_hosts_counts no_hosts_def in_int32_def w)
qed

section \<open>The caches are transparent\<close>

fun run_lookups :: "('c \<Rightarrow> 'k \<Rightarrow> 'v \<times> 'c) \<Rightarrow> 'c \<Rightarrow> 'k list \<Rightarrow> 'v list \<times> 'c" where
  "run_lookups f c [] = ([], c)"
| "run_lookups f c (k # ks) = (let (v, c1) = f c k; (vs, c2) = run_lookups f c1 ks in (v # vs, c2))"

locale memo =
  fixes lookup :: "'c \<Rightarrow> 'k \<Rightarrow> 'v \<times> 'c"
    and plain :: "'k \<Rightarrow> 'v"
    and valid :: "'c \<Rightarrow> bool"
  assumes lookup_plain: "valid c \<Longrightarrow> fst (lookup c k) = plain k"
    and lookup_valid: "valid c \<Longrightarrow> valid (snd (lookup c k))"
begin

lemma run_lookups_plain: "valid c \<Longrightarrow> fst (run_lookups lookup c ks) = map plain ks \<and> valid (snd (run_lookups lookup c ks))"
proof (induction ks arbitrary: c)
  case (Cons k ks)
  then show ?case using lookup_plain [of c k] lookup_valid [of c k] Cons.IH [of "snd (lookup c k)"]
    by (simp add: case_prod_unfold Let_def)
qed simp

end

definition valid_service_cache :: "(svc_row \<Rightarrow> bool) \<Rightarrow> (nat \<Rightarrow> svc_row list) \<Rightarrow> service_cache \<Rightarrow> bool" where
  "valid_service_cache auth svcs c \<longleftrightarrow>
     (\<forall>p a. c p = Some a \<longrightarrow> a = compute_service_aggregates auth no_services (svcs p))"

definition valid_host_cache :: "(hst_row \<Rightarrow> bool) \<Rightarrow> (nat \<Rightarrow> hst_row list) \<Rightarrow> host_cache \<Rightarrow> bool" where
  "valid_host_cache auth hsts c \<longleftrightarrow> (\<forall>p a. c p = Some a \<longrightarrow> a = compute_host_aggregates auth no_hosts (hsts p))"

lemma service_aggregates_cached:
  assumes "valid_service_cache auth svcs c"
  shows "fst (service_aggregates auth svcs c p) = compute_service_aggregates auth no_services (svcs p)"
    and "valid_service_cache auth svcs (snd (service_aggregates auth svcs c p))"
  using assms by (auto simp: service_aggregates_def valid_service_cache_def Let_def split: option.splits)

interpretation service_memo: memo "\<lambda>c (lt, p). servicelist_state_value auth svcs lt c p"
  "\<lambda>(lt, p). sa_get (compute_service_aggregates auth no_services (svcs p)) lt" "valid_service_cache auth svcs" for auth svcs
  by unfold_locales
    (auto simp: servicelist_state_value_def case_prod_unfold service_aggregates_cached)

lemma host_aggregates_cached:
  assumes "valid_host_cache auth hsts c"
  shows "fst (host_aggregates auth hsts c p) = compute_host_aggregates auth no_hosts (hsts p)"
    and "valid_host_cache auth hsts (snd (host_aggregates auth hsts c p))"
  using assms by (auto simp: host_aggregates_def valid_host_cache_def Let_def split: option.splits)

interpretation host_memo: memo "\<lambda>c (lt, p). let (a, c') = host_aggregates auth hsts c p in (ha_get a lt, c')"
  "\<lambda>(lt, p). ha_get (compute_host_aggregates auth no_hosts (hsts p)) lt" "valid_host_cache auth hsts" for auth hsts
  by unfold_locales (auto simp: case_prod_unfold host_aggregates_cached)

lemma empty_caches: "valid_service_cache auth svcs Map.empty" "valid_host_cache hauth hsts Map.empty"
  by (simp_all add: valid_service_cache_def valid_host_cache_def)

text \<open>
  C18. The service columns of a query: whatever columns of whatever lists a query asks for, in any order and
  sharing the cache, each answer is what the column means, counted on the visible services of its list:
  the total, the pending ones, the checked ones in a soft or hard state, or the worst state, in the order OK,
  WARNING, UNKNOWN, CRITICAL. The lists are such that an \<open>int32_t\<close> counts them and have the states of the core.
\<close>

theorem service_columns_meet_spec:
  assumes "\<forall>(lt, p) \<in> set reqs. lt \<in> set service_logictypes \<and> service_list_ok (filter auth (svcs p))"
  shows "list_all2 (\<lambda>(lt, p) v. service_column_spec (filter auth (svcs p)) lt v) reqs
     (fst (run_lookups (\<lambda>c (lt, p). servicelist_state_value auth svcs lt c p) Map.empty reqs))"
proof -
  have "service_column_spec (filter auth (svcs p)) lt (sa_get (compute_service_aggregates auth no_services (svcs p)) lt)"
    if "(lt, p) \<in> set reqs" for lt p using assms that by (intro service_aggregates_meet_spec) auto
  with service_memo.run_lookups_plain [OF empty_caches(1), of auth svcs reqs] show ?thesis
    by (auto simp: list_all2_map2 list_all2_same)
qed

definition demo_services :: "nat \<Rightarrow> svc_row list" where
  "demo_services p = (if p = 1 then [\<lparr> sv_current_state = 1, sv_last_hard_state = 0, sv_has_been_checked = True \<rparr>,
      \<lparr> sv_current_state = 3, sv_last_hard_state = 2, sv_has_been_checked = True \<rparr>] else [])"

theorem service_columns_meet_spec_witness:
  "list_all2 (\<lambda>(lt, p) v. service_column_spec (filter (\<lambda>s. True) (demo_services p)) lt v) [(-2, 1), (62, 1), (-1, 0), (1, 1)]
     (fst (run_lookups (\<lambda>c (lt, p). servicelist_state_value (\<lambda>s. True) demo_services lt c p) Map.empty
        [(-2, 1), (62, 1), (-1, 0), (1, 1)]))"
  by (rule service_columns_meet_spec) (simp add: service_logictypes_def service_list_ok_def demo_services_def)

text \<open>
  C19. The host columns of host groups likewise mean what they say, through their cache: the total, the pending
  hosts, the checked ones that are up, down or unreachable, and the worst state, in the order UP, UNREACHABLE,
  DOWN.
\<close>

theorem host_columns_meet_spec:
  assumes "\<forall>(lt, p) \<in> set reqs. isHostStateLogicType lt \<and> host_list_ok (filter auth (hsts p))"
  shows "list_all2 (\<lambda>(lt, p) v. host_column_spec (filter auth (hsts p)) lt v) reqs
     (fst (run_lookups (\<lambda>c (lt, p). let (a, c') = host_aggregates auth hsts c p in (ha_get a lt, c')) Map.empty reqs))"
proof -
  have "host_column_spec (filter auth (hsts p)) lt (ha_get (compute_host_aggregates auth no_hosts (hsts p)) lt)"
    if "(lt, p) \<in> set reqs" for lt p using assms that by (intro host_aggregates_meet_spec) auto
  with host_memo.run_lookups_plain [OF empty_caches(2), of auth hsts reqs] show ?thesis
    by (auto simp: list_all2_map2 list_all2_same)
qed

definition demo_hosts :: "nat \<Rightarrow> hst_row list" where
  "demo_hosts p = (if p = 7 then [\<lparr> hs_current_state = 2, hs_has_been_checked = True, hs_services = 1 \<rparr>,
      \<lparr> hs_current_state = 1, hs_has_been_checked = True, hs_services = 0 \<rparr>] else [])"

theorem host_columns_meet_spec_witness:
  "list_all2 (\<lambda>(lt, p) v. host_column_spec (filter (\<lambda>h. True) (demo_hosts p)) lt v) [(-12, 7), (11, 7)]
     (fst (run_lookups (\<lambda>c (lt, p). let (a, c') = host_aggregates (\<lambda>h. True) demo_hosts c p in (ha_get a lt, c')) Map.empty
        [(-12, 7), (11, 7)]))"
  by (rule host_columns_meet_spec) (simp add: isHostStateLogicType_def host_list_ok_def demo_hosts_def)

section \<open>The services of a host group\<close>

lemma get_subvalue_count:
  assumes "valid_service_cache sauth svcs c" and "lt \<in> {4, 0, 1, 2, 3, -1}" and "in_int32 r"
  shows "fst (fold (get_subvalue sauth svcs hauth lt) mem (r, c)) =
     wrap32 (r + sum_list (map (\<lambda>h. sa_get (compute_service_aggregates sauth no_services (svcs (hs_services h))) lt) (filter hauth mem)))"
  using assms(1,3)
proof (induction mem arbitrary: r c)
  case (Cons h mem)
  let ?v = "servicelist_state_value sauth svcs lt c (hs_services h)"
  have v: "fst ?v = sa_get (compute_service_aggregates sauth no_services (svcs (hs_services h))) lt"
    "valid_service_cache sauth svcs (snd ?v)"
    using service_memo.lookup_plain [OF Cons.prems(1), of "(lt, hs_services h)"]
      service_memo.lookup_valid [OF Cons.prems(1), of "(lt, hs_services h)"] by simp_all
  have "get_subvalue sauth svcs hauth lt h (r, c) = (if hauth h then (wrap32 (r + fst ?v), snd ?v) else (r, c))"
    using assms(2) by (auto simp: get_subvalue_def case_prod_unfold Let_def)
  with v Cons.prems Cons.IH [of "snd ?v" "wrap32 (r + fst ?v)"] Cons.IH [of c r] show ?case
    by (simp add: wrap32_range add.assoc)
qed simp

text \<open>The hosts a host group's count is taken of: the services of all of them together are counted in an \<open>int32_t\<close>.\<close>

definition services_of_hosts :: "(svc_row \<Rightarrow> bool) \<Rightarrow> (nat \<Rightarrow> svc_row list) \<Rightarrow> hst_row list \<Rightarrow> svc_row list" where
  "services_of_hosts sauth svcs hosts = concat (map (\<lambda>h. filter sauth (svcs (hs_services h))) hosts)"

lemma service_count_range:
  assumes "service_column_spec vis lt v" and "lt \<in> {4, 0, 1, 2, 3, -1}"
  shows "0 \<le> v \<and> v \<le> int (length vis)"
  using assms by (auto simp: service_column_spec_def split: if_splits)

lemma service_counts_sum:
  assumes "lt \<in> {4, 0, 1, 2, 3, -1}" and "int (length (services_of_hosts sauth svcs hosts)) < 2 ^ 31"
  defines "value_of \<equiv> \<lambda>h. sa_get (compute_service_aggregates sauth no_services (svcs (hs_services h))) lt"
  shows "service_column_spec (services_of_hosts sauth svcs hosts) lt (sum_list (map value_of hosts))"
  using assms(2)
proof (induction hosts)
  case Nil
  show ?case using assms(1) by (auto simp: services_of_hosts_def service_column_spec_def)
next
  case (Cons h hosts)
  have split: "services_of_hosts sauth svcs (h # hosts) = filter sauth (svcs (hs_services h)) @ services_of_hosts sauth svcs hosts"
    by (simp add: services_of_hosts_def)
  have "service_column_spec (filter sauth (svcs (hs_services h))) lt (value_of h)"
    unfolding value_of_def using assms(1) Cons.prems by (intro service_count_meets_spec) (auto simp: split)
  moreover have "service_column_spec (services_of_hosts sauth svcs hosts) lt (sum_list (map value_of hosts))"
    using Cons by (simp add: split)
  ultimately show ?case using assms(1) unfolding split by (auto simp: service_column_spec_def split: if_splits)
qed

text \<open>
  C20. A service count of a host group (pending, a soft state, the total) is the count of the services of all
  its visible hosts together, whatever the query has already cached; and it is the sum of the hosts' own
  counts. The code adds in an \<open>int32_t\<close>: the services of the visible hosts are fewer than 2^31.
\<close>

theorem hostgroup_service_counts_add_up:
  assumes "valid_service_cache sauth svcs sc" and "lt \<in> {4, 0, 1, 2, 3, -1}"
    and "int (length (services_of_hosts sauth svcs (filter hauth (hsts mem)))) < 2 ^ 31"
  shows "let result = fst (hostlist_state_value sauth svcs hauth hsts lt (sc, hc) mem)
     in service_column_spec (services_of_hosts sauth svcs (filter hauth (hsts mem))) lt result \<and>
       result = sum_list (map (\<lambda>h. sa_get (compute_service_aggregates sauth no_services (svcs (hs_services h))) lt)
          (filter hauth (hsts mem)))"
proof -
  have "\<not> isHostStateLogicType lt" using assms(2) by (auto simp: isHostStateLogicType_def)
  with get_subvalue_count [OF assms(1,2), of 0 hauth "hsts mem"]
  have "fst (hostlist_state_value sauth svcs hauth hsts lt (sc, hc) mem) =
      wrap32 (sum_list (map (\<lambda>h. sa_get (compute_service_aggregates sauth no_services (svcs (hs_services h))) lt)
      (filter hauth (hsts mem))))"
    by (simp add: hostlist_state_value_def case_prod_unfold Let_def in_int32_def)
  with service_counts_sum [OF assms(2,3)] service_count_range [OF service_counts_sum [OF assms(2,3)] assms(2)] assms(3)
  show ?thesis by (simp add: in_int32_def Let_def)
qed

theorem hostgroup_service_counts_add_up_witness:
  "fst (hostlist_state_value (\<lambda>s. True) demo_services (\<lambda>h. True) demo_hosts (-1) (Map.empty, Map.empty) 7) = 2"
proof -
  have "length (services_of_hosts (\<lambda>s. True) demo_services (filter (\<lambda>h. True) (demo_hosts 7))) = 2"
    by (simp add: services_of_hosts_def demo_hosts_def demo_services_def)
  with hostgroup_service_counts_add_up [of "\<lambda>s. True" demo_services Map.empty "-1" "\<lambda>h. True" demo_hosts 7 Map.empty]
  show ?thesis by (simp add: empty_caches service_column_spec_def Let_def)
qed

lemma get_subvalue_hard: "lt \<in> {64, 65, 66, 67, 62} \<Longrightarrow> get_subvalue sauth svcs hauth lt h rc = rc"
  by (cases rc, elim insertE emptyE) (simp_all add: get_subvalue_def)

text \<open>
  The hard variants of these columns are never computed: \<open>get_subvalue\<close> has no case for them, and a host
  group's number of services in a hard state, and its worst hard service state, is 0 for every group.
\<close>

theorem hostgroup_hard_service_columns_are_zero:
  assumes "lt \<in> {64, 65, 66, 67, 62}"
  shows "fst (hostlist_state_value sauth svcs hauth hsts lt caches mem) = 0"
proof -
  have "\<not> isHostStateLogicType lt" using assms by (auto simp: isHostStateLogicType_def)
  moreover have "fold (get_subvalue sauth svcs hauth lt) xs rc = rc" for xs and rc :: "int \<times> service_cache"
    by (induction xs) (simp_all add: get_subvalue_hard [OF assms])
  ultimately show ?thesis by (cases caches) (simp add: hostlist_state_value_def)
qed

theorem hostgroup_hard_service_columns_are_zero_witness:
  "fst (hostlist_state_value (\<lambda>s. True) demo_services (\<lambda>h. True) demo_hosts 66 (Map.empty, Map.empty) 7) = 0"
  by (rule hostgroup_hard_service_columns_are_zero) simp

end
