(* ===== verification/Filters.thy ===== *)
theory Filters
  imports Columns Strutil
begin

unbundle bit_operations_syntax

text \<open>
  The filters of a query (\<open>src/*Filter.cc\<close>): one constructor per C++ class, with the fields its
  constructor sets. A filter on a column keeps the column's \<open>getValue\<close> and, where the code looks at it,
  the column's name. \<open>accepts\<close> is the virtual method; \<open>find_time_limits\<close>, \<open>optimize_bitmask\<close> and
  \<open>index_filter\<close> are the methods by which tables narrow their scan before they apply the filter.
  The regular expression library is not part of the sources: a compiled expression is the function
  that says which texts it matches.
\<close>

section \<open>Operators\<close>

abbreviation (input) "OP_INVALID \<equiv> 0 :: int"
abbreviation (input) "OP_EQUAL \<equiv> 1 :: int"
abbreviation (input) "OP_REGEX \<equiv> 2 :: int"
abbreviation (input) "OP_EQUAL_ICASE \<equiv> 3 :: int"
abbreviation (input) "OP_REGEX_ICASE \<equiv> 4 :: int"
abbreviation (input) "OP_GREATER \<equiv> 5 :: int"
abbreviation (input) "OP_LESS \<equiv> 6 :: int"

text \<open>\<open>Query::lookupOperator\<close>: a negated operator is a negative number; \<open>>=\<close> is "not less".\<close>

definition lookupOperator :: "string \<Rightarrow> int" where
  "lookupOperator opname =
     (let negate = (if take 1 opname = ''!'' then -1 else 1);
          opn = (if take 1 opname = ''!'' then drop 1 opname else opname)
      in if opn = ''='' then negate * OP_EQUAL
         else if opn = ''~'' then negate * OP_REGEX
         else if opn = ''=~'' then negate * OP_EQUAL_ICASE
         else if opn = ''~~'' then negate * OP_REGEX_ICASE
         else if opn = ''>'' then negate * OP_GREATER
         else if opn = ''<'' then negate * OP_LESS
         else if opn = ''>='' then - negate * OP_LESS
         else if opn = ''<='' then - negate * OP_GREATER
         else negate * OP_INVALID)"

section \<open>Filters and what they accept\<close>

datatype 'r filter =
    StringColumnFilter string "'r \<Rightarrow> string" string int bool "(string \<Rightarrow> bool) option"
  | IntColumnFilter string "'r \<Rightarrow> int" int bool string
  | DoubleColumnFilter "'r \<Rightarrow> real" real int bool
  | TimeColumnFilter string "'r \<Rightarrow> int" int bool int
  | TimeValColumnFilter "'r \<Rightarrow> int \<times> int" int bool "int \<times> int"
  | AttributelistFilter "'r \<Rightarrow> 64 word" int bool "64 word"
  | ListColumnFilter string "'r \<Rightarrow> (nat \<times> string) list option" "nat option" int bool
  | HostlistColumnFilter "'r \<Rightarrow> host_member list" int string
  | ServicelistColumnFilter "'r \<Rightarrow> svc_member list" int string string bool
  | CustomVarsFilter "string \<Rightarrow> 'r \<Rightarrow> string option" int bool string string "(string \<Rightarrow> bool) option"
  | CustomVarsListFilter "'r \<Rightarrow> string \<Rightarrow> bool" int bool string
  | StructFilter "'r \<Rightarrow> bool"
  | EmptyFilter bool
  | AndingFilter "'r filter list"
  | OringFilter "'r filter list"
  | NegatingFilter "'r filter"

text \<open>Each \<open>accepts\<close> compares, with \<open>pass\<close> still true for an operator it does not know, and negates.\<close>

definition string_accepts :: "string \<Rightarrow> int \<Rightarrow> bool \<Rightarrow> (string \<Rightarrow> bool) option \<Rightarrow> string \<Rightarrow> bool" where
  "string_accepts ref opid negate regex act =
     ((if opid = OP_EQUAL then ref = act
       else if opid = OP_EQUAL_ICASE then strcasecmp ref act = 0
       else if opid = OP_REGEX \<or> opid = OP_REGEX_ICASE
       then (case regex of None \<Rightarrow> False | Some m \<Rightarrow> m act)
       else if opid = OP_GREATER then strcmp ref act < 0
       else if opid = OP_LESS then 0 < strcmp ref act
       else True) \<noteq> negate)"

definition int_accepts :: "int \<Rightarrow> bool \<Rightarrow> int \<Rightarrow> int \<Rightarrow> bool" where
  "int_accepts opid negate ref act =
     ((if opid = OP_EQUAL then act = ref
       else if opid = OP_GREATER then ref < act
       else if opid = OP_LESS then act < ref
       else True) \<noteq> negate)"

definition double_accepts :: "real \<Rightarrow> int \<Rightarrow> bool \<Rightarrow> real \<Rightarrow> bool" where
  "double_accepts ref opid negate act =
     ((if opid = OP_EQUAL then act = ref
       else if opid = OP_GREATER then ref < act
       else if opid = OP_LESS then act < ref
       else True) \<noteq> negate)"

definition time_accepts :: "int \<Rightarrow> bool \<Rightarrow> int \<Rightarrow> int \<Rightarrow> bool" where
  "time_accepts opid negate ref act =
     ((if opid = OP_EQUAL then act = ref
       else if opid = OP_GREATER then ref < act
       else if opid = OP_LESS then act < ref
       else True) \<noteq> negate)"

fun timeval_accepts :: "int \<Rightarrow> bool \<Rightarrow> int \<times> int \<Rightarrow> int \<times> int \<Rightarrow> bool" where
  "timeval_accepts opid negate (rs, ru) (s, u) =
     ((if opid = OP_EQUAL then s = rs \<and> u = ru
       else if opid = OP_GREATER then rs < s \<or> s = rs \<and> ru < u
       else if opid = OP_LESS then s < rs \<or> s = rs \<and> u < ru
       else True) \<noteq> negate)"

definition attr_accepts :: "int \<Rightarrow> bool \<Rightarrow> 64 word \<Rightarrow> 64 word \<Rightarrow> bool" where
  "attr_accepts opid negate ref act =
     ((if opid = OP_EQUAL then act = ref
       else if opid = OP_GREATER then ref < act
       else if opid = OP_LESS then act < ref
       else if opid = OP_REGEX then act AND ref = ref
       else if opid = OP_REGEX_ICASE then act AND ref \<noteq> 0
       else True) \<noteq> negate)"

text \<open>
  List membership: the reference is the object a name was looked up to, \<open>None\<close> for the null pointer of an
  unknown name, of which no list is a member.
\<close>

definition is_member :: "nat option \<Rightarrow> (nat \<times> string) list \<Rightarrow> bool" where
  "is_member ref ms = (case ref of None \<Rightarrow> False | Some m \<Rightarrow> m \<in> fst ` set ms)"

definition list_accepts :: "nat option \<Rightarrow> int \<Rightarrow> bool \<Rightarrow> (nat \<times> string) list option \<Rightarrow> bool" where
  "list_accepts ref opid empty_ref data =
     (case data of
        None \<Rightarrow> False
      | Some ms \<Rightarrow>
          if opid = - OP_LESS then is_member ref ms
          else if opid = OP_LESS then \<not> is_member ref ms
          else if opid = OP_EQUAL \<or> opid = - OP_EQUAL
          then (if empty_ref then (ms = []) = (opid = OP_EQUAL) else False)
          else True)"

text \<open>The same filter for a class whose members and emptiness are its own: the row has been followed to its object, and a null one is rejected before.\<close>

definition list_test :: "int \<Rightarrow> string \<Rightarrow> bool \<Rightarrow> bool \<Rightarrow> bool" where
  "list_test opid text is_mem is_empty =
     (if opid = - OP_LESS then is_mem
      else if opid = OP_LESS then \<not> is_mem
      else if opid = OP_EQUAL \<or> opid = - OP_EQUAL
      then (if text = [] then is_empty = (opid = OP_EQUAL) else False)
      else True)"

text \<open>
  The host list is a tree keyed by host name; the service list filter looks for a member with the
  reference's description and, when the column shows hosts, its host name.
\<close>

definition hostlist_accepts :: "int \<Rightarrow> string \<Rightarrow> host_member list \<Rightarrow> bool" where
  "hostlist_accepts opid ref mem =
     (if (opid = OP_EQUAL \<or> opid = - OP_EQUAL) \<and> ref = [] then (mem = []) = (opid = OP_EQUAL)
      else if opid = - OP_LESS then list_ex (\<lambda>m. hm_name m = ref) mem
      else if opid = OP_LESS then \<not> list_ex (\<lambda>m. hm_name m = ref) mem
      else True)"

definition servicelist_accepts :: "int \<Rightarrow> string \<Rightarrow> string \<Rightarrow> bool \<Rightarrow> svc_member list \<Rightarrow> bool" where
  "servicelist_accepts opid ref_host ref_service show_host mem =
     (if (opid = OP_EQUAL \<or> opid = - OP_EQUAL) \<and> ref_host = [] then (mem = []) = (opid = OP_EQUAL)
      else let is_mem = list_ex (\<lambda>m. (\<not> show_host \<or> sm_host_name m = ref_host) \<and> sm_description m = ref_service) mem
           in if opid = - OP_LESS then is_mem
              else if opid = OP_LESS then \<not> is_mem
              else True)"

text \<open>A missing variable compares as the empty text.\<close>

definition cv_list_accepts :: "int \<Rightarrow> bool \<Rightarrow> bool \<Rightarrow> bool" where
  "cv_list_accepts opid negate is_mem = (if opid = OP_LESS then (\<not> is_mem) = (\<not> negate) else True)"

fun accepts :: "'r filter \<Rightarrow> 'r \<Rightarrow> bool" where
  "accepts (StringColumnFilter _ g ref opid negate regex) x = string_accepts ref opid negate regex (g x)"
| "accepts (IntColumnFilter _ g opid negate ref) x = int_accepts opid negate (atoi ref) (g x)"
| "accepts (DoubleColumnFilter g ref opid negate) x = double_accepts ref opid negate (g x)"
| "accepts (TimeColumnFilter _ g opid negate ref) x = time_accepts opid negate ref (g x)"
| "accepts (TimeValColumnFilter g opid negate ref) x = timeval_accepts opid negate ref (g x)"
| "accepts (AttributelistFilter g opid negate ref) x = attr_accepts opid negate ref (g x)"
| "accepts (ListColumnFilter _ g ref opid empty_ref) x = list_accepts ref opid empty_ref (g x)"
| "accepts (HostlistColumnFilter g opid ref) x = hostlist_accepts opid ref (g x)"
| "accepts (ServicelistColumnFilter g opid ref_host ref_service show_host) x =
     servicelist_accepts opid ref_host ref_service show_host (g x)"
| "accepts (CustomVarsFilter g opid negate varname ref regex) x =
     string_accepts ref opid negate regex (case g varname x of None \<Rightarrow> [] | Some v \<Rightarrow> v)"
| "accepts (CustomVarsListFilter g opid negate ref) x = cv_list_accepts opid negate (g x ref)"
| "accepts (StructFilter t) x = t x"
| "accepts (EmptyFilter negate) x = (False \<noteq> negate)"
| "accepts (AndingFilter fs) x = list_all (\<lambda>f. accepts f x) fs"
| "accepts (OringFilter fs) x = list_ex (\<lambda>f. accepts f x) fs"
| "accepts (NegatingFilter f) x = (\<not> accepts f x)"

section \<open>How a column makes a filter\<close>

text \<open>
  \<open>createFilter\<close> of the column classes and the constructors of the filters. A text filter compiles its
  expression (\<open>regcomp\<close>, with the flag for ignoring case) and keeps an error message when it cannot.
\<close>

definition compile_regex ::
  "(bool \<Rightarrow> string \<Rightarrow> (string \<Rightarrow> bool) option) \<Rightarrow> int \<Rightarrow> string \<Rightarrow> string \<Rightarrow> (string \<Rightarrow> bool) option \<times> string option" where
  "compile_regex regcomp opid pattern text =
     (if opid = OP_REGEX \<or> opid = OP_REGEX_ICASE
      then if CHR ''{'' \<in> set pattern \<or> CHR ''}'' \<in> set pattern
           then (None, Some (take 8190 (''disallowed regular expression '' @ [CHR 0x27] @ text @ [CHR 0x27] @ '': must not contain { or }'')))
           else (case regcomp (opid = OP_REGEX_ICASE) pattern of
                   None \<Rightarrow> (None, Some (take 8190 (''invalid regular expression '' @ [CHR 0x27] @ text @ [CHR 0x27])))
                 | Some m \<Rightarrow> (Some m, None))
      else (None, None))"

text \<open>
  The names of the attribute list; the bit of each is a constant of the core's headers, here \<open>bits\<close>.
  A reference is a number or a comma-separated list of names, unknown ones ignored.
\<close>

definition al_names :: "string list" where
  "al_names = [''notifications_enabled'', ''active_checks_enabled'', ''passive_checks_enabled'',
     ''event_handler_enabled'', ''flap_detection_enabled'', ''failure_prediction_enabled'',
     ''performance_data_enabled'', ''obsessive_handler_enabled'', ''event_handler_command'',
     ''check_command'', ''normal_check_interval'', ''retry_check_interval'', ''max_check_attempts'',
     ''freshness_checks_enabled'', ''check_timeperiod'', ''custom_variable'', ''notification_timeperiod'']"

definition attr_ref :: "(string \<Rightarrow> 64 word) \<Rightarrow> string \<Rightarrow> 64 word" where
  "attr_ref bits text =
     (if text \<noteq> [] \<and> c_isdigit (hd text) then word_of_int (fst (strtoul text))
      else fold (\<lambda>t ref. if t \<in> set al_names then ref OR bits t else ref) (tokens (CHR '','') text) 0)"

text \<open>
  \<open>str2timeval\<close>. A text that does not begin with a number is \<open>0\<close>; \<open>strtoul\<close> reads the digits after the
  point as a number of microseconds.
\<close>

definition str2timeval :: "string \<Rightarrow> int \<times> int" where
  "str2timeval s =
     (let (sec, ptr) = strtoul s
      in if ptr = s then (0, 0)
         else (wrap64 sec,
               if take 1 ptr = ''.'' \<or> take 1 ptr = '','' then wrap64 (fst (strtoul (drop 1 ptr))) else 0))"

text \<open>
  \<open>TimeColumnFilter\<close> and \<open>TimeValColumnFilter\<close> convert their reference in the constructor, when \<open>_query\<close>
  is still null, so no \<open>Localtime\<close> offset is subtracted. The service list reference is split at the
  separator \<open>|\<close>; the reference for custom variables at the first white space.
\<close>

definition servicelist_ref :: "bool \<Rightarrow> int \<Rightarrow> string \<Rightarrow> string \<times> string" where
  "servicelist_ref show_host opid text =
     (if \<bar>opid\<bar> = OP_EQUAL \<and> text = [] then ([], [])
      else if \<not> show_host then ([], text)
      else if CHR ''|'' \<notin> set text then ([], [])
      else (takeWhile (\<lambda>c. c \<noteq> CHR ''|'') text, drop 1 (dropWhile (\<lambda>c. c \<noteq> CHR ''|'') text)))"

text \<open>
  \<open>uninit\<close> is the \<open>_negate\<close> of an \<open>EmptyFilter\<close>, which its constructor does not set.
\<close>

record filter_env =
  regcomp :: "bool \<Rightarrow> string \<Rightarrow> (string \<Rightarrow> bool) option"
  modattr_bits :: "string \<Rightarrow> 64 word"
  hidden_prefix :: string
  uninit_negate :: bool

definition demo_env :: filter_env where
  "demo_env = \<lparr> regcomp = \<lambda>icase p. if p = [] then None else Some (\<lambda>t. t = p), modattr_bits = \<lambda>n. 1,
     hidden_prefix = ''_'', uninit_negate = False \<rparr>"

fun create_filter :: "filter_env \<Rightarrow> 'r column \<Rightarrow> int \<Rightarrow> string \<Rightarrow> 'r filter \<times> string option" where
  "create_filter env (StringColumn n g) opid text =
     (let (regex, err) = compile_regex (regcomp env) \<bar>opid\<bar> text text
      in (StringColumnFilter n g text \<bar>opid\<bar> (opid < 0) regex, err))"
| "create_filter env (MacroColumn n g _) opid text =
     (let (regex, err) = compile_regex (regcomp env) \<bar>opid\<bar> text text
      in (StringColumnFilter n g text \<bar>opid\<bar> (opid < 0) regex, err))"
| "create_filter env (IntColumn n g) opid text = (IntColumnFilter n g \<bar>opid\<bar> (opid < 0) text, None)"
| "create_filter env (DoubleColumn n g) opid text = (DoubleColumnFilter g (atof text) \<bar>opid\<bar> (opid < 0), None)"
| "create_filter env (TimeColumn n g) opid text = (TimeColumnFilter n g \<bar>opid\<bar> (opid < 0) (atoi text), None)"
| "create_filter env (TimeValColumn n g) opid text = (TimeValColumnFilter g \<bar>opid\<bar> (opid < 0) (str2timeval text), None)"
| "create_filter env (AttributelistColumn n show_list g) opid text =
     (AttributelistFilter g \<bar>opid\<bar> (opid < 0) (attr_ref (modattr_bits env) text), None)"
| "create_filter env (ListColumn n lookup g) opid text = (ListColumnFilter n g (lookup text) opid (text = []), None)"
| "create_filter env (HostlistColumn n show_state g) opid text = (HostlistColumnFilter g opid text, None)"
| "create_filter env (ServicelistColumn n show_host info g) opid text =
     (let (rh, rs) = servicelist_ref show_host opid text
      in (ServicelistColumnFilter g opid rh rs show_host, None))"
| "create_filter env (CustomVarsColumn n what g) opid text =
     (if what = CVT_DICT
      then let varname = takeWhile (\<lambda>c. \<not> c_isspace c) text;
               ref = dropWhile c_isspace (dropWhile (\<lambda>c. \<not> c_isspace c) text);
               (regex, err) = compile_regex (regcomp env) \<bar>opid\<bar> ref text
           in (CustomVarsFilter (\<lambda>v x. getVariable (hidden_prefix env) (g x) v) \<bar>opid\<bar> (opid < 0) varname ref regex, err)
      else (CustomVarsListFilter (\<lambda>x. cv_contains (hidden_prefix env) what (g x)) \<bar>opid\<bar> (opid < 0) text, None))"
| "create_filter env (StructColumn n ty test shown) opid text =
     (case test of None \<Rightarrow> (OringFilter [], Some []) | Some m \<Rightarrow> (StructFilter (m opid text), None))"
| "create_filter env (EmptyColumn n) opid text = (EmptyFilter (uninit_negate env), None)"

text \<open>A column that makes no filter at all (\<open>createFilter\<close> answers null); the query asks this before it looks for an error.\<close>

fun makes_no_filter :: "'r column \<Rightarrow> bool" where
  "makes_no_filter (StructColumn n ty test shown) = (test = None)"
| "makes_no_filter _ = False"

lemma no_error_makes_filter: "snd (create_filter env c opid text) = None \<Longrightarrow> \<not> makes_no_filter c"
  by (cases c) (auto split: option.splits)

section \<open>The stack of filters\<close>

text \<open>
  A query collects its filters in an \<open>AndingFilter\<close>, used as a stack whose top is the end of the deque.
  \<open>combine_filters\<close> takes the top \<open>count\<close> filters (in the order they are popped) into one; with fewer on
  the stack it sets an error, with the two numbers its message holds.
\<close>

definition add_subfilter :: "'r filter \<Rightarrow> 'r filter list \<Rightarrow> 'r filter list" where
  "add_subfilter f fs = fs @ [f]"

definition steal_last_subfilter :: "'r filter list \<Rightarrow> ('r filter \<times> 'r filter list) option" where
  "steal_last_subfilter fs = (if fs = [] then None else Some (last fs, butlast fs))"

datatype andor = ANDOR_OR | ANDOR_AND

fun pop_filters :: "nat \<Rightarrow> 'r filter list \<Rightarrow> 'r filter list \<Rightarrow> 'r filter list \<times> 'r filter list" where
  "pop_filters 0 acc fs = (acc, fs)"
| "pop_filters (Suc n) acc fs = pop_filters n (acc @ [last fs]) (butlast fs)"

definition combine_filters :: "int \<Rightarrow> andor \<Rightarrow> 'r filter list \<Rightarrow> (int \<times> nat) + 'r filter list" where
  "combine_filters count ao fs =
     (if int (length fs) < count then Inl (count, length fs)
      else let (popped, rest) = pop_filters (nat count) [] fs
           in Inr (add_subfilter (case ao of ANDOR_AND \<Rightarrow> AndingFilter popped | ANDOR_OR \<Rightarrow> OringFilter popped) rest))"

section \<open>Narrowing a scan\<close>

text \<open>\<open>TimeColumnFilter::findTimeLimits\<close> shrinks the half-open interval \<open>[lower, upper)\<close>.\<close>

definition time_limits :: "int \<Rightarrow> bool \<Rightarrow> int \<Rightarrow> int \<times> int \<Rightarrow> int \<times> int" where
  "time_limits opid negate ref lu =
     (let (lower, upper) = lu; opref = (if negate then - opid else opid)
      in if upper \<le> lower then (lower, upper)
         else if opref = OP_EQUAL
         then (if lower \<le> ref \<and> ref < upper then (ref, ref + 1) else (upper, upper))
         else if opref = - OP_EQUAL
         then (if ref = lower then (lower + 1, upper)
               else if ref = upper - 1 then (lower, upper - 1) else (lower, upper))
         else if opref = OP_GREATER then (if lower \<le> ref then (ref + 1, upper) else (lower, upper))
         else if opref = OP_LESS then (if ref < upper then (lower, ref) else (lower, upper))
         else if opref = - OP_GREATER then (if ref < upper - 1 then (lower, ref + 1) else (lower, upper))
         else if opref = - OP_LESS then (if lower < ref then (ref, upper) else (lower, upper))
         else (lower, upper))"

text \<open>
  \<open>OringFilter\<close> is a subclass of \<open>AndingFilter\<close> and does not override \<open>findTimeLimits\<close>: it narrows by
  every subfilter in turn, as \<open>AndingFilter\<close> does. The base class leaves the interval alone.
\<close>

fun find_time_limits :: "'r filter \<Rightarrow> string \<Rightarrow> int \<times> int \<Rightarrow> int \<times> int" where
  "find_time_limits (TimeColumnFilter n _ opid negate ref) col lu =
     (if n \<noteq> col then lu else time_limits opid negate ref lu)"
| "find_time_limits (AndingFilter fs) col lu = fold (\<lambda>f. find_time_limits f col) fs lu"
| "find_time_limits (OringFilter fs) col lu = fold (\<lambda>f. find_time_limits f col) fs lu"
| "find_time_limits _ col lu = lu"

text \<open>
  \<open>IntColumnFilter::optimizeBitmask\<close> clears in a mask the bits of the values the filter rejects. Its two
  loops run \<open>bit\<close> down until it is 0 and up until it is the top bit; the second has no other exit, so its
  iterations are counted (33 are more than the 32 bits allow), and \<open>None\<close> is a loop that did not end.
\<close>

fun clear_down :: "nat \<Rightarrow> 32 word \<Rightarrow> 32 word \<Rightarrow> 32 word option" where
  "clear_down 0 b msk = None"
| "clear_down (Suc n) b msk =
     (if b = 0 then Some msk else clear_down n (drop_bit 1 b) (msk AND NOT b))"

fun clear_up :: "nat \<Rightarrow> 32 word \<Rightarrow> 32 word \<Rightarrow> 32 word option" where
  "clear_up 0 b msk = None"
| "clear_up (Suc n) b msk =
     (let msk' = msk AND NOT b
      in if b = 0x80000000 then Some msk' else clear_up n (push_bit 1 b) msk')"

definition bit32 :: "nat \<Rightarrow> 32 word" where
  "bit32 n = push_bit n 1"

definition int_bitmask :: "int \<Rightarrow> bool \<Rightarrow> int \<Rightarrow> 32 word \<Rightarrow> (bool \<times> 32 word) option" where
  "int_bitmask opid negate ref msk =
     (if ref < 0 \<or> 31 < ref then Some (True, msk)
      else let b = bit32 (nat ref);
               opref = (if negate then - opid else opid)
           in if opref = OP_EQUAL then Some (True, msk AND b)
              else if opref = - OP_EQUAL then Some (True, msk AND NOT b)
              else if opref = - OP_LESS then map_option (Pair True) (clear_down 33 (drop_bit 1 b) msk)
              else if opref = OP_GREATER then map_option (Pair True) (clear_down 33 b msk)
              else if opref = - OP_GREATER
              then (if ref = 31 then Some (True, msk) else map_option (Pair True) (clear_up 33 (push_bit 1 b) msk))
              else if opref = OP_LESS then map_option (Pair True) (clear_up 33 b msk)
              else Some (False, msk))"

text \<open>
  A conjunction optimises by each subfilter in turn; a disjunction only if all of its subfilters can, and
  then by the union of what they leave of the full msk.
\<close>

fun optimize_bitmask :: "'r filter \<Rightarrow> string \<Rightarrow> 32 word \<Rightarrow> (bool \<times> 32 word) option"
  and and_bitmask :: "'r filter list \<Rightarrow> string \<Rightarrow> bool \<Rightarrow> 32 word \<Rightarrow> (bool \<times> 32 word) option"
  and or_bitmask :: "'r filter list \<Rightarrow> string \<Rightarrow> 32 word \<Rightarrow> 32 word \<Rightarrow> (bool \<times> 32 word) option" where
  "optimize_bitmask (IntColumnFilter n _ opid negate ref) col msk =
     (if col \<noteq> n then Some (False, msk) else int_bitmask opid negate (atoi ref) msk)"
| "optimize_bitmask (AndingFilter fs) col msk = and_bitmask fs col False msk"
| "optimize_bitmask (OringFilter fs) col msk = or_bitmask fs col 0 msk"
| "optimize_bitmask _ col msk = Some (False, msk)"
| "and_bitmask [] col optimized msk = Some (optimized, msk)"
| "and_bitmask (f # fs) col optimized msk =
     (case optimize_bitmask f col msk of
        None \<Rightarrow> None
      | Some (o', msk') \<Rightarrow> and_bitmask fs col (o' \<or> optimized) msk')"
| "or_bitmask [] col m msk = Some (True, msk AND m)"
| "or_bitmask (f # fs) col m msk =
     (case optimize_bitmask f col 0xFFFFFFFF of
        None \<Rightarrow> None
      | Some (False, _) \<Rightarrow> Some (False, msk)
      | Some (True, mm) \<Rightarrow> or_bitmask fs col (m OR mm) msk)"

text \<open>
  \<open>indexFilter\<close>: the reference a table can look its rows up by, a text or an object (a null object is no
  index). A string filter answers for \<open>OP_EQUAL\<close> whether or not it is negated.
\<close>

datatype index_ref = IndexString string | IndexObject nat

fun index_filter :: "'r filter \<Rightarrow> string \<Rightarrow> index_ref option" where
  "index_filter (StringColumnFilter n _ ref opid negate _) col =
     (if opid = OP_EQUAL \<and> col = n then Some (IndexString ref) else None)"
| "index_filter (ListColumnFilter n _ ref opid _) col =
     (if opid = - OP_LESS \<and> col = n then map_option IndexObject ref else None)"
| "index_filter _ col = None"

fun find_index_filter :: "'r filter list \<Rightarrow> string \<Rightarrow> index_ref option" where
  "find_index_filter [] col = None"
| "find_index_filter (f # fs) col =
     (case index_filter f col of Some r \<Rightarrow> Some r | None \<Rightarrow> find_index_filter fs col)"

section \<open>The operators\<close>

definition ref_compare :: "'r column \<Rightarrow> string \<Rightarrow> 'r \<Rightarrow> int option" where
  "ref_compare c text x =
     (case c of
        IntColumn _ g \<Rightarrow> Some (int_compare (g x) (atoi text))
      | DoubleColumn _ g \<Rightarrow> Some (double_compare (g x) (atof text))
      | StringColumn _ g \<Rightarrow> Some (strcmp (g x) text)
      | MacroColumn _ g _ \<Rightarrow> Some (strcmp (g x) text)
      | TimeColumn _ g \<Rightarrow> Some (int_compare (g x) (atoi text))
      | TimeValColumn _ g \<Rightarrow> Some (timeval_compare (g x) (str2timeval text))
      | _ \<Rightarrow> None)"

definition relation_of :: "string \<Rightarrow> int \<Rightarrow> bool option" where
  "relation_of opr k =
     (if opr = ''='' then Some (k = 0)
      else if opr = ''!='' then Some (k \<noteq> 0)
      else if opr = ''<'' \<or> opr = ''!>='' then Some (k < 0)
      else if opr = ''>'' \<or> opr = ''!<='' then Some (0 < k)
      else if opr = ''<='' \<or> opr = ''!>'' then Some (k \<le> 0)
      else if opr = ''>='' \<or> opr = ''!<'' then Some (0 \<le> k)
      else None)"

lemma lookup_comparisons:
  "lookupOperator ''='' = 1" "lookupOperator ''!='' = -1" "lookupOperator ''<'' = 6" "lookupOperator ''>'' = 5"
  "lookupOperator ''<='' = -5" "lookupOperator ''>='' = -6" "lookupOperator ''!<'' = -6" "lookupOperator ''!>'' = -5"
  "lookupOperator ''!<='' = 5" "lookupOperator ''!>='' = 6"
  by (simp_all add: lookupOperator_def)

lemma relation_cases:
  assumes "relation_of opr k = Some b"
  obtains "lookupOperator opr = 1" "b = (k = 0)" | "lookupOperator opr = -1" "b = (k \<noteq> 0)"
    | "lookupOperator opr = 6" "b = (k < 0)" | "lookupOperator opr = 5" "b = (0 < k)"
    | "lookupOperator opr = -5" "b = (k \<le> 0)" | "lookupOperator opr = -6" "b = (0 \<le> k)"
proof -
  consider "opr = ''=''" | "opr = ''!=''" | "opr = ''<''" | "opr = ''!>=''" | "opr = ''>''" | "opr = ''!<=''"
    | "opr = ''<=''" | "opr = ''!>''" | "opr = ''>=''" | "opr = ''!<''"
    using assms unfolding relation_of_def by (metis option.distinct(1))
  then show thesis
    by cases (use assms that in \<open>simp_all add: relation_of_def lookup_comparisons\<close>)
qed

lemma int_accepts_cmp:
  "relation_of opr (int_compare act ref) = Some b \<Longrightarrow>
     int_accepts \<bar>lookupOperator opr\<bar> (lookupOperator opr < 0) ref act = b"
  by (erule relation_cases) (auto simp: int_accepts_def int_compare_def)

lemma time_accepts_int: "time_accepts = int_accepts"
  by (intro ext) (simp add: time_accepts_def int_accepts_def)

lemma double_accepts_cmp:
  "relation_of opr (double_compare act ref) = Some b \<Longrightarrow>
     double_accepts ref \<bar>lookupOperator opr\<bar> (lookupOperator opr < 0) act = b"
  by (erule relation_cases) (auto simp: double_accepts_def double_compare_def)

lemma timeval_accepts_cmp:
  "relation_of opr (timeval_compare act ref) = Some b \<Longrightarrow>
     timeval_accepts \<bar>lookupOperator opr\<bar> (lookupOperator opr < 0) ref act = b"
  by (erule relation_cases; cases ref; cases act) auto

lemma string_accepts_cmp:
  assumes "relation_of opr (strcmp act ref) = Some b"
  shows "string_accepts ref \<bar>lookupOperator opr\<bar> (lookupOperator opr < 0) regex act = b"
proof -
  have "strcmp ref act = - strcmp act ref" by (rule strcmp_sym)
  then have "strcmp ref act < 0 \<longleftrightarrow> 0 < strcmp act ref" "0 < strcmp ref act \<longleftrightarrow> strcmp act ref < 0" by linarith+
  with assms show ?thesis
    by (elim relation_cases) (auto simp: string_accepts_def)
qed



section \<open>And, Or, Negate\<close>

lemma pop_filters_eq:
  "n \<le> length fs \<Longrightarrow> pop_filters n acc fs = (acc @ rev (drop (length fs - n) fs), take (length fs - n) fs)"
proof (induction n arbitrary: acc fs)
  case (Suc n)
  then obtain gs g where fs: "fs = gs @ [g]" by (cases fs rule: rev_cases) auto
  with Suc show ?case by simp
qed simp

lemma list_all_take_drop: "list_all P xs \<longleftrightarrow> list_all P (take n xs) \<and> list_all P (drop n xs)"
  by (metis append_take_drop_id list_all_append)

lemma combine_filters_stack:
  assumes "0 \<le> count"
  shows "combine_filters count ao fs =
      (if int (length fs) < count then Inl (count, length fs)
       else Inr (take (length fs - nat count) fs @
              [(case ao of ANDOR_AND \<Rightarrow> AndingFilter | ANDOR_OR \<Rightarrow> OringFilter) (rev (drop (length fs - nat count) fs))]))"
  using assms by (auto simp: combine_filters_def add_subfilter_def pop_filters_eq nat_le_iff split: andor.splits)

text \<open>
  An \<open>And\<close> or \<open>Or\<close> of the last filters: with fewer on the stack than asked for it is an error that
  holds both numbers and the stack stays as it was; otherwise exactly that many leave the stack, in the
  order they are popped, and one filter over them enters; the rest is untouched.
\<close>

theorem and_or_headers_combine_the_last_filters:
  assumes "0 \<le> count"
  shows "combine_filters count ao fs =
      (if int (length fs) < count then Inl (count, length fs)
       else Inr (take (length fs - nat count) fs @
              [(case ao of ANDOR_AND \<Rightarrow> AndingFilter | ANDOR_OR \<Rightarrow> OringFilter) (rev (drop (length fs - nat count) fs))]))"
  by (rule combine_filters_stack [OF assms])

theorem and_or_headers_combine_the_last_filters_witness:
  "combine_filters 2 ANDOR_OR [EmptyFilter True, EmptyFilter False, NegatingFilter (EmptyFilter True)] =
     (Inr [EmptyFilter True, OringFilter [NegatingFilter (EmptyFilter True), EmptyFilter False]]
        :: (int \<times> nat) + unit filter list)"
  by (subst and_or_headers_combine_the_last_filters) simp_all

text \<open>
  C16. What the combination accepts: an \<open>And\<close> never changes the rows the whole stack accepts, and an \<open>Or\<close>
  asks for the rest of the stack and one of the last \<open>count\<close> filters (none at all, when \<open>count\<close> is 0).
\<close>

theorem combined_filters_accept:
  assumes "0 \<le> count" and "combine_filters count ao fs = Inr fs'"
  shows "accepts (AndingFilter fs') x =
     (case ao of
        ANDOR_AND \<Rightarrow> accepts (AndingFilter fs) x
      | ANDOR_OR \<Rightarrow> accepts (AndingFilter (take (length fs - nat count) fs)) x \<and>
                    accepts (OringFilter (drop (length fs - nat count) fs)) x)"
proof -
  let ?n = "length fs - nat count"
  have "fs' = take ?n fs @ [(case ao of ANDOR_AND \<Rightarrow> AndingFilter | ANDOR_OR \<Rightarrow> OringFilter) (rev (drop ?n fs))]"
    using combine_filters_stack [OF assms(1), of ao fs] assms(2) by (auto split: if_splits)
  then show ?thesis
    using list_all_take_drop [of "\<lambda>f. accepts f x" fs ?n]
    by (cases ao) (simp_all add: list_all_iff list_ex_iff conj_commute)
qed

theorem combined_filters_accept_witness:
  "accepts (AndingFilter [EmptyFilter True, OringFilter [EmptyFilter True, EmptyFilter False]]) () =
     (accepts (AndingFilter (take 1 [EmptyFilter True, EmptyFilter False, EmptyFilter True])) () \<and>
      accepts (OringFilter (drop 1 [EmptyFilter True, EmptyFilter False, EmptyFilter True])) ())"
  using combined_filters_accept [where count = 2 and ao = ANDOR_OR and x = "()"
      and fs = "[EmptyFilter True, EmptyFilter False, EmptyFilter True]"
      and fs' = "[EmptyFilter True, OringFilter [EmptyFilter True, EmptyFilter False]]"]
  by (simp add: combine_filters_def add_subfilter_def numeral_2_eq_2)

end
