(* ===== verification/Aggregators.thy ===== *)
theory Aggregators
  imports Filters
begin

text \<open>
  The statistics of a query (\<open>src/StatsColumn.cc\<close> and the aggregators): an aggregator consumes the rows of
  a group one by one and outputs one value. A \<open>double\<close> is a real number, an infinity or not a number;
  its arithmetic is exact, rounding is not part of the model. The counter is a \<open>uint32_t\<close>, the sum of
  integers an \<open>int64_t\<close>, both with their wrap-around.
\<close>

section \<open>Doubles\<close>

datatype dbl = Fin real | Pos_inf | Neg_inf | Not_a_number

fun dadd :: "dbl \<Rightarrow> dbl \<Rightarrow> dbl" where
  "dadd (Fin a) (Fin b) = Fin (a + b)"
| "dadd Not_a_number y = Not_a_number"
| "dadd x Not_a_number = Not_a_number"
| "dadd Pos_inf Neg_inf = Not_a_number"
| "dadd Neg_inf Pos_inf = Not_a_number"
| "dadd Pos_inf y = Pos_inf"
| "dadd Neg_inf y = Neg_inf"
| "dadd (Fin a) Pos_inf = Pos_inf"
| "dadd (Fin a) Neg_inf = Neg_inf"

fun dneg :: "dbl \<Rightarrow> dbl" where
  "dneg (Fin a) = Fin (- a)"
| "dneg Pos_inf = Neg_inf"
| "dneg Neg_inf = Pos_inf"
| "dneg Not_a_number = Not_a_number"

definition signed_inf :: "bool \<Rightarrow> dbl" where
  "signed_inf neg = (if neg then Neg_inf else Pos_inf)"

fun dmul :: "dbl \<Rightarrow> dbl \<Rightarrow> dbl" where
  "dmul (Fin a) (Fin b) = Fin (a * b)"
| "dmul Not_a_number y = Not_a_number"
| "dmul x Not_a_number = Not_a_number"
| "dmul (Fin a) y = (if a = 0 then Not_a_number else signed_inf ((a < 0) \<noteq> (y = Neg_inf)))"
| "dmul x (Fin b) = (if b = 0 then Not_a_number else signed_inf ((b < 0) \<noteq> (x = Neg_inf)))"
| "dmul x y = signed_inf (x \<noteq> y)"

text \<open>Every zero is \<open>+0.0\<close>: the sign of a zero is not kept.\<close>

fun ddiv :: "dbl \<Rightarrow> dbl \<Rightarrow> dbl" where
  "ddiv (Fin a) (Fin b) =
     (if b \<noteq> 0 then Fin (a / b) else if a = 0 then Not_a_number else signed_inf (a < 0))"
| "ddiv Not_a_number y = Not_a_number"
| "ddiv x Not_a_number = Not_a_number"
| "ddiv (Fin a) y = Fin 0"
| "ddiv x (Fin b) = signed_inf ((b < 0) \<noteq> (x = Neg_inf))"
| "ddiv x y = Not_a_number"

fun dsqrt :: "dbl \<Rightarrow> dbl" where
  "dsqrt (Fin a) = (if a < 0 then Not_a_number else Fin (sqrt a))"
| "dsqrt Pos_inf = Pos_inf"
| "dsqrt _ = Not_a_number"

fun dless :: "dbl \<Rightarrow> dbl \<Rightarrow> bool" where
  "dless (Fin a) (Fin b) = (a < b)"
| "dless (Fin a) y = (y = Pos_inf)"
| "dless Neg_inf y = (y \<noteq> Neg_inf \<and> y \<noteq> Not_a_number)"
| "dless _ y = False"

text \<open>
  The conversion to \<open>int64_t\<close> truncates; what does not fit, which the standard leaves undefined, is the
  least number, as the processor's conversion gives it.
\<close>

definition to_int64 :: "dbl \<Rightarrow> int" where
  "to_int64 d =
     (case d of
        Fin x \<Rightarrow> (let t = (if x < 0 then - \<lfloor>- x\<rfloor> else \<lfloor>x\<rfloor>) in if in_int64 t then t else - (2 ^ 63))
      | _ \<Rightarrow> - (2 ^ 63))"

section \<open>The model\<close>

datatype stats_op =
    STATS_OP_COUNT | STATS_OP_SUM | STATS_OP_MIN | STATS_OP_MAX | STATS_OP_AVG | STATS_OP_STD
  | STATS_OP_SUMINV | STATS_OP_AVGINV

datatype out_value = Out_int32 int | Out_int64 int | Out_double dbl | Out_string string

definition next_count :: "int \<Rightarrow> int" where
  "next_count n = (n + 1) mod 2 ^ 32"

subsection \<open>Integers\<close>

record int_agg =
  ia_count :: int
  ia_aggr :: int
  ia_sumq :: dbl

definition new_int_agg :: int_agg where
  "new_int_agg = \<lparr> ia_count = 0, ia_aggr = 0, ia_sumq = Fin 0 \<rparr>"

definition int_consume :: "stats_op \<Rightarrow> int \<Rightarrow> int_agg \<Rightarrow> int_agg" where
  "int_consume opr v a0 =
     (let a = a0\<lparr> ia_count := next_count (ia_count a0) \<rparr>
      in case opr of
           STATS_OP_SUM \<Rightarrow> a\<lparr> ia_aggr := wrap64 (ia_aggr a + v) \<rparr>
         | STATS_OP_AVG \<Rightarrow> a\<lparr> ia_aggr := wrap64 (ia_aggr a + v) \<rparr>
         | STATS_OP_SUMINV \<Rightarrow> a\<lparr> ia_sumq := dadd (ia_sumq a) (ddiv (Fin 1) (Fin (real_of_int v))) \<rparr>
         | STATS_OP_AVGINV \<Rightarrow> a\<lparr> ia_sumq := dadd (ia_sumq a) (ddiv (Fin 1) (Fin (real_of_int v))) \<rparr>
         | STATS_OP_MIN \<Rightarrow> (if ia_count a = 1 then a\<lparr> ia_aggr := v \<rparr> else if v < ia_aggr a then a\<lparr> ia_aggr := v \<rparr> else a)
         | STATS_OP_MAX \<Rightarrow> (if ia_count a = 1 then a\<lparr> ia_aggr := v \<rparr> else if ia_aggr a < v then a\<lparr> ia_aggr := v \<rparr> else a)
         | STATS_OP_STD \<Rightarrow> a\<lparr> ia_aggr := wrap64 (ia_aggr a + v),
             ia_sumq := dadd (ia_sumq a) (dmul (Fin (real_of_int v)) (Fin (real_of_int v))) \<rparr>
         | STATS_OP_COUNT \<Rightarrow> a)"

definition std_of :: "dbl \<Rightarrow> dbl \<Rightarrow> int \<Rightarrow> dbl" where
  "std_of sumq aggr count =
     dsqrt (ddiv (dadd sumq (dneg (ddiv (dmul aggr aggr) (Fin (real_of_int count))))) (Fin (real_of_int (count - 1))))"

definition int_output :: "stats_op \<Rightarrow> int_agg \<Rightarrow> out_value option" where
  "int_output opr a =
     (case opr of
        STATS_OP_SUM \<Rightarrow> Some (Out_int64 (ia_aggr a))
      | STATS_OP_MIN \<Rightarrow> Some (Out_int64 (ia_aggr a))
      | STATS_OP_MAX \<Rightarrow> Some (Out_int64 (ia_aggr a))
      | STATS_OP_SUMINV \<Rightarrow> Some (Out_int64 (to_int64 (ia_sumq a)))
      | STATS_OP_AVG \<Rightarrow> Some (Out_double (ddiv (Fin (real_of_int (ia_aggr a))) (Fin (real_of_int (ia_count a)))))
      | STATS_OP_AVGINV \<Rightarrow> Some (Out_int64 (to_int64 (ddiv (ia_sumq a) (Fin (real_of_int (ia_count a))))))
      | STATS_OP_STD \<Rightarrow>
          Some (Out_double (if ia_count a \<le> 1 then Fin 0 else std_of (ia_sumq a) (Fin (real_of_int (ia_aggr a))) (ia_count a)))
      | STATS_OP_COUNT \<Rightarrow> None)"

subsection \<open>Doubles\<close>

record double_agg =
  da_count :: int
  da_aggr :: dbl
  da_sumq :: dbl

definition new_double_agg :: double_agg where
  "new_double_agg = \<lparr> da_count = 0, da_aggr = Fin 0, da_sumq = Fin 0 \<rparr>"

definition double_consume :: "stats_op \<Rightarrow> dbl \<Rightarrow> double_agg \<Rightarrow> double_agg" where
  "double_consume opr v a0 =
     (let a = a0\<lparr> da_count := next_count (da_count a0) \<rparr>
      in case opr of
           STATS_OP_SUM \<Rightarrow> a\<lparr> da_aggr := dadd (da_aggr a) v \<rparr>
         | STATS_OP_AVG \<Rightarrow> a\<lparr> da_aggr := dadd (da_aggr a) v \<rparr>
         | STATS_OP_MIN \<Rightarrow> (if da_count a = 1 then a\<lparr> da_aggr := v \<rparr> else if dless v (da_aggr a) then a\<lparr> da_aggr := v \<rparr> else a)
         | STATS_OP_MAX \<Rightarrow> (if da_count a = 1 then a\<lparr> da_aggr := v \<rparr> else if dless (da_aggr a) v then a\<lparr> da_aggr := v \<rparr> else a)
         | STATS_OP_STD \<Rightarrow> a\<lparr> da_aggr := dadd (da_aggr a) v, da_sumq := dadd (da_sumq a) (dmul v v) \<rparr>
         | STATS_OP_SUMINV \<Rightarrow> a\<lparr> da_aggr := dadd (da_aggr a) (ddiv (Fin 1) v) \<rparr>
         | STATS_OP_AVGINV \<Rightarrow> a\<lparr> da_aggr := dadd (da_aggr a) (ddiv (Fin 1) v) \<rparr>
         | STATS_OP_COUNT \<Rightarrow> a)"

definition double_output :: "stats_op \<Rightarrow> double_agg \<Rightarrow> out_value option" where
  "double_output opr a =
     (case opr of
        STATS_OP_SUM \<Rightarrow> Some (Out_double (da_aggr a))
      | STATS_OP_MIN \<Rightarrow> Some (Out_double (da_aggr a))
      | STATS_OP_MAX \<Rightarrow> Some (Out_double (da_aggr a))
      | STATS_OP_SUMINV \<Rightarrow> Some (Out_double (da_aggr a))
      | STATS_OP_AVG \<Rightarrow> Some (Out_double (if da_count a = 0 then Fin 0 else ddiv (da_aggr a) (Fin (real_of_int (da_count a)))))
      | STATS_OP_AVGINV \<Rightarrow> Some (Out_double (if da_count a = 0 then Fin 0 else ddiv (da_aggr a) (Fin (real_of_int (da_count a)))))
      | STATS_OP_STD \<Rightarrow>
          Some (Out_double (if da_count a \<le> 1 then Fin 0 else std_of (da_sumq a) (da_aggr a) (da_count a)))
      | STATS_OP_COUNT \<Rightarrow> None)"

subsection \<open>Performance data\<close>

text \<open>
  A text of fields \<open>name=number\<close>; the number is the digits and dots after the first equal sign. The
  variables are kept in the order of the bytes of their names, as \<open>std::map\<close> does.
\<close>

record perf_aggr =
  pa_aggr :: dbl
  pa_count :: int
  pa_sumq :: dbl

definition new_perf_aggr :: "dbl \<Rightarrow> perf_aggr" where
  "new_perf_aggr v = \<lparr> pa_aggr = v, pa_count = 1, pa_sumq = dmul v v \<rparr>"

definition perf_step :: "stats_op \<Rightarrow> dbl \<Rightarrow> perf_aggr \<Rightarrow> perf_aggr" where
  "perf_step opr v a0 =
     (let a = a0\<lparr> pa_count := pa_count a0 + 1 \<rparr>
      in case opr of
           STATS_OP_SUM \<Rightarrow> a\<lparr> pa_aggr := dadd (pa_aggr a) v \<rparr>
         | STATS_OP_AVG \<Rightarrow> a\<lparr> pa_aggr := dadd (pa_aggr a) v \<rparr>
         | STATS_OP_SUMINV \<Rightarrow> a\<lparr> pa_aggr := dadd (pa_aggr a) (ddiv (Fin 1) v) \<rparr>
         | STATS_OP_AVGINV \<Rightarrow> a\<lparr> pa_aggr := dadd (pa_aggr a) (ddiv (Fin 1) v) \<rparr>
         | STATS_OP_MIN \<Rightarrow> (if dless v (pa_aggr a) then a\<lparr> pa_aggr := v \<rparr> else a)
         | STATS_OP_MAX \<Rightarrow> (if dless (pa_aggr a) v then a\<lparr> pa_aggr := v \<rparr> else a)
         | STATS_OP_STD \<Rightarrow> a\<lparr> pa_aggr := dadd (pa_aggr a) v, pa_sumq := dadd (pa_sumq a) (dmul v v) \<rparr>
         | STATS_OP_COUNT \<Rightarrow> a)"

fun consume_variable :: "stats_op \<Rightarrow> string \<Rightarrow> dbl \<Rightarrow> (string \<times> perf_aggr) list \<Rightarrow> (string \<times> perf_aggr) list" where
  "consume_variable opr varname v [] = [(varname, new_perf_aggr v)]"
| "consume_variable opr varname v ((k, a) # m) =
     (if strcmp varname k = 0 then (k, perf_step opr v a) # m
      else if strcmp varname k < 0 then (varname, new_perf_aggr v) # (k, a) # m
      else (k, a) # consume_variable opr varname v m)"

definition perf_entry :: "string \<Rightarrow> (string \<times> real) option" where
  "perf_entry entry =
     (let varname = takeWhile (\<lambda>c. c \<noteq> CHR ''='') entry;
          rest = dropWhile (\<lambda>c. c \<noteq> CHR ''='') entry
      in if rest = [] then None
         else let number = takeWhile (\<lambda>c. c_isdigit c \<or> c = CHR ''.'') (drop 1 rest)
              in if number = [] then None else Some (varname, atof number))"

definition perf_consume :: "stats_op \<Rightarrow> string \<Rightarrow> (string \<times> perf_aggr) list \<Rightarrow> (string \<times> perf_aggr) list" where
  "perf_consume opr perf_data m =
     fold (\<lambda>entry m. case perf_entry entry of None \<Rightarrow> m | Some (n, v) \<Rightarrow> consume_variable opr n (Fin v) m) (Strutil.fields perf_data) m"

definition perf_value :: "stats_op \<Rightarrow> perf_aggr \<Rightarrow> dbl" where
  "perf_value opr a =
     (case opr of
        STATS_OP_AVG \<Rightarrow> (if pa_count a = 0 then Fin 0 else ddiv (pa_aggr a) (Fin (real_of_int (pa_count a))))
      | STATS_OP_AVGINV \<Rightarrow> (if pa_count a = 0 then Fin 0 else ddiv (pa_aggr a) (Fin (real_of_int (pa_count a))))
      | STATS_OP_STD \<Rightarrow> (if pa_count a \<le> 1 then Fin 0 else std_of (pa_sumq a) (pa_aggr a) (pa_count a))
      | _ \<Rightarrow> pa_aggr a)"

text \<open>\<open>fmt8\<close> is \<open>"%.8f"\<close>; each entry is printed into 64 bytes, which holds 63 of its characters.\<close>

fun perf_output :: "(dbl \<Rightarrow> string) \<Rightarrow> stats_op \<Rightarrow> (string \<times> perf_aggr) list \<Rightarrow> string" where
  "perf_output fmt8 opr [] = []"
| "perf_output fmt8 opr [(n, a)] = take 63 (n @ ''='' @ fmt8 (perf_value opr a))"
| "perf_output fmt8 opr ((n, a) # m) = take 63 (n @ ''='' @ fmt8 (perf_value opr a)) @ '' '' @ perf_output fmt8 opr m"

subsection \<open>Aggregators and stats columns\<close>

datatype 'r aggregator =
    CountAggregator "'r filter option" int
  | IntAggregator "'r \<Rightarrow> int" stats_op int_agg
  | DoubleAggregator "'r \<Rightarrow> real" stats_op double_agg
  | PerfdataAggregator "'r \<Rightarrow> string" stats_op "(string \<times> perf_aggr) list"

fun aggr_consume :: "'r \<Rightarrow> 'r aggregator \<Rightarrow> 'r aggregator" where
  "aggr_consume x (CountAggregator f n) =
     CountAggregator f (if (case f of None \<Rightarrow> True | Some g \<Rightarrow> accepts g x) then next_count n else n)"
| "aggr_consume x (IntAggregator g opr a) = IntAggregator g opr (int_consume opr (g x) a)"
| "aggr_consume x (DoubleAggregator g opr a) = DoubleAggregator g opr (double_consume opr (Fin (g x)) a)"
| "aggr_consume x (PerfdataAggregator g opr m) = PerfdataAggregator g opr (perf_consume opr (g x) m)"

fun aggr_output :: "(dbl \<Rightarrow> string) \<Rightarrow> 'r aggregator \<Rightarrow> out_value option" where
  "aggr_output fmt8 (CountAggregator f n) = Some (Out_int32 (wrap32 n))"
| "aggr_output fmt8 (IntAggregator g opr a) = int_output opr a"
| "aggr_output fmt8 (DoubleAggregator g opr a) = double_output opr a"
| "aggr_output fmt8 (PerfdataAggregator g opr m) = Some (Out_string (perf_output fmt8 opr m))"

text \<open>
  \<open>StatsColumn::createAggregator\<close>. Every column of type integer is read as an \<open>IntColumn\<close>, so a time is cut
  to 32 bits. \<open>None\<close> is undefined behaviour: a text column with a name shorter than \<open>"perf_data"\<close>, whose end
  \<open>ends_with\<close> looks for before its beginning, and a dummy column read as a text column.
\<close>

record 'r stats_column =
  sc_column :: "'r column option"
  sc_filter :: "'r filter option"
  sc_operation :: stats_op

fun column_int32 :: "'r column \<Rightarrow> 'r \<Rightarrow> int" where
  "column_int32 (IntColumn _ g) x = g x"
| "column_int32 (TimeColumn _ g) x = wrap32 (g x)"
| "column_int32 (TimeValColumn _ g) x = wrap32 (fst (g x))"
| "column_int32 (AttributelistColumn _ _ g) x = attr_int (g x)"
| "column_int32 _ x = 0"

text \<open>
  The aggregators of numbers cast the column to the class its type suggests; a column of another class with such a type is
  called through the wrong table of methods, which is undefined.
\<close>

fun casts_wrongly :: "'r column \<Rightarrow> bool" where
  "casts_wrongly (StructColumn _ ty _ _) = (ty = COLTYPE_INT \<or> ty = COLTYPE_TIME \<or> ty = COLTYPE_DOUBLE)"
| "casts_wrongly _ = False"

definition create_aggregator :: "'r stats_column \<Rightarrow> 'r aggregator option" where
  "create_aggregator sc =
     (if sc_operation sc = STATS_OP_COUNT then Some (CountAggregator (sc_filter sc) 0)
      else case sc_column sc of
             None \<Rightarrow> None
           | Some c \<Rightarrow>
               (if casts_wrongly c then None
                else if column_type c = COLTYPE_INT \<or> column_type c = COLTYPE_TIME
                then Some (IntAggregator (column_int32 c) (sc_operation sc) new_int_agg)
                else case c of
                       DoubleColumn _ g \<Rightarrow> Some (DoubleAggregator g (sc_operation sc) new_double_agg)
                     | StringColumn n g \<Rightarrow>
                         (case ends_with n ''perf_data'' of
                            None \<Rightarrow> None
                          | Some True \<Rightarrow> Some (PerfdataAggregator g (sc_operation sc) [])
                          | Some False \<Rightarrow> Some (CountAggregator (sc_filter sc) 0))
                     | MacroColumn n g _ \<Rightarrow>
                         (case ends_with n ''perf_data'' of
                            None \<Rightarrow> None
                          | Some True \<Rightarrow> Some (PerfdataAggregator g (sc_operation sc) [])
                          | Some False \<Rightarrow> Some (CountAggregator (sc_filter sc) 0))
                     | EmptyColumn n \<Rightarrow>
                         (case ends_with n ''perf_data'' of
                            Some False \<Rightarrow> Some (CountAggregator (sc_filter sc) 0) | _ \<Rightarrow> None)
                     | _ \<Rightarrow> Some (CountAggregator (sc_filter sc) 0)))"

section \<open>What the statistics are\<close>

text \<open>
  The contract of an aggregator: a summary relates its state to the values consumed, in order; it holds of
  the new aggregator and no values, and each consumed value adds itself to it.
\<close>

locale summary =
  fixes consume :: "'v \<Rightarrow> 's \<Rightarrow> 's"
    and fresh :: 's
    and summarises :: "'s \<Rightarrow> 'v list \<Rightarrow> bool"
  assumes fresh_summary: "summarises fresh []"
    and consume_summary: "summarises s vs \<Longrightarrow> summarises (consume v s) (vs @ [v])"
begin

lemma fold_summary: "summarises (fold consume vs fresh) vs"
proof (induction vs rule: rev_induct)
  case (snoc v vs)
  then show ?case by (simp add: consume_summary)
qed (simp add: fresh_summary)

end

definition int_summary :: "stats_op \<Rightarrow> int_agg \<Rightarrow> int list \<Rightarrow> bool" where
  "int_summary opr a vs \<longleftrightarrow>
     ia_count a = int (length vs) mod 2 ^ 32 \<and>
     (opr \<in> {STATS_OP_SUM, STATS_OP_AVG, STATS_OP_STD} \<longrightarrow> ia_aggr a = wrap64 (sum_list vs)) \<and>
     (opr = STATS_OP_STD \<longrightarrow> ia_sumq a = Fin (\<Sum>v\<leftarrow>vs. (real_of_int v)\<^sup>2)) \<and>
     (opr = STATS_OP_MIN \<and> vs \<noteq> [] \<and> length vs < 2 ^ 32 \<longrightarrow> ia_aggr a = Min (set vs)) \<and>
     (opr = STATS_OP_MAX \<and> vs \<noteq> [] \<and> length vs < 2 ^ 32 \<longrightarrow> ia_aggr a = Max (set vs))"

lemma next_count_length: "next_count (int n mod 2 ^ 32) = int (Suc n) mod 2 ^ 32"
  unfolding next_count_def of_nat_Suc add.commute [of 1] by (rule mod_add_left_eq)

lemma wrap64_add: "wrap64 (wrap64 a + b) = wrap64 (a + b)"
proof -
  have "(a + 2 ^ 63) mod 2 ^ 64 - 2 ^ 63 + b + 2 ^ 63 = (a + 2 ^ 63) mod 2 ^ 64 + b" by simp
  then show ?thesis unfolding wrap64_def
    by (simp only: mod_add_left_eq) (simp only: add.assoc add.commute [of b])
qed

lemma int_consume_count: "ia_count (int_consume opr v s) = next_count (ia_count s)"
  by (cases opr) (simp_all add: int_consume_def Let_def)

lemma int_consume_aggr:
  "ia_aggr (int_consume STATS_OP_MIN v s) = (if next_count (ia_count s) = 1 then v else min v (ia_aggr s))"
  "ia_aggr (int_consume STATS_OP_MAX v s) = (if next_count (ia_count s) = 1 then v else max v (ia_aggr s))"
  by (auto simp: int_consume_def Let_def min_def max_def)

lemma double_consume_count: "da_count (double_consume opr v s) = next_count (da_count s)"
  by (cases opr) (simp_all add: double_consume_def Let_def)

lemma double_consume_aggr:
  "da_aggr s = Fin w \<Longrightarrow> da_aggr (double_consume STATS_OP_MIN (Fin v) s) = Fin (if next_count (da_count s) = 1 then v else min v w)"
  "da_aggr s = Fin w \<Longrightarrow> da_aggr (double_consume STATS_OP_MAX (Fin v) s) = Fin (if next_count (da_count s) = 1 then v else max v w)"
  "next_count (da_count s) = 1 \<Longrightarrow> da_aggr (double_consume STATS_OP_MIN x s) = x"
  "next_count (da_count s) = 1 \<Longrightarrow> da_aggr (double_consume STATS_OP_MAX x s) = x"
  by (auto simp: double_consume_def Let_def min_def max_def)

interpretation int_summary: summary "int_consume opr" new_int_agg "int_summary opr" for opr
proof unfold_locales
  show "int_summary opr new_int_agg []"
    by (simp add: int_summary_def new_int_agg_def in_int64_def)
next
  fix s vs v
  assume s: "int_summary opr s vs"
  have count: "next_count (ia_count s) = int (length (vs @ [v])) mod 2 ^ 32"
    using s next_count_length [of "length vs"] by (simp add: int_summary_def)
  have first: "next_count (ia_count s) = 1 \<longleftrightarrow> vs = []" if "length (vs @ [v]) < 2 ^ 32"
    using that count by (auto simp: mod_pos_pos_trivial)
  show "int_summary opr (int_consume opr v s) (vs @ [v])"
  proof (cases opr)
    case STATS_OP_MIN
    with s count first show ?thesis
      by (auto simp: int_summary_def int_consume_aggr int_consume_count)
  next
    case STATS_OP_MAX
    with s count first show ?thesis
      by (auto simp: int_summary_def int_consume_aggr int_consume_count)
  qed (use s count in \<open>simp_all add: int_summary_def int_consume_def Let_def wrap64_add power2_eq_square\<close>)
qed

definition double_summary :: "stats_op \<Rightarrow> double_agg \<Rightarrow> real list \<Rightarrow> bool" where
  "double_summary opr a vs \<longleftrightarrow>
     da_count a = int (length vs) mod 2 ^ 32 \<and>
     (opr \<in> {STATS_OP_SUM, STATS_OP_AVG, STATS_OP_STD} \<longrightarrow> da_aggr a = Fin (sum_list vs)) \<and>
     (opr = STATS_OP_STD \<longrightarrow> da_sumq a = Fin (\<Sum>v\<leftarrow>vs. v\<^sup>2)) \<and>
     (opr \<in> {STATS_OP_SUMINV, STATS_OP_AVGINV} \<and> 0 \<notin> set vs \<longrightarrow> da_aggr a = Fin (\<Sum>v\<leftarrow>vs. 1 / v)) \<and>
     (opr = STATS_OP_MIN \<and> vs \<noteq> [] \<and> length vs < 2 ^ 32 \<longrightarrow> da_aggr a = Fin (Min (set vs))) \<and>
     (opr = STATS_OP_MAX \<and> vs \<noteq> [] \<and> length vs < 2 ^ 32 \<longrightarrow> da_aggr a = Fin (Max (set vs)))"

interpretation double_summary: summary "\<lambda>v. double_consume opr (Fin v)" new_double_agg "double_summary opr" for opr
proof unfold_locales
  show "double_summary opr new_double_agg []"
    by (simp add: double_summary_def new_double_agg_def)
next
  fix s vs v
  assume s: "double_summary opr s vs"
  have count: "next_count (da_count s) = int (length (vs @ [v])) mod 2 ^ 32"
    using s next_count_length [of "length vs"] by (simp add: double_summary_def)
  have first: "next_count (da_count s) = 1 \<longleftrightarrow> vs = []" if "length (vs @ [v]) < 2 ^ 32"
    using that count by (auto simp: mod_pos_pos_trivial)
  show "double_summary opr (double_consume opr (Fin v) s) (vs @ [v])"
  proof (cases opr)
    case STATS_OP_MIN
    with s count first show ?thesis
      by (auto simp: double_summary_def double_consume_aggr double_consume_count)
  next
    case STATS_OP_MAX
    with s count first show ?thesis
      by (auto simp: double_summary_def double_consume_aggr double_consume_count)
  qed (use s count in \<open>auto simp: double_summary_def double_consume_def Let_def power2_eq_square\<close>)
qed

text \<open>The formula of the code for the standard deviation is the mean-free one.\<close>

lemma sum_squared_deviations:
  fixes vs :: "real list"
  assumes "vs \<noteq> []"
  defines "m \<equiv> sum_list vs / real (length vs)"
  shows "(\<Sum>v\<leftarrow>vs. (v - m)\<^sup>2) = (\<Sum>v\<leftarrow>vs. v\<^sup>2) - (sum_list vs)\<^sup>2 / real (length vs)"
proof -
  have gen: "(\<Sum>v\<leftarrow>us. (v - c)\<^sup>2) = (\<Sum>v\<leftarrow>us. v\<^sup>2) - 2 * c * sum_list us + real (length us) * c\<^sup>2" for us c
    by (induction us) (simp_all add: power2_eq_square algebra_simps)
  have n: "real (length vs) \<noteq> 0" using assms(1) by simp
  show ?thesis unfolding gen m_def using n by (simp add: power2_eq_square field_simps)
qed

lemma std_of_list:
  fixes vs :: "real list"
  assumes "2 \<le> length vs"
  shows "std_of (Fin (\<Sum>v\<leftarrow>vs. v\<^sup>2)) (Fin (sum_list vs)) (int (length vs)) =
     Fin (sqrt ((\<Sum>v\<leftarrow>vs. (v - sum_list vs / real (length vs))\<^sup>2) / (real (length vs) - 1)))"
proof -
  have ne: "vs \<noteq> []" and n: "real (length vs) \<noteq> 0" "real (length vs) - 1 \<noteq> 0" "1 < real (length vs)" using assms by auto
  have "0 \<le> (\<Sum>v\<leftarrow>vs. (v - sum_list vs / real (length vs))\<^sup>2)"
    by (rule sum_list_nonneg) auto
  then have nn: "0 \<le> ((\<Sum>v\<leftarrow>vs. v\<^sup>2) - (sum_list vs)\<^sup>2 / real (length vs)) / (real (length vs) - 1)"
    unfolding sum_squared_deviations [OF ne] using n(3) by simp
  with n show ?thesis
    unfolding std_of_def sum_squared_deviations [OF ne] by (simp add: power2_eq_square)
qed

lemma fold_IntAggregator:
  "fold aggr_consume rows (IntAggregator g opr a) = IntAggregator g opr (fold (int_consume opr) (map g rows) a)"
  by (induction rows arbitrary: a) auto

lemma fold_DoubleAggregator:
  "fold aggr_consume rows (DoubleAggregator g opr a) =
     DoubleAggregator g opr (fold (\<lambda>v. double_consume opr (Fin v)) (map g rows) a)"
  by (induction rows arbitrary: a) auto

definition sample_std :: "real list \<Rightarrow> real" where
  "sample_std vs =
     (if length vs \<le> 1 then 0
      else sqrt ((\<Sum>v\<leftarrow>vs. (v - sum_list vs / real (length vs))\<^sup>2) / (real (length vs) - 1)))"

lemma sum_list_of_int: "(\<Sum>v\<leftarrow>vs. real_of_int v) = real_of_int (sum_list vs)"
  by (induction vs) auto

lemma length_le_1: "(int n \<le> 1) = (n \<le> 1)"
  by auto

definition int_stats :: "stats_op \<Rightarrow> int list \<Rightarrow> out_value option" where
  "int_stats opr vs =
     (case opr of
        STATS_OP_SUM \<Rightarrow> Some (Out_int64 (sum_list vs))
      | STATS_OP_MIN \<Rightarrow> Some (Out_int64 (Min (set vs)))
      | STATS_OP_MAX \<Rightarrow> Some (Out_int64 (Max (set vs)))
      | STATS_OP_AVG \<Rightarrow> Some (Out_double (Fin (real_of_int (sum_list vs) / real (length vs))))
      | STATS_OP_STD \<Rightarrow> Some (Out_double (Fin (sample_std (map real_of_int vs))))
      | _ \<Rightarrow> None)"

definition double_stats :: "stats_op \<Rightarrow> real list \<Rightarrow> out_value option" where
  "double_stats opr vs =
     (case opr of
        STATS_OP_SUM \<Rightarrow> Some (Out_double (Fin (sum_list vs)))
      | STATS_OP_MIN \<Rightarrow> Some (Out_double (Fin (Min (set vs))))
      | STATS_OP_MAX \<Rightarrow> Some (Out_double (Fin (Max (set vs))))
      | STATS_OP_AVG \<Rightarrow> Some (Out_double (Fin (sum_list vs / real (length vs))))
      | STATS_OP_STD \<Rightarrow> Some (Out_double (Fin (sample_std vs)))
      | STATS_OP_SUMINV \<Rightarrow> Some (Out_double (Fin (\<Sum>v\<leftarrow>vs. 1 / v)))
      | STATS_OP_AVGINV \<Rightarrow> Some (Out_double (Fin ((\<Sum>v\<leftarrow>vs. 1 / v) / real (length vs))))
      | STATS_OP_COUNT \<Rightarrow> None)"

text \<open>
  C21. The statistics of integers: over a group of at least one and fewer than \<open>2 ^ 32\<close> rows whose sum fits 64
  bits, the aggregator prints the sum, the least or the greatest value, the average, or the standard
  deviation of the sample, which it computes without the average.
\<close>

theorem int_statistics:
  assumes "rows \<noteq> []" and "length rows < 2 ^ 32" and "in_int64 (sum_list (map g rows))"
    and "opr \<in> {STATS_OP_SUM, STATS_OP_MIN, STATS_OP_MAX, STATS_OP_AVG, STATS_OP_STD}"
  shows "aggr_output fmt8 (fold aggr_consume rows (IntAggregator g opr new_int_agg)) = int_stats opr (map g rows)"
proof -
  define a where "a = fold (int_consume opr) (map g rows) new_int_agg"
  have s: "int_summary opr a (map g rows)" unfolding a_def by (rule int_summary.fold_summary)
  have count: "ia_count a = int (length rows)" using s assms(2) by (simp add: int_summary_def)
  have out: "aggr_output fmt8 (fold aggr_consume rows (IntAggregator g opr new_int_agg)) = int_output opr a"
    by (simp add: fold_IntAggregator a_def)
  show ?thesis
  proof (cases "opr = STATS_OP_STD \<and> 2 \<le> length rows")
    case True
    let ?ws = "map real_of_int (map g rows)"
    have sq: "ia_sumq a = Fin (\<Sum>w\<leftarrow>?ws. w\<^sup>2)" using s True by (simp add: int_summary_def comp_def)
    have sm: "Fin (real_of_int (ia_aggr a)) = Fin (sum_list ?ws)"
      using s True assms(3) unfolding sum_list_of_int by (simp add: int_summary_def)
    have len: "2 \<le> length ?ws" "ia_count a = int (length ?ws)" "\<not> ia_count a \<le> 1"
      using True count by simp_all
    have le: "(length ?ws \<le> 1) = False" using len(1) by simp
    have "int_output opr a = Some (Out_double (std_of (ia_sumq a) (Fin (real_of_int (ia_aggr a))) (ia_count a)))"
      using True len(3) by (simp only: int_output_def stats_op.case if_False)
    also have "\<dots> = Some (Out_double (Fin (sample_std ?ws)))"
      unfolding sq sm len(2) std_of_list [OF len(1)] sample_std_def le if_False by (rule refl)
    finally show ?thesis unfolding out using True by (simp add: int_stats_def)
  next
    case False
    with assms(4) s assms(1-3) count show ?thesis
      unfolding out
      by (elim insertE emptyE) (simp_all add: int_summary_def int_output_def int_stats_def sample_std_def)
  qed
qed

theorem int_statistics_witness:
  "aggr_output (\<lambda>d. []) (fold aggr_consume [3, 5, 1] (IntAggregator id STATS_OP_STD new_int_agg)) =
     int_stats STATS_OP_STD (map id [3, 5, 1])"
  by (rule int_statistics) (simp_all add: in_int64_def)



text \<open>
  A count is the number of rows the filter accepts, modulo \<open>2 ^ 32\<close>; without a filter every row counts.
\<close>

theorem count_statistics:
  "fold aggr_consume rows (CountAggregator f 0) =
     CountAggregator f (int (length (filter (\<lambda>x. case f of None \<Rightarrow> True | Some g \<Rightarrow> accepts g x) rows)) mod 2 ^ 32)"
proof -
  have "fold aggr_consume rows (CountAggregator f (int n mod 2 ^ 32)) =
     CountAggregator f (int (n + length (filter (\<lambda>x. case f of None \<Rightarrow> True | Some g \<Rightarrow> accepts g x) rows)) mod 2 ^ 32)" for n
  proof (induction rows arbitrary: n)
    case (Cons x rows)
    show ?case
    proof (cases "case f of None \<Rightarrow> True | Some g \<Rightarrow> accepts g x")
      case True
      then have "fold aggr_consume (x # rows) (CountAggregator f (int n mod 2 ^ 32)) =
          fold aggr_consume rows (CountAggregator f (int (Suc n) mod 2 ^ 32))"
        by (simp only: fold_simps aggr_consume.simps if_True next_count_length)
      with Cons [of "Suc n"] True show ?thesis by simp
    next
      case False
      with Cons [of n] show ?thesis by (simp split: option.splits)
    qed
  qed simp
  from this [of 0] show ?thesis by simp
qed

text \<open>
  A group without rows: the average of integers is not a number, as \<open>IntAggregator\<close> divides by the count
  of 0, while \<open>DoubleAggregator\<close> prints 0 for it; every other statistic of either is 0.
\<close>

theorem statistics_of_no_rows:
  "aggr_output fmt8 (IntAggregator g STATS_OP_AVG new_int_agg) = Some (Out_double Not_a_number) \<and>
   aggr_output fmt8 (DoubleAggregator h STATS_OP_AVG new_double_agg) = Some (Out_double (Fin 0)) \<and>
   aggr_output fmt8 (IntAggregator g STATS_OP_MIN new_int_agg) = Some (Out_int64 0) \<and>
   aggr_output fmt8 (IntAggregator g STATS_OP_STD new_int_agg) = Some (Out_double (Fin 0))"
  by (simp add: int_output_def double_output_def new_int_agg_def new_double_agg_def)

section \<open>Performance data\<close>

definition perf_entries :: "string \<Rightarrow> (string \<times> real) list" where
  "perf_entries perf_data = List.map_filter perf_entry (Strutil.fields perf_data)"

lemma perf_consume_entries:
  "perf_consume opr perf_data m = fold (\<lambda>(n, v). consume_variable opr n (Fin v)) (perf_entries perf_data) m"
proof -
  have "fold (\<lambda>entry m. case perf_entry entry of None \<Rightarrow> m | Some (n, v) \<Rightarrow> consume_variable opr n (Fin v) m) es m =
     fold (\<lambda>(n, v). consume_variable opr n (Fin v)) (List.map_filter perf_entry es) m" for es m
    by (induction es arbitrary: m) (auto simp: map_filter_simps split: option.splits)
  then show ?thesis by (simp add: perf_consume_def perf_entries_def)
qed

lemma fold_PerfdataAggregator:
  "fold aggr_consume rows (PerfdataAggregator g opr m) =
     PerfdataAggregator g opr (fold (\<lambda>(n, v). consume_variable opr n (Fin v)) (concat (map (perf_entries \<circ> g) rows)) m)"
  by (induction rows arbitrary: m) (auto simp: perf_consume_entries)

definition sorted_names :: "(string \<times> 'a) list \<Rightarrow> bool" where
  "sorted_names m \<longleftrightarrow> sorted_wrt (\<lambda>a b. strcmp a b < 0) (map fst m)"

lemma consume_variable_names: "fst ` set (consume_variable opr n v m) = insert n (fst ` set m)"
proof (induction m)
  case (Cons p m)
  obtain k a where p: "p = (k, a)" by (cases p)
  show ?case using Cons by (cases "n = k"; cases "strcmp n k < 0") (simp_all add: p insert_commute)
qed simp

lemma consume_variable_sorted: "sorted_names m \<Longrightarrow> sorted_names (consume_variable opr n v m)"
proof (induction m)
  case (Cons p m)
  obtain k a where p: "p = (k, a)" by (cases p)
  have m: "sorted_names m" "\<forall>j \<in> fst ` set m. strcmp k j < 0"
    using Cons.prems by (auto simp: sorted_names_def p)
  consider "strcmp n k = 0" | "strcmp n k < 0" | "0 < strcmp n k" by linarith
  then show ?case
  proof cases
    case 1
    with Cons.prems show ?thesis by (simp add: sorted_names_def p)
  next
    case 2
    with Cons.prems m show ?thesis by (auto simp: sorted_names_def p intro: strcmp_less_trans)
  next
    case 3
    then have kn: "strcmp k n < 0" using strcmp_sym [of k n] by linarith
    have "\<forall>j \<in> fst ` set (consume_variable opr n v m). strcmp k j < 0"
      unfolding consume_variable_names using m(2) kn by blast
    moreover have "n \<noteq> k" "\<not> strcmp n k < 0" using 3 by auto
    ultimately show ?thesis using Cons.IH [OF m(1)] by (simp add: sorted_names_def p)
  qed
qed (simp add: sorted_names_def)

lemma consume_variable_lookup:
  "sorted_names m \<Longrightarrow> map_of (consume_variable opr n v m) k =
     (if k = n then Some (case map_of m n of None \<Rightarrow> new_perf_aggr v | Some a \<Rightarrow> perf_step opr v a) else map_of m k)"
proof (induction m)
  case (Cons p m)
  obtain j a where p: "p = (j, a)" by (cases p)
  have m: "sorted_names m" "\<forall>i \<in> fst ` set m. strcmp j i < 0"
    using Cons.prems by (auto simp: sorted_names_def p)
  show ?case
  proof (cases "strcmp n j < 0")
    case True
    then have "n \<notin> fst ` set (p # m)"
      using m(2) strcmp_less_trans [of n j] by (auto simp: p dest: strcmp_less_trans)
    then have "map_of (p # m) n = None" by (simp add: map_of_eq_None_iff)
    with True show ?thesis by (auto simp: p)
  next
    case False
    with Cons.IH [OF m(1)] show ?thesis by (auto simp: p)
  qed
qed simp

definition perf_summary :: "stats_op \<Rightarrow> perf_aggr option \<Rightarrow> real list \<Rightarrow> bool" where
  "perf_summary opr s vs \<longleftrightarrow>
     (case s of
        None \<Rightarrow> vs = []
      | Some a \<Rightarrow> vs \<noteq> [] \<and> pa_count a = int (length vs) \<and>
          (opr \<in> {STATS_OP_SUM, STATS_OP_AVG, STATS_OP_STD} \<longrightarrow> pa_aggr a = Fin (sum_list vs)) \<and>
          (opr = STATS_OP_STD \<longrightarrow> pa_sumq a = Fin (\<Sum>v\<leftarrow>vs. v\<^sup>2)) \<and>
          (opr = STATS_OP_MIN \<longrightarrow> pa_aggr a = Fin (Min (set vs))) \<and>
          (opr = STATS_OP_MAX \<longrightarrow> pa_aggr a = Fin (Max (set vs))))"

definition perf_put :: "stats_op \<Rightarrow> real \<Rightarrow> perf_aggr option \<Rightarrow> perf_aggr option" where
  "perf_put opr v s = Some (case s of None \<Rightarrow> new_perf_aggr (Fin v) | Some a \<Rightarrow> perf_step opr (Fin v) a)"

lemma perf_step_fields:
  "pa_count (perf_step opr v a) = pa_count a + 1"
  "pa_aggr a = Fin w \<Longrightarrow> pa_aggr (perf_step STATS_OP_MIN (Fin x) a) = Fin (min x w)"
  "pa_aggr a = Fin w \<Longrightarrow> pa_aggr (perf_step STATS_OP_MAX (Fin x) a) = Fin (max x w)"
  "opr \<in> {STATS_OP_SUM, STATS_OP_AVG, STATS_OP_STD} \<Longrightarrow> pa_aggr (perf_step opr v a) = dadd (pa_aggr a) v"
  "pa_sumq (perf_step STATS_OP_STD v a) = dadd (pa_sumq a) (dmul v v)"
  by (cases opr, simp_all add: perf_step_def Let_def min_def max_def) (auto simp: perf_step_def Let_def)

interpretation perf_summary: summary "perf_put opr" None "perf_summary opr" for opr
proof unfold_locales
  show "perf_summary opr None []" by (simp add: perf_summary_def)
next
  fix s vs v
  assume s: "perf_summary opr s vs"
  show "perf_summary opr (perf_put opr v s) (vs @ [v])"
  proof (cases s)
    case None
    with s show ?thesis by (auto simp: perf_summary_def perf_put_def new_perf_aggr_def power2_eq_square)
  next
    case (Some a)
    with s show ?thesis
      by (auto simp: perf_summary_def perf_put_def perf_step_fields power2_eq_square)
  qed
qed

lemma fold_consume_variable:
  "sorted_names m \<Longrightarrow> map_of (fold (\<lambda>(n, v). consume_variable opr n (Fin v)) es m) k =
     fold (perf_put opr) (map snd (filter (\<lambda>e. fst e = k) es)) (map_of m k)"
proof (induction es arbitrary: m)
  case (Cons e es)
  then show ?case
    by (cases e) (simp add: consume_variable_sorted consume_variable_lookup perf_put_def)
qed simp

definition perf_stat :: "stats_op \<Rightarrow> real list \<Rightarrow> real" where
  "perf_stat opr vs =
     (case opr of
        STATS_OP_MIN \<Rightarrow> Min (set vs)
      | STATS_OP_MAX \<Rightarrow> Max (set vs)
      | STATS_OP_AVG \<Rightarrow> sum_list vs / real (length vs)
      | STATS_OP_STD \<Rightarrow> sample_std vs
      | _ \<Rightarrow> sum_list vs)"

lemma perf_summary_value:
  assumes "perf_summary opr s vs" and "opr \<in> {STATS_OP_SUM, STATS_OP_MIN, STATS_OP_MAX, STATS_OP_AVG, STATS_OP_STD}"
  shows "map_option (perf_value opr) s = (if vs = [] then None else Some (Fin (perf_stat opr vs)))"
proof (cases s)
  case None
  with assms show ?thesis by (simp add: perf_summary_def)
next
  case (Some a)
  show ?thesis
  proof (cases "opr = STATS_OP_STD \<and> 2 \<le> length vs")
    case True
    with assms(1) Some std_of_list [of vs] show ?thesis
      by (simp add: perf_summary_def perf_value_def perf_stat_def sample_std_def)
  next
    case False
    with assms(2,1) Some show ?thesis
      by (elim insertE emptyE) (auto simp: perf_summary_def perf_value_def perf_stat_def sample_std_def)
  qed
qed

text \<open>
  C23. Performance data: for sum, least, greatest, average and deviation the aggregator holds, for every
  variable name, nothing if no row has an entry of that name and otherwise the statistic of all its
  values over all rows; the names stay sorted, so each is printed once and in order.
\<close>

theorem perfdata_statistics:
  assumes "opr \<in> {STATS_OP_SUM, STATS_OP_MIN, STATS_OP_MAX, STATS_OP_AVG, STATS_OP_STD}"
  shows "\<exists>m. fold aggr_consume rows (PerfdataAggregator g opr []) = PerfdataAggregator g opr m \<and> sorted_names m \<and>
     (\<forall>k. let vs = map snd (filter (\<lambda>e. fst e = k) (concat (map (perf_entries \<circ> g) rows)))
          in map_option (perf_value opr) (map_of m k) = (if vs = [] then None else Some (Fin (perf_stat opr vs))))"
proof -
  define es where "es = concat (map (perf_entries \<circ> g) rows)"
  define m where "m = fold (\<lambda>(n, v). consume_variable opr n (Fin v)) es []"
  have sorted: "sorted_names (fold (\<lambda>(n, v). consume_variable opr n (Fin v)) xs m0)" if "sorted_names m0" for xs m0
    using that by (induction xs arbitrary: m0) (auto simp: consume_variable_sorted)
  have "map_option (perf_value opr) (map_of m k) = (if vs = [] then None else Some (Fin (perf_stat opr vs)))"
    if vs: "vs = map snd (filter (\<lambda>e. fst e = k) es)" for k vs
  proof -
    have mk: "map_of m k = fold (perf_put opr) vs None"
      unfolding m_def vs by (subst fold_consume_variable) (simp_all add: sorted_names_def)
    have s: "perf_summary opr (map_of m k) vs" unfolding mk by (rule perf_summary.fold_summary)
    show ?thesis by (rule perf_summary_value [OF s assms])
  qed
  with sorted [of "[]" es] show ?thesis
    by (intro exI [of _ m]) (simp add: fold_PerfdataAggregator m_def es_def sorted_names_def Let_def)
qed

theorem perfdata_statistics_witness:
  "\<exists>m. fold aggr_consume [''a=1 b=2'', ''b=4''] (PerfdataAggregator id STATS_OP_MAX []) = PerfdataAggregator id STATS_OP_MAX m \<and>
     sorted_names m \<and>
     (\<forall>k. let vs = map snd (filter (\<lambda>e. fst e = k) (concat (map (perf_entries \<circ> id) [''a=1 b=2'', ''b=4''])))
          in map_option (perf_value STATS_OP_MAX) (map_of m k) = (if vs = [] then None else Some (Fin (perf_stat STATS_OP_MAX vs))))"
  by (rule perfdata_statistics) simp

text \<open>
  The inverses are not: the first value of a variable enters as itself, so the sum of the inverses of a
  single value \<open>v\<close> is printed as \<open>v\<close>, while the aggregator of floating-point columns prints \<open>1 / v\<close>.
\<close>

theorem perfdata_inverse_of_one_value:
  assumes "perf_entries (g x) = [(n, v)]" and "v \<noteq> 0"
  shows "\<exists>a. fold aggr_consume [x] (PerfdataAggregator g STATS_OP_SUMINV []) = PerfdataAggregator g STATS_OP_SUMINV [(n, a)] \<and>
     perf_value STATS_OP_SUMINV a = Fin v \<and>
     aggr_output fmt8 (fold aggr_consume [x] (DoubleAggregator (\<lambda>x. v) STATS_OP_SUMINV new_double_agg)) =
       Some (Out_double (Fin (1 / v)))"
  using assms
  by (simp add: perf_consume_entries new_perf_aggr_def perf_value_def double_output_def double_consume_def
      new_double_agg_def Let_def)

theorem perfdata_inverse_of_one_value_witness:
  "\<exists>a. fold aggr_consume [''t=4''] (PerfdataAggregator id STATS_OP_SUMINV []) = PerfdataAggregator id STATS_OP_SUMINV [(''t'', a)] \<and>
     perf_value STATS_OP_SUMINV a = Fin 4 \<and>
     aggr_output (\<lambda>d. []) (fold aggr_consume [''t=4''] (DoubleAggregator (\<lambda>x. 4) STATS_OP_SUMINV new_double_agg)) =
       Some (Out_double (Fin (1 / 4)))"
  by (rule perfdata_inverse_of_one_value)
    (simp_all add: perf_entries_def Strutil.fields.simps next_field_def Let_def c_isspace_def perf_entry_def
      c_isdigit_def atof_def exponent_of_def digits_value_def digit_val_def map_filter_simps)

end
