(* ===== verification/Table.thy ===== *)
theory Table
  imports Columns
begin

text \<open>
  A table (\<open>src/Table.cc\<close>, \<open>src/Table.h\<close>): its columns by name and the columns of its natural order. The
  \<open>map<string, Column *>\<close> is the list of its columns in the order of their names, which is the order
  \<open>addAllColumnsToQuery\<close> adds them in; the virtual methods the query calls on a table are functions of
  the record. The user a query is answered for is a contact of the core, or the pseudo contact
  \<open>UNKNOWN_AUTH_USER\<close> of \<open>src/auth.h\<close> when no contact has the requested name. The two-step lookup (exact name, then with the singular of the table's prefix stripped) is
  what decides which column a header of a request means, so its properties are stated here.
\<close>

datatype auth_user = Contact nat | UNKNOWN_AUTH_USER

record 'r table =
  t_name :: string
  t_prefixname :: string
  t_columns :: "'r column list"
  t_nat_sort :: "'r column list"
  t_is_authorized :: "auth_user \<Rightarrow> 'r \<Rightarrow> bool"
  t_find_object :: "string \<Rightarrow> 'r option"
  t_has_logcache :: bool

definition clearNatSort :: "'r table \<Rightarrow> 'r table" where
  "clearNatSort t = t\<lparr> t_nat_sort := [] \<rparr>"

definition columns_find :: "'r column list \<Rightarrow> string \<Rightarrow> 'r column option" where
  "columns_find cs n = List.find (\<lambda>c. column_name c = n) cs"

definition addNatSort :: "string \<Rightarrow> 'r table \<Rightarrow> 'r table" where
  "addNatSort n t =
     (case columns_find (t_columns t) n of None \<Rightarrow> t | Some c \<Rightarrow> t\<lparr> t_nat_sort := t_nat_sort t @ [c] \<rparr>)"

text \<open>
  \<open>column\<close>: after the exact match fails, a name that begins with the prefix name up to its last letter and
  an underscore is looked up again without them. No table has an empty prefix name.
\<close>

function lookup_column :: "string \<Rightarrow> 'r column list \<Rightarrow> string \<Rightarrow> 'r column option" where
  "lookup_column prefix cs n =
     (case columns_find cs n of
        Some c \<Rightarrow> Some c
      | None \<Rightarrow>
          if prefix \<noteq> [] \<and> has_prefix (butlast prefix @ ''_'') n
          then lookup_column prefix cs (drop (length prefix) n)
          else None)"
  by pat_completeness auto
termination
proof (relation "measure (\<lambda>(_, _, n). length n)")
  fix prefix cs and n :: string
  assume "prefix \<noteq> [] \<and> has_prefix (butlast prefix @ ''_'') n"
  then have "prefix \<noteq> []" and "length (butlast prefix @ ''_'') \<le> length n"
    by (auto simp: has_prefix_def min_def dest!: arg_cong [of _ _ length] split: if_splits)
  then have "0 < length prefix" "0 < length n" by (auto simp: length_greater_0_conv [symmetric] simp del: length_greater_0_conv)
  then show "((prefix, cs, drop (length prefix) n), prefix, cs, n) \<in> measure (\<lambda>(_, _, n). length n)" by simp
qed simp

declare lookup_column.simps [simp del]

definition table_column :: "'r table \<Rightarrow> string \<Rightarrow> 'r column option" where
  "table_column t n = lookup_column (t_prefixname t) (t_columns t) n"

text \<open>\<open>map::insert\<close> keeps the names in order.\<close>

fun columns_insert :: "'r column \<Rightarrow> 'r column list \<Rightarrow> 'r column list" where
  "columns_insert c [] = [c]"
| "columns_insert c (d # ds) =
     (if strcmp (column_name c) (column_name d) < 0 then c # d # ds else d # columns_insert c ds)"

definition addColumn :: "'r column \<Rightarrow> 'r table \<Rightarrow> 'r table" where
  "addColumn c t =
     (if table_column t (column_name c) \<noteq> None then t
      else t\<lparr> t_columns := columns_insert c (t_columns t) \<rparr>)"

definition addAllColumnsToQuery :: "'r table \<Rightarrow> 'r column list \<Rightarrow> 'r column list" where
  "addAllColumnsToQuery t columns = columns @ t_columns t"

section \<open>The columns of a table\<close>

definition table_wf :: "'r table \<Rightarrow> bool" where
  "table_wf t \<longleftrightarrow> sorted_wrt (\<lambda>a b. strcmp (column_name a) (column_name b) < 0) (t_columns t)"

lemma set_columns_insert [simp]: "set (columns_insert c cs) = insert c (set cs)"
  by (induction cs) auto

lemma columns_insert_sorted:
  assumes "sorted_wrt (\<lambda>a b. strcmp (column_name a) (column_name b) < 0) cs"
    and "\<forall>d \<in> set cs. column_name d \<noteq> column_name c"
  shows "sorted_wrt (\<lambda>a b. strcmp (column_name a) (column_name b) < 0) (columns_insert c cs)"
  using assms
proof (induction cs)
  case (Cons d ds)
  have "strcmp (column_name d) (column_name c) < 0" if "\<not> strcmp (column_name c) (column_name d) < 0"
    using that Cons.prems(2) strcmp_sym [of "column_name c" "column_name d"]
      strcmp_eq_0 [of "column_name c" "column_name d"] by (auto simp del: strcmp_eq_0)
  with Cons show ?case by (auto intro: strcmp_less_trans)
qed simp

lemma columns_find_None: "columns_find cs n = None \<longleftrightarrow> (\<forall>d \<in> set cs. column_name d \<noteq> n)"
  by (simp add: columns_find_def find_None_iff Ball_def)

lemma columns_find_SomeD: "columns_find cs n = Some c \<Longrightarrow> c \<in> set cs \<and> column_name c = n"
  by (auto simp: columns_find_def find_Some_iff)

lemma columns_find_insert:
  assumes "columns_find cs (column_name c) = None"
  shows "columns_find (columns_insert c cs) n = (if n = column_name c then Some c else columns_find cs n)"
  using assms by (induction cs) (auto simp: columns_find_def split: if_splits)

lemma addColumn_wf:
  assumes "table_wf t"
  shows "table_wf (addColumn c t)"
proof (cases "table_column t (column_name c) = None")
  case True
  then have "columns_find (t_columns t) (column_name c) = None"
    by (simp add: table_column_def lookup_column.simps split: option.splits)
  with True assms show ?thesis
    by (simp add: table_wf_def addColumn_def columns_insert_sorted columns_find_None)
qed (use assms in \<open>simp add: addColumn_def\<close>)

text \<open>A column that is added hides none: no name it could be reached by was known before.\<close>

lemma lookup_column_stable:
  assumes "lookup_column prefix cs (column_name d) = None"
    and "lookup_column prefix cs n = Some c"
  shows "lookup_column prefix (columns_insert d cs) n = Some c"
  using assms
proof (induction prefix cs n rule: lookup_column.induct)
  case (1 prefix cs n)
  from "1.prems" have "n \<noteq> column_name d" by auto
  moreover have "columns_find cs (column_name d) = None"
    using "1.prems"(1) by (simp add: lookup_column.simps split: option.splits)
  ultimately have find: "columns_find (columns_insert d cs) n = columns_find cs n"
    by (simp add: columns_find_insert)
  show ?case
  proof (cases "columns_find cs n")
    case None
    with "1.prems"(2) have p: "prefix \<noteq> [] \<and> has_prefix (butlast prefix @ ''_'') n"
      and "lookup_column prefix cs (drop (length prefix) n) = Some c"
      by (simp_all add: lookup_column.simps [of prefix cs n] split: if_splits)
    with "1.IH" [OF None p "1.prems"(1)] find None show ?thesis
      by (simp add: lookup_column.simps [of prefix _ n])
  next
    case (Some e)
    with "1.prems"(2) find show ?thesis by (simp add: lookup_column.simps [of prefix _ n])
  qed
qed

lemma addColumn_lookup:
  assumes "table_column t n = Some c"
  shows "table_column (addColumn d t) n = Some c"
  using assms lookup_column_stable [of "t_prefixname t" "t_columns t" d n c]
  by (auto simp: addColumn_def table_column_def)

lemma addColumn_reachable: "table_column (addColumn d t) (column_name d) \<noteq> None"
proof (cases "table_column t (column_name d) = None")
  case True
  then have "columns_find (t_columns t) (column_name d) = None"
    by (simp add: table_column_def lookup_column.simps split: option.splits)
  with True show ?thesis
    by (simp add: addColumn_def table_column_def lookup_column.simps [of _ "columns_insert d _"] columns_find_insert)
qed (simp add: addColumn_def)

lemma fold_addColumn_lookup: "table_column t n = Some c \<Longrightarrow> table_column (fold addColumn cs t) n = Some c"
  by (induction cs arbitrary: t) (simp_all add: addColumn_lookup)

lemma fold_addColumn_wf: "table_wf t \<Longrightarrow> table_wf (fold addColumn cs t)"
  by (induction cs arbitrary: t) (simp_all add: addColumn_wf)

lemma fold_addColumn_reachable: "d \<in> set cs \<Longrightarrow> \<exists>c. table_column (fold addColumn cs t) (column_name d) = Some c"
proof (induction cs arbitrary: t)
  case (Cons e es)
  then show ?case
    using addColumn_reachable [of d t] fold_addColumn_lookup [of "addColumn d t" "column_name d" _ es] by auto
qed simp

text \<open>
  Registering the columns of a table: whatever columns are added, in whatever order, the names stay
  distinct and in order, every added column's name leads to a column, and a name that led to a column
  before still leads to the same one, so that joining one table's columns into another never changes
  the meaning of a request.
\<close>

theorem column_names_stay_stable:
  assumes "table_wf t"
  shows "table_wf (fold addColumn cs t) \<and>
     (\<forall>n c. table_column t n = Some c \<longrightarrow> table_column (fold addColumn cs t) n = Some c) \<and>
     (\<forall>d \<in> set cs. \<exists>c. table_column (fold addColumn cs t) (column_name d) = Some c)"
  using assms fold_addColumn_wf fold_addColumn_lookup fold_addColumn_reachable by metis

definition demo_table :: "int table" where
  "demo_table = \<lparr> t_name = ''hosts'', t_prefixname = ''hosts'', t_columns = [IntColumn ''name'' id], t_nat_sort = [],
     t_is_authorized = (\<lambda>u x. True), t_find_object = (\<lambda>s. None), t_has_logcache = False \<rparr>"

theorem column_names_stay_stable_witness:
  "table_wf (fold addColumn [IntColumn ''host_name'' uminus, EmptyColumn ''alias''] demo_table) \<and>
   table_column (fold addColumn [IntColumn ''host_name'' uminus, EmptyColumn ''alias''] demo_table) ''host_name'' =
     Some (IntColumn ''name'' id) \<and>
   (\<exists>c. table_column (fold addColumn [IntColumn ''host_name'' uminus, EmptyColumn ''alias''] demo_table) ''alias'' = Some c)"
proof -
  have wf: "table_wf demo_table" by (simp add: table_wf_def demo_table_def)
  have n: "table_column demo_table ''host_name'' = Some (IntColumn ''name'' id)"
    by (simp add: table_column_def demo_table_def lookup_column.simps columns_find_def has_prefix_def)
  show ?thesis
    using column_names_stay_stable [OF wf, of "[IntColumn ''host_name'' uminus, EmptyColumn ''alias'']"] n by auto
qed

end
