(* ===== verification/Query_Output.thy ===== *)
theory Query_Output
  imports Filters Aggregators
begin

text \<open>
  How a query prints values (the output helpers of \<open>src/Query.cc\<close> and the \<open>output\<close> methods of the
  columns). Each helper is the bytes it appends to the response buffer, which is a byte sink
  (\<open>Output_Buffer\<close>). The settings it reads are a record: the output format and separators of the request,
  the time zone offset, the configured encoding and hidden prefix, \<open>printf\<close>'s \<open>"%.10e"\<close>, the core's
  attribute bits, and which members of a list the authorised user may see.

  A text whose printing reads behind its terminating NUL is \<open>None\<close>.
\<close>

datatype out_format = OUTPUT_FORMAT_CSV | OUTPUT_FORMAT_JSON | OUTPUT_FORMAT_PYTHON | OUTPUT_FORMAT_WRAPPED_JSON

datatype encoding = ENCODING_UTF8 | ENCODING_LATIN1 | ENCODING_MIXED

record out_env =
  oe_format :: out_format
  oe_dataset_sep :: string
  oe_field_sep :: string
  oe_list_sep :: string
  oe_host_service_sep :: string
  oe_timezone_offset :: int
  oe_encoding :: encoding
  oe_fmt10 :: "real \<Rightarrow> string"
  oe_attr_bit :: "string \<Rightarrow> 64 word"
  oe_hidden_prefix :: string
  oe_sees_host :: "host_member \<Rightarrow> bool"
  oe_sees_service :: "svc_member \<Rightarrow> bool"

abbreviation is_csv :: "out_env \<Rightarrow> bool" where
  "is_csv e \<equiv> oe_format e = OUTPUT_FORMAT_CSV"

section \<open>Numbers and punctuation\<close>

definition output_dataset_begin :: "out_env \<Rightarrow> bool \<Rightarrow> string" where
  "output_dataset_begin e need_ds_separator =
     (if need_ds_separator \<and> \<not> is_csv e then CHR '','' # [CHR 0x0A] else []) @ (if is_csv e then [] else ''['')"

definition output_dataset_end :: "out_env \<Rightarrow> string" where
  "output_dataset_end e = (if is_csv e then oe_dataset_sep e else '']'')"

definition output_field_separator :: "out_env \<Rightarrow> string" where
  "output_field_separator e = (if is_csv e then oe_field_sep e else '','')"

definition output_integer :: "int \<Rightarrow> string" where
  "output_integer v = show_int (wrap32 v)"

definition output_integer64 :: "int \<Rightarrow> string" where
  "output_integer64 v = show_int (wrap64 v)"

definition output_time :: "out_env \<Rightarrow> int \<Rightarrow> string" where
  "output_time e v = output_integer64 (v + oe_timezone_offset e)"

definition output_timeval :: "out_env \<Rightarrow> int \<times> int \<Rightarrow> string" where
  "output_timeval e v =
     show_int ((fst v + oe_timezone_offset e) mod 2 ^ 64) @ ''.'' @ pad_left 6 (CHR ''0'') (show_int (snd v mod 2 ^ 64))"

definition output_unsigned_long :: "64 word \<Rightarrow> string" where
  "output_unsigned_long w = show_int (uint w)"

definition output_begin_list :: "out_env \<Rightarrow> string" where
  "output_begin_list e = (if is_csv e then [] else ''['')"

definition output_list_separator :: "out_env \<Rightarrow> string" where
  "output_list_separator e = (if is_csv e then oe_list_sep e else '','')"

definition output_end_list :: "out_env \<Rightarrow> string" where
  "output_end_list e = (if is_csv e then [] else '']'')"

definition output_begin_sublist :: "out_env \<Rightarrow> string" where
  "output_begin_sublist e = (if is_csv e then [] else ''['')"

definition output_sublist_separator :: "out_env \<Rightarrow> string" where
  "output_sublist_separator e = (if is_csv e then oe_host_service_sep e else '','')"

definition output_end_sublist :: "out_env \<Rightarrow> string" where
  "output_end_sublist e = (if is_csv e then [] else '']'')"

definition output_begin_dict :: "out_env \<Rightarrow> string" where
  "output_begin_dict e = (if is_csv e then [] else ''{'')"

definition output_dict_separator :: "out_env \<Rightarrow> string" where
  "output_dict_separator e = output_list_separator e"

definition output_dict_value_separator :: "out_env \<Rightarrow> string" where
  "output_dict_value_separator e = (if is_csv e then oe_host_service_sep e else '':'')"

definition output_end_dict :: "out_env \<Rightarrow> string" where
  "output_end_dict e = (if is_csv e then [] else ''}'')"

definition output_null :: "out_env \<Rightarrow> string" where
  "output_null e = (if is_csv e then [] else if oe_format e = OUTPUT_FORMAT_PYTHON then ''None'' else ''null'')"

section \<open>Strings\<close>

text \<open>
  \<open>outputUnicodeEscape\<close> prints \<open>"%04x"\<close> into a buffer of 8 bytes and appends 6 of them; \<open>hex_digits\<close> are
  the digits of \<open>"%x"\<close>. Of the table \<open>json_significant\<close> the model has the bytes it marks.
\<close>

definition hex_digit :: "nat \<Rightarrow> char" where
  "hex_digit d = (if d < 10 then char_of (48 + d) else char_of (87 + d))"

fun hex_digits :: "nat \<Rightarrow> string" where
  "hex_digits n = (if n < 16 then [hex_digit n] else hex_digits (n div 16) @ [hex_digit (n mod 16)])"

declare hex_digits.simps [simp del]

definition output_unicode_escape :: "nat \<Rightarrow> string" where
  "output_unicode_escape v = take 6 (take 7 (CHR 0x5C # CHR ''u'' # pad_left 4 (CHR ''0'') (hex_digits v)))"

abbreviation byte :: "char \<Rightarrow> nat" where
  "byte c \<equiv> of_char c"

definition json_significant :: "char \<Rightarrow> bool" where
  "json_significant c \<longleftrightarrow> byte c < 32 \<or> c = CHR 0x22 \<or> c = CHR 0x5C \<or> 128 \<le> byte c"

unbundle bit_operations_syntax

text \<open>
  The loop of \<open>outputString\<close> on what is left of the text (\<open>r\<close>); \<open>chars_left\<close> is the length of that. A
  two-byte sequence is taken without looking whether the second byte is there: at the end of the text the
  loop steps over the NUL and goes on behind it, \<open>None\<close>.
\<close>

lemma dropWhile_Cons_length: "dropWhile P r = c # t \<Longrightarrow> length t < length r"
  using length_dropWhile_le [of P r] by simp

function json_body :: "encoding \<Rightarrow> string \<Rightarrow> string option" where
  "json_body enc r =
     map_option ((@) (takeWhile (\<lambda>c. \<not> json_significant c) r))
       (case dropWhile (\<lambda>c. \<not> json_significant c) r of
          [] \<Rightarrow> Some []
        | c # t \<Rightarrow>
            if byte c < 32
            then map_option ((@) (output_unicode_escape (byte c))) (json_body enc t)
            else if c = CHR 0x22 \<or> c = CHR 0x5C
            then map_option ((@) [CHR 0x5C, c]) (json_body enc t)
            else if (enc = ENCODING_UTF8 \<or> enc = ENCODING_MIXED) \<and> byte c AND 0xE0 = 0xC0
            then (case t of
                    [] \<Rightarrow> None
                  | c1 # t1 \<Rightarrow>
                      map_option ((@) (output_unicode_escape (push_bit 6 (byte c AND 31) OR (byte c1 AND 0x3F))))
                        (json_body enc t1))
            else if enc = ENCODING_UTF8
            then if byte c AND 0xF0 = 0xE0
                 then (case t of
                         c1 # c2 # t2 \<Rightarrow>
                           map_option ((@) (output_unicode_escape
                               (push_bit 12 (byte c AND 0x0F) OR push_bit 6 (byte c1 AND 0x3F) OR (byte c2 AND 0x3F))))
                             (json_body enc t2)
                       | _ \<Rightarrow> Some [])
                 else if byte c AND 0xF8 = 0xF0
                 then (case t of
                         c1 # c2 # c3 # t3 \<Rightarrow>
                           map_option ((@) (output_unicode_escape
                               (push_bit 18 (byte c AND 0x07) OR push_bit 6 (byte c1 AND 0x3F) OR
                                push_bit 6 (byte c2 AND 0x3F) OR (byte c3 AND 0x3F))))
                             (json_body enc t3)
                       | _ \<Rightarrow> Some [])
                 else json_body enc t
            else map_option ((@) (output_unicode_escape (byte c))) (json_body enc t))"
  by pat_completeness auto
termination
  by (relation "measure (\<lambda>(_, r). length r)") (auto dest: dropWhile_Cons_length)

declare json_body.simps [simp del]

definition output_string :: "out_env \<Rightarrow> string option \<Rightarrow> string option" where
  "output_string e value =
     (case value of
        None \<Rightarrow> Some (if is_csv e then [] else [CHR 0x22, CHR 0x22])
      | Some s \<Rightarrow>
          if is_csv e then Some s
          else map_option (\<lambda>body. (if oe_format e = OUTPUT_FORMAT_PYTHON then ''u'' else []) @ CHR 0x22 # body @ [CHR 0x22])
                 (json_body (oe_encoding e) s))"

text \<open>\<open>"%03o"\<close> of a byte, which \<open>char\<close> makes a signed number: a byte from 128 has eleven digits, of which the buffer keeps six and \<open>outputAsciiEscape\<close> appends three.\<close>

fun octal_digits :: "nat \<Rightarrow> string" where
  "octal_digits n = (if n < 8 then [char_of (48 + n)] else octal_digits (n div 8) @ [char_of (48 + n mod 8)])"

declare octal_digits.simps [simp del]

definition output_ascii_escape :: "char \<Rightarrow> string" where
  "output_ascii_escape c =
     take 4 (CHR 0x5C # pad_left 3 (CHR ''0'') (octal_digits (if byte c < 128 then byte c else 2 ^ 32 - 256 + byte c)))"

definition output_counter :: "nat \<Rightarrow> string" where
  "output_counter v = show_nat (v mod 2 ^ 64)"

section \<open>Columns\<close>

text \<open>\<open>cat\<close> appends what several calls print; \<open>sep_by\<close> is the loop with its flag \<open>first\<close>.\<close>

definition cat :: "string option list \<Rightarrow> string option" where
  "cat os = (if None \<in> set os then None else Some (concat (map the os)))"

fun sep_by :: "string \<Rightarrow> string option list \<Rightarrow> string option list" where
  "sep_by sep [] = []"
| "sep_by sep [x] = [x]"
| "sep_by sep (x # y # xs) = x # Some sep # sep_by sep (y # xs)"

definition output_host_service :: "out_env \<Rightarrow> string \<Rightarrow> string \<Rightarrow> string option" where
  "output_host_service e host_name service_description =
     (if is_csv e
      then cat [output_string e (Some host_name), Some (oe_host_service_sep e), output_string e (Some service_description)]
      else cat [Some ''['', output_string e (Some host_name), Some '','', output_string e (Some service_description), Some '']''])"

text \<open>A blob is a block of bytes; the JSON formats print it up to its first NUL.\<close>

definition output_blob :: "out_env \<Rightarrow> string \<Rightarrow> string option" where
  "output_blob e buffer =
     (if is_csv e then Some buffer else output_string e (Some (takeWhile (\<lambda>c. c \<noteq> CHR 0x00) buffer)))"

definition output_host :: "out_env \<Rightarrow> bool \<Rightarrow> host_member \<Rightarrow> string option" where
  "output_host e show_state h =
     (if \<not> show_state then output_string e (Some (hm_name h))
      else cat [Some (output_begin_sublist e), output_string e (Some (hm_name h)), Some (output_sublist_separator e),
                Some (output_integer (hm_state h)), Some (output_sublist_separator e),
                Some (output_integer (hm_has_been_checked h)), Some (output_end_sublist e)])"

definition output_service :: "out_env \<Rightarrow> bool \<Rightarrow> nat \<Rightarrow> svc_member \<Rightarrow> string option" where
  "output_service e show_host info_depth m =
     (if \<not> show_host \<and> info_depth = 0 then output_string e (Some (sm_description m))
      else cat ([Some (output_begin_sublist e)] @
                (if show_host then [output_string e (Some (sm_host_name m)), Some (output_sublist_separator e)] else []) @
                [output_string e (Some (sm_description m))] @
                (if 1 \<le> info_depth
                 then [Some (output_sublist_separator e), Some (output_integer (sm_state m)),
                       Some (output_sublist_separator e), Some (output_integer (sm_has_been_checked m))] else []) @
                (if 2 \<le> info_depth
                 then [Some (output_sublist_separator e), output_string e (Some (sm_plugin_output m))] else []) @
                [Some (output_end_sublist e)]))"

definition output_cv :: "out_env \<Rightarrow> cvt \<Rightarrow> string \<times> string \<Rightarrow> string option" where
  "output_cv e what nv =
     (case what of
        CVT_VARNAMES \<Rightarrow> output_string e (Some (fst nv))
      | CVT_VALUES \<Rightarrow> output_string e (Some (snd nv))
      | CVT_DICT \<Rightarrow> cat [output_string e (Some (fst nv)), Some (output_dict_value_separator e),
                         output_string e (Some (snd nv))])"

definition attr_names :: "out_env \<Rightarrow> 64 word \<Rightarrow> string list" where
  "attr_names e msk = filter (\<lambda>n. msk AND oe_attr_bit e n \<noteq> 0) al_names"

fun printed_output :: "out_env \<Rightarrow> printed \<Rightarrow> string option" where
  "printed_output e (Shown_text s) = output_string e (Some s)"
| "printed_output e (Shown_int v) = Some (output_integer v)"
| "printed_output e (Shown_int64 v) = Some (output_integer64 v)"
| "printed_output e (Shown_ulong w) = Some (output_unsigned_long w)"
| "printed_output e (Shown_time v) = Some (output_time e v)"
| "printed_output e (Shown_double v) = Some (oe_fmt10 e v)"
| "printed_output e (Shown_list ps) =
     cat ([Some (output_begin_list e)] @ sep_by (output_list_separator e) (map (printed_output e) ps) @ [Some (output_end_list e)])"
| "printed_output e (Shown_sublist ps) =
     cat ([Some (output_begin_sublist e)] @ sep_by (output_sublist_separator e) (map (printed_output e) ps) @ [Some (output_end_sublist e)])"
| "printed_output e (Shown_dict ms) =
     cat ([Some (output_begin_dict e)] @
          sep_by (output_dict_separator e)
            (map (\<lambda>(k, p). cat [output_string e (Some k), Some (output_dict_value_separator e), printed_output e p]) ms) @
          [Some (output_end_dict e)])"
| "printed_output e Shown_nothing = Some []"

fun column_output :: "out_env \<Rightarrow> 'r column \<Rightarrow> 'r \<Rightarrow> string option" where
  "column_output e (IntColumn _ g) x = Some (output_integer (g x))"
| "column_output e (DoubleColumn _ g) x = Some (oe_fmt10 e (g x))"
| "column_output e (StringColumn _ g) x = output_string e (Some (g x))"
| "column_output e (MacroColumn _ _ h) x = output_string e (Some (h x))"
| "column_output e (TimeColumn _ g) x = Some (output_time e (g x))"
| "column_output e (TimeValColumn _ g) x = Some (output_timeval e (g x))"
| "column_output e (AttributelistColumn _ show_list g) x =
     (if show_list
      then cat ([Some (output_begin_sublist e)] @
                sep_by (output_sublist_separator e) (map (\<lambda>n. output_string e (Some n)) (attr_names e (g x))) @
                [Some (output_end_sublist e)])
      else Some (output_unsigned_long (g x)))"
| "column_output e (ListColumn _ _ g) x =
     cat ([Some (output_begin_list e)] @
          sep_by (output_list_separator e)
            (map (\<lambda>m. output_string e (Some (snd m))) (case g x of None \<Rightarrow> [] | Some ms \<Rightarrow> ms)) @
          [Some (output_end_list e)])"
| "column_output e (HostlistColumn _ show_state g) x =
     cat ([Some (output_begin_list e)] @
          sep_by (output_list_separator e) (map (output_host e show_state) (filter (oe_sees_host e) (g x))) @
          [Some (output_end_list e)])"
| "column_output e (ServicelistColumn _ show_host info_depth g) x =
     cat ([Some (output_begin_list e)] @
          sep_by (output_list_separator e)
            (map (output_service e show_host info_depth) (filter (oe_sees_service e) (g x))) @
          [Some (output_end_list e)])"
| "column_output e (CustomVarsColumn _ what g) x =
     (if what = CVT_DICT
      then cat ([Some (output_begin_dict e)] @
                sep_by (output_dict_separator e) (map (output_cv e what) (visible_vars (oe_hidden_prefix e) (g x))) @
                [Some (output_end_dict e)])
      else cat ([Some (output_begin_list e)] @
                sep_by (output_list_separator e) (map (output_cv e what) (visible_vars (oe_hidden_prefix e) (g x))) @
                [Some (output_end_list e)]))"
| "column_output e (StructColumn _ _ _ shown) x = printed_output e (shown x)"
| "column_output e (EmptyColumn _) x = output_string e (Some [])"

text \<open>What an aggregator hands to the query.\<close>

definition output_value :: "out_env \<Rightarrow> (dbl \<Rightarrow> string) \<Rightarrow> out_value \<Rightarrow> string option" where
  "output_value e fmt_dbl v =
     (case v of
        Out_int32 i \<Rightarrow> Some (output_integer i)
      | Out_int64 i \<Rightarrow> Some (output_integer64 i)
      | Out_double d \<Rightarrow> Some (fmt_dbl d)
      | Out_string s \<Rightarrow> output_string e (Some s))"

section \<open>What a text means in JSON\<close>

text \<open>
  The characters a text of the core stands for in each encoding, as the specification of the printer: code
  points below \<open>2 ^ 16\<close> in one to three bytes of UTF-8 (the shortest form), bytes in latin1, and in the mixed encoding two-byte
  UTF-8 sequences among latin1 bytes. \<open>None\<close> is a text that is not well-formed in the encoding, or that has
  characters of four bytes.
\<close>

abbreviation cont :: "char \<Rightarrow> bool" where
  "cont c \<equiv> 0x80 \<le> byte c \<and> byte c < 0xC0"

fun chars_of :: "encoding \<Rightarrow> string \<Rightarrow> nat list option" where
  "chars_of enc [] = Some []"
| "chars_of enc (c # t) =
     (if byte c < 0x80 then map_option ((#) (byte c)) (chars_of enc t)
      else if enc = ENCODING_LATIN1 then map_option ((#) (byte c)) (chars_of enc t)
      else if 0xC0 \<le> byte c \<and> byte c < 0xE0
      then (case t of c1 # t1 \<Rightarrow>
              if 0xC2 \<le> byte c \<and> cont c1 then map_option ((#) ((byte c - 0xC0) * 64 + (byte c1 - 0x80))) (chars_of enc t1) else None
            | [] \<Rightarrow> None)
      else if enc = ENCODING_MIXED then map_option ((#) (byte c)) (chars_of enc t)
      else if 0xE0 \<le> byte c \<and> byte c < 0xF0
      then (case t of c1 # c2 # t2 \<Rightarrow>
              if cont c1 \<and> cont c2 \<and> (0xE0 < byte c \<or> 0xA0 \<le> byte c1)
              then map_option ((#) ((byte c - 0xE0) * 4096 + (byte c1 - 0x80) * 64 + (byte c2 - 0x80))) (chars_of enc t2)
              else None
            | _ \<Rightarrow> None)
      else None)"

text \<open>The canonical JSON text of a character, a string and a value; numbers are their text.\<close>

datatype json =
    JNull
  | JNumber string
  | JString "nat list"
  | JArray "json list"
  | JObject "(nat list \<times> json) list"

definition json_char :: "nat \<Rightarrow> string" where
  "json_char n =
     (if n = 0x22 \<or> n = 0x5C then [CHR 0x5C, char_of n]
      else if 32 \<le> n \<and> n < 128 then [char_of n]
      else CHR 0x5C # CHR ''u'' # map hex_digit [n div 4096 mod 16, n div 256 mod 16, n div 16 mod 16, n mod 16])"

definition json_quote :: "nat list \<Rightarrow> string" where
  "json_quote cs = CHR 0x22 # concat (map json_char cs) @ [CHR 0x22]"

lemma hex_four:
  assumes "n < 65536"
  shows "pad_left 4 (CHR ''0'') (hex_digits n) = map hex_digit [n div 4096 mod 16, n div 256 mod 16, n div 16 mod 16, n mod 16]"
proof -
  have z: "hex_digit 0 = CHR ''0''" by (simp add: hex_digit_def char_of_def bit_simps)
  have rep: "replicate 3 x = [x, x, x]" "replicate 2 x = [x, x]" for x :: char by (simp_all add: numeral_eq_Suc)
  have d: "n div 16 div 16 = n div 256" "n div 256 div 16 = n div 4096" by (simp_all add: div_mult2_eq [symmetric])
  consider "n < 16" | "16 \<le> n" "n < 256" | "256 \<le> n" "n < 4096" | "4096 \<le> n" by linarith
  then show ?thesis
  proof cases
    case 1
    then show ?thesis by (simp add: hex_digits.simps [of n] pad_left_def z rep)
  next
    case 2
    then have "n div 16 < 16" by (simp add: div_less_dividend less_mult_imp_div_less)
    with 2 show ?thesis by (simp add: hex_digits.simps [of n] hex_digits.simps [of "n div 16"] pad_left_def z rep)
  next
    case 3
    then have "n div 256 < 16" "\<not> n div 16 < 16" by linarith+
    with 3 show ?thesis
      by (simp add: hex_digits.simps [of n] hex_digits.simps [of "n div 16"] hex_digits.simps [of "n div 256"] d pad_left_def z rep)
  next
    case 4
    then have "n div 4096 < 16" "\<not> n div 16 < 16" "\<not> n div 256 < 16" using assms by linarith+
    with 4 show ?thesis
      by (simp add: hex_digits.simps [of n] hex_digits.simps [of "n div 16"] hex_digits.simps [of "n div 256"]
          hex_digits.simps [of "n div 4096"] d pad_left_def z rep)
  qed
qed

lemma output_unicode_escape_four:
  "n < 65536 \<Longrightarrow> \<not> (32 \<le> n \<and> n < 128) \<Longrightarrow> output_unicode_escape n = json_char n"
  by (auto simp: output_unicode_escape_def hex_four json_char_def)

text \<open>The bit arithmetic of the decoder, as arithmetic.\<close>

lemma and_low_bits:
  fixes n :: nat
  shows "n AND 0x3F = n mod 64" "n AND 31 = n mod 32" "n AND 0x0F = n mod 16" "n AND 0x07 = n mod 8"
  using take_bit_eq_mask [of 6 n] take_bit_eq_mask [of 5 n] take_bit_eq_mask [of 4 n] take_bit_eq_mask [of 3 n]
  by (simp_all add: take_bit_eq_mod mask_eq_exp_minus_1)

lemma and_high_bits: "n AND push_bit k (Bit_Operations.mask j) = (n div 2 ^ k mod 2 ^ j) * (2 ^ k :: nat)"
proof -
  have "n AND push_bit k (Bit_Operations.mask j) = push_bit k (take_bit j (drop_bit k n))"
    by (rule bit_eqI) (auto simp: bit_simps)
  then show ?thesis by (simp add: push_bit_eq_mult take_bit_eq_mod drop_bit_eq_div)
qed

lemma and_lead_bits:
  assumes "n < (256 :: nat)"
  shows "n AND 0xE0 = 0xC0 \<longleftrightarrow> 0xC0 \<le> n \<and> n < 0xE0" and "n AND 0xF0 = 0xE0 \<longleftrightarrow> 0xE0 \<le> n \<and> n < 0xF0"
proof -
  have "n AND 0xE0 = (n div 32 mod 8) * 32" "n AND 0xF0 = (n div 16 mod 16) * 16"
    using and_high_bits [of n 5 3] and_high_bits [of n 4 4] by (simp_all add: mask_eq_exp_minus_1 push_bit_eq_mult)
  moreover have "n div 32 mod 8 = n div 32" "n div 16 mod 16 = n div 16" using assms by simp_all
  moreover have "n div 32 * 32 = 192 \<longleftrightarrow> 6 \<le> n div 32 \<and> n div 32 < 7" "n div 16 * 16 = 224 \<longleftrightarrow> 14 \<le> n div 16 \<and> n div 16 < 15"
    by linarith+
  ultimately show "n AND 0xE0 = 0xC0 \<longleftrightarrow> 0xC0 \<le> n \<and> n < 0xE0" and "n AND 0xF0 = 0xE0 \<longleftrightarrow> 0xE0 \<le> n \<and> n < 0xF0"
    by (simp_all add: less_eq_div_iff_mult_less_eq div_less_iff_less_mult)
qed

lemma push_or:
  assumes "b < (2 :: nat) ^ k"
  shows "push_bit k a OR b = a * 2 ^ k + b"
proof -
  have "take_bit k b = b" using assms by (rule take_bit_nat_eq_self)
  moreover have "push_bit k a AND take_bit k b = 0" by (rule bit_eqI) (auto simp: bit_simps)
  ultimately have "push_bit k a AND b = 0" by simp
  then show ?thesis by (simp add: disjunctive_add_eq_or [symmetric] push_bit_eq_mult)
qed

lemma json_body_Nil [simp]: "json_body enc [] = Some []"
  by (simp add: json_body.simps)

lemma json_body_plain:
  assumes "\<not> json_significant c"
  shows "json_body enc (c # t) = map_option ((#) c) (json_body enc t)"
proof -
  have split: "map_option ((@) (c # p)) v = map_option ((#) c) (map_option ((@) p) v)" for p v by (cases v) simp_all
  show ?thesis
    unfolding json_body.simps [of enc "c # t"] json_body.simps [of enc t] takeWhile.simps dropWhile.simps
    by (simp only: assms split not_False_eq_True if_True)
qed

lemmas json_body_special = json_body.simps [of enc "c # t" for enc c t, unfolded takeWhile.simps dropWhile.simps]

lemma byte_less: "byte c < 256"
  using nat_of_char_less_256 [of c] by simp

lemma byte_eq: "c = CHR 0x22 \<longleftrightarrow> byte c = 0x22" "c = CHR 0x5C \<longleftrightarrow> byte c = 0x5C"
proof -
  have "(c = d) = (byte c = byte d)" for d by (metis char_of_char)
  from this [of "CHR 0x22"] this [of "CHR 0x5C"] show "c = CHR 0x22 \<longleftrightarrow> byte c = 0x22" "c = CHR 0x5C \<longleftrightarrow> byte c = 0x5C"
    by simp_all
qed

lemma map_option_nil [simp]: "map_option ((@) []) v = v"
  by (cases v) simp_all

lemma json_char_quot: "json_char 0x22 = [CHR 0x5C, CHR 0x22]" "json_char 0x5C = [CHR 0x5C, CHR 0x5C]"
  by (simp_all add: json_char_def char_of_def bit_simps)

lemma json_char_plain: "\<not> json_significant c \<Longrightarrow> json_char (byte c) = [c]"
  by (auto simp: json_significant_def json_char_def byte_eq)

lemma json_char_escaped: "n < 32 \<or> 128 \<le> n \<Longrightarrow> n < 65536 \<Longrightarrow> output_unicode_escape n = json_char n"
  by (auto intro: output_unicode_escape_four)

lemma mod_in_block:
  assumes "k * m \<le> n" and "n < k * m + (m :: nat)"
  shows "n mod m = n - k * m"
proof -
  from assms(1) obtain r where "n = k * m + r" using le_Suc_ex by blast
  with assms(2) show ?thesis by simp
qed

lemma cont_bits: "cont c \<Longrightarrow> byte c AND 0x3F = byte c - 0x80"
  using mod_in_block [of 2 64 "byte c"] by (simp add: and_low_bits)

lemma json_high:
  assumes "128 \<le> byte c"
  shows "json_significant c" "\<not> byte c < 32" "c \<noteq> CHR 0x22" "c \<noteq> CHR 0x5C" "\<not> byte c < 0x80"
  using assms by (auto simp: json_significant_def)

lemma json_body_latin:
  assumes "128 \<le> byte c" and "enc = ENCODING_LATIN1 \<or> enc = ENCODING_MIXED \<and> \<not> (0xC0 \<le> byte c \<and> byte c < 0xE0)"
  shows "json_body enc (c # t) = map_option ((@) (json_char (byte c))) (json_body enc t)"
proof -
  have "json_body enc (c # t) = map_option ((@) (output_unicode_escape (byte c))) (json_body enc t)"
    using assms json_high [OF assms(1)] and_lead_bits(1) [OF byte_less, of c] by (elim disjE) (simp_all add: json_body_special)
  moreover have "byte c < 65536" using byte_less [of c] by linarith
  ultimately show ?thesis using assms(1) by (simp add: json_char_escaped)
qed

lemma json_body_two:
  assumes "enc \<noteq> ENCODING_LATIN1" and "0xC2 \<le> byte c" and "byte c < 0xE0" and "cont c1"
  shows "json_body enc (c # c1 # t) =
     map_option ((@) (json_char ((byte c - 0xC0) * 64 + (byte c1 - 0x80)))) (json_body enc t)"
proof -
  have high: "128 \<le> byte c" using assms(2) by simp
  define a b where ab: "a = byte c - 0xC0" "b = byte c1 - 0x80"
  have less: "2 \<le> a" "a < 32" "b < 64" using assms unfolding ab by linarith+
  have "byte c AND 31 = a"
    using assms(2,3) mod_in_block [of 6 32 "byte c"] by (simp add: and_low_bits ab)
  moreover have "push_bit 6 a OR b = a * 64 + b" using push_or [of b 6 a] less by simp
  moreover have "json_body enc (c # c1 # t) =
     map_option ((@) (output_unicode_escape (push_bit 6 (byte c AND 31) OR (byte c1 AND 0x3F)))) (json_body enc t)"
    using assms(1-3) json_high [OF high] and_lead_bits(1) [OF byte_less, of c]
    by (cases enc) (simp_all add: json_body_special)
  ultimately have "json_body enc (c # c1 # t) = map_option ((@) (output_unicode_escape (a * 64 + b))) (json_body enc t)"
    by (simp only: cont_bits [OF assms(4)] ab [symmetric])
  then show ?thesis unfolding ab [symmetric] using less by (simp add: json_char_escaped)
qed

lemma json_body_three:
  assumes "0xE0 \<le> byte c" and "byte c < 0xF0" and "cont c1" and "cont c2" and "0xE0 < byte c \<or> 0xA0 \<le> byte c1"
  shows "json_body ENCODING_UTF8 (c # c1 # c2 # t) =
     map_option ((@) (json_char ((byte c - 0xE0) * 4096 + (byte c1 - 0x80) * 64 + (byte c2 - 0x80)))) (json_body ENCODING_UTF8 t)"
proof -
  have high: "128 \<le> byte c" using assms(1) by simp
  define a b d where abd: "a = byte c - 0xE0" "b = byte c1 - 0x80" "d = byte c2 - 0x80"
  have less: "a < 16" "b < 64" "d < 64" using assms(1-4) unfolding abd by linarith+
  have wide: "1 \<le> a \<or> 32 \<le> b" using assms(5) unfolding abd by linarith
  have "byte c AND 0x0F = a"
    using assms(1,2) mod_in_block [of 14 16 "byte c"] by (simp add: and_low_bits abd)
  moreover have "push_bit 6 b OR d = b * 64 + d"
    using push_or [of d 6 b] less by simp
  moreover have "push_bit 12 a OR (b * 64 + d) = a * 4096 + (b * 64 + d)"
    using push_or [of "b * 64 + d" 12 a] less by simp
  ultimately have "push_bit 12 (byte c AND 0x0F) OR push_bit 6 (byte c1 AND 0x3F) OR (byte c2 AND 0x3F) = a * 4096 + b * 64 + d"
    by (simp add: cont_bits [OF assms(3)] cont_bits [OF assms(4)] abd [symmetric] or.assoc add.assoc)
  moreover have "json_body ENCODING_UTF8 (c # c1 # c2 # t) =
     map_option ((@) (output_unicode_escape
       (push_bit 12 (byte c AND 0x0F) OR push_bit 6 (byte c1 AND 0x3F) OR (byte c2 AND 0x3F)))) (json_body ENCODING_UTF8 t)"
    using assms(1,2) json_high [OF high] and_lead_bits [OF byte_less, of c] by (simp add: json_body_special)
  ultimately have "json_body ENCODING_UTF8 (c # c1 # c2 # t) =
     map_option ((@) (output_unicode_escape (a * 4096 + b * 64 + d))) (json_body ENCODING_UTF8 t)" by simp
  moreover have "128 \<le> a * 4096 + b * 64 + d" using wide by (elim disjE) simp_all
  moreover have "a * 4096 + b * 64 + d < 65536" using less by linarith
  ultimately show ?thesis unfolding abd [symmetric] by (simp add: json_char_escaped)
qed

lemma map_app:
  "map_option ((@) a) (map_option ((@) b) v) = map_option ((@) (a @ b)) v"
  by (cases v) simp_all

text \<open>A well-formed text, whatever follows it, is printed as its characters.\<close>

lemma chars_of_json_body_append:
  "chars_of enc s = Some cs \<Longrightarrow> json_body enc (s @ u) = map_option ((@) (concat (map json_char cs))) (json_body enc u)"
proof (induction enc s arbitrary: cs rule: chars_of.induct)
  case (2 enc c t)
  consider (plain) "\<not> json_significant c" | (ctrl) "byte c < 32" | (quot) "c = CHR 0x22 \<or> c = CHR 0x5C" | (high) "128 \<le> byte c"
    by (auto simp: json_significant_def)
  then show ?case
  proof cases
    case plain
    then have "byte c < 0x80" by (simp add: json_significant_def)
    with 2(1,6) plain show ?thesis by (cases "json_body enc u") (auto simp: json_body_plain json_char_plain)
  next
    case ctrl
    then have "json_significant c" "byte c < 0x80" by (simp_all add: json_significant_def)
    with 2(1,6) ctrl show ?thesis by (auto simp: json_body_special json_char_escaped map_app)
  next
    case quot
    then have "json_significant c" "byte c < 0x80" "\<not> byte c < 32" by (auto simp: json_significant_def)
    with 2(1,6) quot show ?thesis by (cases "json_body enc u") (auto simp: json_body_special json_char_quot)
  next
    case high
    then have "\<not> byte c < 0x80" by simp
    note prem = 2(6) [unfolded chars_of.simps if_not_P [OF this]]
    consider (latin) "enc = ENCODING_LATIN1 \<or> enc = ENCODING_MIXED \<and> \<not> (0xC0 \<le> byte c \<and> byte c < 0xE0)"
      | (two) "enc \<noteq> ENCODING_LATIN1" "0xC0 \<le> byte c" "byte c < 0xE0"
      | (utf8) "enc = ENCODING_UTF8" "\<not> (0xC0 \<le> byte c \<and> byte c < 0xE0)"
      by (cases enc) auto
    then show ?thesis
    proof cases
      case latin
      with prem obtain cs' where "cs = byte c # cs'" "chars_of enc t = Some cs'"
        by (auto split: if_splits)
      with latin high 2(2,4) show ?thesis by (cases "json_body enc u") (auto simp: json_body_latin)
    next
      case two
      with prem obtain c1 t1 cs' where "t = c1 # t1" "0xC2 \<le> byte c" "cont c1" "chars_of enc t1 = Some cs'"
        and "cs = ((byte c - 0xC0) * 64 + (byte c1 - 0x80)) # cs'"
        by (auto split: if_splits list.splits)
      with two high 2(3) show ?thesis by (cases "json_body enc u") (auto simp: json_body_two)
    next
      case utf8
      with prem obtain c1 c2 t2 cs' where "t = c1 # c2 # t2" "cont c1" "cont c2" "0xE0 < byte c \<or> 0xA0 \<le> byte c1" "chars_of enc t2 = Some cs'"
        and "0xE0 \<le> byte c" "byte c < 0xF0"
        and "cs = ((byte c - 0xE0) * 4096 + (byte c1 - 0x80) * 64 + (byte c2 - 0x80)) # cs'"
        by (auto split: if_splits list.splits)
      with utf8 high 2(5) show ?thesis by (cases "json_body enc u") (auto simp: json_body_three)
    qed
  qed
qed simp

lemma chars_of_json_body: "chars_of enc s = Some cs \<Longrightarrow> json_body enc s = Some (concat (map json_char cs))"
  using chars_of_json_body_append [of enc s cs "[]"] by simp

section \<open>Rows\<close>

definition print_row :: "out_env \<Rightarrow> bool \<Rightarrow> 'r column list \<Rightarrow> 'r \<Rightarrow> string option" where
  "print_row e need_ds_separator cs x =
     cat (Some (output_dataset_begin e need_ds_separator) #
          sep_by (output_field_separator e) (map (\<lambda>c. column_output e c x) cs) @ [Some (output_dataset_end e)])"

section \<open>Texts the printer does not get right\<close>

lemma json_body_four:
  assumes "0xF0 \<le> byte c" and "byte c < 0xF8"
  shows "json_body ENCODING_UTF8 (c # c1 # c2 # c3 # t) =
     map_option ((@) (output_unicode_escape
        (push_bit 18 (byte c AND 0x07) OR push_bit 6 (byte c1 AND 0x3F) OR push_bit 6 (byte c2 AND 0x3F) OR (byte c3 AND 0x3F))))
       (json_body ENCODING_UTF8 t)"
proof -
  have high: "128 \<le> byte c" using assms by simp
  have "byte c AND 0xF8 = 0xF0"
  proof -
    have "byte c AND 0xF8 = (byte c div 8 mod 32) * 8"
      using and_high_bits [of "byte c" 3 5] by (simp add: mask_eq_exp_minus_1 push_bit_eq_mult)
    moreover have "byte c div 8 = 30" using assms by (intro div_nat_eqI) simp_all
    ultimately show ?thesis by simp
  qed
  then show ?thesis
    using assms json_high [OF high] and_lead_bits [OF byte_less, of c] by (simp add: json_body_special)
qed

text \<open>
  Characters of four bytes are not printed: the second byte is shifted like the third, so that two
  characters with these bytes exchanged come out as the same text, and only four digits of the result are
  kept.
\<close>

theorem four_byte_characters_collide:
  assumes "0xF0 \<le> byte c" and "byte c < 0xF8"
  shows "json_body ENCODING_UTF8 [c, c1, c2, c3] = json_body ENCODING_UTF8 [c, c2, c1, c3] \<and>
         (\<exists>o2. json_body ENCODING_UTF8 [c, c1, c2, c3] = Some o2 \<and> length o2 \<le> 6)"
proof -
  have "push_bit 18 (byte c AND 0x07) OR push_bit 6 (byte c1 AND 0x3F) OR push_bit 6 (byte c2 AND 0x3F) OR (byte c3 AND 0x3F) =
        push_bit 18 (byte c AND 0x07) OR push_bit 6 (byte c2 AND 0x3F) OR push_bit 6 (byte c1 AND 0x3F) OR (byte c3 AND 0x3F)"
    by (simp only: or.assoc or.left_commute)
  then show ?thesis by (simp add: json_body_four [OF assms] output_unicode_escape_def)
qed

theorem four_byte_characters_collide_witness:
  "json_body ENCODING_UTF8 [CHR 0xF0, CHR 0x9F, CHR 0x98, CHR 0x80] = json_body ENCODING_UTF8 [CHR 0xF0, CHR 0x98, CHR 0x9F, CHR 0x80] \<and>
   (\<exists>o2. json_body ENCODING_UTF8 [CHR 0xF0, CHR 0x9F, CHR 0x98, CHR 0x80] = Some o2 \<and> length o2 \<le> 6)"
  by (rule four_byte_characters_collide) simp_all

text \<open>
  A text that ends within a two-byte character (a plugin's output cut at its maximal length, say) makes
  the printer read behind its end, in the encodings \<open>utf8\<close> and \<open>mixed\<close>.
\<close>

theorem cut_character_is_read_past:
  assumes "enc \<noteq> ENCODING_LATIN1" and "chars_of enc s = Some cs" and "0xC0 \<le> byte c" and "byte c < 0xE0"
  shows "json_body enc (s @ [c]) = None"
proof -
  have high: "128 \<le> byte c" using assms by simp
  have "json_body enc [c] = None"
    using assms json_high [OF high] and_lead_bits(1) [OF byte_less, of c] by (cases enc) (simp_all add: json_body_special)
  then show ?thesis by (simp add: chars_of_json_body_append [OF assms(2)])
qed

theorem cut_character_is_read_past_witness:
  "json_body ENCODING_UTF8 (''caf'' @ [CHR 0xC3]) = None"
  by (rule cut_character_is_read_past) simp_all

end
