(* ===== verification/Output_Buffer.thy ===== *)
theory Output_Buffer
  imports Prelude
begin

text \<open>
  The response buffer (\<open>src/OutputBuffer.cc\<close>, \<open>src/OutputBuffer.h\<close>): a block of memory that grows, the
  first error of the request, and the response sent to the client. The block is the list of its bytes,
  as long as what was allocated, and \<open>_writepos\<close> a position in it; storing past the end of the block is
  \<open>None\<close>, so a result \<open>Some\<close> says that no byte was written outside. Sizes are natural numbers: the
  responses are far below \<open>2 ^ 63\<close> bytes.
\<close>

section \<open>The model\<close>

datatype response_header = RESPONSE_HEADER_OFF | RESPONSE_HEADER_FIXED16

abbreviation (input) "RESPONSE_CODE_OK \<equiv> 200 :: int"
abbreviation (input) "RESPONSE_CODE_INVALID_HEADER \<equiv> 400 :: int"
abbreviation (input) "RESPONSE_CODE_UNAUTHORIZED \<equiv> 403 :: int"
abbreviation (input) "RESPONSE_CODE_NOT_FOUND \<equiv> 404 :: int"
abbreviation (input) "RESPONSE_CODE_LIMIT_EXCEEDED \<equiv> 413 :: int"
abbreviation (input) "RESPONSE_CODE_UNKNOWN_COLUMN \<equiv> 450 :: int"
abbreviation (input) "RESPONSE_CODE_INCOMPLETE_REQUEST \<equiv> 451 :: int"
abbreviation (input) "RESPONSE_CODE_INVALID_REQUEST \<equiv> 452 :: int"

definition INITIAL_OUTPUT_BUFFER_SIZE :: nat where
  "INITIAL_OUTPUT_BUFFER_SIZE = 1024"

record output_buffer =
  ob_buffer :: bytes
  ob_writepos :: nat
  ob_max_size :: nat
  ob_response_header :: response_header
  ob_response_code :: int
  ob_error_message :: string
  ob_do_keepalive :: bool

definition ob_reset :: "output_buffer \<Rightarrow> output_buffer" where
  "ob_reset ob = ob\<lparr> ob_writepos := 0, ob_response_header := RESPONSE_HEADER_OFF,
     ob_response_code := RESPONSE_CODE_OK, ob_do_keepalive := False, ob_error_message := [] \<rparr>"

text \<open>What \<open>malloc\<close> and \<open>realloc\<close> leave in new memory is not specified; the model has NUL bytes there.\<close>

definition new_output_buffer :: output_buffer where
  "new_output_buffer = ob_reset
     \<lparr> ob_buffer = replicate INITIAL_OUTPUT_BUFFER_SIZE (CHR 0x00), ob_writepos = 0,
       ob_max_size = INITIAL_OUTPUT_BUFFER_SIZE, ob_response_header = RESPONSE_HEADER_OFF,
       ob_response_code = RESPONSE_CODE_OK, ob_error_message = [], ob_do_keepalive = False \<rparr>"

definition ob_size :: "output_buffer \<Rightarrow> nat" where
  "ob_size ob = ob_writepos ob"

definition ob_contents :: "output_buffer \<Rightarrow> bytes" where
  "ob_contents ob = take (ob_writepos ob) (ob_buffer ob)"

text \<open>The loop of \<open>needSpace\<close>; it would never end for a block of size 0.\<close>

partial_function (option) grow :: "nat \<Rightarrow> nat \<Rightarrow> nat option" where
  "grow max_size needed =
     (if max_size < needed
      then grow (if max_size < 500 * 1024 * 1024 then max_size * 2 else max_size + max_size div 4) needed
      else Some max_size)"

declare grow.simps [code]

definition need_space :: "nat \<Rightarrow> output_buffer \<Rightarrow> output_buffer option" where
  "need_space len ob =
     (if ob_max_size ob < ob_writepos ob + len
      then (case grow (ob_max_size ob) (ob_size ob + len) of
              None \<Rightarrow> None
            | Some m \<Rightarrow> Some (ob\<lparr> ob_max_size := m,
                ob_buffer := take m (ob_buffer ob) @ replicate (m - length (ob_buffer ob)) (CHR 0x00) \<rparr>))
      else Some ob)"

definition store :: "bytes \<Rightarrow> output_buffer \<Rightarrow> output_buffer option" where
  "store b ob =
     (if ob_writepos ob + length b \<le> length (ob_buffer ob)
      then Some (ob\<lparr> ob_buffer := take (ob_writepos ob) (ob_buffer ob) @ b @ drop (ob_writepos ob + length b) (ob_buffer ob),
                     ob_writepos := ob_writepos ob + length b \<rparr>)
      else None)"

definition add_buffer :: "bytes \<Rightarrow> output_buffer \<Rightarrow> output_buffer option" where
  "add_buffer b ob =
     (case (if ob_max_size ob < ob_writepos ob + length b then need_space (length b) ob else Some ob) of
        None \<Rightarrow> None
      | Some ob' \<Rightarrow> store b ob')"

definition add_char :: "char \<Rightarrow> output_buffer \<Rightarrow> output_buffer option" where
  "add_char c ob =
     (case (if ob_max_size ob < ob_writepos ob + 1 then need_space 1 ob else Some ob) of
        None \<Rightarrow> None
      | Some ob' \<Rightarrow> store [c] ob')"

definition add_string :: "string \<Rightarrow> output_buffer \<Rightarrow> output_buffer option" where
  "add_string s ob = add_buffer s ob"

text \<open>
  \<open>addUntilNextSignificantChar\<close>: the NUL that ends the text is significant in every table the code passes,
  so the run also ends at the end of the text. It returns the text from the significant byte on.
\<close>

definition add_until_significant ::
  "(char \<Rightarrow> bool) \<Rightarrow> string \<Rightarrow> output_buffer \<Rightarrow> (output_buffer \<times> string) option" where
  "add_until_significant is_significant src ob =
     (let run = takeWhile (\<lambda>c. \<not> is_significant c) src
      in if run \<noteq> []
         then map_option (\<lambda>ob'. (ob', dropWhile (\<lambda>c. \<not> is_significant c) src)) (add_buffer run ob)
         else Some (ob, src))"

text \<open>
  \<open>setError\<close> takes the text of the message as \<open>vsnprintf\<close> formats it, cut to 8190 bytes, and adds the
  newline; later errors are ignored.
\<close>

definition ob_has_error :: "output_buffer \<Rightarrow> bool" where
  "ob_has_error ob \<longleftrightarrow> ob_error_message ob \<noteq> []"

definition ob_set_error :: "int \<Rightarrow> string \<Rightarrow> output_buffer \<Rightarrow> output_buffer" where
  "ob_set_error code msg ob =
     (if ob_error_message ob = []
      then ob\<lparr> ob_error_message := take 8190 msg @ [CHR 0x0A], ob_response_code := code \<rparr>
      else ob)"

section \<open>Sending the response\<close>

text \<open>
  \<open>writeData\<close> calls \<open>select\<close> and \<open>write\<close> until everything is sent; what they report is a list of events:
  the socket was not ready (a timeout or a failed \<open>select\<close>), \<open>write\<close> failed, \<open>write\<close> took \<open>w\<close> bytes, or the
  termination flag was raised. The result is what reached the client, with the events left. The
  pointer \<open>write_from\<close> is not moved: every \<open>write\<close> starts at the first byte.
\<close>

datatype write_event = Not_ready | Write_failed | Wrote nat | Terminated

fun write_data :: "write_event list \<Rightarrow> bytes \<Rightarrow> nat \<Rightarrow> bytes \<times> write_event list" where
  "write_data [] write_from to_write = ([], [])"
| "write_data (e # es) write_from to_write =
     (if to_write = 0 then ([], e # es)
      else case e of
             Terminated \<Rightarrow> ([], e # es)
           | Not_ready \<Rightarrow> write_data es write_from to_write
           | Write_failed \<Rightarrow> ([], es)
           | Wrote w \<Rightarrow>
               (let w = min w to_write;
                    (sent, es') = write_data es write_from (to_write - w)
                in (take w write_from @ sent, es')))"

text \<open>The header line \<open>"%03d %11zu\n"\<close>, in a buffer that holds 16 bytes of it.\<close>

definition pad :: "nat \<Rightarrow> char \<Rightarrow> string \<Rightarrow> string" where
  "pad n c s = replicate (n - length s) c @ s"

definition fixed16_header :: "int \<Rightarrow> nat \<Rightarrow> string" where
  "fixed16_header code s =
     take 16 (pad 3 (CHR ''0'') (show_int code) @ '' '' @ pad 11 (CHR '' '') (show_nat s) @ [CHR 0x0A])"

definition response_body :: "output_buffer \<Rightarrow> bytes" where
  "response_body ob = (if ob_response_code ob \<noteq> RESPONSE_CODE_OK then ob_error_message ob else ob_contents ob)"

definition ob_flush :: "write_event list \<Rightarrow> output_buffer \<Rightarrow> bytes \<times> write_event list \<times> output_buffer" where
  "ob_flush es ob =
     (let body = response_body ob
      in if ob_response_header ob = RESPONSE_HEADER_FIXED16
         then let (h, es1) = write_data es (fixed16_header (ob_response_code ob) (length body)) 16;
                  (b, es2) = write_data es1 body (length body)
              in (h @ b, es2, ob_reset ob)
         else let (b, es1) = write_data es body (length body)
              in (b, es1, ob_reset ob))"

section \<open>The block never overflows\<close>

definition ob_wf :: "output_buffer \<Rightarrow> bool" where
  "ob_wf ob \<longleftrightarrow> length (ob_buffer ob) = ob_max_size ob \<and> ob_writepos ob \<le> ob_max_size ob \<and> 0 < ob_max_size ob \<and>
     (ob_response_code ob \<noteq> RESPONSE_CODE_OK \<longrightarrow> ob_error_message ob \<noteq> [])"

lemma grow_result:
  "0 < m \<Longrightarrow> \<exists>m'. grow m needed = Some m' \<and> needed \<le> m' \<and> m \<le> m' \<and> (m' = m \<or> m' < 2 * needed)"
proof (induction "needed - m" arbitrary: m rule: less_induct)
  case less
  show ?case
  proof (cases "m < needed")
    case False
    then show ?thesis by (simp add: grow.simps)
  next
    case True
    define n where "n = (if m < 500 * 1024 * 1024 then m * 2 else m + m div 4)"
    have n: "m < n" "n \<le> 2 * m" using less.prems by (auto simp: n_def)
    have "needed - n < needed - m" "0 < n" using n True by auto
    from less.hyps [OF this] obtain m' where m':
      "grow n needed = Some m'" "needed \<le> m'" "n \<le> m'" "m' = n \<or> m' < 2 * needed"
      by blast
    have "grow m needed = grow n needed" using True by (subst grow.simps) (simp add: n_def)
    with m' n True show ?thesis by (intro exI [of _ m']) auto
  qed
qed

lemma need_space_result:
  assumes "ob_wf ob"
  obtains ob' where "need_space len ob = Some ob'" "ob_wf ob'" "ob_contents ob' = ob_contents ob"
    "ob_writepos ob' = ob_writepos ob" "ob_writepos ob + len \<le> length (ob_buffer ob')"
    "ob_max_size ob' = ob_max_size ob \<or> ob_max_size ob' < 2 * (ob_writepos ob + len)"
    "ob_error_message ob' = ob_error_message ob" "ob_response_code ob' = ob_response_code ob"
proof (cases "ob_max_size ob < ob_writepos ob + len")
  case False
  with assms show thesis using that [of ob] by (simp add: need_space_def ob_wf_def)
next
  case True
  from assms obtain m where m: "grow (ob_max_size ob) (ob_writepos ob + len) = Some m" "ob_writepos ob + len \<le> m"
    "ob_max_size ob \<le> m" "m = ob_max_size ob \<or> m < 2 * (ob_writepos ob + len)"
    using grow_result [of "ob_max_size ob" "ob_writepos ob + len"] by (auto simp: ob_wf_def)
  with True assms show thesis
    by (intro that [of "ob\<lparr> ob_max_size := m, ob_buffer := take m (ob_buffer ob) @ replicate (m - length (ob_buffer ob)) (CHR 0x00) \<rparr>"])
      (auto simp: need_space_def ob_size_def ob_wf_def ob_contents_def)
qed

lemma store_result:
  assumes "ob_wf ob" and "ob_writepos ob + length b \<le> length (ob_buffer ob)"
  obtains ob' where "store b ob = Some ob'" "ob_wf ob'" "ob_contents ob' = ob_contents ob @ b"
    "ob_max_size ob' = ob_max_size ob" "ob_error_message ob' = ob_error_message ob"
    "ob_response_code ob' = ob_response_code ob"
  using assms
  by (intro that [of "ob\<lparr> ob_buffer := take (ob_writepos ob) (ob_buffer ob) @ b @ drop (ob_writepos ob + length b) (ob_buffer ob),
         ob_writepos := ob_writepos ob + length b \<rparr>"])
    (auto simp: store_def ob_wf_def ob_contents_def)

lemma ob_contents_length: "ob_wf ob \<Longrightarrow> length (ob_contents ob) = ob_writepos ob"
  by (simp add: ob_wf_def ob_contents_def)

definition ob_grown :: "output_buffer \<Rightarrow> bytes \<Rightarrow> output_buffer \<Rightarrow> bool" where
  "ob_grown ob b ob' \<longleftrightarrow> ob_wf ob' \<and> ob_contents ob' = ob_contents ob @ b \<and>
     (ob_max_size ob' = ob_max_size ob \<or> ob_max_size ob' < 2 * length (ob_contents ob')) \<and>
     ob_error_message ob' = ob_error_message ob \<and> ob_response_code ob' = ob_response_code ob"

lemma add_buffer_result:
  assumes "ob_wf ob"
  obtains ob' where "add_buffer b ob = Some ob'" "ob_grown ob b ob'"
proof -
  obtain ob1 where 1: "need_space (length b) ob = Some ob1" "ob_wf ob1" "ob_contents ob1 = ob_contents ob"
    "ob_writepos ob1 = ob_writepos ob" "ob_writepos ob + length b \<le> length (ob_buffer ob1)"
    "ob_max_size ob1 = ob_max_size ob \<or> ob_max_size ob1 < 2 * (ob_writepos ob + length b)"
    "ob_error_message ob1 = ob_error_message ob" "ob_response_code ob1 = ob_response_code ob"
    by (rule need_space_result [OF assms])
  have "ob_writepos ob1 + length b \<le> length (ob_buffer ob1)" using 1 by simp
  then obtain ob2 where 2: "store b ob1 = Some ob2" "ob_wf ob2" "ob_contents ob2 = ob_contents ob1 @ b"
    "ob_max_size ob2 = ob_max_size ob1" "ob_error_message ob2 = ob_error_message ob1"
    "ob_response_code ob2 = ob_response_code ob1"
    by (rule store_result [OF 1(2)])
  have "add_buffer b ob = Some ob2" using 1(1) 2(1) by (auto simp: add_buffer_def need_space_def split: if_splits)
  moreover have "ob_grown ob b ob2"
    using 1 2 assms by (auto simp: ob_grown_def ob_contents_length [OF assms, symmetric])
  ultimately show thesis by (rule that)
qed

lemma add_char_eq: "add_char c ob = add_buffer [c] ob"
  by (simp add: add_char_def add_buffer_def)

lemma ob_grown_trans: "ob_grown ob b ob1 \<Longrightarrow> ob_grown ob1 b' ob2 \<Longrightarrow> ob_grown ob (b @ b') ob2"
  by (auto simp: ob_grown_def)

text \<open>
  What the printing code relies on: a sink takes every chunk and holds, after any number of them, the text
  it held and the chunks in order.
\<close>

fun put_all :: "(bytes \<Rightarrow> 's \<Rightarrow> 's option) \<Rightarrow> bytes list \<Rightarrow> 's \<Rightarrow> 's option" where
  "put_all put [] s = Some s"
| "put_all put (b # bs) s = (case put b s of None \<Rightarrow> None | Some s' \<Rightarrow> put_all put bs s')"

locale byte_sink =
  fixes put :: "bytes \<Rightarrow> 's \<Rightarrow> 's option"
    and extends :: "'s \<Rightarrow> bytes \<Rightarrow> 's \<Rightarrow> bool"
    and ready :: "'s \<Rightarrow> bool"
  assumes put_ready: "ready s \<Longrightarrow> \<exists>s'. put b s = Some s' \<and> extends s b s'"
    and extends_ready: "extends s b s' \<Longrightarrow> ready s'"
    and extends_refl: "ready s \<Longrightarrow> extends s [] s"
    and extends_trans: "extends s b s1 \<Longrightarrow> extends s1 b' s2 \<Longrightarrow> extends s (b @ b') s2"
begin

lemma put_all_result: "ready s \<Longrightarrow> \<exists>s'. put_all put bs s = Some s' \<and> extends s (concat bs) s'"
proof (induction bs arbitrary: s)
  case Nil
  then show ?case by (simp add: extends_refl)
next
  case (Cons b bs)
  then obtain s1 where 1: "put b s = Some s1" "extends s b s1" using put_ready by blast
  then obtain s2 where "put_all put bs s1 = Some s2" "extends s1 (concat bs) s2"
    using Cons.IH extends_ready by blast
  with 1 show ?case by (auto intro: extends_trans)
qed

end

interpretation ob_sink: byte_sink add_buffer ob_grown ob_wf
proof unfold_locales
  show "ob_wf s \<Longrightarrow> \<exists>s'. add_buffer b s = Some s' \<and> ob_grown s b s'" for s b
    by (rule add_buffer_result [of s b]) blast+
qed (auto simp: ob_grown_def intro: ob_grown_trans)

text \<open>
  C24. Whatever is printed, the response buffer never writes outside its block and never loops: from any
  well-formed state a sequence of chunks is stored in full, after what was there and in order, and the
  block is either the one it had or less than twice the size of the response.
\<close>

theorem response_buffer_appends:
  assumes "ob_wf ob"
  shows "\<exists>ob'. put_all add_buffer chunks ob = Some ob' \<and> ob_wf ob' \<and>
     ob_contents ob' = ob_contents ob @ concat chunks \<and>
     (ob_max_size ob' = ob_max_size ob \<or> ob_max_size ob' < 2 * length (ob_contents ob')) \<and>
     ob_error_message ob' = ob_error_message ob"
  using ob_sink.put_all_result [OF assms, of chunks] by (auto simp: ob_grown_def)

lemma new_output_buffer_wf: "ob_wf new_output_buffer"
  by (simp add: ob_wf_def new_output_buffer_def ob_reset_def INITIAL_OUTPUT_BUFFER_SIZE_def)

theorem response_buffer_appends_witness:
  "\<exists>ob'. put_all add_buffer [''['', ''1,2'', '']''] new_output_buffer = Some ob' \<and> ob_wf ob' \<and>
     ob_contents ob' = ob_contents new_output_buffer @ concat [''['', ''1,2'', '']''] \<and>
     (ob_max_size ob' = ob_max_size new_output_buffer \<or> ob_max_size ob' < 2 * length (ob_contents ob')) \<and>
     ob_error_message ob' = ob_error_message new_output_buffer"
  by (rule response_buffer_appends [OF new_output_buffer_wf])

text \<open>
  Escaped output: \<open>addUntilNextSignificantChar\<close> stores exactly the run of insignificant bytes and
  returns the rest of the text, which is empty or begins with a significant byte.
\<close>

theorem add_until_significant_splits:
  assumes "ob_wf ob"
  shows "\<exists>ob' rest. add_until_significant sig src ob = Some (ob', rest) \<and> ob_wf ob' \<and>
     (\<exists>run. src = run @ rest \<and> ob_contents ob' = ob_contents ob @ run \<and> list_all (\<lambda>c. \<not> sig c) run) \<and>
     (rest = [] \<or> sig (hd rest))"
proof -
  let ?run = "takeWhile (\<lambda>c. \<not> sig c) src"
  have all: "list_all (\<lambda>c. \<not> sig c) ?run" by (auto simp: list_all_iff dest: set_takeWhileD)
  have rest: "dropWhile (\<lambda>c. \<not> sig c) src = [] \<or> sig (hd (dropWhile (\<lambda>c. \<not> sig c) src))"
    using hd_dropWhile [of "\<lambda>c. \<not> sig c" src] by auto
  show ?thesis
  proof (cases "?run = []")
    case True
    then have "dropWhile (\<lambda>c. \<not> sig c) src = src" using takeWhile_dropWhile_id [of "\<lambda>c. \<not> sig c" src] by simp
    with True rest assms show ?thesis
      by (intro exI [of _ ob] exI [of _ src]) (auto simp: add_until_significant_def Let_def intro!: exI [of _ "[]"])
  next
    case False
    obtain ob' where "add_buffer ?run ob = Some ob'" "ob_grown ob ?run ob'"
      by (rule add_buffer_result [OF assms])
    with False all rest show ?thesis
      by (intro exI [of _ ob'] exI [of _ "dropWhile (\<lambda>c. \<not> sig c) src"] conjI exI [of _ ?run])
        (auto simp: add_until_significant_def Let_def ob_grown_def)
  qed
qed

theorem add_until_significant_splits_witness:
  "\<exists>ob' rest. add_until_significant (\<lambda>c. c = CHR 0x22) [CHR ''a'', CHR 0x22, CHR ''b''] new_output_buffer = Some (ob', rest) \<and> ob_wf ob' \<and>
     (\<exists>run. [CHR ''a'', CHR 0x22, CHR ''b''] = run @ rest \<and> ob_contents ob' = ob_contents new_output_buffer @ run \<and>
        list_all (\<lambda>c. \<not> c = CHR 0x22) run) \<and>
     (rest = [] \<or> hd rest = CHR 0x22)"
  by (rule add_until_significant_splits [OF new_output_buffer_wf])

section \<open>Errors\<close>

text \<open>
  C25. The first error of a request is the one the client gets, alone: whatever errors are set and whatever
  was printed, the body is the first error's text, cut to 8190 bytes, with a newline.
\<close>

theorem first_error_is_the_response:
  assumes "ob_wf ob" and "\<not> ob_has_error ob" and "code \<noteq> RESPONSE_CODE_OK"
  shows "response_body (foldl (\<lambda>b (c, m). ob_set_error c m b) ob ((code, msg) # later)) = take 8190 msg @ [CHR 0x0A] \<and>
         ob_response_code (foldl (\<lambda>b (c, m). ob_set_error c m b) ob ((code, msg) # later)) = code"
proof -
  define ob1 where "ob1 = ob_set_error code msg ob"
  have "foldl (\<lambda>b (c, m). ob_set_error c m b) ob1 later = ob1"
    by (induction later) (auto simp: ob1_def ob_set_error_def)
  with assms show ?thesis
    by (simp add: ob1_def [symmetric]) (simp add: ob1_def ob_set_error_def ob_has_error_def response_body_def)
qed

theorem first_error_is_the_response_witness:
  "response_body (foldl (\<lambda>b (c, m). ob_set_error c m b) new_output_buffer ((400, ''first'') # [(404, ''second'')])) =
     take 8190 ''first'' @ [CHR 0x0A] \<and>
   ob_response_code (foldl (\<lambda>b (c, m). ob_set_error c m b) new_output_buffer ((400, ''first'') # [(404, ''second'')])) = 400"
  by (rule first_error_is_the_response [OF new_output_buffer_wf])
    (simp_all add: ob_has_error_def new_output_buffer_def ob_reset_def)

section \<open>The header\<close>

lemma length_show_nat: "0 < k \<Longrightarrow> n < 10 ^ k \<Longrightarrow> length (show_nat n) \<le> k"
proof (induction k arbitrary: n)
  case (Suc k)
  show ?case
  proof (cases "n < 10")
    case True
    then show ?thesis by (subst show_nat.simps) simp
  next
    case False
    with Suc.prems have k: "0 < k" by (cases k) auto
    have "n div 10 < 10 ^ k" using Suc.prems(2) by (simp add: less_mult_imp_div_less mult.commute)
    with Suc.IH [OF k] have "length (show_nat (n div 10)) \<le> k" by blast
    with False show ?thesis by (subst show_nat.simps) simp
  qed
qed simp

lemma strtol_padded:
  assumes "int n < 2 ^ 63"
  shows "strtol (replicate k (CHR '' '') @ show_nat n) = int n"
proof -
  have "dropWhile c_isspace (replicate k (CHR '' '') @ show_nat n) = dropWhile c_isspace (show_nat n)"
    by (rule dropWhile_append2) (auto simp: c_isspace_def)
  then have "strtol (replicate k (CHR '' '') @ show_nat n) = strtol (show_int (int n))"
    by (simp add: strtol_def show_int_def)
  with assms show ?thesis using strtol_show_int [of "int n"] by (simp add: in_int64_def)
qed

lemma fixed16_header_parts:
  assumes "100 \<le> code" and "code < 1000" and "s < 10 ^ 11"
  obtains p where "fixed16_header code s = show_int code @ '' '' @ p @ [CHR 0x0A]" "length (show_int code) = 3"
    "length p = 11" "strtol p = int s"
proof -
  obtain c where c: "code = int c" "100 \<le> c" "c < 1000"
    using assms nonneg_int_cases [of code] by auto
  have three: "length (show_nat c) = 3"
    using c by (subst show_nat.simps, subst show_nat.simps, subst show_nat.simps) auto
  have eleven: "length (show_nat s) \<le> 11" using assms(3) by (intro length_show_nat) auto
  define p where "p = replicate (11 - length (show_nat s)) (CHR '' '') @ show_nat s"
  have p: "length p = 11" using eleven by (simp add: p_def)
  have sp: "strtol p = int s"
    unfolding p_def by (rule strtol_padded) (use assms(3) in simp)
  have "fixed16_header code s = show_int code @ '' '' @ p @ [CHR 0x0A]"
    using three p by (simp add: fixed16_header_def pad_def p_def [symmetric] c(1) show_int_def)
  then show thesis using three p sp c(1) by (intro that [of p]) (simp_all add: show_int_def)
qed

lemma fixed16_header_length:
  "100 \<le> code \<Longrightarrow> code < 1000 \<Longrightarrow> s < 10 ^ 11 \<Longrightarrow> length (fixed16_header code s) = 16"
  by (rule fixed16_header_parts [of code s]) auto

text \<open>
  A client can read the \<open>fixed16\<close> header: for a response code of three digits and a body of less than
  \<open>10 ^ 11\<close> bytes it is 16 bytes, whose first three are the code and whose bytes 5 to 15 are the length.
\<close>

theorem fixed16_header_reads_back:
  assumes "100 \<le> code" and "code < 1000" and "s < 10 ^ 11"
  shows "length (fixed16_header code s) = 16 \<and> atoi (take 3 (fixed16_header code s)) = code \<and>
         strtol (take 11 (drop 4 (fixed16_header code s))) = int s \<and> drop 15 (fixed16_header code s) = [CHR 0x0A]"
proof -
  have "atoi (show_int code) = code"
    using assms by (intro atoi_show_int) (simp add: in_int32_def)
  moreover obtain p where "fixed16_header code s = show_int code @ '' '' @ p @ [CHR 0x0A]"
    "length (show_int code) = 3" "length p = 11" "strtol p = int s"
    by (rule fixed16_header_parts [OF assms])
  ultimately show ?thesis by simp
qed

theorem fixed16_header_reads_back_witness:
  "length (fixed16_header 404 51) = 16 \<and> atoi (take 3 (fixed16_header 404 51)) = 404 \<and>
   strtol (take 11 (drop 4 (fixed16_header 404 51))) = int 51 \<and> drop 15 (fixed16_header 404 51) = [CHR 0x0A]"
  by (rule fixed16_header_reads_back) simp_all

section \<open>What the client receives\<close>

lemma write_data_not_ready: "0 < n \<Longrightarrow> write_data (replicate k Not_ready @ es) b n = write_data es b n"
  by (induction k) auto

lemma write_data_zero: "write_data es b 0 = ([], es)"
  by (cases es) auto

lemma write_data_all: "b \<noteq> [] \<Longrightarrow> length b = n \<Longrightarrow> write_data (Wrote n # es) b n = (b, es)"
  by (auto simp: write_data_zero)

definition demo_response :: output_buffer where
  "demo_response = ob_set_error 404 ''not found'' (new_output_buffer\<lparr> ob_response_header := RESPONSE_HEADER_FIXED16 \<rparr>)"

text \<open>
  C26. When each \<open>write\<close> takes all it is offered, however often the socket was not ready before, the client
  receives the header, exactly the body, and nothing else, and the buffer is empty for the next request.
\<close>

theorem flush_sends_header_and_body:
  assumes "ob_response_header ob = RESPONSE_HEADER_FIXED16" and "response_body ob \<noteq> []"
    and "100 \<le> ob_response_code ob" and "ob_response_code ob < 1000" and "length (response_body ob) < 10 ^ 11"
  shows "ob_flush (replicate k Not_ready @ [Wrote 16] @ replicate l Not_ready @ [Wrote (length (response_body ob))]) ob =
     (fixed16_header (ob_response_code ob) (length (response_body ob)) @ response_body ob, [], ob_reset ob)"
proof -
  have "length (fixed16_header (ob_response_code ob) (length (response_body ob))) = 16"
    using assms(3-5) fixed16_header_length by blast
  moreover from this have "fixed16_header (ob_response_code ob) (length (response_body ob)) \<noteq> []" by auto
  ultimately show ?thesis using assms(1,2)
    by (simp add: ob_flush_def Let_def write_data_not_ready write_data_all del: write_data.simps)
qed

theorem flush_sends_header_and_body_witness:
  "ob_flush (replicate 2 Not_ready @ [Wrote 16] @ replicate 1 Not_ready @ [Wrote (length (response_body demo_response))])
       demo_response =
     (fixed16_header (ob_response_code demo_response) (length (response_body demo_response)) @ response_body demo_response,
      [], ob_reset demo_response)"
  by (rule flush_sends_header_and_body)
    (simp_all add: demo_response_def response_body_def ob_set_error_def new_output_buffer_def ob_reset_def)

text \<open>
  A partial \<open>write\<close> corrupts the response: after \<open>w1\<close> bytes the rest is taken from the beginning
  again, so that the client receives the right bytes only if the text repeats itself there.
\<close>

theorem partial_write_resends_the_beginning:
  assumes "0 < w1" and "0 < w2" and "w1 + w2 = length b"
  shows "write_data [Wrote w1, Wrote w2] b (length b) = (take w1 b @ take w2 b, []) \<and>
         (fst (write_data [Wrote w1, Wrote w2] b (length b)) = b \<longleftrightarrow> take w2 b = drop w1 b)"
proof -
  have "write_data [Wrote w1, Wrote w2] b (length b) = (take w1 b @ take w2 b, [])"
    using assms by auto
  moreover have "take w1 b @ take w2 b = b \<longleftrightarrow> take w2 b = drop w1 b"
    by (metis append_take_drop_id same_append_eq)
  ultimately show ?thesis by simp
qed

theorem partial_write_resends_the_beginning_witness:
  "write_data [Wrote 2, Wrote 1] ''abc'' (length ''abc'') = (take 2 ''abc'' @ take 1 ''abc'', []) \<and>
   (fst (write_data [Wrote 2, Wrote 1] ''abc'' (length ''abc'')) = ''abc'' \<longleftrightarrow> take 1 ''abc'' = drop 2 ''abc'')"
  by (rule partial_write_resends_the_beginning) simp_all

end
