(* ===== verification/Query.thy ===== *)
theory Query
  imports Table Query_Output Row_Sorted_Set Output_Buffer Strutil "HOL-Library.Signed_Division"
begin

text \<open>
  A query and the headers that build it (the constructor of \<open>Query\<close> in \<open>src/Query.cc\<close> and the \<open>parse\<close>
  methods it calls). The record has the fields of the class; \<open>q_filter\<close> and \<open>q_wait_condition\<close> are the
  stacks of the two \<open>AndingFilter\<close>s, with their error texts; the unsigned \<open>_wait_trigger\<close> is \<open>None\<close> for
  \<open>WT_NONE\<close>. An object of \<open>WaitObject\<close> is a row of the table, and the null pointer a row of its own
  (\<open>qe_null_object\<close>), as the columns read it. The clock is what \<open>time(0)\<close> returns while a header is read.

  A header whose handling is undefined behaviour is \<open>None\<close>: \<open>parseStatsAndOrLine\<close> goes on after a missing
  number and hands a null pointer to \<open>atoi\<close>.
\<close>

record 'r query_env =
  qe_filter_env :: filter_env
  qe_find_contact :: "string \<Rightarrow> nat option"
  qe_null_object :: 'r

record 'r query =
  q_output :: output_buffer
  q_table :: "'r table option"
  q_filter :: "'r filter list"
  q_filter_error :: string
  q_auth_user :: "auth_user option"
  q_wait_condition :: "'r filter list"
  q_wait_error :: string
  q_wait_timeout :: int
  q_wait_trigger :: "nat option"
  q_wait_object :: 'r
  q_field_separator :: string
  q_dataset_separator :: string
  q_list_separator :: string
  q_host_service_separator :: string
  q_show_column_headers :: bool
  q_need_ds_separator :: bool
  q_output_format :: out_format
  q_limit :: int
  q_time_limit :: int
  q_time_limit_timeout :: int
  q_offset :: int
  q_current_line :: int
  q_timezone_offset :: int
  q_columns :: "'r column list"
  q_do_sorting :: bool
  q_sorter :: "'r row_sorted_set"
  q_stats_columns :: "'r stats_column list"
  q_stats_aggregators :: "'r aggregator list"
  q_stats_groups :: "(string list \<times> 'r aggregator list) list"

definition new_query :: "'r query_env \<Rightarrow> output_buffer \<Rightarrow> 'r table option \<Rightarrow> 'r query" where
  "new_query env ob t =
     \<lparr> q_output = ob, q_table = t, q_filter = [], q_filter_error = [], q_auth_user = None, q_wait_condition = [],
       q_wait_error = [], q_wait_timeout = 0, q_wait_trigger = None, q_wait_object = qe_null_object env,
       q_field_separator = '';'', q_dataset_separator = [CHR 0x0A], q_list_separator = '','',
       q_host_service_separator = ''|'', q_show_column_headers = True, q_need_ds_separator = False,
       q_output_format = OUTPUT_FORMAT_CSV, q_limit = -1, q_time_limit = -1, q_time_limit_timeout = 0, q_offset = 0,
       q_current_line = 0, q_timezone_offset = 0, q_columns = [], q_do_sorting = False, q_sorter = empty_sorter,
       q_stats_columns = [], q_stats_aggregators = [], q_stats_groups = [] \<rparr>"

definition set_error :: "int \<Rightarrow> string \<Rightarrow> 'r query \<Rightarrow> 'r query" where
  "set_error code msg q = q\<lparr> q_output := ob_set_error code msg (q_output q) \<rparr>"

abbreviation invalid_header :: "string \<Rightarrow> 'r query \<Rightarrow> 'r query" where
  "invalid_header \<equiv> set_error RESPONSE_CODE_INVALID_HEADER"

definition quoted :: "string \<Rightarrow> string" where
  "quoted s = CHR 0x27 # s @ [CHR 0x27]"

section \<open>Filters\<close>

text \<open>A column the table does not have is replaced by a dummy column of that name.\<close>

definition query_column :: "'r table \<Rightarrow> string \<Rightarrow> 'r column" where
  "query_column t n = (case table_column t n of Some c \<Rightarrow> c | None \<Rightarrow> EmptyColumn n)"

definition query_create_filter ::
  "'r query_env \<Rightarrow> 'r column \<Rightarrow> int \<Rightarrow> string \<Rightarrow> 'r query \<Rightarrow> 'r filter option \<times> 'r query" where
  "query_create_filter env c opid text q =
     (if makes_no_filter c
      then (None, invalid_header (''cannot create filter on table '' @ (case q_table q of Some t \<Rightarrow> t_name t | None \<Rightarrow> [])) q)
      else case create_filter (qe_filter_env env) c opid text of
             (f, None) \<Rightarrow> (Some f, q)
           | (f, Some err) \<Rightarrow> (None, invalid_header (''error in Filter header: '' @ err) q))"

definition parse_filter_line :: "'r query_env \<Rightarrow> string \<Rightarrow> bool \<Rightarrow> 'r query \<Rightarrow> 'r query" where
  "parse_filter_line env line is_row_filter q =
     (case q_table q of
        None \<Rightarrow> q
      | Some t \<Rightarrow>
          (case next_field line of
             (None, _) \<Rightarrow> invalid_header ''empty filter line'' q
           | (Some colname, line1) \<Rightarrow>
               (case next_field line1 of
                  (None, _) \<Rightarrow> invalid_header (''invalid filter header: missing operator after table '' @ quoted colname) q
                | (Some operator_name, line2) \<Rightarrow>
                    (if lookupOperator operator_name = OP_INVALID
                     then invalid_header (''invalid filter operator '' @ quoted operator_name) q
                     else (case query_create_filter env (query_column t colname) (lookupOperator operator_name)
                                  (lstrip line2) q of
                             (None, q') \<Rightarrow> q'
                           | (Some f, q') \<Rightarrow>
                               (if is_row_filter then q'\<lparr> q_filter := add_subfilter f (q_filter q') \<rparr>
                                else q'\<lparr> q_wait_condition := add_subfilter f (q_wait_condition q') \<rparr>))))))"

definition andor_name :: "andor \<Rightarrow> string" where
  "andor_name ao = (case ao of ANDOR_OR \<Rightarrow> ''Or'' | ANDOR_AND \<Rightarrow> ''And'')"

definition combine_error :: "andor \<Rightarrow> int \<times> nat \<Rightarrow> string" where
  "combine_error ao e =
     ''Cannot combine '' @ show_int (fst e) @ '' filters with '' @
     quoted (case ao of ANDOR_AND \<Rightarrow> ''AND'' | ANDOR_OR \<Rightarrow> ''OR'') @ '': only '' @ show_nat (snd e) @ '' are on stack''"

text \<open>
  \<open>parseAndOrLine\<close>. An error stays in the stack's \<open>AndingFilter\<close> and is reported again by the next such
  header; for a wait condition the text reported is that of the filter stack.
\<close>

definition parse_and_or_line :: "string \<Rightarrow> andor \<Rightarrow> bool \<Rightarrow> 'r query \<Rightarrow> 'r query" where
  "parse_and_or_line line ao is_row_filter q =
     (let what = (if is_row_filter then [] else ''WaitCondition'') @ andor_name ao
      in case next_field line of
           (None, _) \<Rightarrow> invalid_header (''Missing value for '' @ what @ '': need non-zero integer number'') q
         | (Some value, _) \<Rightarrow>
             (let number = atoi value
              in if \<not> c_isdigit (hd value) \<or> number < 0
                 then invalid_header (''Invalid value for '' @ what @ '': need non-negative integer number'') q
                 else if is_row_filter
                 then let q' = (case combine_filters number ao (q_filter q) of
                                  Inl e \<Rightarrow> q\<lparr> q_filter_error := combine_error ao e \<rparr>
                                | Inr fs \<Rightarrow> q\<lparr> q_filter := fs \<rparr>)
                      in if q_filter_error q' \<noteq> []
                         then invalid_header (''error in '' @ andor_name ao @ '' header: '' @ q_filter_error q') q'
                         else q'
                 else let q' = (case combine_filters number ao (q_wait_condition q) of
                                  Inl e \<Rightarrow> q\<lparr> q_wait_error := combine_error ao e \<rparr>
                                | Inr fs \<Rightarrow> q\<lparr> q_wait_condition := fs \<rparr>)
                      in if q_wait_error q' \<noteq> []
                         then invalid_header (''error in WaitCondition'' @ andor_name ao @ '' header: '' @ q_filter_error q') q'
                         else q'))"

definition parse_negate_line :: "string \<Rightarrow> bool \<Rightarrow> 'r query \<Rightarrow> 'r query" where
  "parse_negate_line line is_row_filter q =
     (if fst (next_field line) \<noteq> None
      then invalid_header (if is_row_filter then ''Negate: does not take any arguments''
                           else ''WaitConditionNegate: does not take any arguments'') q
      else if is_row_filter
      then (case steal_last_subfilter (q_filter q) of
              None \<Rightarrow> invalid_header ''Negate: no Filter: header to negate'' q
            | Some (f, fs) \<Rightarrow> q\<lparr> q_filter := add_subfilter (NegatingFilter f) fs \<rparr>)
      else (case steal_last_subfilter (q_wait_condition q) of
              None \<Rightarrow> invalid_header ''Negate: no Wait:-condition negate'' q
            | Some (f, fs) \<Rightarrow> q\<lparr> q_wait_condition := add_subfilter (NegatingFilter f) fs \<rparr>))"

section \<open>Statistics\<close>

text \<open>
  The loop of \<open>parseStatsAndOrLine\<close>: it takes the last counts off the list of statistics, one by one, into
  the new filter; an error leaves what it has taken so far removed. A count always has its filter, so the
  cases without one are never reached.
\<close>

fun steal_counts :: "nat \<Rightarrow> andor \<Rightarrow> 'r filter list \<Rightarrow> 'r query \<Rightarrow> 'r query" where
  "steal_counts 0 ao anding q =
     q\<lparr> q_stats_columns := q_stats_columns q @
         [\<lparr> sc_column = None, sc_filter = Some (case ao of ANDOR_OR \<Rightarrow> OringFilter anding | ANDOR_AND \<Rightarrow> AndingFilter anding),
            sc_operation = STATS_OP_COUNT \<rparr>] \<rparr>"
| "steal_counts (Suc n) ao anding q =
     (if q_stats_columns q = []
      then invalid_header (''Invalid count for Stats'' @ andor_name ao @ '': too few Stats: headers available'') q
      else let col = last (q_stats_columns q)
           in if sc_operation col \<noteq> STATS_OP_COUNT
              then invalid_header (''Can use Stats'' @ andor_name ao @ '' only on Stats: headers of filter type'') q
              else (case sc_filter col of
                      None \<Rightarrow> q
                    | Some f \<Rightarrow> steal_counts n ao (anding @ [f]) (q\<lparr> q_stats_columns := butlast (q_stats_columns q) \<rparr>)))"

definition parse_stats_and_or_line :: "string \<Rightarrow> andor \<Rightarrow> 'r query \<Rightarrow> 'r query option" where
  "parse_stats_and_or_line line ao q =
     (case next_field line of
        (None, _) \<Rightarrow> None
      | (Some value, _) \<Rightarrow>
          (let number = atoi value
           in if \<not> c_isdigit (hd value) \<or> number < 0
              then Some (invalid_header (''Invalid value for Stats'' @ andor_name ao @ '': need non-negative integer number'') q)
              else Some (steal_counts (nat number) ao [] q)))"

definition parse_stats_negate_line :: "string \<Rightarrow> 'r query \<Rightarrow> 'r query" where
  "parse_stats_negate_line line q =
     (if fst (next_field line) \<noteq> None then invalid_header ''StatsNegate: does not take any arguments'' q
      else if q_stats_columns q = [] then invalid_header ''StatsNegate: no Stats: headers available'' q
      else let col = last (q_stats_columns q)
           in if sc_operation col \<noteq> STATS_OP_COUNT
              then invalid_header ''Can use StatsNegate only on Stats: headers of filter type'' q
              else (case sc_filter col of
                      None \<Rightarrow> q
                    | Some f \<Rightarrow>
                        q\<lparr> q_stats_columns := butlast (q_stats_columns q) @
                            [\<lparr> sc_column = None, sc_filter = Some (NegatingFilter f), sc_operation = STATS_OP_COUNT \<rparr>] \<rparr>))"

definition stats_operation :: "string \<Rightarrow> stats_op" where
  "stats_operation s =
     (if s = ''sum'' then STATS_OP_SUM else if s = ''min'' then STATS_OP_MIN else if s = ''max'' then STATS_OP_MAX
      else if s = ''avg'' then STATS_OP_AVG else if s = ''std'' then STATS_OP_STD
      else if s = ''suminv'' then STATS_OP_SUMINV else if s = ''avginv'' then STATS_OP_AVGINV else STATS_OP_COUNT)"

definition push_stats :: "'r stats_column \<Rightarrow> 'r query \<Rightarrow> 'r query" where
  "push_stats sc q = q\<lparr> q_stats_columns := q_stats_columns q @ [sc], q_show_column_headers := False \<rparr>"

definition parse_stats_line :: "'r query_env \<Rightarrow> string \<Rightarrow> 'r query \<Rightarrow> 'r query" where
  "parse_stats_line env line q =
     (case q_table q of
        None \<Rightarrow> q
      | Some t \<Rightarrow>
          (case next_field line of
             (None, _) \<Rightarrow> invalid_header ''empty stats line'' q
           | (Some col_or_op, line1) \<Rightarrow>
               (let operation = stats_operation col_or_op
                in if operation = STATS_OP_COUNT
                   then (case next_field line1 of
                           (None, _) \<Rightarrow>
                             invalid_header (''invalid stats header: missing operator after table '' @ quoted col_or_op) q
                         | (Some operator_name, line2) \<Rightarrow>
                             (if lookupOperator operator_name = OP_INVALID
                              then invalid_header (''invalid stats operator '' @ quoted operator_name) q
                              else (case query_create_filter env (query_column t col_or_op) (lookupOperator operator_name)
                                           (lstrip line2) q of
                                      (None, q') \<Rightarrow> q'
                                    | (Some f, q') \<Rightarrow>
                                        push_stats \<lparr> sc_column = Some (query_column t col_or_op), sc_filter = Some f,
                                                     sc_operation = STATS_OP_COUNT \<rparr> q')))
                   else (case next_field line1 of
                           (None, _) \<Rightarrow> invalid_header ''missing column name in stats header'' q
                         | (Some colname, _) \<Rightarrow>
                             push_stats \<lparr> sc_column = Some (query_column t colname), sc_filter = None,
                                          sc_operation = operation \<rparr> q))))"

section \<open>Columns, order and output\<close>

definition parse_columns_line :: "string \<Rightarrow> 'r query \<Rightarrow> 'r query" where
  "parse_columns_line line q =
     (case q_table q of
        None \<Rightarrow> q
      | Some t \<Rightarrow> q\<lparr> q_columns := q_columns q @ map (query_column t) (Strutil.fields line),
                     q_show_column_headers := False \<rparr>)"

definition parse_sort_line :: "string \<Rightarrow> 'r query \<Rightarrow> 'r query" where
  "parse_sort_line line q =
     (case q_table q of
        None \<Rightarrow> q
      | Some t \<Rightarrow>
          (case next_field line of
             (None, _) \<Rightarrow> q
           | (Some colname, line1) \<Rightarrow>
               (let desc = (case fst (next_field line1) of None \<Rightarrow> False | Some dir \<Rightarrow> strcasecmp dir ''desc'' = 0)
                in q\<lparr> q_sorter := add_sort_column (query_column t colname) desc (q_sorter q), q_do_sorting := True \<rparr>)))"

definition parse_auth_user_header :: "'r query_env \<Rightarrow> string \<Rightarrow> 'r query \<Rightarrow> 'r query" where
  "parse_auth_user_header env line q =
     (case q_table q of
        None \<Rightarrow> q
      | Some t \<Rightarrow> q\<lparr> q_auth_user := Some (case qe_find_contact env line of None \<Rightarrow> UNKNOWN_AUTH_USER | Some c \<Rightarrow> Contact c) \<rparr>)"

text \<open>A separator is the one byte with the number given, NUL when there is none.\<close>

definition separator_char :: "string option \<Rightarrow> string" where
  "separator_char tok = [case tok of None \<Rightarrow> CHR 0x00 | Some t \<Rightarrow> char_of (nat (atoi t mod 256))]"

definition parse_separators_line :: "string \<Rightarrow> 'r query \<Rightarrow> 'r query" where
  "parse_separators_line line q =
     (let (ds, line1) = next_field line; (fs, line2) = next_field line1;
          (ls, line3) = next_field line2; (hs, line4) = next_field line3
      in q\<lparr> q_dataset_separator := separator_char ds, q_field_separator := separator_char fs,
            q_list_separator := separator_char ls, q_host_service_separator := separator_char hs \<rparr>)"

definition parse_output_format_line :: "string \<Rightarrow> 'r query \<Rightarrow> 'r query" where
  "parse_output_format_line line q =
     (case fst (next_field line) of
        None \<Rightarrow> invalid_header (''Missing output format. Only '' @ quoted ''csv'' @ '' and '' @ quoted ''json'' @ '' are available.'') q
      | Some f \<Rightarrow>
          (if f = ''csv'' then q\<lparr> q_output_format := OUTPUT_FORMAT_CSV \<rparr>
           else if f = ''json'' then q\<lparr> q_output_format := OUTPUT_FORMAT_JSON \<rparr>
           else if f = ''python'' then q\<lparr> q_output_format := OUTPUT_FORMAT_PYTHON \<rparr>
           else if f = ''wrapped_json'' then q\<lparr> q_output_format := OUTPUT_FORMAT_WRAPPED_JSON \<rparr>
           else invalid_header (''Invalid output format. Only '' @ quoted ''csv'' @ '', '' @ quoted ''json'' @ '' and '' @
                                quoted ''wrapped_json'' @ '' are available.'') q))"

abbreviation on_or_off :: string where
  "on_or_off \<equiv> quoted ''on'' @ '' or '' @ quoted ''off''"

definition parse_column_headers_line :: "string \<Rightarrow> 'r query \<Rightarrow> 'r query" where
  "parse_column_headers_line line q =
     (case fst (next_field line) of
        None \<Rightarrow> invalid_header (''Missing value for ColumnHeaders: must be '' @ on_or_off) q
      | Some v \<Rightarrow>
          (if v = ''on'' then q\<lparr> q_show_column_headers := True \<rparr>
           else if v = ''off'' then q\<lparr> q_show_column_headers := False \<rparr>
           else invalid_header (''Invalid value for ColumnHeaders: must be '' @ on_or_off) q))"

definition parse_keep_alive_line :: "string \<Rightarrow> 'r query \<Rightarrow> 'r query" where
  "parse_keep_alive_line line q =
     (case fst (next_field line) of
        None \<Rightarrow> invalid_header (''Missing value for KeepAlive: must be '' @ on_or_off) q
      | Some v \<Rightarrow>
          (if v = ''on'' then q\<lparr> q_output := (q_output q)\<lparr> ob_do_keepalive := True \<rparr> \<rparr>
           else if v = ''off'' then q\<lparr> q_output := (q_output q)\<lparr> ob_do_keepalive := False \<rparr> \<rparr>
           else invalid_header (''Invalid value for KeepAlive: must be '' @ on_or_off) q))"

definition parse_response_header_line :: "string \<Rightarrow> 'r query \<Rightarrow> 'r query" where
  "parse_response_header_line line q =
     (case fst (next_field line) of
        None \<Rightarrow> invalid_header (''Missing value for ResponseHeader: must be '' @ quoted ''off'' @ '' or '' @ quoted ''fixed16'') q
      | Some v \<Rightarrow>
          (if v = ''off'' then q\<lparr> q_output := (q_output q)\<lparr> ob_response_header := RESPONSE_HEADER_OFF \<rparr> \<rparr>
           else if v = ''fixed16'' then q\<lparr> q_output := (q_output q)\<lparr> ob_response_header := RESPONSE_HEADER_FIXED16 \<rparr> \<rparr>
           else invalid_header (''Invalid value '' @ quoted v @ '' for ResponseHeader: must be '' @ quoted ''off'' @ '' or '' @
                                quoted ''fixed16'') q))"

section \<open>Limits, waiting and time\<close>

text \<open>The five headers that take a non-negative number check it alike.\<close>

definition number_of :: "string \<Rightarrow> int option" where
  "number_of value = (if \<not> c_isdigit (hd value) \<or> atoi value < 0 then None else Some (atoi value))"

definition parse_limit_line :: "string \<Rightarrow> 'r query \<Rightarrow> 'r query" where
  "parse_limit_line line q =
     (case fst (next_field line) of
        None \<Rightarrow> invalid_header ''Header Limit: missing value'' q
      | Some v \<Rightarrow> (case number_of v of
                     None \<Rightarrow> invalid_header ''Invalid value for Limit: must be non-negative integer'' q
                   | Some n \<Rightarrow> q\<lparr> q_limit := n \<rparr>))"

definition parse_offset_line :: "string \<Rightarrow> 'r query \<Rightarrow> 'r query" where
  "parse_offset_line line q =
     (case fst (next_field line) of
        None \<Rightarrow> invalid_header ''Header Offset: missing value'' q
      | Some v \<Rightarrow> (case number_of v of
                     None \<Rightarrow> invalid_header ''Invalid value for Offset: must be non-negative integer'' q
                   | Some n \<Rightarrow> q\<lparr> q_offset := n \<rparr>))"

definition parse_timelimit_line :: "int \<Rightarrow> string \<Rightarrow> 'r query \<Rightarrow> 'r query" where
  "parse_timelimit_line now line q =
     (case fst (next_field line) of
        None \<Rightarrow> invalid_header ''Header Timelimit: missing value'' q
      | Some v \<Rightarrow> (case number_of v of
                     None \<Rightarrow> invalid_header ''Invalid value for Timelimit: must be non-negative integer (seconds)'' q
                   | Some n \<Rightarrow> q\<lparr> q_time_limit := n, q_time_limit_timeout := now + n \<rparr>))"

definition parse_wait_timeout_line :: "string \<Rightarrow> 'r query \<Rightarrow> 'r query" where
  "parse_wait_timeout_line line q =
     (case fst (next_field line) of
        None \<Rightarrow> invalid_header ''WaitTimeout: missing value'' q
      | Some v \<Rightarrow> (case number_of v of
                     None \<Rightarrow> invalid_header ''Invalid value for WaitTimeout: must be non-negative integer'' q
                   | Some n \<Rightarrow> q\<lparr> q_wait_timeout := n \<rparr>))"

definition wt_names :: "string list" where
  "wt_names = [''all'', ''check'', ''state'', ''log'', ''downtime'', ''comment'', ''command'', ''program'']"

fun index_of :: "'a \<Rightarrow> 'a list \<Rightarrow> nat option" where
  "index_of x [] = None"
| "index_of x (y # ys) = (if x = y then Some 0 else map_option Suc (index_of x ys))"

definition parse_wait_trigger_line :: "string \<Rightarrow> 'r query \<Rightarrow> 'r query" where
  "parse_wait_trigger_line line q =
     (case fst (next_field line) of
        None \<Rightarrow> invalid_header ''WaitTrigger: missing keyword'' q
      | Some v \<Rightarrow>
          (case index_of v wt_names of
             Some i \<Rightarrow> q\<lparr> q_wait_trigger := Some i \<rparr>
           | None \<Rightarrow> invalid_header (''WaitTrigger: invalid trigger '' @ quoted v @
               ''. Allowed are all, check, state, log, downtime, comment, command and program.'') q))"

definition parse_wait_object_line :: "'r query_env \<Rightarrow> string \<Rightarrow> 'r query \<Rightarrow> 'r query" where
  "parse_wait_object_line env line q =
     (case q_table q of
        None \<Rightarrow> q
      | Some t \<Rightarrow>
          (case t_find_object t (lstrip line) of
             Some x \<Rightarrow> q\<lparr> q_wait_object := x \<rparr>
           | None \<Rightarrow> invalid_header (''WaitObject: object '' @ quoted (lstrip line) @ '' not found or not supported by this table'')
                      (q\<lparr> q_wait_object := qe_null_object env \<rparr>)))"

text \<open>
  \<open>parseLocaltimeLine\<close>: the difference of the clocks is cut to an \<open>int\<close>, C's division rounds towards 0.
\<close>

definition half_hours :: "int \<Rightarrow> int" where
  "half_hours dif =
     (let full = dif sdiv 1800; rm = dif smod 1800
      in if rm \<le> -900 then full - 1 else if 900 \<le> rm then full + 1 else full)"

definition parse_localtime_line :: "int \<Rightarrow> string \<Rightarrow> 'r query \<Rightarrow> 'r query" where
  "parse_localtime_line now line q =
     (case fst (next_field line) of
        None \<Rightarrow> invalid_header ''Header Localtime: missing value'' q
      | Some v \<Rightarrow>
          (let full = half_hours (wrap32 (atoi v - now))
           in if 48 \<le> full \<or> full \<le> -48
              then invalid_header ''Invalid Localtime header: timezone difference greater then 24 hours'' q
              else q\<lparr> q_timezone_offset := full * 1800 \<rparr>))"

section \<open>The request\<close>

text \<open>
  The chain of \<open>strncmp\<close> tests of the constructor, in its order: the first header name the line begins with
  decides, and its handler gets the rest of the line from its first character that is not white space.
\<close>

definition header_handlers :: "'r query_env \<Rightarrow> int \<Rightarrow> (string \<times> (string \<Rightarrow> 'r query \<Rightarrow> 'r query option)) list" where
  "header_handlers env now =
     [(''Filter:'', \<lambda>l q. Some (parse_filter_line env l True q)),
      (''Sort:'', \<lambda>l q. Some (parse_sort_line l q)),
      (''Or:'', \<lambda>l q. Some (parse_and_or_line l ANDOR_OR True q)),
      (''And:'', \<lambda>l q. Some (parse_and_or_line l ANDOR_AND True q)),
      (''Negate:'', \<lambda>l q. Some (parse_negate_line l True q)),
      (''StatsOr:'', \<lambda>l q. parse_stats_and_or_line l ANDOR_OR q),
      (''StatsAnd:'', \<lambda>l q. parse_stats_and_or_line l ANDOR_AND q),
      (''StatsNegate:'', \<lambda>l q. Some (parse_stats_negate_line l q)),
      (''Stats:'', \<lambda>l q. Some (parse_stats_line env l q)),
      (''StatsGroupBy:'', \<lambda>l q. Some (parse_columns_line l q)),
      (''Columns:'', \<lambda>l q. Some (parse_columns_line l q)),
      (''ColumnHeaders:'', \<lambda>l q. Some (parse_column_headers_line l q)),
      (''Limit:'', \<lambda>l q. Some (parse_limit_line l q)),
      (''Offset:'', \<lambda>l q. Some (parse_offset_line l q)),
      (''Timelimit:'', \<lambda>l q. Some (parse_timelimit_line now l q)),
      (''AuthUser:'', \<lambda>l q. Some (parse_auth_user_header env l q)),
      (''Separators:'', \<lambda>l q. Some (parse_separators_line l q)),
      (''OutputFormat:'', \<lambda>l q. Some (parse_output_format_line l q)),
      (''ResponseHeader:'', \<lambda>l q. Some (parse_response_header_line l q)),
      (''KeepAlive:'', \<lambda>l q. Some (parse_keep_alive_line l q)),
      (''WaitCondition:'', \<lambda>l q. Some (parse_filter_line env l False q)),
      (''WaitConditionAnd:'', \<lambda>l q. Some (parse_and_or_line l ANDOR_AND False q)),
      (''WaitConditionOr:'', \<lambda>l q. Some (parse_and_or_line l ANDOR_OR False q)),
      (''WaitConditionNegate:'', \<lambda>l q. Some (parse_negate_line l False q)),
      (''WaitTrigger:'', \<lambda>l q. Some (parse_wait_trigger_line l q)),
      (''WaitObject:'', \<lambda>l q. Some (parse_wait_object_line env l q)),
      (''WaitTimeout:'', \<lambda>l q. Some (parse_wait_timeout_line l q)),
      (''Localtime:'', \<lambda>l q. Some (parse_localtime_line now l q))]"

fun find_header :: "(string \<times> 'h) list \<Rightarrow> string \<Rightarrow> ('h \<times> string) option" where
  "find_header [] buffer = None"
| "find_header ((name, h) # hs) buffer =
     (if has_prefix name buffer then Some (h, lstrip (drop (length name) buffer)) else find_header hs buffer)"

text \<open>
  The loop of the constructor. A line is used as a C string, up to its first NUL. The loop returns the query and the lines it has not read: after an empty line, or
  a header it does not know, it stops. \<open>clock n\<close> is the time while the \<open>n\<close>th line is handled.
\<close>

fun parse_headers :: "'r query_env \<Rightarrow> (nat \<Rightarrow> int) \<Rightarrow> nat \<Rightarrow> string list \<Rightarrow> 'r query \<Rightarrow> ('r query \<times> string list) option" where
  "parse_headers env clock n [] q = Some (q, [])"
| "parse_headers env clock n (line # lines) q =
     (case find_header (header_handlers env (clock n)) (rstrip (c_str line)) of
        Some (h, arg) \<Rightarrow>
          (case h arg q of None \<Rightarrow> None | Some q' \<Rightarrow> parse_headers env clock (Suc n) lines q')
      | None \<Rightarrow>
          if rstrip (c_str line) = [] then Some (q, lines)
          else Some (invalid_header (''Undefined request header '' @ quoted (rstrip (c_str line))) q, lines))"

definition query_of_request ::
  "'r query_env \<Rightarrow> (nat \<Rightarrow> int) \<Rightarrow> output_buffer \<Rightarrow> 'r table option \<Rightarrow> string list \<Rightarrow> ('r query \<times> string list) option" where
  "query_of_request env clock ob t lines = parse_headers env clock 0 lines (new_query env ob t)"

end
