(* ===== verification/Json_Text.thy ===== *)
theory Json_Text
  imports Query_Output
begin

text \<open>
  What a client reads. A reader of JSON text is the specification against which the printer of
  \<open>Query_Output\<close> is proved: every column prints, in the JSON formats, the text of one JSON value, and
  the reader gets that value back. The reader skips the newline the query prints after the comma between
  two rows, and reads numbers as their text.
\<close>

section \<open>The text of a value\<close>

fun join :: "string \<Rightarrow> string list \<Rightarrow> string" where
  "join sep [] = []"
| "join sep [x] = x"
| "join sep (x # y # xs) = x @ sep @ join sep (y # xs)"

fun json_text :: "json \<Rightarrow> string" where
  "json_text JNull = ''null''"
| "json_text (JNumber s) = s"
| "json_text (JString cs) = json_quote cs"
| "json_text (JArray vs) = ''['' @ join '','' (map json_text vs) @ '']''"
| "json_text (JObject ms) = ''{'' @ join '','' (map (\<lambda>(k, v). json_quote k @ '':'' @ json_text v) ms) @ ''}''"

section \<open>The reader\<close>

definition hex_val :: "char \<Rightarrow> nat" where
  "hex_val c = (if byte c < 58 then byte c - 48 else byte c - 87)"

fun read_string :: "string \<Rightarrow> (nat list \<times> string) option" where
  "read_string [] = None"
| "read_string (c # t) =
     (if c = CHR 0x22 then Some ([], t)
      else if c = CHR 0x5C
      then (case t of
              e # u \<Rightarrow>
                if e = CHR 0x22 \<or> e = CHR 0x5C then map_option (map_prod ((#) (byte e)) id) (read_string u)
                else if e = CHR ''u''
                then (case u of
                        a # b # d # f # w \<Rightarrow>
                          map_option (map_prod ((#) (hex_val a * 4096 + hex_val b * 256 + hex_val d * 16 + hex_val f)) id)
                            (read_string w)
                      | _ \<Rightarrow> None)
                else None
            | [] \<Rightarrow> None)
      else map_option (map_prod ((#) (byte c)) id) (read_string t))"

definition number_char :: "char \<Rightarrow> bool" where
  "number_char c \<longleftrightarrow> c_isdigit c \<or> c \<in> {CHR ''-'', CHR ''+'', CHR ''.'', CHR ''e'', CHR ''E''}"

definition skip_newline :: "string \<Rightarrow> string" where
  "skip_newline s = (if take 1 s = [CHR 0x0A] then drop 1 s else s)"

fun read_value :: "nat \<Rightarrow> string \<Rightarrow> (json \<times> string) option"
and read_items :: "nat \<Rightarrow> string \<Rightarrow> (json list \<times> string) option"
and read_members :: "nat \<Rightarrow> string \<Rightarrow> ((nat list \<times> json) list \<times> string) option" where
  "read_value 0 s = None"
| "read_value (Suc n) s =
     (case s of
        [] \<Rightarrow> None
      | c # t \<Rightarrow>
          if c = CHR 0x22 then map_option (map_prod JString id) (read_string t)
          else if c = CHR ''['' then
            (if take 1 t = '']'' then Some (JArray [], drop 1 t) else map_option (map_prod JArray id) (read_items n t))
          else if c = CHR ''{'' then
            (if take 1 t = ''}'' then Some (JObject [], drop 1 t) else map_option (map_prod JObject id) (read_members n t))
          else if number_char c then Some (JNumber (takeWhile number_char s), dropWhile number_char s)
          else if take 4 s = ''null'' then Some (JNull, drop 4 s)
          else None)"
| "read_items 0 s = None"
| "read_items (Suc n) s =
     (case read_value n s of
        None \<Rightarrow> None
      | Some (v, t) \<Rightarrow>
          if take 1 t = '','' then map_option (map_prod ((#) v) id) (read_items n (skip_newline (drop 1 t)))
          else if take 1 t = '']'' then Some ([v], drop 1 t)
          else None)"
| "read_members 0 s = None"
| "read_members (Suc n) s =
     (if take 1 s = [CHR 0x22] then
        (case read_string (drop 1 s) of
           None \<Rightarrow> None
         | Some (k, t) \<Rightarrow>
             if take 1 t = '':'' then
               (case read_value n (drop 1 t) of
                  None \<Rightarrow> None
                | Some (v, u) \<Rightarrow>
                    if take 1 u = '','' then map_option (map_prod ((#) (k, v)) id) (read_members n (drop 1 u))
                    else if take 1 u = ''}'' then Some ([(k, v)], drop 1 u)
                    else None)
             else None)
      else None)"

definition json_read :: "string \<Rightarrow> (json \<times> string) option" where
  "json_read s = read_value (Suc (length s)) s"

section \<open>Reading back\<close>

lemma hex_val_digit: "d < 16 \<Longrightarrow> hex_val (hex_digit d) = d"
  by (simp add: hex_val_def hex_digit_def of_char_of)

lemma sixteen_digits:
  shows "(n :: nat) div 4096 * 4096 + n div 256 mod 16 * 256 + n div 16 mod 16 * 16 + n mod 16 = n"
proof -
  have "n div 4096 * 16 + n div 256 mod 16 = n div 256"
    using div_mult_mod_eq [of "n div 256" 16] by (simp add: div_mult2_eq [symmetric])
  moreover have "n div 256 * 16 + n div 16 mod 16 = n div 16"
    using div_mult_mod_eq [of "n div 16" 16] by (simp add: div_mult2_eq [symmetric])
  moreover have "n div 16 * 16 + n mod 16 = n" by simp
  ultimately show ?thesis by linarith
qed

lemma read_json_char:
  assumes "n < 65536"
  shows "read_string (json_char n @ s) = map_option (map_prod ((#) n) id) (read_string s)"
proof -
  consider "n = 0x22 \<or> n = 0x5C" | "32 \<le> n" "n < 128" "n \<noteq> 0x22" "n \<noteq> 0x5C" | "n < 32 \<or> 128 \<le> n" by linarith
  then show ?thesis
  proof cases
    case 1
    then show ?thesis by (auto simp: json_char_quot)
  next
    case 2
    then have "char_of n \<noteq> CHR 0x22" "char_of n \<noteq> CHR 0x5C" "byte (char_of n) = n"
      by (simp_all add: byte_eq of_char_of)
    with 2 show ?thesis by (simp add: json_char_def)
  next
    case 3
    then have "json_char n = CHR 0x5C # CHR ''u'' # map hex_digit [n div 4096 mod 16, n div 256 mod 16, n div 16 mod 16, n mod 16]"
      by (auto simp: json_char_def)
    then show ?thesis using assms sixteen_digits [of n] by (simp add: hex_val_digit)
  qed
qed

lemma read_json_quote:
  "\<forall>c \<in> set cs. c < 65536 \<Longrightarrow> read_string (drop 1 (json_quote cs @ s)) = Some (cs, s)"
proof -
  have "\<forall>c \<in> set cs. c < 65536 \<Longrightarrow> read_string (concat (map json_char cs) @ CHR 0x22 # s) = Some (cs, s)"
    by (induction cs) (simp_all add: read_json_char)
  then show "\<forall>c \<in> set cs. c < 65536 \<Longrightarrow> ?thesis" by (simp add: json_quote_def)
qed

fun json_wf :: "json \<Rightarrow> bool" where
  "json_wf JNull \<longleftrightarrow> True"
| "json_wf (JNumber s) \<longleftrightarrow> s \<noteq> [] \<and> list_all number_char s"
| "json_wf (JString cs) \<longleftrightarrow> list_all (\<lambda>c. c < 65536) cs"
| "json_wf (JArray vs) \<longleftrightarrow> list_all json_wf vs"
| "json_wf (JObject ms) \<longleftrightarrow> list_all (\<lambda>(k, v). list_all (\<lambda>c. c < 65536) k \<and> json_wf v) ms"

definition closed_by :: "string \<Rightarrow> bool" where
  "closed_by s \<longleftrightarrow> s = [] \<or> \<not> number_char (hd s)"

lemma number_char_bracket [simp]:
  "\<not> number_char (CHR '','')" "\<not> number_char (CHR '']'')" "\<not> number_char (CHR ''}'')" "\<not> number_char (CHR 0x0A)"
  "\<not> number_char (CHR ''['')" "\<not> number_char (CHR ''{'')" "\<not> number_char (CHR 0x22)" "\<not> number_char (CHR ''n'')"
  by (simp_all add: number_char_def c_isdigit_def)

lemma json_text_head:
  "json_wf v \<Longrightarrow> \<exists>c s. json_text v = c # s \<and> c \<noteq> CHR 0x0A \<and> c \<noteq> CHR '']''"
  by (cases v) (auto simp: json_quote_def neq_Nil_conv)

lemma read_items_join:
  assumes "vs \<noteq> []" and "sep = '','' \<or> sep = CHR '','' # [CHR 0x0A]"
    and "\<And>v n t. v \<in> set vs \<Longrightarrow> length (json_text v) \<le> n \<Longrightarrow> closed_by t \<Longrightarrow> read_value n (json_text v @ t) = Some (v, t)"
    and "list_all json_wf vs" and "length (join sep (map json_text vs)) < n"
  shows "read_items n (join sep (map json_text vs) @ CHR '']'' # t) = Some (vs, t)"
  using assms
proof (induction vs arbitrary: n)
  case (Cons v vs)
  then obtain m where n: "n = Suc m" by (cases n) auto
  show ?case
  proof (cases vs)
    case Nil
    with Cons.prems n show ?thesis by (simp add: closed_by_def)
  next
    case (Cons w ws)
    have len: "length (json_text v) \<le> m" "length (join sep (map json_text vs)) < m"
      using Cons.prems(2,5) n Cons by auto
    have "read_items m (join sep (map json_text vs) @ CHR '']'' # t) = Some (vs, t)"
      using Cons.IH [of m] Cons.prems(2-4) len Cons by simp
    moreover obtain c s where "json_text w = c # s" "c \<noteq> CHR 0x0A"
      using json_text_head [of w] Cons.prems(4) Cons by auto
    then obtain s' where "join sep (map json_text vs) = c # s'" "c \<noteq> CHR 0x0A"
      using Cons by (cases ws) auto
    moreover have "read_value m (json_text v @ sep @ join sep (map json_text vs) @ CHR '']'' # t) =
       Some (v, sep @ join sep (map json_text vs) @ CHR '']'' # t)"
      using Cons.prems(2,3) len by (auto simp: closed_by_def)
    ultimately show ?thesis
      using Cons.prems(2) Cons n by (auto simp: skip_newline_def)
  qed
qed simp

abbreviation member_text :: "nat list \<times> json \<Rightarrow> string" where
  "member_text m \<equiv> json_quote (fst m) @ CHR '':'' # json_text (snd m)"

lemma read_members_join:
  assumes "ms \<noteq> []"
    and "\<And>m n t. m \<in> set ms \<Longrightarrow> length (json_text (snd m)) \<le> n \<Longrightarrow> closed_by t \<Longrightarrow>
           read_value n (json_text (snd m) @ t) = Some (snd m, t)"
    and "\<forall>m \<in> set ms. list_all (\<lambda>c. c < 65536) (fst m)" and "length (join '','' (map member_text ms)) < n"
  shows "read_members n (join '','' (map member_text ms) @ CHR ''}'' # t) = Some (ms, t)"
  using assms
proof (induction ms arbitrary: n)
  case (Cons m ms)
  then obtain n' where n: "n = Suc n'" by (cases n) auto
  have quote: "take 1 (json_quote (fst m) @ u) = [CHR 0x22] \<and> read_string (drop 1 (json_quote (fst m) @ u)) = Some (fst m, u)" for u
    using read_json_quote [of "fst m" u] Cons.prems(3) by (simp add: json_quote_def list_all_iff)
  show ?case
  proof (cases ms)
    case Nil
    with Cons.prems n quote show ?thesis by (simp add: closed_by_def)
  next
    case (Cons w ws)
    have len: "length (json_text (snd m)) \<le> n'" "length (join '','' (map member_text ms)) < n'"
      using Cons.prems(4) n Cons by auto
    have "read_members n' (join '','' (map member_text ms) @ CHR ''}'' # t) = Some (ms, t)"
      using Cons.IH [of n'] Cons.prems(2,3) len Cons by simp
    moreover have "read_value n' (json_text (snd m) @ CHR '','' # join '','' (map member_text ms) @ CHR ''}'' # t) =
       Some (snd m, CHR '','' # join '','' (map member_text ms) @ CHR ''}'' # t)"
      using Cons.prems(2) len by (simp add: closed_by_def)
    ultimately show ?thesis
      using Cons n quote by simp
  qed
qed simp

lemma json_text_array: "json_text (JArray vs) = CHR ''['' # join '','' (map json_text vs) @ '']''" by simp

lemma json_text_object: "json_text (JObject ms) = CHR ''{'' # join '','' (map member_text ms) @ ''}''"
  by (simp add: case_prod_unfold)

lemma join_Nil_iff: "join sep xs = [] \<longleftrightarrow> xs = [] \<or> xs = [[]] \<or> sep = [] \<and> list_all (\<lambda>x. x = []) xs"
  by (induction sep xs rule: join.induct) auto

lemma read_value_text:
  "json_wf v \<Longrightarrow> length (json_text v) \<le> n \<Longrightarrow> closed_by t \<Longrightarrow> read_value n (json_text v @ t) = Some (v, t)"
proof (induction v arbitrary: n t)
  case JNull
  then obtain m where "n = Suc m" by (cases n) auto
  then show ?case by simp
next
  case (JNumber s)
  then obtain m c r where n: "n = Suc m" and s: "s = c # r" by (cases n; cases s) auto
  have "takeWhile number_char (s @ t) = s" "dropWhile number_char (s @ t) = t"
    using JNumber.prems takeWhile_all_app [of number_char s t] dropWhile_all_app [of number_char s t]
    by (auto simp: closed_by_def)
  moreover have "number_char c" using JNumber.prems(1) s by simp
  then have "c \<noteq> CHR 0x22 \<and> c \<noteq> CHR ''['' \<and> c \<noteq> CHR ''{''" by auto
  ultimately show ?case using n s \<open>number_char c\<close> by simp
next
  case (JString cs)
  then obtain m where "n = Suc m" by (cases n) (auto simp: json_quote_def)
  moreover have "read_string (drop 1 (json_quote cs @ t)) = Some (cs, t)"
    using JString.prems by (intro read_json_quote) (simp add: list_all_iff)
  ultimately show ?case by (simp add: json_quote_def)
next
  case (JArray vs)
  then obtain m where n: "n = Suc m" by (cases n) auto
  show ?case
  proof (cases vs)
    case (Cons w ws)
    have "read_items m (join '','' (map json_text vs) @ CHR '']'' # t) = Some (vs, t)"
      using JArray n Cons by (intro read_items_join) (auto simp: list_all_iff)
    moreover obtain c s where "join '','' (map json_text vs) = c # s" "c \<noteq> CHR '']''"
      using json_text_head [of w] JArray.prems(1) Cons by (cases ws) auto
    ultimately show ?thesis using n by simp
  qed (simp add: n)
next
  case (JObject ms)
  then obtain m where n: "n = Suc m" by (cases n) auto
  show ?case
  proof (cases ms)
    case (Cons w ws)
    have "length (join '','' (map member_text ms)) < m"
      using JObject.prems(2) n unfolding json_text_object by simp
    moreover have "\<forall>m \<in> set ms. list_all (\<lambda>c. c < 65536) (fst m)"
      using JObject.prems(1) by (auto simp: list_all_iff)
    moreover have "read_value n (json_text (snd m) @ t) = Some (snd m, t)"
      if "m \<in> set ms" "length (json_text (snd m)) \<le> n" "closed_by t" for m n t
      using JObject.IH [of m "snd m" n t] JObject.prems(1) that by (auto simp: list_all_iff)
    ultimately have "read_members m (join '','' (map member_text ms) @ CHR ''}'' # t) = Some (ms, t)"
      using Cons by (intro read_members_join) auto
    moreover obtain s where "join '','' (map member_text ms) = CHR 0x22 # s"
      using Cons by (cases ws) (auto simp: json_quote_def)
    ultimately show ?thesis using n unfolding json_text_object by simp
  qed (simp add: n)
qed

section \<open>Every column prints a JSON value\<close>

text \<open>
  The value a column has for a client, \<open>None\<close> where a text of the core is not well-formed in its encoding.
\<close>

definition text_json :: "out_env \<Rightarrow> string \<Rightarrow> json option" where
  "text_json e s = map_option JString (chars_of (oe_encoding e) s)"

definition array_json :: "json option list \<Rightarrow> json option" where
  "array_json vs = map_option JArray (those vs)"

definition int_json :: "int \<Rightarrow> json option" where
  "int_json v = Some (JNumber (output_integer v))"

definition host_json :: "out_env \<Rightarrow> bool \<Rightarrow> host_member \<Rightarrow> json option" where
  "host_json e show_state h =
     (if \<not> show_state then text_json e (hm_name h)
      else array_json [text_json e (hm_name h), int_json (hm_state h), int_json (hm_has_been_checked h)])"

definition service_json :: "out_env \<Rightarrow> bool \<Rightarrow> nat \<Rightarrow> svc_member \<Rightarrow> json option" where
  "service_json e show_host info_depth m =
     (if \<not> show_host \<and> info_depth = 0 then text_json e (sm_description m)
      else array_json ((if show_host then [text_json e (sm_host_name m)] else []) @ [text_json e (sm_description m)] @
             (if 1 \<le> info_depth then [int_json (sm_state m), int_json (sm_has_been_checked m)] else []) @
             (if 2 \<le> info_depth then [text_json e (sm_plugin_output m)] else [])))"

definition member_json :: "out_env \<Rightarrow> string \<times> string \<Rightarrow> (nat list \<times> json) option" where
  "member_json e nv =
     (case (chars_of (oe_encoding e) (fst nv), text_json e (snd nv)) of (Some k, Some v) \<Rightarrow> Some (k, v) | _ \<Rightarrow> None)"

fun printed_json :: "out_env \<Rightarrow> printed \<Rightarrow> json option" where
  "printed_json e (Shown_text s) = text_json e s"
| "printed_json e (Shown_int v) = int_json v"
| "printed_json e (Shown_int64 v) = Some (JNumber (output_integer64 v))"
| "printed_json e (Shown_ulong w) = Some (JNumber (output_unsigned_long w))"
| "printed_json e (Shown_time v) = Some (JNumber (output_time e v))"
| "printed_json e (Shown_double v) = Some (JNumber (oe_fmt10 e v))"
| "printed_json e (Shown_list ps) = array_json (map (printed_json e) ps)"
| "printed_json e (Shown_sublist ps) = array_json (map (printed_json e) ps)"
| "printed_json e (Shown_dict ms) =
     map_option JObject (those (map (\<lambda>(k, p).
       case (chars_of (oe_encoding e) k, printed_json e p) of (Some k', Some v) \<Rightarrow> Some (k', v) | _ \<Rightarrow> None) ms))"
| "printed_json e Shown_nothing = None"

fun column_json :: "out_env \<Rightarrow> 'r column \<Rightarrow> 'r \<Rightarrow> json option" where
  "column_json e (IntColumn _ g) x = int_json (g x)"
| "column_json e (DoubleColumn _ g) x = Some (JNumber (oe_fmt10 e (g x)))"
| "column_json e (StringColumn _ g) x = text_json e (g x)"
| "column_json e (MacroColumn _ _ h) x = text_json e (h x)"
| "column_json e (TimeColumn _ g) x = Some (JNumber (output_time e (g x)))"
| "column_json e (TimeValColumn _ g) x = Some (JNumber (output_timeval e (g x)))"
| "column_json e (AttributelistColumn _ show_list g) x =
     (if show_list then array_json (map (text_json e) (attr_names e (g x)))
      else Some (JNumber (output_unsigned_long (g x))))"
| "column_json e (ListColumn _ _ g) x =
     array_json (map (\<lambda>m. text_json e (snd m)) (case g x of None \<Rightarrow> [] | Some ms \<Rightarrow> ms))"
| "column_json e (HostlistColumn _ show_state g) x =
     array_json (map (host_json e show_state) (filter (oe_sees_host e) (g x)))"
| "column_json e (ServicelistColumn _ show_host info_depth g) x =
     array_json (map (service_json e show_host info_depth) (filter (oe_sees_service e) (g x)))"
| "column_json e (CustomVarsColumn _ what g) x =
     (case what of
        CVT_VARNAMES \<Rightarrow> array_json (map (\<lambda>nv. text_json e (fst nv)) (visible_vars (oe_hidden_prefix e) (g x)))
      | CVT_VALUES \<Rightarrow> array_json (map (\<lambda>nv. text_json e (snd nv)) (visible_vars (oe_hidden_prefix e) (g x)))
      | CVT_DICT \<Rightarrow> map_option JObject (those (map (member_json e) (visible_vars (oe_hidden_prefix e) (g x)))))"
| "column_json e (StructColumn _ _ _ shown) x = printed_json e (shown x)"
| "column_json e (EmptyColumn _) x = Some (JString [])"

definition prints :: "string option \<Rightarrow> json \<Rightarrow> bool" where
  "prints t v \<longleftrightarrow> t = Some (json_text v) \<and> json_wf v"

definition json_env :: "out_env \<Rightarrow> bool" where
  "json_env e \<longleftrightarrow> (oe_format e = OUTPUT_FORMAT_JSON \<or> oe_format e = OUTPUT_FORMAT_WRAPPED_JSON) \<and>
     (\<forall>r. oe_fmt10 e r \<noteq> [] \<and> list_all number_char (oe_fmt10 e r))"

lemma chars_of_less: "chars_of enc s = Some cs \<Longrightarrow> list_all (\<lambda>c. c < 65536) cs"
proof (induction enc s arbitrary: cs rule: chars_of.induct)
  case (2 enc c t)
  have c: "byte c < 65536" using byte_less [of c] by linarith
  consider (low) "byte c < 0x80 \<or> enc = ENCODING_LATIN1"
    | (two) "\<not> byte c < 0x80" "enc \<noteq> ENCODING_LATIN1" "0xC0 \<le> byte c \<and> byte c < 0xE0"
    | (mixed) "\<not> byte c < 0x80" "enc = ENCODING_MIXED" "\<not> (0xC0 \<le> byte c \<and> byte c < 0xE0)"
    | (utf8) "\<not> byte c < 0x80" "enc = ENCODING_UTF8" "\<not> (0xC0 \<le> byte c \<and> byte c < 0xE0)"
    by (cases enc) auto
  then show ?case
  proof cases
    case low
    with 2(1,2,6) c show ?thesis by (auto split: if_splits)
  next
    case two
    with 2(6) obtain c1 t1 cs' where t: "t = c1 # t1" "0xC2 \<le> byte c" "cont c1" "chars_of enc t1 = Some cs'"
      and cs: "cs = ((byte c - 0xC0) * 64 + (byte c1 - 0x80)) # cs'"
      by (auto split: if_splits list.splits)
    moreover have "(byte c - 0xC0) * 64 + (byte c1 - 0x80) < 65536" using two(3) t(3) by linarith
    ultimately show ?thesis using two 2(3) by simp
  next
    case mixed
    with 2(4,6) c show ?thesis by (auto split: if_splits)
  next
    case utf8
    with 2(6) obtain c1 c2 t2 cs' where t: "t = c1 # c2 # t2" "cont c1" "cont c2" "0xE0 < byte c \<or> 0xA0 \<le> byte c1"
      "chars_of enc t2 = Some cs'" "0xE0 \<le> byte c" "byte c < 0xF0"
      and cs: "cs = ((byte c - 0xE0) * 4096 + (byte c1 - 0x80) * 64 + (byte c2 - 0x80)) # cs'"
      by (auto split: if_splits list.splits)
    moreover have "(byte c - 0xE0) * 4096 + (byte c1 - 0x80) * 64 + (byte c2 - 0x80) < 65536"
      using t(2,3,6,7) by linarith
    ultimately show ?thesis using utf8 2(5) by simp
  qed
qed simp

lemma those_Some: "those (map f xs) = Some vs \<Longrightarrow> list_all2 (\<lambda>x v. f x = Some v) xs vs"
  by (induction xs arbitrary: vs) (auto split: option.splits)

lemma cat_Cons: "cat (Some a # os) = map_option ((@) a) (cat os)"
  by (auto simp: cat_def)

lemma cat_Nil [simp]: "cat [] = Some []"
  by (simp add: cat_def)

lemma cat_sep_by:
  "list_all2 prints os vs \<Longrightarrow> cat (sep_by sep os @ [Some b]) = Some (join sep (map json_text vs) @ b)"
proof (induction sep os arbitrary: vs rule: sep_by.induct)
  case (3 sep x y xs)
  then obtain v w ws where "vs = v # w # ws" by (auto simp: list_all2_Cons1)
  with 3(1) [of "w # ws"] 3(2) show ?case by (auto simp: cat_Cons prints_def)
qed (auto simp: cat_Cons prints_def list_all2_Cons1)

lemma prints_list_wf: "list_all2 prints os vs \<Longrightarrow> list_all json_wf vs"
  by (induction rule: list_all2_induct) (simp_all add: prints_def)

lemma prints_array:
  "list_all2 prints os vs \<Longrightarrow> prints (cat (Some ''['' # sep_by '','' os @ [Some '']''])) (JArray vs)"
  by (simp add: prints_def cat_Cons cat_sep_by prints_list_wf)

lemma show_int_number [simp]: "json_wf (JNumber (show_int i))"
  using show_nat_digits [of "nat i"] show_nat_digits [of "nat (- i)"]
  by (auto simp: show_int_def number_char_def list_all_iff)

lemma prints_int: "prints (Some (output_integer v)) (JNumber (output_integer v))"
  by (simp add: prints_def output_integer_def del: json_wf.simps)

lemma prints_text:
  assumes "json_env e" and "text_json e s = Some v"
  shows "prints (output_string e (Some s)) v"
  using assms chars_of_less chars_of_json_body
  by (auto simp: text_json_def output_string_def json_env_def prints_def json_quote_def)

lemma array_json_prints:
  assumes "array_json (map f xs) = Some v" and "\<And>x w. x \<in> set xs \<Longrightarrow> f x = Some w \<Longrightarrow> prints (h x) w"
  shows "prints (cat (Some ''['' # sep_by '','' (map h xs) @ [Some '']''])) v"
proof -
  from assms(1) obtain vs where v: "v = JArray vs" "those (map f xs) = Some vs" by (auto simp: array_json_def)
  from those_Some [OF v(2)] have "list_all2 prints (map h xs) vs"
    using assms(2) by (auto simp: list_all2_conv_all_nth)
  with v(1) show ?thesis by (simp add: prints_array)
qed

lemma json_env_format: "json_env e \<Longrightarrow> \<not> is_csv e \<and> oe_format e \<noteq> OUTPUT_FORMAT_PYTHON"
  by (auto simp: json_env_def)

lemmas punctuation = output_begin_list_def output_list_separator_def output_end_list_def output_begin_sublist_def
  output_sublist_separator_def output_end_sublist_def output_begin_dict_def output_dict_separator_def
  output_dict_value_separator_def output_end_dict_def output_dataset_begin_def output_dataset_end_def
  output_field_separator_def

lemma int_json_prints: "int_json i = Some v \<Longrightarrow> prints (Some (output_integer i)) v"
  using prints_int [of i] by (simp add: int_json_def)

lemma prints_host:
  assumes e: "json_env e" and v: "host_json e show_state h = Some v"
  shows "prints (output_host e show_state h) v"
proof (cases show_state)
  case True
  let ?f = "\<lambda>p. fst p" and ?h = "\<lambda>p. snd p"
  let ?cells = "[(text_json e (hm_name h), output_string e (Some (hm_name h))),
     (int_json (hm_state h), Some (output_integer (hm_state h))),
     (int_json (hm_has_been_checked h), Some (output_integer (hm_has_been_checked h)))]"
  have "prints (cat (Some ''['' # sep_by '','' (map snd ?cells) @ [Some '']''])) v"
    using v True e by (intro array_json_prints [of fst]) (auto simp: host_json_def intro: prints_text int_json_prints)
  with True json_env_format [OF e] show ?thesis by (simp add: output_host_def punctuation)
qed (use assms in \<open>simp add: host_json_def output_host_def prints_text\<close>)

lemma prints_service:
  assumes e: "json_env e" and v: "service_json e show_host info m = Some v"
  shows "prints (output_service e show_host info m) v"
proof (cases "\<not> show_host \<and> info = 0")
  case False
  let ?cells = "(if show_host then [(text_json e (sm_host_name m), output_string e (Some (sm_host_name m)))] else []) @
     [(text_json e (sm_description m), output_string e (Some (sm_description m)))] @
     (if 1 \<le> info then [(int_json (sm_state m), Some (output_integer (sm_state m))),
        (int_json (sm_has_been_checked m), Some (output_integer (sm_has_been_checked m)))] else []) @
     (if 2 \<le> info then [(text_json e (sm_plugin_output m), output_string e (Some (sm_plugin_output m)))] else [])"
  have "prints (cat (Some ''['' # sep_by '','' (map snd ?cells) @ [Some '']''])) v"
    using v False e
    by (intro array_json_prints [of fst]) (auto simp: service_json_def intro: prints_text int_json_prints split: if_splits)
  with False json_env_format [OF e] show ?thesis by (auto simp: output_service_def punctuation)
qed (use assms in \<open>simp add: service_json_def output_service_def prints_text\<close>)

lemma prints_number: "json_wf (JNumber s) \<Longrightarrow> prints (Some s) (JNumber s)"
  by (simp add: prints_def)

lemma show_int_digits: "list_all number_char (show_int i)"
  using show_int_number [of i] by (simp del: show_int_number)

lemma output_timeval_number: "json_wf (JNumber (output_timeval e v))"
proof -
  have "number_char (CHR ''0'')" "number_char (CHR ''.'')" by (simp_all add: number_char_def c_isdigit_def)
  then show ?thesis
    using show_int_digits by (auto simp: output_timeval_def pad_left_def list_all_iff)
qed

lemma cat_member:
  assumes e: "json_env e" and v: "member_json e nv = Some (k, v)"
  shows "output_cv e CVT_DICT nv = Some (member_text (k, v)) \<and> json_wf (JObject [(k, v)])"
proof -
  from v have k: "text_json e (fst nv) = Some (JString k)" and w: "text_json e (snd nv) = Some v"
    by (auto simp: member_json_def text_json_def split: option.splits)
  with prints_text [OF e k] prints_text [OF e w] json_env_format [OF e] show ?thesis
    by (simp add: output_cv_def prints_def cat_Cons punctuation)
qed

lemma cat_sep_by_Some: "cat (sep_by s (map Some xs) @ [Some b]) = Some (join s xs @ b)"
  by (induction s xs rule: join.induct) (simp_all add: cat_Cons)

lemma prints_object:
  assumes "those (map f nvs) = Some ms"
    and member: "\<And>nv k v. nv \<in> set nvs \<Longrightarrow> f nv = Some (k, v) \<Longrightarrow> h nv = Some (member_text (k, v)) \<and> json_wf (JObject [(k, v)])"
  shows "prints (cat (Some ''{'' # sep_by '','' (map h nvs) @ [Some ''}''])) (JObject ms)"
proof -
  from those_Some [OF assms(1)] have "map h nvs = map (Some \<circ> member_text) ms \<and> json_wf (JObject ms)"
    using member by (induction rule: list_all2_induct) force+
  then show ?thesis
    using cat_sep_by_Some [of "'',''" "map member_text ms"] unfolding prints_def json_text_object by (simp add: cat_Cons)
qed

lemma prints_dict:
  assumes e: "json_env e" and "those (map (member_json e) nvs) = Some ms"
  shows "prints (cat (Some ''{'' # sep_by '','' (map (output_cv e CVT_DICT) nvs) @ [Some ''}''])) (JObject ms)"
  using assms(2) cat_member [OF e] by (rule prints_object)

lemma prints_printed: "json_env e \<Longrightarrow> printed_json e p = Some v \<Longrightarrow> prints (printed_output e p) v"
proof (induction p arbitrary: v)
  case (Shown_dict ms)
  let ?f = "\<lambda>(k, p). case (chars_of (oe_encoding e) k, printed_json e p) of (Some k', Some v) \<Rightarrow> Some (k', v) | _ \<Rightarrow> None"
  let ?h = "\<lambda>(k, p). cat [output_string e (Some k), Some (output_dict_value_separator e), printed_output e p]"
  note env = json_env_format [OF Shown_dict.prems(1)]
  from Shown_dict.prems(2) obtain js where js: "those (map ?f ms) = Some js" "v = JObject js" by auto
  have "?h kp = Some (member_text (k', v')) \<and> json_wf (JObject [(k', v')])" if kp: "kp \<in> set ms" "?f kp = Some (k', v')" for kp k' v'
  proof -
    obtain k p where p: "kp = (k, p)" by (cases kp)
    with kp(2) have k: "text_json e k = Some (JString k')" and v: "printed_json e p = Some v'"
      by (auto simp: text_json_def split: option.splits)
    have "prints (printed_output e p) v'" using Shown_dict.IH [of kp p] Shown_dict.prems(1) kp(1) p v by (simp add: snds.simps)
    with prints_text [OF Shown_dict.prems(1) k] env p show ?thesis by (simp add: prints_def cat_Cons punctuation)
  qed
  from prints_object [of ?f ms js ?h, OF js(1) this] env js(2) show ?case by (simp add: punctuation)
next
  case (Shown_double r)
  then show ?case by (auto simp: json_env_def intro: prints_number)
qed (use json_env_format [of e] in \<open>auto simp: punctuation output_time_def output_integer64_def output_unsigned_long_def
  simp del: json_wf.simps intro!: int_json_prints prints_text prints_number array_json_prints\<close>)

lemma prints_column:
  assumes e: "json_env e" and v: "column_json e c x = Some v"
  shows "prints (column_output e c x) v"
proof (cases c)
  case (DoubleColumn n g)
  with assms show ?thesis by (auto simp: json_env_def intro: prints_number)
next
  case (TimeValColumn n g)
  with assms show ?thesis by (auto simp: output_timeval_number simp del: json_wf.simps intro!: prints_number)
next
  case (CustomVarsColumn n what g)
  with assms json_env_format [OF e] show ?thesis
    by (cases what) (auto simp: punctuation output_cv_def intro!: array_json_prints prints_text prints_dict)
qed (use assms json_env_format [OF e] in \<open>auto simp: punctuation output_time_def output_integer64_def output_unsigned_long_def text_json_def [of e "[]"]
  simp del: json_wf.simps intro!: int_json_prints prints_text prints_number array_json_prints prints_host prints_service prints_printed
  split: if_splits\<close>)

lemma prints_read: "prints t v \<Longrightarrow> closed_by rest \<Longrightarrow> \<exists>o2. t = Some o2 \<and> json_read (o2 @ rest) = Some (v, rest)"
  by (auto simp: prints_def json_read_def simp del: read_value.simps intro: read_value_text)

text \<open>
  C11. Whatever a column holds, what it prints in the JSON formats can be read back: for each kind of column,
  if its texts are well-formed in the configured encoding and \<open>printf\<close> prints numbers, the reader gets
  exactly the value, and stops exactly where the printer stopped, so that no content of a text (quotes,
  backslashes, control characters, brackets, any of its bytes) can change the structure around it.
\<close>

theorem columns_read_back:
  assumes "json_env e" and "column_json e c x = Some v" and "closed_by rest"
  shows "\<exists>t. column_output e c x = Some t \<and> json_read (t @ rest) = Some (v, rest)"
  using prints_read [OF prints_column [OF assms(1,2)] assms(3)] by blast

definition demo_out_env :: out_env where
  "demo_out_env = \<lparr> oe_format = OUTPUT_FORMAT_JSON, oe_dataset_sep = [CHR 0x0A], oe_field_sep = '';'', oe_list_sep = '','',
     oe_host_service_sep = ''|'', oe_timezone_offset = 0, oe_encoding = ENCODING_UTF8, oe_fmt10 = (\<lambda>r. ''0''),
     oe_attr_bit = (\<lambda>n. 1), oe_hidden_prefix = ''_'', oe_sees_host = (\<lambda>h. True), oe_sees_service = (\<lambda>s. True) \<rparr>"

lemma demo_json_env: "json_env demo_out_env"
  by (simp add: json_env_def demo_out_env_def number_char_def c_isdigit_def)

theorem columns_read_back_witness:
  "\<exists>t. column_output demo_out_env (CustomVarsColumn ''custom_variables'' CVT_DICT (\<lambda>u. [(''OS'', [CHR 0x22, CHR 0xC3, CHR 0xA9]), (''_PW'', ''x'')])) () =
       Some t \<and>
     json_read (t @ '']'') = Some (JObject [(map of_char ''OS'', JString [0x22, 0xE9])], '']'')"
  by (rule columns_read_back [OF demo_json_env])
    (simp_all add: demo_out_env_def visible_vars_def has_prefix_def member_json_def text_json_def closed_by_def)

end
