(* ===== verification/Query_Run.thy ===== *)
theory Query_Run
  imports Query Json_Text Paging
begin

text \<open>
  Running a query: \<open>Query::start\<close>, \<open>processDataset\<close> for each row the table offers, and \<open>finish\<close>
  (\<open>src/Query.cc\<close>). What the query appends goes through the response buffer; \<open>None\<close> is undefined
  behaviour (a text read past its end, a statistics column without an aggregator), never an error, which
  is kept in the response. Each row comes with the moment it is processed: what \<open>time(0)\<close> says and
  whether the termination flag is seen at either of the two places that look at it.
\<close>

record moment =
  m_now :: int
  m_terminate_first :: bool
  m_terminate_second :: bool

record run_env =
  re_max_response_size :: nat
  re_encoding :: encoding
  re_fmt_double :: "dbl \<Rightarrow> string"
  re_fmt8 :: "dbl \<Rightarrow> string"
  re_attr_bit :: "string \<Rightarrow> 64 word"
  re_hidden_prefix :: string
  re_sees_host :: "auth_user \<Rightarrow> host_member \<Rightarrow> bool"
  re_sees_service :: "auth_user \<Rightarrow> svc_member \<Rightarrow> bool"

definition query_out_env :: "run_env \<Rightarrow> 'r query \<Rightarrow> out_env" where
  "query_out_env env q =
     \<lparr> oe_format = q_output_format q, oe_dataset_sep = q_dataset_separator q, oe_field_sep = q_field_separator q,
       oe_list_sep = q_list_separator q, oe_host_service_sep = q_host_service_separator q,
       oe_timezone_offset = q_timezone_offset q, oe_encoding = re_encoding env,
       oe_fmt10 = (\<lambda>r. re_fmt_double env (Fin r)), oe_attr_bit = re_attr_bit env, oe_hidden_prefix = re_hidden_prefix env,
       oe_sees_host = (\<lambda>h. case q_auth_user q of None \<Rightarrow> True | Some u \<Rightarrow> re_sees_host env u h),
       oe_sees_service = (\<lambda>s. case q_auth_user q of None \<Rightarrow> True | Some u \<Rightarrow> re_sees_service env u s) \<rparr>"

definition emit :: "string option \<Rightarrow> 'r query \<Rightarrow> 'r query option" where
  "emit t q = (case t of None \<Rightarrow> None
     | Some s \<Rightarrow> (case add_buffer s (q_output q) of None \<Rightarrow> None | Some ob \<Rightarrow> Some (q\<lparr> q_output := ob \<rparr>)))"

definition doStats :: "'r query \<Rightarrow> bool" where
  "doStats q \<longleftrightarrow> q_stats_columns q \<noteq> []"

definition hasNoColumns :: "'r query \<Rightarrow> bool" where
  "hasNoColumns q \<longleftrightarrow> q_columns q = [] \<and> \<not> doStats q"

section \<open>The beginning of the response\<close>

definition header_row :: "out_env \<Rightarrow> 'r column list \<Rightarrow> nat \<Rightarrow> string option" where
  "header_row e cs n_stats =
     cat (Some (output_dataset_begin e False) #
          sep_by (output_field_separator e)
            (map (\<lambda>c. output_string e (Some (column_name c))) cs @
             map (\<lambda>i. output_string e (Some (''stats_'' @ show_nat i))) [1..<Suc n_stats]) @
          [Some (output_dataset_end e)])"

definition start_text :: "out_env \<Rightarrow> bool \<Rightarrow> 'r column list \<Rightarrow> nat \<Rightarrow> string option" where
  "start_text e show_column_headers cs n_stats =
     (if show_column_headers
      then cat [Some (if oe_format e = OUTPUT_FORMAT_WRAPPED_JSON then ''{'' @ [CHR 0x22] @ ''columns'' @ [CHR 0x22] @ '':''
                      else if is_csv e then [] else ''[''),
                header_row e cs n_stats,
                Some (if oe_format e = OUTPUT_FORMAT_WRAPPED_JSON
                      then '','' @ [CHR 0x22] @ ''data'' @ [CHR 0x22] @ '':['' else [])]
      else Some ((if oe_format e = OUTPUT_FORMAT_WRAPPED_JSON then ''{'' @ [CHR 0x22] @ ''data'' @ [CHR 0x22] @ '':'' else []) @
                 (if is_csv e then [] else ''['')))"

text \<open>Making the aggregators of a group; \<open>None\<close> when one of them has no class.\<close>

definition create_aggregators :: "'r query \<Rightarrow> 'r aggregator list option" where
  "create_aggregators q = those (map create_aggregator (q_stats_columns q))"

definition add_nat_sort :: "'r query \<Rightarrow> 'r query" where
  "add_nat_sort q =
     (if q_do_sorting q \<or> doStats q
      then q\<lparr> q_sorter := fold (\<lambda>c. add_sort_column c False) (case q_table q of None \<Rightarrow> [] | Some t \<Rightarrow> t_nat_sort t) (q_sorter q) \<rparr>
      else q)"

text \<open>\<open>start\<close> after its wait (\<open>Query_Wait\<close>).\<close>

definition query_start :: "run_env \<Rightarrow> 'r query \<Rightarrow> 'r query option" where
  "query_start env q =
     (let q1 = add_nat_sort (q\<lparr> q_need_ds_separator := False \<rparr>);
          q2 = (if doStats q1 \<and> q_columns q1 = []
                then map_option (\<lambda>as. q1\<lparr> q_current_line := 1, q_stats_aggregators := as \<rparr>) (create_aggregators q1)
                else Some q1)
      in case q2 of
           None \<Rightarrow> None
         | Some q3 \<Rightarrow>
             (let e = query_out_env env q3
              in map_option (\<lambda>q4. q4\<lparr> q_need_ds_separator :=
                     q_show_column_headers q \<and> q_output_format q \<noteq> OUTPUT_FORMAT_WRAPPED_JSON \<rparr>)
                   (emit (start_text e (q_show_column_headers q3) (q_columns q3) (length (q_stats_columns q3))) q3)))"

section \<open>One row\<close>

definition timelimitReached :: "int \<Rightarrow> 'r query \<Rightarrow> bool \<times> 'r query" where
  "timelimitReached now q =
     (if 0 \<le> q_time_limit q \<and> q_time_limit_timeout q \<le> now
      then (True, set_error RESPONSE_CODE_LIMIT_EXCEEDED
              (''Maximum query time of '' @ show_int (q_time_limit q) @ '' seconds exceeded!'') q)
      else (False, q))"

definition computeStatsGroupSpec :: "run_env \<Rightarrow> 'r query \<Rightarrow> 'r \<Rightarrow> string list" where
  "computeStatsGroupSpec env q x = map (\<lambda>c. value_as_string (\<lambda>r. re_fmt_double env (Fin r)) c x) (q_columns q)"

definition getStatsGroup :: "string list \<Rightarrow> 'r query \<Rightarrow> ('r aggregator list \<times> bool \<times> 'r query) option" where
  "getStatsGroup spec q =
     (case map_of (q_stats_groups q) spec of
        Some as \<Rightarrow> Some (as, False, q)
      | None \<Rightarrow> map_option (\<lambda>as. (as, True, q\<lparr> q_stats_groups := q_stats_groups q @ [(spec, as)] \<rparr>)) (create_aggregators q))"

definition consume_group :: "'r \<Rightarrow> string list \<Rightarrow> 'r query \<Rightarrow> 'r query" where
  "consume_group x spec q =
     q\<lparr> q_stats_groups := map (\<lambda>(k, as). if k = spec then (k, map (aggr_consume x) as) else (k, as)) (q_stats_groups q) \<rparr>"

definition next_line_number :: "'r query \<Rightarrow> 'r query" where
  "next_line_number q = q\<lparr> q_current_line := (q_current_line q + 1) mod 2 ^ 32 \<rparr>"

definition insert_sorted :: "'r \<Rightarrow> 'r query \<Rightarrow> 'r query" where
  "insert_sorted x q = q\<lparr> q_sorter := sorter_insert x (wrap32 (q_limit q + q_offset q)) (q_sorter q) \<rparr>"

definition group_size :: "string list \<Rightarrow> int" where
  "group_size spec = (\<Sum>s\<leftarrow>spec. 8 * int (length s))"

definition too_large :: "run_env \<Rightarrow> 'r query \<Rightarrow> 'r query" where
  "too_large env = set_error RESPONSE_CODE_LIMIT_EXCEEDED
     (''Maximum response size of '' @ show_nat (re_max_response_size env) @ '' reached'')"

definition canceled :: "'r query \<Rightarrow> 'r query" where
  "canceled = set_error RESPONSE_CODE_LIMIT_EXCEEDED ''Query canceled, core is shutting down.''"

definition print_data_row :: "run_env \<Rightarrow> 'r \<Rightarrow> 'r query \<Rightarrow> 'r query option" where
  "print_data_row env x q =
     map_option (\<lambda>q'. q'\<lparr> q_need_ds_separator := True \<rparr>)
       (emit (print_row (query_out_env env q) (q_need_ds_separator q) (q_columns q) x) q)"

definition process_stats :: "run_env \<Rightarrow> 'r \<Rightarrow> 'r query \<Rightarrow> (bool \<times> 'r query) option" where
  "process_stats env x q =
     (if q_columns q = []
      then Some (True, q\<lparr> q_stats_aggregators := map (aggr_consume x) (q_stats_aggregators q) \<rparr>)
      else let spec = computeStatsGroupSpec env q x
           in case getStatsGroup spec q of
                None \<Rightarrow> None
              | Some (as, is_new, q1) \<Rightarrow>
                  (if is_new
                   then let q2 = insert_sorted x (next_line_number q1)
                        in if int (re_max_response_size env) < sorter_size (q_sorter q2) * group_size spec mod 2 ^ 64
                           then Some (False, too_large env q2)
                           else Some (True, consume_group x spec q2)
                   else Some (True, consume_group x spec q1)))"

definition process_plain :: "run_env \<Rightarrow> 'r \<Rightarrow> 'r query \<Rightarrow> (bool \<times> 'r query) option" where
  "process_plain env x q =
     (let q1 = next_line_number q
      in if q_do_sorting q1 then Some (True, insert_sorted x q1)
         else if 0 \<le> q_limit q1 \<and> wrap32 (q_offset q1 + q_limit q1) < wrap32 (q_current_line q1)
         then Some (q_output_format q1 = OUTPUT_FORMAT_WRAPPED_JSON, q1)
         else if wrap32 (q_current_line q1) \<le> q_offset q1 then Some (True, q1)
         else map_option (\<lambda>q2. (True, q2)) (print_data_row env x q1))"

definition row_visible :: "'r query \<Rightarrow> 'r \<Rightarrow> bool" where
  "row_visible q x \<longleftrightarrow> accepts (AndingFilter (q_filter q)) x \<and>
     (case q_auth_user q of None \<Rightarrow> True
      | Some u \<Rightarrow> (case q_table q of None \<Rightarrow> True | Some t \<Rightarrow> t_is_authorized t u x))"

definition process_dataset :: "run_env \<Rightarrow> moment \<Rightarrow> 'r \<Rightarrow> 'r query \<Rightarrow> (bool \<times> 'r query) option" where
  "process_dataset env m x q =
     (if re_max_response_size env < ob_size (q_output q) then Some (False, too_large env q)
      else if m_terminate_first m then Some (False, canceled q)
      else if \<not> row_visible q x then Some (True, q)
      else case timelimitReached (m_now m) q of
             (True, q1) \<Rightarrow> Some (False, q1)
           | (False, q1) \<Rightarrow>
               if m_terminate_second m then Some (False, canceled q1)
               else if doStats q1 then process_stats env x q1
               else process_plain env x q1)"

section \<open>The end of the response\<close>

definition output_aggregator :: "run_env \<Rightarrow> out_env \<Rightarrow> 'r aggregator \<Rightarrow> string option" where
  "output_aggregator env e a =
     (case aggr_output (re_fmt8 env) a of None \<Rightarrow> None | Some v \<Rightarrow> output_value e (re_fmt_double env) v)"

definition print_stats_row :: "run_env \<Rightarrow> string list \<Rightarrow> 'r aggregator list \<Rightarrow> 'r query \<Rightarrow> 'r query option" where
  "print_stats_row env spec as q =
     (let e = query_out_env env q
      in map_option (\<lambda>q'. q'\<lparr> q_need_ds_separator := True \<rparr>)
           (emit (cat (Some (output_dataset_begin e (q_need_ds_separator q)) #
                       sep_by (output_field_separator e)
                         (map (\<lambda>s. output_string e (Some s)) spec @ map (output_aggregator env e) as) @
                       [Some (output_dataset_end e)])) q))"

fun print_groups :: "run_env \<Rightarrow> 'r list \<Rightarrow> 'r query \<Rightarrow> 'r query option" where
  "print_groups env [] q = Some q"
| "print_groups env (x # xs) q =
     (let spec = computeStatsGroupSpec env q x
      in case getStatsGroup spec q of
           None \<Rightarrow> None
         | Some (as, _, q1) \<Rightarrow>
             (case print_stats_row env spec as q1 of None \<Rightarrow> None | Some q2 \<Rightarrow> print_groups env xs q2))"

fun print_rows :: "run_env \<Rightarrow> 'r list \<Rightarrow> 'r query \<Rightarrow> 'r query option" where
  "print_rows env [] q = Some q"
| "print_rows env (x # xs) q =
     (case print_data_row env x q of None \<Rightarrow> None | Some q1 \<Rightarrow> print_rows env xs q1)"

definition finish_text :: "'r query \<Rightarrow> string" where
  "finish_text q =
     (if q_output_format q = OUTPUT_FORMAT_CSV then []
      else '']'' @
           (if q_output_format q = OUTPUT_FORMAT_WRAPPED_JSON
            then '','' @ [CHR 0x22] @ ''total_count'' @ [CHR 0x22] @ '':'' @ output_integer (q_current_line q) @ ''}'' else []) @
           [CHR 0x0A])"

definition query_page :: "'r query \<Rightarrow> 'r list" where
  "query_page q = sorter_page (q_limit q) (q_offset q) (q_sorter q)"

definition query_finish :: "run_env \<Rightarrow> 'r query \<Rightarrow> 'r query option" where
  "query_finish env q =
     (case (if doStats q \<and> q_columns q \<noteq> [] then print_groups env (query_page q) q
            else if doStats q then print_stats_row env [] (q_stats_aggregators q) q
            else if q_do_sorting q then print_rows env (query_page q) q
            else Some q) of
        None \<Rightarrow> None
      | Some q1 \<Rightarrow> emit (Some (finish_text q1)) q1)"

section \<open>The whole run\<close>

text \<open>
  A table offers its rows one by one and stops when \<open>processDataset\<close> answers no; \<open>Store\<close> calls \<open>finish\<close>
  unless the response has an error.
\<close>

fun answer_rows :: "run_env \<Rightarrow> (moment \<times> 'r) list \<Rightarrow> 'r query \<Rightarrow> 'r query option" where
  "answer_rows env [] q = Some q"
| "answer_rows env ((m, x) # rows) q =
     (case process_dataset env m x q of
        None \<Rightarrow> None
      | Some (False, q1) \<Rightarrow> Some q1
      | Some (True, q1) \<Rightarrow> answer_rows env rows q1)"

definition run_query :: "run_env \<Rightarrow> (moment \<times> 'r) list \<Rightarrow> 'r query \<Rightarrow> 'r query option" where
  "run_query env rows q =
     (case query_start env q of
        None \<Rightarrow> None
      | Some q1 \<Rightarrow>
          (case answer_rows env rows q1 of
             None \<Rightarrow> None
           | Some q2 \<Rightarrow> if ob_has_error (q_output q2) then Some q2 else query_finish env q2))"

end
