(* ===== verification/Query_Headers.thy ===== *)
theory Query_Headers
  imports Query
begin

text \<open>
  What the headers of a request do. An invariant every header keeps (so that the limits, offsets and codes
  of a query are what the run of it relies on, and an error never gets lost), the filter headers as a
  compiler of boolean expressions, and the rounding of \<open>Localtime\<close>.
\<close>

named_theorems parse_defs \<open>the defining equations of the header handlers\<close>

lemmas [parse_defs] = parse_filter_line_def parse_and_or_line_def parse_negate_line_def parse_stats_and_or_line_def
  parse_stats_negate_line_def parse_stats_line_def parse_columns_line_def parse_sort_line_def parse_auth_user_header_def
  parse_separators_line_def parse_output_format_line_def parse_column_headers_line_def parse_keep_alive_line_def
  parse_response_header_line_def parse_limit_line_def parse_offset_line_def parse_timelimit_line_def
  parse_wait_timeout_line_def parse_wait_trigger_line_def parse_wait_object_line_def parse_localtime_line_def

section \<open>The invariant of a query\<close>

definition output_ok :: "output_buffer \<Rightarrow> bool" where
  "output_ok ob \<longleftrightarrow> ob_wf ob \<and> (ob_response_code ob = RESPONSE_CODE_OK \<longleftrightarrow> \<not> ob_has_error ob)"

definition stats_ok :: "'r stats_column \<Rightarrow> bool" where
  "stats_ok sc \<longleftrightarrow> (sc_operation sc = STATS_OP_COUNT) = (sc_filter sc \<noteq> None) \<and>
     (sc_operation sc \<noteq> STATS_OP_COUNT \<longrightarrow> sc_column sc \<noteq> None)"

definition query_ok :: "'r query \<Rightarrow> bool" where
  "query_ok q \<longleftrightarrow> output_ok (q_output q) \<and> -1 \<le> q_limit q \<and> in_int32 (q_limit q) \<and> 0 \<le> q_offset q \<and> in_int32 (q_offset q) \<and>
     -1 \<le> q_time_limit q \<and> 0 \<le> q_wait_timeout q \<and> in_int32 (q_wait_timeout q) \<and>
     (\<forall>i. q_wait_trigger q = Some i \<longrightarrow> i < length wt_names) \<and>
     \<bar>q_timezone_offset q\<bar> < 86400 \<and> q_timezone_offset q mod 1800 = 0 \<and> list_all stats_ok (q_stats_columns q) \<and>
     heap (q_sorter q) = []"

lemma output_ok_error: "output_ok ob \<Longrightarrow> code \<noteq> RESPONSE_CODE_OK \<Longrightarrow> output_ok (ob_set_error code msg ob)"
  by (auto simp: output_ok_def ob_set_error_def ob_wf_def ob_has_error_def)

lemma query_ok_error [simp]: "query_ok q \<Longrightarrow> query_ok (invalid_header msg q)"
  by (simp add: query_ok_def set_error_def output_ok_error)

named_theorems keeps \<open>each header keeps the invariant\<close>

lemma query_create_filter_ok:
  "query_create_filter env c opid text q = (f, q') \<Longrightarrow> query_ok q \<Longrightarrow> query_ok q'"
  by (auto simp: query_create_filter_def split: prod.splits option.splits if_splits)

lemma filter_stack_ok [simp]:
  "query_ok (q\<lparr> q_filter := fs \<rparr>) = query_ok q" "query_ok (q\<lparr> q_filter_error := e \<rparr>) = query_ok q"
  "query_ok (q\<lparr> q_wait_condition := fs \<rparr>) = query_ok q" "query_ok (q\<lparr> q_wait_error := e \<rparr>) = query_ok q"
  "query_ok (q\<lparr> q_show_column_headers := b \<rparr>) = query_ok q" "query_ok (q\<lparr> q_columns := cs \<rparr>) = query_ok q"
  "query_ok (q\<lparr> q_wait_object := x \<rparr>) = query_ok q" "query_ok (q\<lparr> q_auth_user := u \<rparr>) = query_ok q"
  "query_ok (q\<lparr> q_output_format := fm \<rparr>) = query_ok q" "query_ok (q\<lparr> q_field_separator := s \<rparr>) = query_ok q"
  "query_ok (q\<lparr> q_dataset_separator := s \<rparr>) = query_ok q" "query_ok (q\<lparr> q_list_separator := s \<rparr>) = query_ok q"
  "query_ok (q\<lparr> q_host_service_separator := s \<rparr>) = query_ok q" "query_ok (q\<lparr> q_do_sorting := b \<rparr>) = query_ok q"
  "query_ok (q\<lparr> q_time_limit_timeout := n \<rparr>) = query_ok q"
  by (simp_all add: query_ok_def)

lemma parse_filter_line_ok [keeps]: "query_ok q \<Longrightarrow> query_ok (parse_filter_line env l b q)"
  by (auto simp: parse_filter_line_def split: option.splits prod.splits dest: query_create_filter_ok)

lemma parse_and_or_line_ok [keeps]: "query_ok q \<Longrightarrow> query_ok (parse_and_or_line l ao b q)"
  by (auto simp: parse_and_or_line_def Let_def split: option.splits prod.splits sum.splits)

lemma parse_negate_line_ok [keeps]: "query_ok q \<Longrightarrow> query_ok (parse_negate_line l b q)"
  by (auto simp: parse_negate_line_def split: option.splits)

lemma stats_columns_ok: "query_ok q \<Longrightarrow> list_all stats_ok scs \<Longrightarrow> query_ok (q\<lparr> q_stats_columns := scs \<rparr>)"
  by (simp add: query_ok_def)

lemma query_ok_stats: "query_ok q \<Longrightarrow> list_all stats_ok (q_stats_columns q)"
  by (simp add: query_ok_def)

lemma list_all_butlast: "list_all P xs \<Longrightarrow> list_all P (butlast xs)"
  by (auto simp: list_all_iff dest: in_set_butlastD)

lemma steal_counts_ok: "query_ok q \<Longrightarrow> query_ok (steal_counts n ao fs q)"
  by (induction n ao fs q rule: steal_counts.induct)
    (auto simp: Let_def stats_ok_def intro!: stats_columns_ok list_all_butlast dest: query_ok_stats split: option.splits)

lemma parse_stats_and_or_line_ok: "parse_stats_and_or_line l ao q = Some q' \<Longrightarrow> query_ok q \<Longrightarrow> query_ok q'"
  by (auto simp: parse_stats_and_or_line_def Let_def steal_counts_ok split: option.splits prod.splits if_splits)

lemma parse_stats_negate_line_ok [keeps]: "query_ok q \<Longrightarrow> query_ok (parse_stats_negate_line l q)"
  by (auto simp: parse_stats_negate_line_def Let_def stats_ok_def intro!: stats_columns_ok list_all_butlast
      dest: query_ok_stats split: option.splits)

lemma push_stats_ok: "query_ok q \<Longrightarrow> stats_ok sc \<Longrightarrow> query_ok (push_stats sc q)"
  by (auto simp: push_stats_def intro!: stats_columns_ok dest: query_ok_stats)

lemma parse_stats_line_ok [keeps]: "query_ok q \<Longrightarrow> query_ok (parse_stats_line env l q)"
  by (auto simp: parse_stats_line_def Let_def stats_ok_def intro!: push_stats_ok
      dest: query_create_filter_ok split: option.splits prod.splits)

lemma number_of_range: "number_of v = Some n \<Longrightarrow> 0 \<le> n \<and> in_int32 n"
  using wrap32_range by (auto simp: number_of_def atoi_def split: if_splits)

lemma index_of_less: "index_of x ys = Some i \<Longrightarrow> i < length ys"
  by (induction ys arbitrary: i) (auto split: if_splits)

lemma output_flags_ok:
  "query_ok q \<Longrightarrow> query_ok (q\<lparr> q_output := (q_output q)\<lparr> ob_do_keepalive := b \<rparr> \<rparr>)"
  "query_ok q \<Longrightarrow> query_ok (q\<lparr> q_output := (q_output q)\<lparr> ob_response_header := h \<rparr> \<rparr>)"
  by (simp_all add: query_ok_def output_ok_def ob_wf_def ob_has_error_def)

lemma number_fields_ok:
  "query_ok q \<Longrightarrow> 0 \<le> n \<and> in_int32 n \<Longrightarrow> query_ok (q\<lparr> q_limit := n \<rparr>)"
  "query_ok q \<Longrightarrow> 0 \<le> n \<and> in_int32 n \<Longrightarrow> query_ok (q\<lparr> q_offset := n \<rparr>)"
  "query_ok q \<Longrightarrow> 0 \<le> n \<and> in_int32 n \<Longrightarrow> query_ok (q\<lparr> q_time_limit := n \<rparr>)"
  "query_ok q \<Longrightarrow> 0 \<le> n \<and> in_int32 n \<Longrightarrow> query_ok (q\<lparr> q_wait_timeout := n \<rparr>)"
  "query_ok q \<Longrightarrow> i < length wt_names \<Longrightarrow> query_ok (q\<lparr> q_wait_trigger := Some i \<rparr>)"
  by (simp_all add: query_ok_def)

lemma number_lines_ok [keeps]:
  "query_ok q \<Longrightarrow> query_ok (parse_limit_line l q)" "query_ok q \<Longrightarrow> query_ok (parse_offset_line l q)"
  "query_ok q \<Longrightarrow> query_ok (parse_timelimit_line now l q)" "query_ok q \<Longrightarrow> query_ok (parse_wait_timeout_line l q)"
  "query_ok q \<Longrightarrow> query_ok (parse_wait_trigger_line l q)"
  by (auto simp: parse_limit_line_def parse_offset_line_def parse_timelimit_line_def parse_wait_timeout_line_def
      parse_wait_trigger_line_def number_fields_ok split: option.splits dest: number_of_range index_of_less)

lemma plain_lines_ok [keeps]:
  "query_ok q \<Longrightarrow> query_ok (parse_columns_line l q)" "query_ok q \<Longrightarrow> query_ok (parse_auth_user_header env l q)"
  "query_ok q \<Longrightarrow> query_ok (parse_separators_line l q)" "query_ok q \<Longrightarrow> query_ok (parse_output_format_line l q)"
  "query_ok q \<Longrightarrow> query_ok (parse_column_headers_line l q)" "query_ok q \<Longrightarrow> query_ok (parse_keep_alive_line l q)"
  "query_ok q \<Longrightarrow> query_ok (parse_response_header_line l q)" "query_ok q \<Longrightarrow> query_ok (parse_wait_object_line env l q)"
  by (auto simp: parse_columns_line_def parse_auth_user_header_def parse_separators_line_def parse_output_format_line_def
      parse_column_headers_line_def parse_keep_alive_line_def parse_response_header_line_def parse_wait_object_line_def
      output_flags_ok split: option.splits prod.splits)

lemma parse_sort_line_ok [keeps]: "query_ok q \<Longrightarrow> query_ok (parse_sort_line l q)"
  by (auto simp: parse_sort_line_def Let_def query_ok_def add_sort_column_def split: option.splits prod.splits)

section \<open>Localtime\<close>

lemma half_hours_nearest: "\<bar>half_hours d * 1800 - d\<bar> \<le> 900"
proof -
  have "d sdiv 1800 * 1800 + d smod 1800 = d" by (rule sdiv_mult_smod_eq)
  moreover have "- 1800 < d smod 1800" "d smod 1800 < 1800"
    using smod_int_compares(1,2,3,4,5,6) [of d 1800] by linarith+
  ultimately show ?thesis by (simp add: half_hours_def Let_def) linarith
qed

text \<open>
  C27. \<open>Localtime\<close>: when the clocks differ by less than 23 hours and 45 minutes the offset of the query becomes
  the multiple of half an hour nearest to the difference (at most 15 minutes off), and otherwise the
  header is an error and the offset stays.
\<close>

theorem localtime_offset_is_nearest_half_hour:
  assumes "fst (next_field line) = Some v" and "dif = wrap32 (atoi v - now)"
    and "q' = parse_localtime_line now line q"
  shows "(\<bar>dif\<bar> < 85500 \<longrightarrow> q' = q\<lparr> q_timezone_offset := q_timezone_offset q' \<rparr> \<and>
            q_timezone_offset q' mod 1800 = 0 \<and> \<bar>q_timezone_offset q' - dif\<bar> \<le> 900) \<and>
         (85500 \<le> \<bar>dif\<bar> \<longrightarrow> q_timezone_offset q' = q_timezone_offset q \<and> ob_has_error (q_output q'))"
proof -
  have near: "\<bar>half_hours dif * 1800 - dif\<bar> \<le> 900" by (rule half_hours_nearest)
  have err: "ob_has_error (ob_set_error c (a # m) ob)" for c a m ob
    by (auto simp: ob_has_error_def ob_set_error_def)
  show ?thesis
  proof (cases "48 \<le> half_hours dif \<or> half_hours dif \<le> -48")
    case True
    then have "\<not> \<bar>dif\<bar> < 85500" using near by linarith
    with True assms show ?thesis by (simp add: parse_localtime_line_def Let_def set_error_def err)
  next
    case False
    moreover have "half_hours 85500 = 48" "half_hours (- 85500) = -48" by (simp_all add: half_hours_def Let_def)
    ultimately have "dif \<noteq> 85500" "dif \<noteq> - 85500" by auto
    with False near have "\<not> 85500 \<le> \<bar>dif\<bar>" by linarith
    with False assms near show ?thesis by (simp add: parse_localtime_line_def Let_def)
  qed
qed

definition demo_query_env :: "int query_env" where
  "demo_query_env = \<lparr> qe_filter_env = demo_env, qe_find_contact = (\<lambda>n. None), qe_null_object = 0 \<rparr>"

definition demo_query :: "int query" where
  "demo_query = new_query demo_query_env new_output_buffer (Some demo_table)"

theorem localtime_offset_is_nearest_half_hour_witness:
  "\<exists>v. fst (next_field ''9000 '') = Some v \<and>
     \<bar>q_timezone_offset (parse_localtime_line 1750 ''9000 '' demo_query) - wrap32 (atoi v - 1750)\<bar> \<le> 900"
proof -
  have f: "fst (next_field ''9000 '') = Some ''9000''" by (simp add: next_field_def Let_def c_isspace_def)
  have a: "atoi ''9000'' = 9000"
    by (simp add: atoi_def strtol_def c_isspace_def c_isdigit_def digits_value_def digit_val_def wrap32_def Let_def)
  have w: "wrap32 7250 = 7250" by (simp add: wrap32_def)
  show ?thesis
    using localtime_offset_is_nearest_half_hour [OF f refl refl, of 1750 demo_query] f by (simp add: a w)
qed

section \<open>Every request is parsed\<close>

lemma parse_localtime_line_ok [keeps]: "query_ok q \<Longrightarrow> query_ok (parse_localtime_line now l q)"
  by (auto simp: parse_localtime_line_def Let_def split: option.splits) (auto simp: query_ok_def)

lemma header_handlers_ok:
  "(name, h) \<in> set (header_handlers env now) \<Longrightarrow> query_ok q \<Longrightarrow> h arg q = Some q' \<Longrightarrow> query_ok q'"
  unfolding header_handlers_def
  by (simp only: list.set insert_iff empty_iff prod.inject simp_thms, elim disjE conjE)
    (auto intro: keeps parse_stats_and_or_line_ok)

lemma find_header_in: "find_header hs b = Some (h, arg) \<Longrightarrow> \<exists>name. (name, h) \<in> set hs \<and> has_prefix name b \<and> arg = lstrip (drop (length name) b)"
  by (induction hs b rule: find_header.induct) (auto split: if_splits)

lemma parse_headers_ok: "query_ok q \<Longrightarrow> parse_headers env clock n lines q = Some (q', rest) \<Longrightarrow> query_ok q'"
proof (induction env clock n lines q rule: parse_headers.induct)
  case (2 env clock n line lines q)
  then show ?case
    by (auto split: option.splits prod.splits if_splits dest!: find_header_in dest: header_handlers_ok)
qed simp

definition bare_stats_header :: "string \<Rightarrow> bool" where
  "bare_stats_header line \<longleftrightarrow>
     (\<exists>name \<in> {''StatsOr:'', ''StatsAnd:''}. has_prefix name (rstrip (c_str line)) \<and>
        fst (next_field (lstrip (drop (length name) (rstrip (c_str line))))) = None)"

lemma header_handlers_total:
  "(name, h) \<in> set (header_handlers env now) \<Longrightarrow> h arg q = None \<Longrightarrow>
     name \<in> {''StatsOr:'', ''StatsAnd:''} \<and> fst (next_field arg) = None"
  unfolding header_handlers_def
  by (simp only: list.set insert_iff empty_iff prod.inject simp_thms, elim disjE conjE)
    (auto simp: parse_stats_and_or_line_def Let_def split: option.splits prod.splits if_splits)

lemma parse_headers_total:
  assumes "\<forall>l \<in> set lines. \<not> bare_stats_header l"
  shows "\<exists>q' front rest. parse_headers env clock n lines q = Some (q', rest) \<and> lines = front @ rest"
  using assms
proof (induction env clock n lines q rule: parse_headers.induct)
  case (2 env clock n line lines q)
  show ?case
  proof (cases "find_header (header_handlers env (clock n)) (rstrip (c_str line))")
    case None
    then show ?thesis by (auto intro: exI [of _ "[line]"])
  next
    case (Some r)
    obtain h arg where r: "r = (h, arg)" by (cases r)
    from find_header_in [OF Some [unfolded r]] obtain name where
      name: "(name, h) \<in> set (header_handlers env (clock n))" "has_prefix name (rstrip (c_str line))"
        "arg = lstrip (drop (length name) (rstrip (c_str line)))" by blast
    have "h arg q \<noteq> None"
    proof
      assume "h arg q = None"
      from header_handlers_total [OF name(1) this] name(2,3) have "bare_stats_header line"
        unfolding bare_stats_header_def by blast
      with "2.prems" show False by simp
    qed
    then obtain q' where q': "h arg q = Some q'" by blast
    with "2.IH" [OF Some r [symmetric] q'] "2.prems" obtain q2 front rest where
      "parse_headers env clock (Suc n) lines q' = Some (q2, rest)" "lines = front @ rest" by auto
    with Some r q' show ?thesis by (auto intro: exI [of _ "line # front"])
  qed
qed simp

text \<open>
  C10. Every request is parsed, whatever its lines hold: as long as no \<open>StatsOr\<close> or \<open>StatsAnd\<close> lacks its
  number, the constructor reads lines from the front of the request and ends in a query whose limits,
  offsets, time zone, trigger and statistics are in their ranges, and whose response code is 200 exactly
  when no header was in error.
\<close>

theorem requests_are_parsed:
  assumes "output_ok ob" and "\<forall>l \<in> set lines. \<not> bare_stats_header l"
  shows "\<exists>q front rest. query_of_request env clock ob t lines = Some (q, rest) \<and> lines = front @ rest \<and> query_ok q"
proof -
  have "query_ok (new_query env ob t)"
    using assms(1) by (simp add: query_ok_def new_query_def in_int32_def empty_sorter_def)
  with parse_headers_total [OF assms(2)] show ?thesis
    unfolding query_of_request_def by (meson parse_headers_ok)
qed

lemma new_output_ok: "output_ok new_output_buffer"
  using new_output_buffer_wf by (simp add: output_ok_def ob_has_error_def new_output_buffer_def ob_reset_def)

theorem requests_are_parsed_witness:
  "\<exists>q front rest. query_of_request demo_query_env (\<lambda>n. 0) new_output_buffer (Some demo_table) [''Stats: sum id'', ''StatsOr: 1''] = Some (q, rest) \<and>
     [''Stats: sum id'', ''StatsOr: 1''] = front @ rest \<and> query_ok q"
  by (rule requests_are_parsed [OF new_output_ok])
    (simp add: bare_stats_header_def rstrip_eq c_isspace_def has_prefix_def next_field_def Let_def)

lemma bare_stats_header_undefined: "parse_headers env clock n (''StatsOr:'' # ls) q = None"
  by (simp add: header_handlers_def has_prefix_def rstrip_eq c_isspace_def parse_stats_and_or_line_def next_field_def)

section \<open>Filter headers compile boolean expressions\<close>

text \<open>
  A client writes a boolean expression in postfix order: a condition is a \<open>Filter\<close> header, and the headers
  \<open>Negate\<close>, \<open>And: n\<close> and \<open>Or: n\<close> apply to what stands before them.
\<close>

datatype fexp = Cond string string string | Neg fexp | Conj "fexp list" | Disj "fexp list"

fun headers_of :: "fexp \<Rightarrow> string list" where
  "headers_of (Cond col opr v) = [''Filter: '' @ col @ CHR '' '' # opr @ CHR '' '' # v]"
| "headers_of (Neg e) = headers_of e @ [''Negate:'']"
| "headers_of (Conj es) = concat (map headers_of es) @ [''And: '' @ show_nat (length es)]"
| "headers_of (Disj es) = concat (map headers_of es) @ [''Or: '' @ show_nat (length es)]"

definition word :: "string \<Rightarrow> bool" where
  "word s \<longleftrightarrow> s \<noteq> [] \<and> c_text s \<and> list_all (\<lambda>c. \<not> c_isspace c) s"

definition trimmed :: "string \<Rightarrow> bool" where
  "trimmed s \<longleftrightarrow> c_text s \<and> (s = [] \<or> \<not> c_isspace (hd s) \<and> \<not> c_isspace (last s))"

definition cond_filter :: "'r query_env \<Rightarrow> 'r table \<Rightarrow> string \<Rightarrow> string \<Rightarrow> string \<Rightarrow> 'r filter \<times> string option" where
  "cond_filter env t col opr v = create_filter (qe_filter_env env) (query_column t col) (lookupOperator opr) v"

fun meaning :: "'r query_env \<Rightarrow> 'r table \<Rightarrow> fexp \<Rightarrow> 'r \<Rightarrow> bool" where
  "meaning env t (Cond col opr v) x = accepts (fst (cond_filter env t col opr v)) x"
| "meaning env t (Neg e) x = (\<not> meaning env t e x)"
| "meaning env t (Conj es) x = list_all (\<lambda>e. meaning env t e x) es"
| "meaning env t (Disj es) x = list_ex (\<lambda>e. meaning env t e x) es"

fun expressible :: "'r query_env \<Rightarrow> 'r table \<Rightarrow> fexp \<Rightarrow> bool" where
  "expressible env t (Cond col opr v) \<longleftrightarrow>
     word col \<and> word opr \<and> trimmed v \<and> lookupOperator opr \<noteq> OP_INVALID \<and> snd (cond_filter env t col opr v) = None"
| "expressible env t (Neg e) \<longleftrightarrow> expressible env t e"
| "expressible env t (Conj es) \<longleftrightarrow> length es < 2 ^ 31 \<and> list_all (expressible env t) es"
| "expressible env t (Disj es) \<longleftrightarrow> length es < 2 ^ 31 \<and> list_all (expressible env t) es"

lemma next_field_of_word: "word c \<Longrightarrow> next_field (c @ CHR '' '' # r) = (Some c, r)" "word c \<Longrightarrow> next_field c = (Some c, [])"
proof -
  assume w: "word c"
  then obtain d ds where d: "c = d # ds" "\<not> c_isspace d" by (cases c) (auto simp: word_def)
  have sp: "c_isspace (CHR '' '')" by (simp add: c_isspace_def)
  from w have all: "list_all (\<lambda>x. \<not> c_isspace x) c" by (simp add: word_def)
  have "lstrip (c @ s) = c @ s" for s using d by simp
  then show "next_field (c @ CHR '' '' # r) = (Some c, r)"
    using takeWhile_all_app [OF all, of "CHR '' '' # r"] dropWhile_all_app [OF all, of "CHR '' '' # r"] sp d
    by (simp add: next_field_def Let_def)
  have run: "takeWhile (\<lambda>x. \<not> c_isspace x) c = c" "dropWhile (\<lambda>x. \<not> c_isspace x) c = []"
    using takeWhile_all_app [OF all, of "[]"] dropWhile_all_app [OF all, of "[]"] by simp_all
  have "lstrip c = c" "c \<noteq> []" using d by simp_all
  then show "next_field c = (Some c, [])" unfolding next_field_def Let_def by (simp only: run if_False drop_Nil)
qed

lemma rstrip_trimmed: "s \<noteq> [] \<Longrightarrow> \<not> c_isspace (last s) \<Longrightarrow> rstrip s = s"
  by (subst rstrip.simps) simp

lemma lstrip_head: "s \<noteq> [] \<Longrightarrow> \<not> c_isspace (hd s) \<Longrightarrow> lstrip s = s"
  by (cases s) auto

definition filter_step :: "'r query_env \<Rightarrow> 'r table \<Rightarrow> string list \<Rightarrow> 'r filter list \<Rightarrow> bool" where
  "filter_step env t lines fs \<longleftrightarrow>
     (\<forall>clock n rest q. q_table q = Some t \<longrightarrow> q_filter_error q = [] \<longrightarrow>
        parse_headers env clock n (lines @ rest) q =
        parse_headers env clock (n + length lines) rest (q\<lparr> q_filter := q_filter q @ fs \<rparr>))"

lemma filter_step_Nil: "filter_step env t [] []"
  by (simp add: filter_step_def)

lemma filter_step_append: "filter_step env t ls fs \<Longrightarrow> filter_step env t ls' fs' \<Longrightarrow> filter_step env t (ls @ ls') (fs @ fs')"
  by (simp add: filter_step_def add.assoc)

lemma cond_line:
  assumes "word col" and "word opr" and "trimmed v"
  shows "\<exists>arg. rstrip (''Filter: '' @ col @ CHR '' '' # opr @ CHR '' '' # v) = ''Filter: '' @ arg \<and> arg \<noteq> [] \<and> \<not> c_isspace (hd arg) \<and>
     (\<exists>line1 line2. next_field arg = (Some col, line1) \<and> next_field line1 = (Some opr, line2) \<and> lstrip line2 = v)"
proof -
  have col: "col \<noteq> []" "\<not> c_isspace (hd col)" and opr: "opr \<noteq> []" "\<not> c_isspace (last opr)"
    using assms by (auto simp: word_def list_all_iff)
  show ?thesis
  proof (cases "v = []")
    case True
    have "rstrip (''Filter: '' @ col @ CHR '' '' # opr @ '' '') = ''Filter: '' @ col @ CHR '' '' # opr"
      using opr by (cases opr rule: rev_cases) (simp_all add: rstrip_eq c_isspace_def [of "CHR '' ''"])
    with True col show ?thesis
      by (intro exI [of _ "col @ CHR '' '' # opr"]) (auto simp: next_field_of_word [OF assms(1)] next_field_of_word [OF assms(2)])
  next
    case False
    with assms(3) have v: "\<not> c_isspace (hd v)" "\<not> c_isspace (last v)" by (auto simp: trimmed_def)
    have "rstrip (''Filter: '' @ col @ CHR '' '' # opr @ CHR '' '' # v) = ''Filter: '' @ col @ CHR '' '' # opr @ CHR '' '' # v"
      using False v by (intro rstrip_trimmed) simp_all
    with False v col show ?thesis
      by (intro exI [of _ "col @ CHR '' '' # opr @ CHR '' '' # v"])
        (auto simp: next_field_of_word [OF assms(1)] next_field_of_word [OF assms(2)] lstrip_head)
  qed
qed

lemma filter_step_cond:
  assumes "expressible env t (Cond col opr v)"
  shows "filter_step env t (headers_of (Cond col opr v)) [fst (cond_filter env t col opr v)]"
proof -
  let ?line = "''Filter: '' @ col @ CHR '' '' # opr @ CHR '' '' # v"
  have "c_text ?line" using assms by (simp add: word_def trimmed_def)
  then have cs: "c_str ?line = ?line" by (rule c_str_id)
  obtain arg where arg: "rstrip (c_str ?line) = ''Filter: '' @ arg" "\<not> c_isspace (hd arg)" "arg \<noteq> []"
    and line: "\<exists>line1 line2. next_field arg = (Some col, line1) \<and> next_field line1 = (Some opr, line2) \<and> lstrip line2 = v"
    unfolding cs using assms cond_line [of col opr v] by auto
  have "find_header (header_handlers env now) (rstrip (c_str ?line)) = Some (\<lambda>l q. Some (parse_filter_line env l True q), arg)" for now
    using arg by (simp add: header_handlers_def has_prefix_def c_isspace_def lstrip_head)
  moreover have "parse_filter_line env arg True q = q\<lparr> q_filter := q_filter q @ [fst (cond_filter env t col opr v)] \<rparr>"
    if "q_table q = Some t" for q
    using assms line that
    by (auto simp: parse_filter_line_def query_create_filter_def cond_filter_def add_subfilter_def no_error_makes_filter
        split: prod.splits option.splits)
  ultimately show ?thesis by (simp add: filter_step_def)
qed

lemma filter_step_neg:
  assumes "filter_step env t ls [f]"
  shows "filter_step env t (ls @ [''Negate:'']) [NegatingFilter f]"
proof -
  have "find_header (header_handlers env now) (rstrip (c_str ''Negate:'')) = Some (\<lambda>l q. Some (parse_negate_line l True q), [])" for now
    by (simp add: header_handlers_def has_prefix_def c_isspace_def rstrip_eq)
  moreover have "parse_negate_line [] True (q\<lparr> q_filter := fs @ [f] \<rparr>) = q\<lparr> q_filter := fs @ [NegatingFilter f] \<rparr>" for q fs
    by (simp add: parse_negate_line_def next_field_def steal_last_subfilter_def add_subfilter_def)
  ultimately show ?thesis using assms by (simp add: filter_step_def)
qed

lemma show_nat_word: "word (show_nat n)" "\<not> c_isspace (hd (show_nat n))" "\<not> c_isspace (last (show_nat n))" "c_isdigit (hd (show_nat n))"
proof -
  have digits: "list_all c_isdigit (show_nat n)" "show_nat n \<noteq> []" using show_nat_digits by simp_all
  then show "word (show_nat n)" by (auto simp: word_def list_all_iff isdigit_not_isspace)
  show d: "c_isdigit (hd (show_nat n))" using digits by (simp add: list_all_iff)
  then show "\<not> c_isspace (hd (show_nat n))" by (rule isdigit_not_isspace)
  have "c_isdigit (last (show_nat n))" using digits by (simp add: list_all_iff)
  then show "\<not> c_isspace (last (show_nat n))" by (rule isdigit_not_isspace)
qed

lemma atoi_show_nat: "n < 2 ^ 31 \<Longrightarrow> atoi (show_nat n) = int n"
  using atoi_show_int [of "int n"] by (simp add: show_int_def in_int32_def)

lemma combine_all: "combine_filters (int (length fs)) ao (gs @ fs) =
   Inr (gs @ [case ao of ANDOR_AND \<Rightarrow> AndingFilter (rev fs) | ANDOR_OR \<Rightarrow> OringFilter (rev fs)])"
  by (simp add: combine_filters_def pop_filters_eq add_subfilter_def)

lemma filter_step_combine:
  assumes "filter_step env t ls fs" and "length fs < 2 ^ 31"
  shows "filter_step env t (ls @ [''And: '' @ show_nat (length fs)]) [AndingFilter (rev fs)]"
    and "filter_step env t (ls @ [''Or: '' @ show_nat (length fs)]) [OringFilter (rev fs)]"
proof -
  let ?n = "show_nat (length fs)"
  have "rstrip (c_str (''And: '' @ ?n)) = ''And: '' @ ?n" "rstrip (c_str (''Or: '' @ ?n)) = ''Or: '' @ ?n"
    using show_nat_word(3) by (simp_all add: rstrip_trimmed)
  then have find: "find_header (header_handlers env now) (rstrip (c_str (''And: '' @ ?n))) = Some (\<lambda>l q. Some (parse_and_or_line l ANDOR_AND True q), ?n)"
    "find_header (header_handlers env now) (rstrip (c_str (''Or: '' @ ?n))) = Some (\<lambda>l q. Some (parse_and_or_line l ANDOR_OR True q), ?n)" for now
    using show_nat_word(2) by (simp_all add: header_handlers_def has_prefix_def lstrip_head c_isspace_def [of "CHR '' ''"])
  have "parse_and_or_line ?n ao True (q\<lparr> q_filter := gs @ fs \<rparr>) =
     q\<lparr> q_filter := gs @ [case ao of ANDOR_AND \<Rightarrow> AndingFilter (rev fs) | ANDOR_OR \<Rightarrow> OringFilter (rev fs)] \<rparr>"
    if "q_filter_error q = []" for ao q gs
    using assms(2) that show_nat_word(4) by (simp add: parse_and_or_line_def next_field_of_word show_nat_word(1) atoi_show_nat combine_all)
  with find assms(1) show "filter_step env t (ls @ [''And: '' @ ?n]) [AndingFilter (rev fs)]"
    and "filter_step env t (ls @ [''Or: '' @ ?n]) [OringFilter (rev fs)]"
    by (simp_all add: filter_step_def)
qed

definition compiles :: "'r query_env \<Rightarrow> 'r table \<Rightarrow> fexp \<Rightarrow> 'r filter \<Rightarrow> bool" where
  "compiles env t e f \<longleftrightarrow> filter_step env t (headers_of e) [f] \<and> (\<forall>x. accepts f x = meaning env t e x)"

lemma compiles_list:
  assumes "\<And>e. e \<in> set es \<Longrightarrow> \<exists>f. compiles env t e f"
  shows "\<exists>fs. filter_step env t (concat (map headers_of es)) fs \<and> length fs = length es \<and>
     list_all2 (\<lambda>e f. \<forall>x. accepts f x = meaning env t e x) es fs"
  using assms
proof (induction es)
  case Nil
  then show ?case by (simp add: filter_step_Nil)
next
  case (Cons e es)
  obtain f where "compiles env t e f" using Cons.prems [of e] by auto
  moreover obtain fs where "filter_step env t (concat (map headers_of es)) fs"
    "length fs = length es" "list_all2 (\<lambda>e f. \<forall>x. accepts f x = meaning env t e x) es fs" using Cons by auto
  ultimately show ?case
    using filter_step_append [of env t "headers_of e" "[f]" _ fs] by (intro exI [of _ "f # fs"]) (simp add: compiles_def)
qed

lemma accepts_list:
  assumes "list_all2 (\<lambda>e f. \<forall>x. accepts f x = meaning env t e x) es fs"
  shows "list_all (\<lambda>f. accepts f x) fs = list_all (\<lambda>e. meaning env t e x) es"
    and "list_ex (\<lambda>f. accepts f x) fs = list_ex (\<lambda>e. meaning env t e x) es"
  using assms by (induction rule: list_all2_induct) auto

lemma expression_compiles: "expressible env t e \<Longrightarrow> \<exists>f. compiles env t e f"
proof (induction e)
  case (Cond col opr v)
  then show ?case using filter_step_cond [OF Cond] by (auto simp: compiles_def)
next
  case (Neg e)
  then obtain f where "compiles env t e f" by auto
  then show ?case using filter_step_neg [of env t "headers_of e" f] by (auto simp: compiles_def)
next
  case (Conj es)
  then obtain fs where "filter_step env t (concat (map headers_of es)) fs" "length fs = length es"
    "list_all2 (\<lambda>e f. \<forall>x. accepts f x = meaning env t e x) es fs"
    using compiles_list [of es env t] by (auto simp: list_all_iff)
  with filter_step_combine(1) [of env t _ fs] Conj.prems show ?case
    by (intro exI [of _ "AndingFilter (rev fs)"]) (auto simp: compiles_def accepts_list)
next
  case (Disj es)
  then obtain fs where "filter_step env t (concat (map headers_of es)) fs" "length fs = length es"
    "list_all2 (\<lambda>e f. \<forall>x. accepts f x = meaning env t e x) es fs"
    using compiles_list [of es env t] by (auto simp: list_all_iff)
  with filter_step_combine(2) [of env t _ fs] Disj.prems show ?case
    by (intro exI [of _ "OringFilter (rev fs)"]) (auto simp: compiles_def accepts_list)
qed

text \<open>
  C9. The filter headers of a request are a compiler: for every boolean expression over conditions the table
  understands, written in postfix order, the constructor leaves one filter on the stack, and that filter
  accepts exactly the rows for which the expression is true. It changes nothing else of the query.
\<close>

theorem filter_headers_compile_expressions:
  assumes "expressible env t e"
  shows "\<exists>f. query_of_request env clock ob (Some t) (headers_of e) = Some ((new_query env ob (Some t))\<lparr> q_filter := [f] \<rparr>, []) \<and>
     (\<forall>x. accepts f x = meaning env t e x)"
proof -
  obtain f where f: "compiles env t e f" using expression_compiles [OF assms] by blast
  have "q_table (new_query env ob (Some t)) = Some t" "q_filter_error (new_query env ob (Some t)) = []"
    "q_filter (new_query env ob (Some t)) = []" by (simp_all add: new_query_def)
  with f have "parse_headers env clock 0 (headers_of e @ []) (new_query env ob (Some t)) =
     Some ((new_query env ob (Some t))\<lparr> q_filter := [f] \<rparr>, [])"
    unfolding compiles_def filter_step_def by (auto simp del: append_Nil2)
  with f show ?thesis by (auto simp: compiles_def query_of_request_def)
qed

definition demo_fexp :: fexp where
  "demo_fexp = Disj [Cond ''name'' ''>'' ''3'', Neg (Cond ''host_name'' ''='' ''7'')]"

theorem filter_headers_compile_expressions_witness:
  "\<exists>f. query_of_request demo_query_env (\<lambda>n. 0) new_output_buffer (Some demo_table) (headers_of demo_fexp) =
       Some (demo_query\<lparr> q_filter := [f] \<rparr>, []) \<and>
     (\<forall>x. accepts f x = meaning demo_query_env demo_table demo_fexp x)"
  unfolding demo_query_def
  by (rule filter_headers_compile_expressions)
    (simp add: demo_fexp_def word_def trimmed_def c_isspace_def lookupOperator_def cond_filter_def query_column_def
      table_column_def demo_table_def lookup_column.simps columns_find_def has_prefix_def)

end
