(* ===== verification/Query_Wait.thy ===== *)
theory Query_Wait
  imports Query_Run Query_Headers
begin

text \<open>
  \<open>Query::doWait\<close> (\<open>src/Query.cc\<close>). The object of the wait condition lives in the core and changes
  while the query waits, so every look at it comes with the object as it then is. A return of the wait on
  the condition variable is an event: the code it returned and the object afterwards. \<open>None\<close> is a query
  that still waits when the events are over.
\<close>

definition ETIMEDOUT :: int where
  "ETIMEDOUT = 110"

definition WT_ALL :: nat where
  "WT_ALL = 0"

record 'r wakeup =
  wk_ret :: int
  wk_object :: 'r

text \<open>The \<open>timespec\<close> of the end of the wait.\<close>

definition wait_deadline :: "int \<Rightarrow> int \<Rightarrow> int \<Rightarrow> int \<times> int" where
  "wait_deadline sec usec timeout =
     (let tv_sec = sec + timeout div 1000;
          tv_nsec = usec * 1000 + 1000 * 1000 * (timeout mod 1000)
      in if 1000000000 < tv_nsec then (tv_sec + 1, tv_nsec - 1000000000) else (tv_sec, tv_nsec))"

fun wait_loop :: "'r query \<Rightarrow> 'r wakeup list \<Rightarrow> 'r wakeup list option" where
  "wait_loop q [] = None"
| "wait_loop q (e # es) =
     (if q_wait_timeout q \<noteq> 0 \<and> wk_ret e = ETIMEDOUT then Some es
      else if accepts (AndingFilter (q_wait_condition q)) (wk_object e) then Some es
      else wait_loop q es)"

definition do_wait :: "'r \<Rightarrow> 'r wakeup list \<Rightarrow> 'r query \<Rightarrow> ('r query \<times> 'r wakeup list) option" where
  "do_wait obj es q =
     (if q_wait_condition q = [] \<and> q_wait_trigger q = None then Some (q, es)
      else if q_wait_condition q \<noteq> [] \<and> accepts (AndingFilter (q_wait_condition q)) obj then Some (q, es)
      else let q' = (if q_wait_trigger q = None then q\<lparr> q_wait_trigger := Some WT_ALL \<rparr> else q)
           in map_option (Pair q') (wait_loop q' es))"

text \<open>
  The deadline handed to the wait is the moment WaitTimeout milliseconds after now, to the
  nanosecond; its second part is at most a full second.
\<close>

theorem wait_deadline_is_exact:
  assumes "0 \<le> usec" "usec < 1000000" "0 \<le> timeout"
  shows "fst (wait_deadline sec usec timeout) * 1000000000 + snd (wait_deadline sec usec timeout) =
       sec * 1000000000 + usec * 1000 + timeout * 1000000 \<and>
     0 \<le> snd (wait_deadline sec usec timeout) \<and> snd (wait_deadline sec usec timeout) \<le> 1000000000"
proof -
  define s m where sm: "s = timeout div 1000" "m = timeout mod 1000"
  have "timeout = s * 1000 + m" "0 \<le> m" "m < 1000" unfolding sm by simp_all
  then show ?thesis using assms unfolding wait_deadline_def Let_def sm [symmetric] by simp
qed

theorem wait_deadline_is_exact_witness:
  "fst (wait_deadline 10 999999 1001) * 1000000000 + snd (wait_deadline 10 999999 1001) = 12000999000 \<and>
   snd (wait_deadline 10 999999 1001) \<le> 1000000000"
  using wait_deadline_is_exact [of 999999 1001 10] by simp

text \<open>\<open>pthread_cond_timedwait\<close> refuses a second part of a full second with \<open>EINVAL\<close>.\<close>

lemma deadline_on_the_second: "wait_deadline sec 500000 500 = (sec, 1000000000)"
  by (simp add: wait_deadline_def)

text \<open>What ends the wait of a query.\<close>

definition ends_wait :: "'r query \<Rightarrow> 'r wakeup \<Rightarrow> bool" where
  "ends_wait q e \<longleftrightarrow> list_all (\<lambda>f. accepts f (wk_object e)) (q_wait_condition q) \<or> q_wait_timeout q \<noteq> 0 \<and> wk_ret e = ETIMEDOUT"

lemma wait_loop_ends: "wait_loop q es = (case dropWhile (\<lambda>e. \<not> ends_wait q e) es of [] \<Rightarrow> None | e # r \<Rightarrow> Some r)"
  by (induction q es rule: wait_loop.induct) (auto simp: ends_wait_def)

text \<open>
  C31. A query that waits returns at the first return of the wait at which its condition holds for the
  object as it then is, or at which the timeout has passed, and not before; without either it waits on.
  It waits only when a trigger or a condition was given and the condition does not hold at once, and the
  only thing it changes is the trigger, which becomes \<open>all\<close> when none was given.
\<close>

theorem wait_ends_when_it_should:
  "do_wait obj es q =
     (if q_wait_trigger q = None \<and> list_all (\<lambda>f. accepts f obj) (q_wait_condition q) \<or>
         q_wait_condition q \<noteq> [] \<and> list_all (\<lambda>f. accepts f obj) (q_wait_condition q)
      then Some (q, es)
      else case dropWhile (\<lambda>e. \<not> ends_wait q e) es of
             [] \<Rightarrow> None
           | e # r \<Rightarrow> Some (q\<lparr> q_wait_trigger := Some (case q_wait_trigger q of None \<Rightarrow> 0 | Some t \<Rightarrow> t) \<rparr>, r))"
proof -
  have e: "ends_wait (q\<lparr> q_wait_trigger := t \<rparr>) = ends_wait q" for t by (simp add: ends_wait_def fun_eq_iff)
  have q: "q_wait_trigger q = Some t \<Longrightarrow> q\<lparr> q_wait_trigger := Some t \<rparr> = q" for t by simp
  show ?thesis
    by (cases "dropWhile (\<lambda>e. \<not> ends_wait q e) es"; cases "q_wait_trigger q"; cases "q_wait_condition q = []")
      (simp_all add: do_wait_def wait_loop_ends e q WT_ALL_def del: dropWhile_eq_Nil_conv)
qed

end
