(* ===== verification/Query_Response.thy ===== *)
theory Query_Response
  imports Query_Run Query_Headers
begin

text \<open>
  What the client of a query gets. The run of a query is related to the list of its visible rows: which of
  them \<open>Limit\<close> and \<open>Offset\<close> select, what is printed of them, and that the JSON formats print one value
  that can be read back.
\<close>

section \<open>The rows of a plain query\<close>

fun rows_text :: "out_env \<Rightarrow> 'r column list \<Rightarrow> bool \<Rightarrow> 'r list \<Rightarrow> string option" where
  "rows_text e cs need [] = Some []"
| "rows_text e cs need (x # xs) = cat [print_row e need cs x, rows_text e cs True xs]"

text \<open>The rows of a page, when \<open>k\<close> rows have been seen before.\<close>

definition page_from :: "int \<Rightarrow> int \<Rightarrow> nat \<Rightarrow> 'r list \<Rightarrow> 'r list" where
  "page_from limit offset k xs =
     (if limit < 0 then drop (nat offset - k) xs
      else take (nat (offset + limit) - max k (nat offset)) (drop (nat offset - k) xs))"

definition plain_ok :: "'r query \<Rightarrow> bool" where
  "plain_ok q \<longleftrightarrow> \<not> doStats q \<and> \<not> q_do_sorting q \<and> -1 \<le> q_limit q \<and> 0 \<le> q_offset q \<and> q_offset q + q_limit q < 2 ^ 31 \<and>
     q_offset q < 2 ^ 31 \<and> q_output_format q \<noteq> OUTPUT_FORMAT_CSV"

definition progress :: "'r query \<Rightarrow> output_buffer \<Rightarrow> bool \<Rightarrow> int \<Rightarrow> 'r query" where
  "progress q ob need n = q\<lparr> q_output := ob, q_need_ds_separator := need, q_current_line := n \<rparr>"

lemma progress_simps [simp]:
  "q_output (progress q ob need n) = ob" "q_need_ds_separator (progress q ob need n) = need"
  "q_current_line (progress q ob need n) = n" "q_limit (progress q ob need n) = q_limit q"
  "q_offset (progress q ob need n) = q_offset q" "q_output_format (progress q ob need n) = q_output_format q"
  "q_do_sorting (progress q ob need n) = q_do_sorting q" "q_columns (progress q ob need n) = q_columns q"
  "q_stats_columns (progress q ob need n) = q_stats_columns q"
  "q_sorter (progress q ob need n) = q_sorter q"
  "row_visible (progress q ob need n) = row_visible q" "query_out_env env (progress q ob need n) = query_out_env env q"
  "doStats (progress q ob need n) = doStats q"
  "progress (progress q ob need n) ob' need' n' = progress q ob' need' n'"
  by (simp_all add: progress_def row_visible_def query_out_env_def doStats_def fun_eq_iff cong: option.case_cong)

lemma progress_updates [simp]:
  "(progress q ob need n)\<lparr> q_output := ob' \<rparr> = progress q ob' need n"
  "(progress q ob need n)\<lparr> q_need_ds_separator := need' \<rparr> = progress q ob need' n"
  "(progress q ob need n)\<lparr> q_current_line := n' \<rparr> = progress q ob need n'"
  by (simp_all add: progress_def)

lemma progress_start: "progress q (q_output q) (q_need_ds_separator q) (q_current_line q) = q"
  by (simp add: progress_def)

lemma emit_result:
  assumes "emit t q = Some q'" and "ob_wf (q_output q)"
  shows "\<exists>s ob. t = Some s \<and> q' = q\<lparr> q_output := ob \<rparr> \<and> ob_grown (q_output q) s ob"
proof -
  from assms(1) obtain s where s: "t = Some s" by (auto simp: emit_def split: option.splits)
  obtain ob where "add_buffer s (q_output q) = Some ob" "ob_grown (q_output q) s ob"
    by (rule add_buffer_result [OF assms(2)])
  with s assms(1) show ?thesis by (auto simp: emit_def)
qed

lemma getStatsGroup_output: "getStatsGroup spec q = Some (as, b, q') \<Longrightarrow> q_output q' = q_output q"
  by (auto simp: getStatsGroup_def split: option.splits)

text \<open>
  What a run keeps of its response besides the text: the flags the headers have set, and the code as long as
  there is no error.
\<close>

definition same_flags :: "output_buffer \<Rightarrow> output_buffer \<Rightarrow> bool" where
  "same_flags ob ob' \<longleftrightarrow> ob_response_header ob' = ob_response_header ob \<and> ob_do_keepalive ob' = ob_do_keepalive ob \<and>
     (ob_has_error ob' \<or> \<not> ob_has_error ob \<and> ob_response_code ob' = ob_response_code ob)"

lemma same_flags_refl [simp]: "same_flags ob ob"
  by (auto simp: same_flags_def)

lemma same_flags_trans: "same_flags ob ob1 \<Longrightarrow> same_flags ob1 ob2 \<Longrightarrow> same_flags ob ob2"
  by (auto simp: same_flags_def)

lemma emit_flags: "emit t q = Some q' \<Longrightarrow> same_flags (q_output q) (q_output q')"
  by (auto simp: same_flags_def emit_def add_buffer_def need_space_def store_def ob_has_error_def split: option.splits if_splits)

lemma set_error_flags [simp]: "same_flags (q_output q) (q_output (set_error c m q))"
  by (simp add: set_error_def ob_set_error_def same_flags_def ob_has_error_def)

lemma print_data_row_flags: "print_data_row env x q = Some q' \<Longrightarrow> same_flags (q_output q) (q_output q')"
  by (auto simp: print_data_row_def dest: emit_flags)

lemma process_stats_flags:
  assumes "process_stats env x q = Some (b, q')"
  shows "same_flags (q_output q) (q_output q')"
proof (cases "q_columns q = []")
  case False
  with assms obtain as new q1 where g: "getStatsGroup (computeStatsGroupSpec env q x) q = Some (as, new, q1)"
    by (auto simp: process_stats_def Let_def split: option.splits)
  let ?q2 = "insert_sorted x (next_line_number q1)"
  have "q_output ?q2 = q_output q" using getStatsGroup_output [OF g] by (simp add: insert_sorted_def next_line_number_def)
  with set_error_flags [of ?q2] getStatsGroup_output [OF g] False g assms show ?thesis
    by (auto simp: process_stats_def Let_def consume_group_def too_large_def split: if_splits)
qed (use assms in \<open>auto simp: process_stats_def\<close>)

lemma process_plain_flags: "process_plain env x q = Some (b, q') \<Longrightarrow> same_flags (q_output q) (q_output q')"
  using print_data_row_flags [of env x "next_line_number q"]
  by (auto simp: process_plain_def Let_def insert_sorted_def next_line_number_def split: if_splits)

lemma process_dataset_flags: "process_dataset env m x q = Some (b, q') \<Longrightarrow> same_flags (q_output q) (q_output q')"
  by (auto simp: process_dataset_def timelimitReached_def too_large_def canceled_def
      split: if_splits dest: process_stats_flags process_plain_flags)

lemma answer_rows_flags: "answer_rows env rows q = Some q' \<Longrightarrow> same_flags (q_output q) (q_output q')"
  by (induction env rows q rule: answer_rows.induct)
    (auto split: option.splits bool.splits dest: process_dataset_flags intro: same_flags_trans)

lemma print_rows_flags: "print_rows env xs q = Some q' \<Longrightarrow> same_flags (q_output q) (q_output q')"
  by (induction env xs q rule: print_rows.induct)
    (auto split: option.splits dest: print_data_row_flags intro: same_flags_trans)

lemma print_stats_row_flags: "print_stats_row env spec as q = Some q' \<Longrightarrow> same_flags (q_output q) (q_output q')"
  by (auto simp: print_stats_row_def Let_def dest: emit_flags)

lemma print_groups_flags: "print_groups env xs q = Some q' \<Longrightarrow> same_flags (q_output q) (q_output q')"
proof (induction xs arbitrary: q)
  case (Cons x xs)
  then obtain as b q1 q2 where g: "getStatsGroup (computeStatsGroupSpec env q x) q = Some (as, b, q1)"
    "print_stats_row env (computeStatsGroupSpec env q x) as q1 = Some q2" "print_groups env xs q2 = Some q'"
    by (auto simp: Let_def split: option.splits)
  from Cons.IH [OF g(3)] print_stats_row_flags [OF g(2)] getStatsGroup_output [OF g(1)] show ?case
    by (auto intro: same_flags_trans)
qed simp

lemma query_start_flags: "query_start env q = Some q' \<Longrightarrow> same_flags (q_output q) (q_output q')"
  by (auto simp: query_start_def add_nat_sort_def Let_def split: option.splits if_splits dest!: emit_flags)

lemma query_finish_flags: "query_finish env q = Some q' \<Longrightarrow> same_flags (q_output q) (q_output q')"
  by (auto simp: query_finish_def split: option.splits if_splits
      dest!: emit_flags dest: print_groups_flags print_stats_row_flags print_rows_flags intro: same_flags_trans)

lemma run_query_flags: "run_query env rows q = Some q' \<Longrightarrow> same_flags (q_output q) (q_output q')"
  by (auto simp: run_query_def split: option.splits if_splits
      dest!: query_start_flags answer_rows_flags query_finish_flags intro: same_flags_trans)

lemma process_plain_unsorted:
  assumes q: "plain_ok q" "ob_wf ob" and k: "int k + 1 < 2 ^ 31"
    and p: "process_plain env x (progress q ob need (int k)) = Some (b, q')"
  shows "\<exists>ob' t. q' = progress q ob' (need \<or> page_from (q_limit q) (q_offset q) k [x] \<noteq> []) (int (Suc k)) \<and>
     ob_grown ob t ob' \<and>
     rows_text (query_out_env env q) (q_columns q) need (page_from (q_limit q) (q_offset q) k [x]) = Some t \<and>
     (b \<or> 0 \<le> q_limit q \<and> q_offset q + q_limit q \<le> int k \<and> q_output_format q \<noteq> OUTPUT_FORMAT_WRAPPED_JSON)"
proof -
  let ?q = "progress q ob need (int (Suc k))"
  have line: "next_line_number (progress q ob need (int k)) = ?q"
    using k by (simp add: next_line_number_def add.commute)
  have w: "wrap32 (q_offset q + q_limit q) = q_offset q + q_limit q" "wrap32 (1 + int k) = 1 + int k"
    using q(1) k by (auto simp: plain_ok_def in_int32_def intro!: wrap32_id)
  have refl: "ob_grown ob [] ob" using q(2) by (simp add: ob_grown_def)
  consider (beyond) "0 \<le> q_limit q" "q_offset q + q_limit q < int (Suc k)"
    | (before) "\<not> (0 \<le> q_limit q \<and> q_offset q + q_limit q < int (Suc k))" "int (Suc k) \<le> q_offset q"
    | (inside) "\<not> (0 \<le> q_limit q \<and> q_offset q + q_limit q < int (Suc k))" "q_offset q < int (Suc k)" by linarith
  then show ?thesis
  proof cases
    case beyond
    then have "page_from (q_limit q) (q_offset q) k [x] = []" using q(1) by (auto simp: page_from_def plain_ok_def)
    with beyond p q(1) refl show ?thesis by (auto simp: process_plain_def Let_def line w plain_ok_def)
  next
    case before
    then have "page_from (q_limit q) (q_offset q) k [x] = []" by (auto simp: page_from_def)
    with before p q(1) refl show ?thesis by (auto simp: process_plain_def Let_def line w plain_ok_def split: if_splits)
  next
    case inside
    then have "page_from (q_limit q) (q_offset q) k [x] = [x]" using q(1) by (auto simp: page_from_def plain_ok_def)
    moreover from inside p q(1) obtain q2 where "print_data_row env x ?q = Some q2" "b" "q' = q2"
      by (auto simp: process_plain_def Let_def line w plain_ok_def split: if_splits)
    ultimately show ?thesis using q(2)
      by (auto simp: print_data_row_def cat_def dest!: emit_result)
  qed
qed

lemma page_from_Cons:
  assumes "0 \<le> off"
  shows "page_from lmt off k (x # xs) = page_from lmt off k [x] @ page_from lmt off (Suc k) xs"
proof (cases "lmt < 0")
  case True
  show ?thesis
  proof (cases "nat off \<le> k")
    case False
    then obtain d where "nat off = k + Suc d" using less_iff_Suc_add [of k "nat off"] by auto
    with True show ?thesis by (simp add: page_from_def)
  qed (use True in \<open>simp add: page_from_def\<close>)
next
  case False
  define top where "top = nat (off + lmt)"
  have eq: "page_from lmt off j ys = take (top - max j (nat off)) (drop (nat off - j) ys)" for j and ys :: "'a list"
    using False by (simp add: page_from_def top_def)
  show ?thesis
  proof (cases "nat off \<le> k")
    case True
    then have "max k (nat off) = k" "max (Suc k) (nat off) = Suc k" "nat off - k = 0" "nat off - Suc k = 0" by simp_all
    moreover have "top - Suc k = top - k - 1" by simp
    ultimately show ?thesis unfolding eq by (cases "top - k") auto
  next
    case False
    then obtain d where "nat off = k + Suc d" using less_iff_Suc_add [of k "nat off"] by auto
    then show ?thesis unfolding eq by simp
  qed
qed

lemma page_from_beyond: "0 \<le> lmt \<Longrightarrow> off + lmt \<le> int k \<Longrightarrow> page_from lmt off k xs = []"
  by (auto simp: page_from_def)

lemma cat_append: "cat (xs @ ys) = (case cat xs of None \<Rightarrow> None | Some a \<Rightarrow> map_option ((@) a) (cat ys))"
  by (auto simp: cat_def)

lemma rows_text_append:
  "rows_text e cs need xs = Some a \<Longrightarrow> rows_text e cs (need \<or> xs \<noteq> []) ys = Some b \<Longrightarrow> rows_text e cs need (xs @ ys) = Some (a @ b)"
proof (induction xs arbitrary: need a)
  case (Cons x xs)
  then obtain u v where "print_row e need cs x = Some u" "rows_text e cs True xs = Some v" "a = u @ v"
    by (cases "print_row e need cs x"; cases "rows_text e cs True xs") (auto simp: cat_def)
  with Cons show ?case by (simp add: cat_def)
qed simp

lemma emit_total:
  assumes "ob_wf (q_output q)"
  obtains ob where "emit (Some s) q = Some (q\<lparr> q_output := ob \<rparr>)" "ob_grown (q_output q) s ob"
proof -
  obtain ob where "add_buffer s (q_output q) = Some ob" "ob_grown (q_output q) s ob"
    by (rule add_buffer_result [OF assms])
  then show thesis using that by (simp add: emit_def)
qed

lemma ob_grown_error: "ob_grown ob s ob' \<Longrightarrow> ob_wf ob' \<and> ob_has_error ob' = ob_has_error ob"
  by (simp add: ob_grown_def ob_has_error_def)

lemma process_plain_total:
  assumes "\<not> q_do_sorting q" and "ob_wf ob" and "\<not> ob_has_error ob"
    and "\<And>need. print_row (query_out_env env q) need (q_columns q) x \<noteq> None"
  shows "\<exists>b ob' need' n'. process_plain env x (progress q ob need n) = Some (b, progress q ob' need' n') \<and> ob_wf ob' \<and> \<not> ob_has_error ob'"
proof -
  let ?q1 = "progress q ob need ((n + 1) mod 2 ^ 32)"
  have line: "next_line_number (progress q ob need n) = ?q1" by (simp add: next_line_number_def)
  obtain s where s: "print_row (query_out_env env q) need (q_columns q) x = Some s" using assms(4) by blast
  have wf: "ob_wf (q_output ?q1)" using assms(2) by simp
  obtain ob1 where "emit (Some s) ?q1 = Some (?q1\<lparr> q_output := ob1 \<rparr>)" "ob_grown ob s ob1"
    using emit_total [OF wf, of s] by auto
  then have p: "print_data_row env x ?q1 = Some (progress q ob1 True ((n + 1) mod 2 ^ 32))" "ob_wf ob1" "\<not> ob_has_error ob1"
    using s assms(3) ob_grown_error by (auto simp: print_data_row_def)
  show ?thesis
    unfolding process_plain_def Let_def line using assms p by (auto simp del: One_nat_def)
qed

definition visible_rows :: "'r query \<Rightarrow> (moment \<times> 'r) list \<Rightarrow> 'r list" where
  "visible_rows q rows = filter (row_visible q) (map snd rows)"

text \<open>
  Why a query is cut off, and with which message: the text printed so far, \<open>s\<close> bytes, is over the limit of
  the response's size; the core shuts down while rows are offered; or the query's time is over.
\<close>

definition limit_cause :: "run_env \<Rightarrow> 'r query \<Rightarrow> (moment \<times> 'r) list \<Rightarrow> nat \<Rightarrow> string \<Rightarrow> bool" where
  "limit_cause env q rows s msg \<longleftrightarrow>
     re_max_response_size env < s \<and> msg = ''Maximum response size of '' @ show_nat (re_max_response_size env) @ '' reached'' \<or>
     list_ex (\<lambda>(m, _). m_terminate_first m \<or> m_terminate_second m) rows \<and> msg = ''Query canceled, core is shutting down.'' \<or>
     0 \<le> q_time_limit q \<and> list_ex (\<lambda>(m, _). q_time_limit_timeout q \<le> m_now m) rows \<and>
       msg = ''Maximum query time of '' @ show_int (q_time_limit q) @ '' seconds exceeded!''"

lemma limit_cause_mono:
  assumes "limit_cause env q rows s msg" and "set rows \<subseteq> set rows'" and "s \<le> s'"
  shows "limit_cause env q rows' s' msg"
proof -
  have "list_ex P rows \<Longrightarrow> list_ex P rows'" for P using assms(2) by (auto simp: list_ex_iff)
  moreover have "re_max_response_size env < s \<Longrightarrow> re_max_response_size env < s'" using assms(3) by simp
  ultimately show ?thesis using assms(1) unfolding limit_cause_def by blast
qed

lemma process_dataset_outcome:
  assumes q: "plain_ok q" and ob: "ob_wf ob" "\<not> ob_has_error ob"
    and row: "row_visible q x \<Longrightarrow> \<forall>need. print_row (query_out_env env q) need (q_columns q) x \<noteq> None"
  defines "n \<equiv> length (ob_contents ob)"
  shows "\<exists>b q'. process_dataset env m x (progress q ob need k) = Some (b, q') \<and>
     ((\<exists>msg. \<not> b \<and> limit_cause env q [(m, x)] n msg \<and> q_output q' = ob_set_error RESPONSE_CODE_LIMIT_EXCEEDED msg ob) \<or>
      n \<le> re_max_response_size env \<and>
      (\<not> row_visible q x \<and> b \<and> q' = progress q ob need k \<or>
       row_visible q x \<and> process_plain env x (progress q ob need k) = Some (b, q')))"
proof -
  have size: "ob_size ob = n" using ob_contents_length [OF ob(1)] by (simp add: n_def ob_size_def)
  have tl: "q_time_limit (progress q ob need k) = q_time_limit q" "q_time_limit_timeout (progress q ob need k) = q_time_limit_timeout q"
    by (simp_all add: progress_def)
  have s: "\<not> doStats q" "\<not> q_do_sorting q" using q by (simp_all add: plain_ok_def)
  show ?thesis
  proof (cases "re_max_response_size env < n \<or> m_terminate_first m \<or> \<not> row_visible q x")
    case True
    then show ?thesis
      by (auto simp: process_dataset_def size too_large_def canceled_def set_error_def limit_cause_def)
  next
    case False
    with row process_plain_total [OF s(2) ob] obtain b q' where "process_plain env x (progress q ob need k) = Some (b, q')"
      by blast
    with False s(1) show ?thesis
      by (auto simp: process_dataset_def timelimitReached_def size tl canceled_def set_error_def limit_cause_def)
  qed
qed

text \<open>
  What a run of rows leaves: a part \<open>xs\<close> of the page is printed, every row of it while the text before it was
  within the limit; then either a limit's error is set, or the part is the whole page.
\<close>

definition rows_outcome :: "run_env \<Rightarrow> 'r query \<Rightarrow> (moment \<times> 'r) list \<Rightarrow> output_buffer \<Rightarrow> bool \<Rightarrow> nat \<Rightarrow> 'r query \<Rightarrow> bool" where
  "rows_outcome env q rows ob need k q' \<longleftrightarrow>
     (\<exists>xs ys ob1 s. page_from (q_limit q) (q_offset q) k (visible_rows q rows) = xs @ ys \<and>
        rows_text (query_out_env env q) (q_columns q) need xs = Some s \<and> ob_grown ob s ob1 \<and>
        (xs \<noteq> [] \<longrightarrow> (\<exists>u. rows_text (query_out_env env q) (q_columns q) need (butlast xs) = Some u \<and>
           length (ob_contents ob) + length u \<le> re_max_response_size env)) \<and>
        ((\<exists>msg. limit_cause env q rows (length (ob_contents ob1)) msg \<and> q_output q' = ob_set_error RESPONSE_CODE_LIMIT_EXCEEDED msg ob1) \<or>
         ys = [] \<and> (\<exists>need' k'. q' = progress q ob1 need' (int k') \<and>
           (q_output_format q = OUTPUT_FORMAT_WRAPPED_JSON \<longrightarrow> k' = k + length (visible_rows q rows)))))"

lemma rows_outcome_step:
  assumes ih: "rows_outcome env q rows ob1 need1 (Suc k) q'" and q: "plain_ok q" and x: "row_visible q x"
    and g: "ob_grown ob s1 ob1" and s1: "rows_text (query_out_env env q) (q_columns q) need (page_from (q_limit q) (q_offset q) k [x]) = Some s1"
    and need1: "need1 = (need \<or> page_from (q_limit q) (q_offset q) k [x] \<noteq> [])"
    and n: "length (ob_contents ob) \<le> re_max_response_size env"
  shows "rows_outcome env q ((m, x) # rows) ob need k q'"
proof -
  let ?E = "query_out_env env q" and ?p = "page_from (q_limit q) (q_offset q) k [x]"
  from ih obtain xs ys ob2 s where r: "page_from (q_limit q) (q_offset q) (Suc k) (visible_rows q rows) = xs @ ys"
    "rows_text ?E (q_columns q) need1 xs = Some s" "ob_grown ob1 s ob2"
    and within: "xs \<noteq> [] \<longrightarrow> (\<exists>u. rows_text ?E (q_columns q) need1 (butlast xs) = Some u \<and> length (ob_contents ob1) + length u \<le> re_max_response_size env)"
    and q': "(\<exists>msg. limit_cause env q rows (length (ob_contents ob2)) msg \<and> q_output q' = ob_set_error RESPONSE_CODE_LIMIT_EXCEEDED msg ob2) \<or>
       ys = [] \<and> (\<exists>need' k'. q' = progress q ob2 need' (int k') \<and> (q_output_format q = OUTPUT_FORMAT_WRAPPED_JSON \<longrightarrow> k' = Suc k + length (visible_rows q rows)))"
    unfolding rows_outcome_def by blast
  have vis: "visible_rows q ((m, x) # rows) = x # visible_rows q rows" using x by (simp add: visible_rows_def)
  have page: "page_from (q_limit q) (q_offset q) k (visible_rows q ((m, x) # rows)) = (?p @ xs) @ ys"
    using page_from_Cons [of "q_offset q" "q_limit q" k x "visible_rows q rows"] q r(1) unfolding vis by (simp add: plain_ok_def)
  have app: "rows_text ?E (q_columns q) need (?p @ zs) = Some (s1 @ u)" if "rows_text ?E (q_columns q) need1 zs = Some u" for zs u
    using s1 that need1 by (intro rows_text_append) simp_all
  have con: "length (ob_contents ob1) = length (ob_contents ob) + length s1" using g by (simp add: ob_grown_def)
  have upto: "?p @ xs \<noteq> [] \<longrightarrow> (\<exists>u. rows_text ?E (q_columns q) need (butlast (?p @ xs)) = Some u \<and> length (ob_contents ob) + length u \<le> re_max_response_size env)"
  proof (cases "xs = []")
    case True
    have "?p = [] \<or> ?p = [x]" by (auto simp: page_from_def take_Cons' drop_Cons')
    with True n show ?thesis by auto
  next
    case False
    with within obtain u where "rows_text ?E (q_columns q) need1 (butlast xs) = Some u" "length (ob_contents ob1) + length u \<le> re_max_response_size env" by blast
    with False app [of "butlast xs" u] con show ?thesis by (auto simp: butlast_append)
  qed
  have cause: "limit_cause env q ((m, x) # rows) i msg" if "limit_cause env q rows i msg" for i msg
    using that by (rule limit_cause_mono) auto
  have outcome: "(\<exists>msg. limit_cause env q ((m, x) # rows) (length (ob_contents ob2)) msg \<and> q_output q' = ob_set_error RESPONSE_CODE_LIMIT_EXCEEDED msg ob2) \<or>
      ys = [] \<and> (\<exists>need' k'. q' = progress q ob2 need' (int k') \<and>
        (q_output_format q = OUTPUT_FORMAT_WRAPPED_JSON \<longrightarrow> k' = k + length (visible_rows q ((m, x) # rows))))"
  proof -
    have "k + length (x # visible_rows q rows) = Suc k + length (visible_rows q rows)" by simp
    with q' cause show ?thesis unfolding vis by metis
  qed
  show ?thesis unfolding rows_outcome_def
    by (rule exI [of _ "?p @ xs"], rule exI [of _ ys], rule exI [of _ ob2], rule exI [of _ "s1 @ s"])
      (intro conjI page app [OF r(2)] ob_grown_trans [OF g r(3)] upto outcome)
qed

lemma rows_outcome_invisible:
  assumes "rows_outcome env q rows ob need k q'" and vis: "visible_rows q (row # rows) = visible_rows q rows"
  shows "rows_outcome env q (row # rows) ob need k q'"
proof -
  from assms(1) obtain xs ys ob2 s where r: "page_from (q_limit q) (q_offset q) k (visible_rows q rows) = xs @ ys"
    "rows_text (query_out_env env q) (q_columns q) need xs = Some s" "ob_grown ob s ob2"
    "xs \<noteq> [] \<longrightarrow> (\<exists>u. rows_text (query_out_env env q) (q_columns q) need (butlast xs) = Some u \<and> length (ob_contents ob) + length u \<le> re_max_response_size env)"
    and q': "(\<exists>msg. limit_cause env q rows (length (ob_contents ob2)) msg \<and> q_output q' = ob_set_error RESPONSE_CODE_LIMIT_EXCEEDED msg ob2) \<or>
       ys = [] \<and> (\<exists>need' k'. q' = progress q ob2 need' (int k') \<and> (q_output_format q = OUTPUT_FORMAT_WRAPPED_JSON \<longrightarrow> k' = k + length (visible_rows q rows)))"
    unfolding rows_outcome_def by blast
  have "limit_cause env q (row # rows) i msg" if "limit_cause env q rows i msg" for i msg
    using that by (rule limit_cause_mono) auto
  with q' have outcome: "(\<exists>msg. limit_cause env q (row # rows) (length (ob_contents ob2)) msg \<and> q_output q' = ob_set_error RESPONSE_CODE_LIMIT_EXCEEDED msg ob2) \<or>
       ys = [] \<and> (\<exists>need' k'. q' = progress q ob2 need' (int k') \<and> (q_output_format q = OUTPUT_FORMAT_WRAPPED_JSON \<longrightarrow> k' = k + length (visible_rows q rows)))"
    by blast
  show ?thesis unfolding rows_outcome_def vis
    by (rule exI [of _ xs], rule exI [of _ ys], rule exI [of _ ob2], rule exI [of _ s]) (intro conjI r outcome)
qed

lemma answer_rows_outcome:
  assumes "plain_ok q" and "ob_wf ob" and "\<not> ob_has_error ob" and "int k + int (length rows) < 2 ^ 31"
    and "\<forall>x \<in> set (visible_rows q rows). \<forall>need. print_row (query_out_env env q) need (q_columns q) x \<noteq> None"
  shows "\<exists>q'. answer_rows env rows (progress q ob need (int k)) = Some q' \<and> rows_outcome env q rows ob need k q'"
  using assms(2-5)
proof (induction rows arbitrary: ob k need)
  case Nil
  have p: "page_from (q_limit q) (q_offset q) k ([] :: 'a list) = []" by (simp add: page_from_def)
  have "rows_outcome env q [] ob need k (progress q ob need (int k))"
    unfolding rows_outcome_def visible_rows_def using Nil(1) p
    by (intro exI [of _ "[]"] exI [of _ ob]) (auto simp: ob_grown_def)
  then show ?case by simp
next
  case (Cons row rows)
  obtain m x where row: "row = (m, x)" by (cases row)
  let ?q = "progress q ob need (int k)"
  have "row_visible q x \<Longrightarrow> \<forall>need. print_row (query_out_env env q) need (q_columns q) x \<noteq> None"
    using Cons.prems(4) row by (simp add: visible_rows_def)
  from process_dataset_outcome [OF assms(1) Cons.prems(1,2) this, of m need "int k"] obtain b q1 where
    p: "process_dataset env m x ?q = Some (b, q1)"
    and o: "(\<exists>msg. \<not> b \<and> limit_cause env q [(m, x)] (length (ob_contents ob)) msg \<and> q_output q1 = ob_set_error RESPONSE_CODE_LIMIT_EXCEEDED msg ob) \<or>
      length (ob_contents ob) \<le> re_max_response_size env \<and> (\<not> row_visible q x \<and> b \<and> q1 = ?q \<or> row_visible q x \<and> process_plain env x ?q = Some (b, q1))"
    by blast
  have rest: "int k + int (length rows) < 2 ^ 31" "int (Suc k) + int (length rows) < 2 ^ 31"
    "\<forall>x \<in> set (visible_rows q rows). \<forall>need. print_row (query_out_env env q) need (q_columns q) x \<noteq> None"
    using Cons.prems(3,4) by (auto simp: visible_rows_def)
  from o show ?case
  proof (elim disjE exE conjE)
    fix msg assume "\<not> b" "limit_cause env q [(m, x)] (length (ob_contents ob)) msg" "q_output q1 = ob_set_error RESPONSE_CODE_LIMIT_EXCEEDED msg ob"
    moreover from this have "limit_cause env q (row # rows) (length (ob_contents ob)) msg" unfolding row by (auto elim: limit_cause_mono)
    ultimately show ?thesis using p row Cons.prems(1) unfolding rows_outcome_def
      by (intro exI [of _ q1] conjI exI [of _ "[]"] exI [of _ ob] exI [of _ "page_from (q_limit q) (q_offset q) k (visible_rows q (row # rows))"])
        (auto simp: ob_grown_def)
  next
    assume inv: "\<not> row_visible q x" "b" "q1 = ?q"
    from Cons.IH [OF Cons.prems(1,2) rest(1,3), of need] obtain q' where
      q': "answer_rows env rows ?q = Some q'" "rows_outcome env q rows ob need k q'" by blast
    have "visible_rows q (row # rows) = visible_rows q rows" using inv(1) row by (simp add: visible_rows_def)
    with q'(2) have "rows_outcome env q (row # rows) ob need k q'" by (auto intro: rows_outcome_invisible)
    with q'(1) p inv row show ?thesis by auto
  next
    assume vis: "length (ob_contents ob) \<le> re_max_response_size env" "row_visible q x" "process_plain env x ?q = Some (b, q1)"
    have "int k + 1 < 2 ^ 31" using Cons.prems(3) by simp
    from process_plain_unsorted [OF assms(1) Cons.prems(1) this vis(3)] obtain ob1 s1 where
      q1: "q1 = progress q ob1 (need \<or> page_from (q_limit q) (q_offset q) k [x] \<noteq> []) (int (Suc k))" "ob_grown ob s1 ob1"
      and s1: "rows_text (query_out_env env q) (q_columns q) need (page_from (q_limit q) (q_offset q) k [x]) = Some s1"
      and b: "b \<or> 0 \<le> q_limit q \<and> q_offset q + q_limit q \<le> int k \<and> q_output_format q \<noteq> OUTPUT_FORMAT_WRAPPED_JSON"
      by blast
    note step = rows_outcome_step [OF _ assms(1) vis(2) q1(2) s1 refl vis(1), of rows _ m]
    show ?thesis
    proof (cases b)
      case True
      from ob_grown_error [OF q1(2)] Cons.prems(2) Cons.IH [OF _ _ rest(2,3)] obtain q' where
        "answer_rows env rows q1 = Some q'" "rows_outcome env q rows ob1 (need \<or> page_from (q_limit q) (q_offset q) k [x] \<noteq> []) (Suc k) q'"
        unfolding q1(1) by blast
      with step [of q'] p True row show ?thesis by auto
    next
      case False
      with b have "page_from (q_limit q) (q_offset q) (Suc k) (visible_rows q rows) = []" by (auto simp: page_from_beyond)
      moreover have "\<exists>need' k'. q1 = progress q ob1 need' (int k') \<and>
          (q_output_format q = OUTPUT_FORMAT_WRAPPED_JSON \<longrightarrow> k' = Suc k + length (visible_rows q rows))"
        using q1(1) b False by blast
      moreover have "ob_grown ob1 [] ob1" using q1(2) by (auto simp: ob_grown_def)
      ultimately have "rows_outcome env q rows ob1 (need \<or> page_from (q_limit q) (q_offset q) k [x] \<noteq> []) (Suc k) q1"
        unfolding rows_outcome_def
        by (intro exI [of _ "[]"] exI [of _ ob1]) simp
      with step [of q1] p False row show ?thesis by auto
    qed
  qed
qed

section \<open>The response in JSON\<close>

definition row_json :: "out_env \<Rightarrow> 'r column list \<Rightarrow> 'r \<Rightarrow> json option" where
  "row_json e cs x = array_json (map (\<lambda>c. column_json e c x) cs)"

definition header_json :: "out_env \<Rightarrow> 'r column list \<Rightarrow> json option" where
  "header_json e cs = array_json (map (\<lambda>c. text_json e (column_name c)) cs)"

definition ascii :: "string \<Rightarrow> nat list" where
  "ascii s = map of_char s"

definition response_json :: "bool \<Rightarrow> bool \<Rightarrow> json \<Rightarrow> json list \<Rightarrow> int \<Rightarrow> json" where
  "response_json wrapped show h rows n_total =
     (if wrapped
      then JObject ((if show then [(ascii ''columns'', h)] else []) @
                    [(ascii ''data'', JArray rows), (ascii ''total_count'', JNumber (show_int n_total))])
      else JArray ((if show then [h] else []) @ rows))"

abbreviation newline_sep :: string where
  "newline_sep \<equiv> CHR '','' # [CHR 0x0A]"

lemma print_row_json:
  assumes e: "json_env e" and v: "row_json e cs x = Some v"
  shows "print_row e need cs x = Some ((if need then newline_sep else []) @ json_text v) \<and> json_wf v"
proof -
  have "prints (cat (Some ''['' # sep_by '','' (map (\<lambda>c. column_output e c x) cs) @ [Some '']''])) v"
    using v prints_column [OF e] by (intro array_json_prints) (simp_all add: row_json_def)
  with json_env_format [OF e] show ?thesis by (auto simp: print_row_def punctuation prints_def cat_Cons)
qed

lemma rows_text_json:
  assumes "json_env e" and "those (map (row_json e cs) xs) = Some vs"
  shows "rows_text e cs need xs = Some ((if need \<and> xs \<noteq> [] then newline_sep else []) @ join newline_sep (map json_text vs)) \<and>
     list_all json_wf vs"
  using assms(2)
proof (induction xs arbitrary: vs need)
  case (Cons x xs)
  then obtain v ws where v: "row_json e cs x = Some v" "those (map (row_json e cs) xs) = Some ws" "vs = v # ws"
    by (auto split: option.splits)
  have "rows_text e cs True xs = Some ((if xs \<noteq> [] then newline_sep else []) @ join newline_sep (map json_text ws))" "list_all json_wf ws"
    using Cons.IH [OF v(2), of True] by auto
  moreover have "xs = [] \<longleftrightarrow> ws = []" using those_Some [OF v(2)] by (auto simp: list_all2_Nil list_all2_Nil2)
  ultimately show ?case
    using print_row_json [OF assms(1) v(1), of need] v(3) by (cases ws) (auto simp: cat_def)
qed simp

text \<open>\<open>reads\<close>: a text the reader takes for a value, whatever closes it.\<close>

definition reads :: "string \<Rightarrow> json \<Rightarrow> bool" where
  "reads s v \<longleftrightarrow> (\<forall>n t. length s \<le> n \<longrightarrow> closed_by t \<longrightarrow> read_value n (s @ t) = Some (v, t))"

lemma reads_text: "json_wf v \<Longrightarrow> reads (json_text v) v"
  by (simp add: reads_def read_value_text)

lemma reads_rows:
  assumes "list_all json_wf vs"
  shows "reads (''['' @ join newline_sep (map json_text vs) @ '']'') (JArray vs)"
  unfolding reads_def
proof (intro allI impI)
  fix n t assume n: "length (''['' @ join newline_sep (map json_text vs) @ '']'') \<le> n"
  then obtain m where m: "n = Suc m" by (cases n) auto
  show "read_value n ((''['' @ join newline_sep (map json_text vs) @ '']'') @ t) = Some (JArray vs, t)"
  proof (cases vs)
    case (Cons w ws)
    have "read_items m (join newline_sep (map json_text vs) @ CHR '']'' # t) = Some (vs, t)"
      using assms n m Cons by (intro read_items_join) (auto simp: list_all_iff intro: read_value_text)
    moreover obtain c s where "join newline_sep (map json_text vs) = c # s" "c \<noteq> CHR '']''"
      using json_text_head [of w] assms Cons by (cases ws) auto
    ultimately show ?thesis using m by simp
  qed (simp add: m)
qed

lemma reads_read: "reads s v \<Longrightarrow> closed_by t \<Longrightarrow> json_read (s @ t) = Some (v, t)"
  by (simp add: reads_def json_read_def del: read_value.simps)

lemma json_quote_ascii:
  "list_all (\<lambda>c. \<not> json_significant c) s \<Longrightarrow> json_quote (ascii s) = CHR 0x22 # s @ [CHR 0x22]"
proof -
  assume a: "list_all (\<lambda>c. \<not> json_significant c) s"
  then have "concat (map json_char (ascii s)) = s" by (induction s) (auto simp: json_char_plain ascii_def)
  then show ?thesis by (simp add: json_quote_def)
qed

lemma plain_keys:
  "json_quote (ascii ''columns'') = CHR 0x22 # ''columns'' @ [CHR 0x22]"
  "json_quote (ascii ''data'') = CHR 0x22 # ''data'' @ [CHR 0x22]"
  "json_quote (ascii ''total_count'') = CHR 0x22 # ''total_count'' @ [CHR 0x22]"
  by (rule json_quote_ascii, simp add: json_significant_def)+

lemma read_members_step:
  assumes "reads s v" and "length s \<le> n"
  shows "read_members (Suc n) (json_quote (ascii k) @ CHR '':'' # s @ CHR '','' # rest) =
       map_option (map_prod ((#) (ascii k, v)) id) (read_members n rest)"
    and "read_members (Suc n) (json_quote (ascii k) @ CHR '':'' # s @ CHR ''}'' # rest) = Some ([(ascii k, v)], rest)"
proof -
  have "c < 65536" if "c \<in> set (ascii k)" for c
    using that byte_less by (auto simp: ascii_def intro: order_less_trans [of _ 256])
  then have q: "read_string (drop 1 (json_quote (ascii k) @ t)) = Some (ascii k, t)" for t by (intro read_json_quote) blast
  have h: "take 1 (json_quote (ascii k) @ t) = [CHR 0x22]" for t by (simp add: json_quote_def)
  have v: "read_value n (s @ CHR '','' # rest) = Some (v, CHR '','' # rest)"
    "read_value n (s @ CHR ''}'' # rest) = Some (v, CHR ''}'' # rest)"
    using assms by (simp_all add: reads_def closed_by_def)
  show "read_members (Suc n) (json_quote (ascii k) @ CHR '':'' # s @ CHR '','' # rest) =
       map_option (map_prod ((#) (ascii k, v)) id) (read_members n rest)"
    unfolding read_members.simps q h by (simp add: v)
  show "read_members (Suc n) (json_quote (ascii k) @ CHR '':'' # s @ CHR ''}'' # rest) = Some ([(ascii k, v)], rest)"
    unfolding read_members.simps q h by (simp add: v)
qed

text \<open>The two shapes of a wrapped response.\<close>

lemma reads_wrapped:
  assumes "reads d (JArray rows)"
  shows "reads (''{'' @ json_quote (ascii ''data'') @ '':'' @ d @ '','' @ json_quote (ascii ''total_count'') @ '':'' @ show_int m @ ''}'')
       (response_json True False h rows m)"
    and "json_wf h \<Longrightarrow> reads (''{'' @ json_quote (ascii ''columns'') @ '':'' @ json_text h @ '','' @ json_quote (ascii ''data'') @ '':'' @ d @
         '','' @ json_quote (ascii ''total_count'') @ '':'' @ show_int m @ ''}'')
       (response_json True True h rows m)"
proof -
  have num: "reads (show_int m) (JNumber (show_int m))"
    using reads_text [OF show_int_number [of m]] by simp
  have data: "read_members n (json_quote (ascii ''data'') @ CHR '':'' # d @ CHR '','' # json_quote (ascii ''total_count'') @ CHR '':'' #
       show_int m @ CHR ''}'' # t) = Some ([(ascii ''data'', JArray rows), (ascii ''total_count'', JNumber (show_int m))], t)"
    if "length d + length (show_int m) + 2 \<le> n" for n t
  proof -
    from that obtain n' where n: "n = Suc (Suc n')" "length d \<le> Suc n'" "length (show_int m) \<le> n'"
      by (cases n; cases "n - 1") auto
    show ?thesis
      unfolding n(1) read_members_step(1) [OF assms n(2)] read_members_step(2) [OF num n(3)] by simp
  qed
  have head: "take 1 (json_quote k @ u) \<noteq> ''}''" for k u by (simp add: json_quote_def)
  have obj: "read_value (Suc n) (CHR ''{'' # json_quote k @ u) = map_option (map_prod JObject id) (read_members n (json_quote k @ u))" for n k u
    using head by simp
  show "reads (''{'' @ json_quote (ascii ''data'') @ '':'' @ d @ '','' @ json_quote (ascii ''total_count'') @ '':'' @ show_int m @ ''}'')
       (response_json True False h rows m)"
    unfolding reads_def
  proof (intro allI impI)
    fix n t assume "length (''{'' @ json_quote (ascii ''data'') @ '':'' @ d @ '','' @ json_quote (ascii ''total_count'') @ '':'' @ show_int m @ ''}'') \<le> n"
    then obtain n' where n: "n = Suc n'" "length d + length (show_int m) + 2 \<le> n'" by (cases n) auto
    show "read_value n ((''{'' @ json_quote (ascii ''data'') @ '':'' @ d @ '','' @ json_quote (ascii ''total_count'') @ '':'' @ show_int m @ ''}'') @ t) =
        Some (response_json True False h rows m, t)"
      using data [OF n(2), of t] by (simp add: n(1) obj response_json_def del: read_value.simps)
  qed
  assume h: "json_wf h"
  show "reads (''{'' @ json_quote (ascii ''columns'') @ '':'' @ json_text h @ '','' @ json_quote (ascii ''data'') @ '':'' @ d @
         '','' @ json_quote (ascii ''total_count'') @ '':'' @ show_int m @ ''}'') (response_json True True h rows m)"
    unfolding reads_def
  proof (intro allI impI)
    fix n t assume "length (''{'' @ json_quote (ascii ''columns'') @ '':'' @ json_text h @ '','' @ json_quote (ascii ''data'') @ '':'' @ d @
         '','' @ json_quote (ascii ''total_count'') @ '':'' @ show_int m @ ''}'') \<le> n"
    then obtain n' where n: "n = Suc (Suc n')" "length d + length (show_int m) + 2 \<le> n'" "length (json_text h) \<le> n'"
      by (cases n; cases "n - 1") auto
    show "read_value n ((''{'' @ json_quote (ascii ''columns'') @ '':'' @ json_text h @ '','' @ json_quote (ascii ''data'') @ '':'' @ d @
         '','' @ json_quote (ascii ''total_count'') @ '':'' @ show_int m @ ''}'') @ t) = Some (response_json True True h rows m, t)"
      using data [OF n(2), of t] read_members_step(1) [OF reads_text [OF h] n(3)]
      by (simp add: n(1) obj response_json_def del: read_value.simps read_members.simps)
  qed
qed

lemma header_row_json:
  assumes e: "json_env e" and h: "header_json e cs = Some h"
  shows "header_row e cs 0 = Some (json_text h) \<and> json_wf h"
proof -
  have "prints (cat (Some ''['' # sep_by '','' (map (\<lambda>c. output_string e (Some (column_name c))) cs) @ [Some '']''])) h"
    using h prints_text [OF e] by (intro array_json_prints) (simp_all add: header_json_def)
  with json_env_format [OF e] show ?thesis by (auto simp: header_row_def punctuation prints_def cat_Cons)
qed

lemma query_start_plain:
  assumes "\<not> doStats q" and "\<not> q_do_sorting q" and "ob_wf (q_output q)"
    and "start_text (query_out_env env q) (q_show_column_headers q) (q_columns q) 0 = Some t"
  shows "\<exists>ob. query_start env q =
       Some (progress q ob (q_show_column_headers q \<and> q_output_format q \<noteq> OUTPUT_FORMAT_WRAPPED_JSON) (q_current_line q)) \<and>
     ob_grown (q_output q) t ob"
proof -
  let ?q1 = "progress q (q_output q) False (q_current_line q)"
  have q1: "q\<lparr> q_need_ds_separator := False \<rparr> = ?q1" by (simp add: progress_def)
  have s: "q_stats_columns q = []" using assms(1) by (simp add: doStats_def)
  have wf: "ob_wf (q_output ?q1)" using assms(3) by simp
  obtain ob where "emit (Some t) ?q1 = Some (?q1\<lparr> q_output := ob \<rparr>)" "ob_grown (q_output q) t ob"
    using emit_total [OF wf, of t] by auto
  moreover have "q_show_column_headers ?q1 = q_show_column_headers q" by (simp add: progress_def)
  ultimately show ?thesis
    unfolding query_start_def q1 using assms(1,2,4) s by (auto simp: add_nat_sort_def Let_def)
qed

lemma response_reads:
  assumes e: "json_env e" and h: "json_wf h" and vs: "list_all json_wf vs"
    and st: "start_text e show cs 0 = Some t1" "show \<Longrightarrow> header_row e cs 0 = Some (json_text h)"
    and need: "need \<longleftrightarrow> show \<and> oe_format e \<noteq> OUTPUT_FORMAT_WRAPPED_JSON"
    and t2: "t2 = (if need \<and> vs \<noteq> [] then newline_sep else []) @ join newline_sep (map json_text vs)"
    and q: "q_output_format q = oe_format e" "wrap32 (q_current_line q) = m"
  shows "json_read (t1 @ t2 @ finish_text q) = Some (response_json (oe_format e = OUTPUT_FORMAT_WRAPPED_JSON) show h vs m, [CHR 0x0A])"
proof -
  have nl: "closed_by [CHR 0x0A]" by (simp add: closed_by_def)
  have out: "output_integer (q_current_line q) = show_int m" using q(2) by (simp add: output_integer_def)
  note fmt = json_env_format [OF e]
  show ?thesis
  proof (cases "oe_format e = OUTPUT_FORMAT_WRAPPED_JSON")
    case True
    have d: "reads (''['' @ join newline_sep (map json_text vs) @ '']'') (JArray vs)" using vs by (rule reads_rows)
    show ?thesis
    proof (cases "show")
      case True
      with reads_read [OF reads_wrapped(2) [OF d h, of m] nl] \<open>oe_format e = OUTPUT_FORMAT_WRAPPED_JSON\<close> st fmt need t2 q out show ?thesis
        by (auto simp: start_text_def cat_Cons finish_text_def plain_keys)
    next
      case False
      with reads_read [OF reads_wrapped(1) [OF d, of m h] nl] True st fmt need t2 q out show ?thesis
        by (auto simp: start_text_def cat_Cons finish_text_def plain_keys)
    qed
  next
    case False
    let ?all = "(if show then [h] else []) @ vs"
    have "list_all json_wf ?all" using h vs by simp
    then have d: "reads (''['' @ join newline_sep (map json_text ?all) @ '']'') (JArray ?all)" by (rule reads_rows)
    have "t1 @ t2 @ finish_text q = (''['' @ join newline_sep (map json_text ?all) @ '']'') @ [CHR 0x0A]"
      using st fmt need t2 q False by (cases vs) (auto simp: start_text_def cat_Cons finish_text_def)
    with reads_read [OF d nl] False show ?thesis by (simp add: response_json_def)
  qed
qed

lemma those_iff: "those (map f xs) = Some vs \<longleftrightarrow> list_all2 (\<lambda>x v. f x = Some v) xs vs"
proof
  assume "list_all2 (\<lambda>x v. f x = Some v) xs vs"
  then show "those (map f xs) = Some vs" by (induction rule: list_all2_induct) auto
qed (rule those_Some)

lemma those_page: "those (map f xs) = Some vs \<Longrightarrow> those (map f (page_from l off k xs)) = Some (page_from l off k vs)"
  unfolding those_iff page_from_def by (auto intro: list_all2_dropI list_all2_takeI)

definition page :: "int \<Rightarrow> int \<Rightarrow> 'a list \<Rightarrow> 'a list" where
  "page limit offset xs =
     (if limit < 0 then drop (nat offset) xs else take (nat limit) (drop (nat offset) xs))"

lemma page_from_0: "0 \<le> off \<Longrightarrow> page_from lmt off 0 xs = page lmt off xs"
  by (simp add: page_from_def page_def nat_add_distrib)

lemma rows_text_prefix:
  "rows_text e cs need xs = Some s \<Longrightarrow> rows_text e cs need (xs @ ys) = Some u \<Longrightarrow> length s \<le> length u"
proof (induction xs arbitrary: need s u)
  case (Cons x xs)
  then obtain a v w where "print_row e need cs x = Some a" "rows_text e cs True xs = Some v" "rows_text e cs True (xs @ ys) = Some w"
    "s = a @ v" "u = a @ w"
    by (cases "print_row e need cs x"; cases "rows_text e cs True xs"; cases "rows_text e cs True (xs @ ys)") (auto simp: cat_def)
  with Cons.IH show ?case by simp
qed simp

lemma rows_printable:
  assumes "json_env e" and "those (map (row_json e cs) xs) = Some vs"
  shows "\<forall>x \<in> set xs. \<forall>need. print_row e need cs x \<noteq> None"
proof
  fix x assume "x \<in> set xs"
  with assms(2) obtain v where "row_json e cs x = Some v"
    by (auto simp: those_iff list_all2_conv_all_nth in_set_conv_nth)
  from print_row_json [OF assms(1) this] show "\<forall>need. print_row e need cs x \<noteq> None" by simp
qed

text \<open>The bytes of a response before its end: the columns' names, if asked for, and the given rows.\<close>

definition page_size :: "run_env \<Rightarrow> 'r query \<Rightarrow> 'r list \<Rightarrow> nat" where
  "page_size env q xs =
     (let e = query_out_env env q
      in case cat [start_text e (q_show_column_headers q) (q_columns q) (length (q_stats_columns q)),
                   rows_text e (q_columns q) (q_show_column_headers q \<and> q_output_format q \<noteq> OUTPUT_FORMAT_WRAPPED_JSON) xs] of
           None \<Rightarrow> 0
         | Some s \<Rightarrow> length s)"

definition page_rows :: "'r query \<Rightarrow> (moment \<times> 'r) list \<Rightarrow> 'r list" where
  "page_rows q rows = page (q_limit q) (q_offset q) (visible_rows q rows)"

text \<open>The error of a limit, with the reason the rows and the size of their page \<open>xs\<close> give for it.\<close>

definition limit_error :: "run_env \<Rightarrow> 'r query \<Rightarrow> (moment \<times> 'r) list \<Rightarrow> 'r list \<Rightarrow> output_buffer \<Rightarrow> bool" where
  "limit_error env q rows xs ob \<longleftrightarrow> ob_response_code ob = RESPONSE_CODE_LIMIT_EXCEEDED \<and>
     (\<exists>msg. limit_cause env q rows (page_size env q xs) msg \<and> ob_error_message ob = take 8190 msg @ [CHR 0x0A])"

text \<open>No row is printed after the limit: without the last of the rows the response is within it.\<close>

definition within_limit :: "run_env \<Rightarrow> 'r query \<Rightarrow> 'r list \<Rightarrow> bool" where
  "within_limit env q xs \<longleftrightarrow> xs = [] \<or> page_size env q (butlast xs) \<le> re_max_response_size env"

lemma plain_run:
  assumes q: "plain_ok q" "ob_wf (q_output q)" "\<not> ob_has_error (q_output q)" "ob_contents (q_output q) = []"
      "q_current_line q = 0" "length rows < 2 ^ 31"
    and e: "e = query_out_env env q" "json_env e"
    and h: "if q_show_column_headers q then header_json e (q_columns q) = Some h else h = JNull"
    and vs: "those (map (row_json e (q_columns q)) (visible_rows q rows)) = Some vs"
  shows "\<exists>q'. run_query env rows q = Some q' \<and>
     (if ob_has_error (q_output q') then limit_error env q rows (page_rows q rows) (q_output q')
      else within_limit env q (page_rows q rows) \<and>
       (\<exists>n. json_read (ob_contents (q_output q')) =
             Some (response_json (q_output_format q = OUTPUT_FORMAT_WRAPPED_JSON) (q_show_column_headers q) h
                     (page (q_limit q) (q_offset q) vs) n, [CHR 0x0A]) \<and>
           (q_output_format q = OUTPUT_FORMAT_WRAPPED_JSON \<longrightarrow> n = int (length vs))))"
proof -
  let ?cs = "q_columns q" and ?show = "q_show_column_headers q" and ?w = "q_output_format q = OUTPUT_FORMAT_WRAPPED_JSON"
  have sort: "\<not> doStats q" "\<not> q_do_sorting q" and off: "0 \<le> q_offset q" using q(1) by (simp_all add: plain_ok_def)
  have fmt: "oe_format e = q_output_format q" by (simp add: e(1) query_out_env_def)
  have hd: "?show \<Longrightarrow> header_row e ?cs 0 = Some (json_text h)" "json_wf h"
    using header_row_json [OF e(2), of ?cs h] h by (auto split: if_splits)
  have "start_text e ?show ?cs 0 \<noteq> None" by (cases ?show) (simp_all add: start_text_def hd cat_Cons)
  then obtain t1 where t1: "start_text e ?show ?cs 0 = Some t1" by blast
  from query_start_plain [OF sort q(2)] t1 q(5) obtain ob1 where
    s: "query_start env q = Some (progress q ob1 (?show \<and> \<not> ?w) 0)" "ob_grown (q_output q) t1 ob1" by (auto simp: e(1))
  have ob1: "ob_wf ob1" "\<not> ob_has_error ob1" using ob_grown_error [OF s(2)] q(3) by simp_all
  have len1: "length (ob_contents ob1) = length t1" using s(2) q(4) by (simp add: ob_grown_def)
  have size: "page_size env q xs = length t1 + length u" if "rows_text e ?cs (?show \<and> \<not> ?w) xs = Some u" for xs u
    using t1 that sort(1) by (simp add: page_size_def doStats_def cat_def e(1) [symmetric])
  have len: "int 0 + int (length rows) < 2 ^ 31" using q(6) by simp
  from answer_rows_outcome [OF q(1) ob1 len, of env "?show \<and> \<not> ?w"] rows_printable [OF e(2) vs] obtain q2 where
    a: "answer_rows env rows (progress q ob1 (?show \<and> \<not> ?w) 0) = Some q2"
    and "rows_outcome env q rows ob1 (?show \<and> \<not> ?w) 0 q2" by (auto simp: e(1))
  then obtain xs ys ob2 t2 where r: "page_rows q rows = xs @ ys" "rows_text e ?cs (?show \<and> \<not> ?w) xs = Some t2" "ob_grown ob1 t2 ob2"
    and within: "xs \<noteq> [] \<longrightarrow> (\<exists>u. rows_text e ?cs (?show \<and> \<not> ?w) (butlast xs) = Some u \<and> length t1 + length u \<le> re_max_response_size env)"
    and q2: "(\<exists>msg. limit_cause env q rows (length (ob_contents ob2)) msg \<and> q_output q2 = ob_set_error RESPONSE_CODE_LIMIT_EXCEEDED msg ob2) \<or>
       ys = [] \<and> (\<exists>need2 k2. q2 = progress q ob2 need2 (int k2) \<and> (?w \<longrightarrow> k2 = 0 + length (visible_rows q rows)))"
    unfolding rows_outcome_def page_from_0 [OF off] page_rows_def len1 e(1) [symmetric] by blast
  have len2: "length (ob_contents ob2) = length t1 + length t2" using r(3) len1 by (simp add: ob_grown_def)
  have noerr2: "\<not> ob_has_error ob2" "ob_wf ob2" using ob_grown_error [OF r(3)] ob1(2) by simp_all
  have pg: "those (map (row_json e ?cs) (page_rows q rows)) = Some (page (q_limit q) (q_offset q) vs)"
    using those_page [OF vs, of "q_limit q" "q_offset q" 0] unfolding page_from_0 [OF off] page_rows_def .
  from q2 show ?thesis
  proof (elim disjE exE conjE)
    fix msg assume l: "limit_cause env q rows (length (ob_contents ob2)) msg" "q_output q2 = ob_set_error RESPONSE_CODE_LIMIT_EXCEEDED msg ob2"
    obtain u where u: "rows_text e ?cs (?show \<and> \<not> ?w) (page_rows q rows) = Some u"
      using rows_text_json [OF e(2) pg] by blast
    have "length t2 \<le> length u" using rows_text_prefix [OF r(2)] u r(1) by auto
    with l(1) have "limit_cause env q rows (page_size env q (page_rows q rows)) msg"
      using size [OF u] len2 by (auto elim!: limit_cause_mono)
    with l(2) noerr2(1) have "limit_error env q rows (page_rows q rows) (q_output q2)" "ob_has_error (q_output q2)"
      by (auto simp: limit_error_def ob_set_error_def ob_has_error_def)
    with s(1) a show ?thesis by (simp add: run_query_def)
  next
    fix need2 k2 assume p: "ys = []" "q2 = progress q ob2 need2 (int k2)" "?w \<longrightarrow> k2 = 0 + length (visible_rows q rows)"
    have win: "within_limit env q (page_rows q rows)" using within r(1) p(1) size by (auto simp: within_limit_def)
    have "page_rows q rows = [] \<longleftrightarrow> page (q_limit q) (q_offset q) vs = []"
      using those_Some [OF pg] by (auto simp: list_all2_Nil list_all2_Nil2)
    with rows_text_json [OF e(2) pg, of "?show \<and> \<not> ?w"] r(1,2) p(1) have
      t2: "t2 = (if (?show \<and> \<not> ?w) \<and> page (q_limit q) (q_offset q) vs \<noteq> [] then newline_sep else []) @
             join newline_sep (map json_text (page (q_limit q) (q_offset q) vs))"
      and wf: "list_all json_wf (page (q_limit q) (q_offset q) vs)" by auto
    have wfo: "ob_wf (q_output q2)" using p(2) noerr2(2) by simp
    obtain ob3 where f: "emit (Some (finish_text q2)) q2 = Some (q2\<lparr> q_output := ob3 \<rparr>)" "ob_grown (q_output q2) (finish_text q2) ob3"
      using emit_total [OF wfo, of "finish_text q2"] by blast
    have run: "run_query env rows q = Some (q2\<lparr> q_output := ob3 \<rparr>)"
      using s(1) a f(1) sort p(2) noerr2(1) by (simp add: run_query_def query_finish_def)
    have con: "ob_contents ob3 = t1 @ t2 @ finish_text q2"
      using s(2) r(3) p(2) f(2) q(4) by (simp add: ob_grown_def)
    have "json_read (ob_contents ob3) =
       Some (response_json ?w ?show h (page (q_limit q) (q_offset q) vs) (wrap32 (q_current_line q2)), [CHR 0x0A])"
      using response_reads [OF e(2) hd(2) wf t1 hd(1) _ t2, of q2] con p(2) fmt by auto
    moreover have "?w \<longrightarrow> wrap32 (q_current_line q2) = int (length vs)"
    proof
      assume ?w
      moreover have "length (visible_rows q rows) = length vs" using those_Some [OF vs] by (rule list_all2_lengthD)
      moreover have "length (visible_rows q rows) \<le> length rows"
        using length_filter_le [of "row_visible q" "map snd rows"] by (simp add: visible_rows_def)
      ultimately show "wrap32 (q_current_line q2) = int (length vs)"
        using p(2,3) q(6) by (auto simp: in_int32_def intro!: wrap32_id)
    qed
    moreover have "\<not> ob_has_error ob3" using ob_grown_error [OF f(2)] noerr2(1) p(2) by simp
    ultimately show ?thesis using run win by auto
  qed
qed

text \<open>
  C8. The response of an unsorted query without statistics in one of the two JSON formats is a document
  that a JSON reader takes back: an array of the column names, when headers are asked for, and of the
  rows that pass the filter and the authorization, in the order the table gives them and cut to Offset
  and Limit; in the wrapped format the same as an object, with the number of all those rows. The run
  always ends. The one other outcome is the error of a limit, and only for its reason and with its message:
  the text of the page is over the maximum response size, the query's time is over or the core shuts down;
  a response without that error had printed no more than the maximum before its last row.
\<close>

theorem json_response_is_the_page:
  assumes "plain_ok q" and "ob_wf (q_output q)" and "\<not> ob_has_error (q_output q)" and "ob_contents (q_output q) = []"
    and "q_current_line q = 0" and "length rows < 2 ^ 31"
    and "json_env (query_out_env env q)"
    and "if q_show_column_headers q then header_json (query_out_env env q) (q_columns q) = Some h else h = JNull"
    and "those (map (row_json (query_out_env env q) (q_columns q)) (visible_rows q rows)) = Some vs"
  shows "\<exists>q'. run_query env rows q = Some q' \<and>
     (if ob_has_error (q_output q') then limit_error env q rows (page_rows q rows) (q_output q')
      else within_limit env q (page_rows q rows) \<and>
       (\<exists>n. json_read (ob_contents (q_output q')) =
             Some (response_json (q_output_format q = OUTPUT_FORMAT_WRAPPED_JSON) (q_show_column_headers q) h
                     (page (q_limit q) (q_offset q) vs) n, [CHR 0x0A]) \<and>
           (q_output_format q = OUTPUT_FORMAT_WRAPPED_JSON \<longrightarrow> n = int (length vs))))"
  by (rule plain_run [OF assms(1-6) refl assms(7-9)])

definition demo_run_env :: run_env where
  "demo_run_env = \<lparr> re_max_response_size = 1000, re_encoding = ENCODING_UTF8, re_fmt_double = (\<lambda>d. ''0''), re_fmt8 = (\<lambda>d. ''0''),
     re_attr_bit = (\<lambda>n. 1), re_hidden_prefix = ''_'', re_sees_host = (\<lambda>u h. True), re_sees_service = (\<lambda>u s. True) \<rparr>"

definition calm :: moment where
  "calm = \<lparr> m_now = 0, m_terminate_first = False, m_terminate_second = False \<rparr>"

definition demo_json_query :: "int query" where
  "demo_json_query = demo_query\<lparr> q_output_format := OUTPUT_FORMAT_WRAPPED_JSON, q_columns := [IntColumn ''name'' id],
     q_limit := 1, q_offset := 1 \<rparr>"

lemma demo_page_small: "page_size demo_run_env demo_json_query [6] \<le> 1000"
  by code_simp

theorem json_response_is_the_page_witness:
  "\<exists>q'. run_query demo_run_env [(calm, 5), (calm, 6), (calm, 7)] demo_json_query = Some q' \<and> \<not> ob_has_error (q_output q') \<and>
     json_read (ob_contents (q_output q')) =
       Some (JObject [(ascii ''columns'', JArray [JString (ascii ''name'')]), (ascii ''data'', JArray [JArray [JNumber ''6'']]),
              (ascii ''total_count'', JNumber ''3'')], [CHR 0x0A])"
proof -
  have h: "if q_show_column_headers demo_json_query
      then header_json (query_out_env demo_run_env demo_json_query) (q_columns demo_json_query) = Some (JArray [JString (ascii ''name'')])
      else JArray [JString (ascii ''name'')] = JNull"
    by (simp add: demo_query_def new_query_def header_json_def array_json_def text_json_def demo_json_query_def query_out_env_def demo_run_env_def ascii_def)
  have vs: "those (map (row_json (query_out_env demo_run_env demo_json_query) (q_columns demo_json_query))
      (visible_rows demo_json_query [(calm, 5), (calm, 6), (calm, 7)])) = Some [JArray [JNumber ''5''], JArray [JNumber ''6''], JArray [JNumber ''7'']]"
    by (simp add: row_json_def array_json_def visible_rows_def row_visible_def demo_json_query_def demo_query_def new_query_def
        demo_table_def query_out_env_def demo_run_env_def output_integer_def show_int_def show_nat.simps wrap32_def int_json_def char_of_def bit_0)
  have e: "json_env (query_out_env demo_run_env demo_json_query)"
    by (simp add: json_env_def query_out_env_def demo_json_query_def demo_run_env_def number_char_def c_isdigit_def)
  have o: "ob_wf (q_output demo_json_query)" "\<not> ob_has_error (q_output demo_json_query)" "ob_contents (q_output demo_json_query) = []"
    using new_output_buffer_wf
    by (simp_all add: demo_json_query_def demo_query_def new_query_def new_output_buffer_def ob_reset_def ob_has_error_def ob_contents_def)
  have vis: "visible_rows demo_json_query [(calm, 5), (calm, 6), (calm, 7)] = [5, 6, 7]"
    by (simp add: visible_rows_def row_visible_def demo_json_query_def demo_query_def new_query_def demo_table_def)
  have p: "page_rows demo_json_query [(calm, 5), (calm, 6), (calm, 7)] = [6]"
    by (simp add: page_rows_def vis) (simp add: page_def demo_json_query_def)
  have l: "\<not> limit_error demo_run_env demo_json_query [(calm, 5), (calm, 6), (calm, 7)] (page_rows demo_json_query [(calm, 5), (calm, 6), (calm, 7)]) ob" for ob
    using demo_page_small unfolding limit_error_def limit_cause_def p
    by (auto simp: calm_def demo_json_query_def demo_query_def new_query_def demo_run_env_def)
  have ok: "plain_ok demo_json_query" "q_current_line demo_json_query = 0" "q_output_format demo_json_query = OUTPUT_FORMAT_WRAPPED_JSON"
    "q_show_column_headers demo_json_query" "q_limit demo_json_query = 1" "q_offset demo_json_query = 1"
    by (simp_all add: plain_ok_def doStats_def demo_json_query_def demo_query_def new_query_def)
  show ?thesis
    using json_response_is_the_page [OF ok(1) o ok(2) _ e h vs] l
    by (auto simp: ok(3-6) page_def response_json_def split: if_splits)
       (auto simp: show_int_def show_nat.simps char_of_def bit_0)
qed

end
