(* ===== verification/Store.thy ===== *)
theory Store
  imports Query_Wait Query_Response Input_Buffer
begin

text \<open>
  The answer to a request (\<open>src/Store.cc\<close>, \<open>src/store.cc\<close>) and the loop of a client's thread
  (\<open>client_thread\<close> of \<open>src/module.c\<close>). A table of the store is a \<open>table\<close> record; what its \<open>answerQuery\<close>
  offers to the query, the core's object of a WaitObject header, the returns of the wait, the state of
  the client's socket and the answers of the core's command socket are parameters, kept in one record.
  The answers of the command socket are texts that end with their NUL. Forcing a log rotation is left to
  the core. \<open>None\<close> is undefined behaviour, or a thread that still waits when the events are over.
\<close>

record 'r store_state =
  st_tables :: "(string \<times> 'r table) list"
  st_query_env :: "'r query_env"
  st_run_env :: run_env
  st_clock :: "nat \<Rightarrow> int"
  st_rows :: "string \<Rightarrow> 'r query \<Rightarrow> (moment \<times> 'r) list"
  st_wakeups :: "'r query \<Rightarrow> 'r wakeup list"
  st_client_alive :: bool
  st_terminate :: bool
  st_command :: "string \<Rightarrow> string list option"

definition table_names :: "string list" where
  "table_names =
     [''hosts'', ''hostsbygroup'', ''services'', ''servicesbygroup'', ''servicesbyhostgroup'', ''hostgroups'',
      ''servicegroups'', ''contacts'', ''commands'', ''downtimes'', ''comments'', ''status'', ''log'',
      ''statehist'', ''timeperiods'', ''contactgroups'', ''columns'']"

definition findTable :: "'r store_state \<Rightarrow> string \<Rightarrow> 'r table option" where
  "findTable st name = map_of (st_tables st) name"

section \<open>GET\<close>

definition add_all_columns :: "'r table \<Rightarrow> 'r query \<Rightarrow> 'r query" where
  "add_all_columns t q =
     (if hasNoColumns q then q\<lparr> q_columns := addAllColumnsToQuery t (q_columns q), q_show_column_headers := True \<rparr> else q)"

text \<open>The query between its constructor and the end of the response, on a table without errors so far.\<close>

definition answer_query :: "'r store_state \<Rightarrow> string \<Rightarrow> 'r table \<Rightarrow> 'r query \<Rightarrow> 'r query option" where
  "answer_query st tablename t q =
     (case do_wait (q_wait_object q) (st_wakeups st q) (add_all_columns t q) of
        None \<Rightarrow> None
      | Some (q1, _) \<Rightarrow> run_query (st_run_env st) (st_rows st tablename q1) q1)"

definition answerGetRequest :: "'r store_state \<Rightarrow> string list \<Rightarrow> output_buffer \<Rightarrow> string \<Rightarrow> (output_buffer \<times> string list) option" where
  "answerGetRequest st lines ob tablename =
     (let ob0 = ob_reset ob;
          ob1 = (if tablename = [] then ob_set_error RESPONSE_CODE_INVALID_REQUEST ''Invalid GET request, missing tablename'' ob0 else ob0);
          table = findTable st tablename;
          ob2 = (if table = None
                 then ob_set_error RESPONSE_CODE_NOT_FOUND (''Invalid GET request, no such table '' @ quoted tablename) ob1 else ob1)
      in case query_of_request (st_query_env st) (st_clock st) ob2 table lines of
           None \<Rightarrow> None
         | Some (q, rest) \<Rightarrow>
             (case table of
                None \<Rightarrow> Some (q_output q, rest)
              | Some t \<Rightarrow>
                  if t_has_logcache t \<and> \<not> st_client_alive st
                  then Some (ob_set_error RESPONSE_CODE_INCOMPLETE_REQUEST ''Client already disconnected'' (q_output q), rest)
                  else if t_has_logcache t \<and> st_terminate st
                  then Some (ob_set_error RESPONSE_CODE_LIMIT_EXCEEDED ''Query canceled, core is shutting down.'' (q_output q), rest)
                  else if ob_has_error (q_output q) then Some (q_output q, rest)
                  else map_option (\<lambda>q'. (q_output q', rest)) (answer_query st tablename t q)))"

section \<open>COMMAND\<close>

definition command_reply :: "output_buffer \<Rightarrow> string \<Rightarrow> output_buffer" where
  "command_reply ob reply =
     (if atoi reply \<noteq> 200 then ob_set_error RESPONSE_CODE_INVALID_REQUEST (rstrip reply) ob else ob)"

definition answerCommandRequest :: "'r store_state \<Rightarrow> string \<Rightarrow> output_buffer \<Rightarrow> output_buffer" where
  "answerCommandRequest st command ob =
     (case st_command st command of None \<Rightarrow> ob | Some replies \<Rightarrow> foldl command_reply (ob_reset ob) replies)"

section \<open>A request\<close>

definition answerRequest ::
  "'r store_state \<Rightarrow> nat \<Rightarrow> read_event list \<Rightarrow> input_buffer \<Rightarrow> output_buffer \<Rightarrow>
   (bool \<times> output_buffer \<times> input_buffer \<times> read_event list) option" where
  "answerRequest st N es ib ob0 =
     (let ob = ob_reset ob0
      in case read_request N es ib 0 False of
           None \<Rightarrow> None
         | Some (r, ib1, es1) \<Rightarrow>
             if r \<noteq> IB_REQUEST_READ
             then Some (False,
                        (if r \<noteq> IB_END_OF_FILE \<and> r \<noteq> IB_EMPTY_REQUEST
                         then ob_set_error RESPONSE_CODE_INCOMPLETE_REQUEST
                                ''Client connection terminated while request still incomplete'' ob else ob), ib1, es1)
             else let (l, ib2) = next_line ib1; line = c_str l
                  in if has_prefix ''GET '' line \<or> line = ''GET''
                     then (case answerGetRequest st (ib_lines ib2) ob (lstrip (drop 4 line)) of
                             None \<Rightarrow> None
                           | Some (ob', rest) \<Rightarrow> Some (ob_do_keepalive ob', ob', ib2\<lparr> ib_lines := rest \<rparr>, es1))
                     else let ob' = (if has_prefix ''COMMAND '' line
                                     then (answerCommandRequest st (unescape_newlines (lstrip (drop 8 line))) ob)\<lparr> ob_do_keepalive := True \<rparr>
                                     else if has_prefix ''LOGROTATE'' line then ob
                                     else ob_set_error RESPONSE_CODE_INVALID_REQUEST ''Invalid request method'' ob)
                          in Some (ob_do_keepalive ob', ob', ib2, es1))"

text \<open>
  The loop of \<open>client_thread\<close>: each request is answered and flushed, until a request does not ask to keep
  the connection or the termination flag is raised. The flags are what the loop's condition reads, one for
  each round. The result is what the client has been sent, request by request.
\<close>

fun client_loop ::
  "bool list \<Rightarrow> 'r store_state \<Rightarrow> nat \<Rightarrow> read_event list \<Rightarrow> write_event list \<Rightarrow> input_buffer \<Rightarrow> output_buffer \<Rightarrow> bytes list option" where
  "client_loop [] st N es ws ib ob = None"
| "client_loop (should_terminate # flags) st N es ws ib ob =
     (if should_terminate then Some []
      else case answerRequest st N es ib ob of
        None \<Rightarrow> None
      | Some (keepalive, ob1, ib1, es1) \<Rightarrow>
          (let (sent, ws1, ob2) = ob_flush ws ob1
           in if keepalive then map_option ((#) sent) (client_loop flags st N es1 ws1 ib1 ob2) else Some [sent]))"

definition client_thread :: "bool list \<Rightarrow> 'r store_state \<Rightarrow> read_event list \<Rightarrow> write_event list \<Rightarrow> bytes list option" where
  "client_thread flags st es ws = client_loop flags st IB_BUFFER_SIZE es ws (set_fd new_input_buffer) new_output_buffer"

section \<open>From the bytes of a request to the document of the response\<close>

definition columns_header :: "string list \<Rightarrow> string" where
  "columns_header names = ''Columns:'' @ concat (map (\<lambda>n. CHR '' '' # n) names)"

lemma fields_spaced_words:
  "list_all word ns \<Longrightarrow> Strutil.fields (concat (map (\<lambda>n. CHR '' '' # n) ns)) = ns"
proof (induction ns)
  case Nil
  then show ?case by (simp add: Strutil.fields.simps next_field_def)
next
  case (Cons n ns)
  have sp: "c_isspace (CHR '' '')" by (simp add: c_isspace_def)
  from Cons.prems have n: "word n" "n \<noteq> []" "list_all (\<lambda>x. \<not> c_isspace x) n" by (simp_all add: word_def)
  show ?case
  proof (cases ns)
    case Nil
    then show ?thesis using fld.loop_Some [OF next_field_of_word(2) [OF n(1)]] fields_space [OF sp, of n]
      by (simp add: fld.loop_None next_field_def)
  next
    case (Cons m ms)
    let ?r = "m @ concat (map (\<lambda>n. CHR '' '' # n) ms)"
    have "Strutil.fields (n @ CHR '' '' # ?r) = n # Strutil.fields ?r" by (rule fields_word [OF n(2,3) sp])
    with Cons Cons.IH Cons.prems show ?thesis by (simp add: fields_space [OF sp])
  qed
qed

lemma columns_header_parsed:
  assumes "list_all word names" and "names \<noteq> []"
  shows "find_header (header_handlers env now) (rstrip (c_str (columns_header names))) =
     Some (\<lambda>l q. Some (parse_columns_line l q), lstrip (concat (map (\<lambda>n. CHR '' '' # n) names)))"
proof -
  have "columns_header names \<noteq> []" by (simp add: columns_header_def)
  moreover have "\<not> c_isspace (last (columns_header names))"
    using assms by (cases names rule: rev_cases) (auto simp: columns_header_def word_def list_all_iff)
  ultimately have "rstrip (columns_header names) = columns_header names" by (rule rstrip_trimmed)
  moreover have "c_text (columns_header names)"
  proof -
    have "c_text (concat (map (\<lambda>n. CHR '' '' # n) names))" using assms(1) by (induction names) (auto simp: word_def)
    then show ?thesis by (simp add: columns_header_def)
  qed
  then have "c_str (columns_header names) = columns_header names" by (rule c_str_id)
  ultimately show ?thesis by (simp only:) (simp add: columns_header_def header_handlers_def has_prefix_def)
qed

lemma fields_lstrip: "Strutil.fields (lstrip s) = Strutil.fields s"
  by (induction s) (simp_all add: fields_space)

lemma json_header_parsed:
  "find_header (header_handlers env now) (rstrip (c_str ''OutputFormat: json'')) = Some (\<lambda>l q. Some (parse_output_format_line l q), ''json'')"
  by (simp add: header_handlers_def has_prefix_def c_isspace_def rstrip_eq)

definition json_query :: "'r query_env \<Rightarrow> output_buffer \<Rightarrow> 'r table \<Rightarrow> string list \<Rightarrow> 'r filter list \<Rightarrow> 'r query" where
  "json_query env ob t names fs = (new_query env ob (Some t))\<lparr> q_output_format := OUTPUT_FORMAT_JSON,
     q_columns := map (query_column t) names, q_show_column_headers := False, q_filter := fs \<rparr>"

lemma json_request_parsed:
  assumes "list_all word names" and "names \<noteq> []" and "compiles env t e f"
  shows "query_of_request env clock ob (Some t) (''OutputFormat: json'' # columns_header names # headers_of e) =
     Some (json_query env ob t names [f], [])"
proof -
  let ?q = "(new_query env ob (Some t))\<lparr> q_output_format := OUTPUT_FORMAT_JSON,
     q_columns := map (query_column t) names, q_show_column_headers := False \<rparr>"
  have "next_field ''json'' = (Some ''json'', [])" by (rule next_field_of_word) (simp add: word_def c_isspace_def)
  then have 1: "parse_output_format_line ''json'' q = q\<lparr> q_output_format := OUTPUT_FORMAT_JSON \<rparr>" for q :: "'a query"
    by (simp add: parse_output_format_line_def)
  have 2: "parse_columns_line (lstrip (concat (map (\<lambda>n. CHR '' '' # n) names))) q =
      q\<lparr> q_columns := q_columns q @ map (query_column t) names, q_show_column_headers := False \<rparr>" if "q_table q = Some t" for q
    using that by (simp add: parse_columns_line_def fields_lstrip fields_spaced_words [OF assms(1)])
  have "query_of_request env clock ob (Some t) (''OutputFormat: json'' # columns_header names # headers_of e) =
     parse_headers env clock 2 (headers_of e @ []) ?q"
    unfolding query_of_request_def parse_headers.simps json_header_parsed columns_header_parsed [OF assms(1,2)]
    by (simp only: option.case prod.case 1) (simp add: 2 new_query_def numeral_2_eq_2)
  also have "\<dots> = parse_headers env clock (2 + length (headers_of e)) [] (?q\<lparr> q_filter := [f] \<rparr>)"
  proof -
    have "q_table ?q = Some t" "q_filter_error ?q = []" "q_filter ?q = []" by (simp_all add: new_query_def)
    with assms(3) show ?thesis unfolding compiles_def filter_step_def by (metis append_Nil)
  qed
  finally show ?thesis by (simp add: json_query_def)
qed

lemma answer_query_plain:
  assumes "q_wait_condition q = []" and "q_wait_trigger q = None" and "q_columns q \<noteq> []"
  shows "answer_query st n t q = run_query (st_run_env st) (st_rows st n q) q"
  using assms by (simp add: answer_query_def do_wait_def add_all_columns_def hasNoColumns_def)

text \<open>The request: its first line names the table, the others are headers; an empty line ends it.\<close>

definition request_headers :: "string list \<Rightarrow> fexp \<Rightarrow> string list" where
  "request_headers names e = ''OutputFormat: json'' # columns_header names # headers_of e"

definition request_bytes :: "string list \<Rightarrow> bytes" where
  "request_bytes ls = concat (map (\<lambda>l. l @ [CHR 0x0A]) ls) @ [CHR 0x0A]"

lemma rstrip_c_str: "c_text l \<Longrightarrow> rstrip (c_str (rstrip l)) = rstrip (c_str l)"
proof -
  assume l: "c_text l"
  have r: "rstrip l = take (length (rstrip l)) l"
    unfolding rstrip_eq by (metis append_eq_conv_conj rev_append rev_rev_ident takeWhile_dropWhile_id)
  then have "c_text (rstrip l)" using l by (metis c_text_def in_set_takeD)
  moreover have "rstrip (rstrip l) = rstrip l" by (simp add: rstrip_eq)
  ultimately show ?thesis using l by simp
qed

lemma parse_headers_rstrip:
  "list_all c_text ls \<Longrightarrow> parse_headers env clock n (map rstrip ls) q = map_option (\<lambda>(q', r). (q', map rstrip r)) (parse_headers env clock n ls q)"
  by (induction ls arbitrary: n q) (auto simp: rstrip_c_str split: option.splits)

lemma headers_text: "expressible env t e \<Longrightarrow> list_all (\<lambda>l. c_text l \<and> l \<noteq> [] \<and> \<not> c_isspace (hd l)) (headers_of e)"
  by (induction e) (auto simp: word_def trimmed_def c_isspace_def list_all_iff)

lemma rstrip_not_blank: "l \<noteq> [] \<Longrightarrow> \<not> c_isspace (hd l) \<Longrightarrow> rstrip l \<noteq> []"
  by (auto simp: rstrip_eq dropWhile_eq_Nil_conv)

lemma request_text:
  assumes "list_all word names" and "expressible env t e"
  shows "list_all (\<lambda>l. c_text l \<and> rstrip l \<noteq> []) (request_headers names e)"
proof -
  have "c_text (concat (map (\<lambda>n. CHR '' '' # n) names))" using assms(1) by (induction names) (auto simp: word_def)
  then have "c_text (columns_header names)" by (simp add: columns_header_def)
  moreover have "rstrip (columns_header names) \<noteq> []" "rstrip ''OutputFormat: json'' \<noteq> []"
    by (simp_all add: rstrip_not_blank columns_header_def c_isspace_def)
  moreover have "list_all (\<lambda>l. c_text l \<and> rstrip l \<noteq> []) (headers_of e)"
    using headers_text [OF assms(2)] by (auto simp: list_all_iff rstrip_not_blank)
  ultimately show ?thesis by (simp add: request_headers_def)
qed

text \<open>The answer of the query, from the headers to the response in the buffer.\<close>

lemma request_answered:
  assumes "findTable st tablename = Some t" and "tablename \<noteq> []" and "\<not> t_has_logcache t"
    and "ob_wf ob" and "list_all word names" and "names \<noteq> []" and "expressible (st_query_env st) t e"
    and "\<And>q. st_rows st tablename q = rows" and "length rows < 2 ^ 31"
    and q0: "q0 = json_query (st_query_env st) new_output_buffer t names []"
    and oe: "json_env (query_out_env (st_run_env st) q0)"
    and xs: "xs = filter (meaning (st_query_env st) t e) (map snd rows)"
    and vs: "those (map (row_json (query_out_env (st_run_env st) q0) (q_columns q0)) xs) = Some vs"
  shows "\<exists>ob'. answerGetRequest st (map rstrip (request_headers names e)) ob tablename = Some (ob', []) \<and>
     same_flags (ob_reset ob) ob' \<and>
     (if ob_has_error ob' then limit_error (st_run_env st) q0 rows xs ob'
      else ob_response_code ob' = RESPONSE_CODE_OK \<and> within_limit (st_run_env st) q0 xs \<and> json_read (ob_contents ob') = Some (JArray vs, [CHR 0x0A]))"
proof -
  let ?env = "st_run_env st"
  obtain f where f: "compiles (st_query_env st) t e f" using expression_compiles [OF assms(7)] by blast
  let ?q = "json_query (st_query_env st) (ob_reset ob) t names [f]"
  have same: "query_out_env ?env ?q = query_out_env ?env q0" "q_columns ?q = q_columns q0" "page_size ?env ?q ys = page_size ?env q0 ys"
    "within_limit ?env ?q ys = within_limit ?env q0 ys" "limit_cause ?env ?q rows i msg = limit_cause ?env q0 rows i msg" for ys i msg
    by (simp_all add: q0 query_out_env_def json_query_def new_query_def page_size_def within_limit_def limit_cause_def)
  have wf: "ob_wf (ob_reset ob)" "\<not> ob_has_error (ob_reset ob)" "ob_contents (ob_reset ob) = []"
    using assms(4) by (simp_all add: ob_wf_def ob_reset_def ob_has_error_def ob_contents_def)
  have vis: "visible_rows ?q rows = xs"
    using f unfolding xs visible_rows_def by (intro filter_cong refl) (simp_all add: row_visible_def json_query_def new_query_def compiles_def)
  have pg: "page_rows ?q rows = xs" by (simp add: page_rows_def vis) (simp add: json_query_def new_query_def page_def)
  have plain: "plain_ok ?q" by (simp add: plain_ok_def doStats_def json_query_def new_query_def)
  have q: "q_output ?q = ob_reset ob" "q_current_line ?q = 0" "q_limit ?q = -1" "q_offset ?q = 0"
    "\<not> q_show_column_headers ?q" "q_output_format ?q = OUTPUT_FORMAT_JSON"
    by (simp_all add: json_query_def new_query_def)
  have "list_all c_text (request_headers names e)" using request_text [OF assms(5,7)] by (simp add: list_all_iff)
  then have parsed: "query_of_request (st_query_env st) (st_clock st) (ob_reset ob) (Some t) (map rstrip (request_headers names e)) = Some (?q, [])"
    using json_request_parsed [OF assms(5,6) f, of "st_clock st" "ob_reset ob"]
    by (simp add: query_of_request_def parse_headers_rstrip request_headers_def [symmetric])
  have run: "answer_query st tablename t ?q = run_query ?env rows ?q"
    using assms(6,8) by (subst answer_query_plain) (simp_all add: json_query_def new_query_def)
  from plain_run [OF plain, of rows "query_out_env ?env q0" ?env JNull vs] obtain q' where
    q': "run_query ?env rows ?q = Some q'"
    "if ob_has_error (q_output q') then limit_error ?env ?q rows (page_rows ?q rows) (q_output q')
     else within_limit ?env ?q (page_rows ?q rows) \<and> (\<exists>n. json_read (ob_contents (q_output q')) =
       Some (response_json (q_output_format ?q = OUTPUT_FORMAT_WRAPPED_JSON) (q_show_column_headers ?q) JNull (page (q_limit ?q) (q_offset ?q) vs) n, [CHR 0x0A]) \<and>
       (q_output_format ?q = OUTPUT_FORMAT_WRAPPED_JSON \<longrightarrow> n = int (length vs)))"
    using wf q(1,2,5) assms(9) oe vs by (auto simp only: same vis q simp_thms if_False)
  have fl: "same_flags (ob_reset ob) (q_output q')" "\<not> ob_has_error (q_output q') \<Longrightarrow> ob_response_code (q_output q') = RESPONSE_CODE_OK"
    using run_query_flags [OF q'(1)] q(1) by (auto simp: same_flags_def ob_reset_def)
  have "answerGetRequest st (map rstrip (request_headers names e)) ob tablename = Some (q_output q', [])"
    using assms(1-3) parsed run q(1) wf(2) q'(1) by (simp add: answerGetRequest_def)
  with q'(2) fl show ?thesis unfolding pg by (auto simp: q limit_error_def same response_json_def page_def split: if_splits)
qed

text \<open>
  C1. From the bytes a client sends to the bytes it is sent. A GET request for named columns of a table in JSON,
  with any boolean expression of filters, whose lines fit the input buffer, is read however the stream is cut into
  reads, parsed, run and flushed to a client that takes what it is offered. The client gets one JSON document
  that has, row by row in the order of the table, the values of the columns of exactly the rows for which the
  expression is true, and the connection ends. The one other answer is the error of a limit, with its reason: the
  text of these rows is over the maximum response size, or the core shuts down.
\<close>

theorem get_request_is_answered_in_json:
  assumes "findTable st tablename = Some t" and "word tablename" and "\<not> t_has_logcache t"
    and "list_all word names" and "names \<noteq> []" and "expressible (st_query_env st) t e"
    and "\<And>q. st_rows st tablename q = rows" and "length rows < 2 ^ 31"
    and "q0 = json_query (st_query_env st) new_output_buffer t names []"
    and "json_env (query_out_env (st_run_env st) q0)"
    and "xs = filter (meaning (st_query_env st) t e) (map snd rows)"
    and "those (map (row_json (query_out_env (st_run_env st) q0) (q_columns q0)) xs) = Some vs"
    and "0 < N" and "until_eof es" and "ib_ok N ib 0" and "ib_lines ib = []" and "ob_wf ob"
    and "lines = (''GET '' @ tablename) # request_headers names e"
    and "list_all (\<lambda>l. CHR 0x0A \<notin> set l \<and> length l < N) lines"
    and "unread ib @ pending es = request_bytes lines @ rest"
  shows "\<exists>sent. client_loop (False # flags) st N es (replicate k Not_ready @ [Wrote (length sent)]) ib ob = Some [sent] \<and>
     ((\<exists>msg. limit_cause (st_run_env st) q0 rows (page_size (st_run_env st) q0 xs) msg \<and> sent = take 8190 msg @ [CHR 0x0A]) \<or>
      within_limit (st_run_env st) q0 xs \<and> json_read sent = Some (JArray vs, [CHR 0x0A]))"
proof -
  have ne: "tablename \<noteq> []" and wt: "c_text tablename" using assms(2) by (simp_all add: word_def)
  have get: "rstrip (''GET '' @ tablename) = ''GET '' @ tablename"
    using assms(2) by (intro rstrip_trimmed) (auto simp: word_def list_all_iff)
  have "list_all (text_line N) lines"
    using assms(18,19) request_text [OF assms(4,6)] get by (auto simp: list_all_iff text_line_def)
  from spec_text_lines [OF assms(13) this, of "[]" rest] assms(18,20) have
    spec: "spec_request N (ib_lines ib) (unread ib @ pending es) = (IB_REQUEST_READ, map rstrip lines, rest)"
    by (simp add: assms(16) request_bytes_def)
  from read_request_refines [OF assms(13-15), of False] obtain ib' es' where
    rd: "read_request N es ib 0 False = Some (IB_REQUEST_READ, ib', es')" "ib_lines ib' = map rstrip lines"
    unfolding meets_spec_def spec by auto
  have ob: "ob_wf (ob_reset ob)" using assms(17) by (simp add: ob_wf_def ob_reset_def)
  from request_answered [OF assms(1) ne assms(3) ob assms(4-12)] obtain ob' where
    a: "answerGetRequest st (map rstrip (request_headers names e)) (ob_reset ob) tablename = Some (ob', [])"
    and fl: "same_flags (ob_reset ob) ob'"
    and o: "if ob_has_error ob' then limit_error (st_run_env st) q0 rows xs ob'
      else ob_response_code ob' = RESPONSE_CODE_OK \<and> within_limit (st_run_env st) q0 xs \<and> json_read (ob_contents ob') = Some (JArray vs, [CHR 0x0A])"
    by (auto simp: ob_reset_def)
  have flags: "ob_response_header ob' = RESPONSE_HEADER_OFF" "\<not> ob_do_keepalive ob'"
    using fl by (simp_all add: same_flags_def ob_reset_def)
  have line: "lstrip (drop 4 (''GET '' @ tablename)) = tablename" "c_str (''GET '' @ tablename) = ''GET '' @ tablename"
    using assms(2) by (cases tablename; simp add: word_def)+
  have ans: "answerRequest st N es ib ob = Some (False, ob', (snd (next_line ib'))\<lparr> ib_lines := [] \<rparr>, es')"
    using rd get a flags(2) line assms(18) by (simp add: answerRequest_def next_line_def has_prefix_def)
  let ?sent = "response_body ob'"
  have "?sent \<noteq> []"
    using o by (auto simp: response_body_def limit_error_def ob_has_error_def json_read_def split: if_splits)
  then have "client_loop (False # flags) st N es (replicate k Not_ready @ [Wrote (length ?sent)]) ib ob = Some [?sent]" for flags
    using ans flags by (simp add: ob_flush_def write_data_not_ready write_data_all del: write_data.simps)
  moreover have "(\<exists>msg. limit_cause (st_run_env st) q0 rows (page_size (st_run_env st) q0 xs) msg \<and> ?sent = take 8190 msg @ [CHR 0x0A]) \<or>
      within_limit (st_run_env st) q0 xs \<and> json_read ?sent = Some (JArray vs, [CHR 0x0A])"
    using o by (auto simp: limit_error_def response_body_def split: if_splits)
  ultimately show ?thesis by blast
qed

definition demo_store :: "int store_state" where
  "demo_store = \<lparr> st_tables = [(''hosts'', demo_table)], st_query_env = demo_query_env, st_run_env = demo_run_env,
     st_clock = (\<lambda>n. 0), st_rows = (\<lambda>n q. [(calm, 5), (calm, 2), (calm, 7)]), st_wakeups = (\<lambda>q. []), st_client_alive = True,
     st_terminate = False, st_command = (\<lambda>c. None) \<rparr>"

definition demo_request :: fexp where
  "demo_request = Conj [Cond ''name'' ''>'' ''3'', Neg (Cond ''host_name'' ''='' ''7'')]"

definition demo_get_lines :: "string list" where
  "demo_get_lines = (''GET '' @ ''hosts'') # request_headers [''host_name''] demo_request"

definition demo_get_events :: "read_event list" where
  "demo_get_events = [Ev_read (take 10 (request_bytes demo_get_lines)), Ev_nothing, Ev_read (drop 10 (request_bytes demo_get_lines)), Ev_read []]"

lemma demo_get_bytes:
  "until_eof demo_get_events" "pending demo_get_events = request_bytes demo_get_lines @ []"
  "list_all (\<lambda>l. CHR 0x0A \<notin> set l \<and> length l < 100) demo_get_lines"
  by code_simp+

definition demo_get_query :: "int query" where
  "demo_get_query = json_query demo_query_env new_output_buffer demo_table [''host_name''] []"

lemma demo_get_small: "page_size demo_run_env demo_get_query [5] \<le> 1000"
  by code_simp

theorem get_request_is_answered_in_json_witness:
  "\<exists>sent. client_loop [False] demo_store 100 demo_get_events (replicate 2 Not_ready @ [Wrote (length sent)]) new_input_buffer new_output_buffer = Some [sent] \<and>
     json_read sent = Some (JArray [JArray [JNumber ''5'']], [CHR 0x0A])"
proof -
  have col: "query_column demo_table ''host_name'' = IntColumn ''name'' id" "query_column demo_table ''name'' = IntColumn ''name'' id"
    by (simp_all add: query_column_def table_column_def demo_table_def lookup_column.simps columns_find_def has_prefix_def)
  have e: "expressible demo_query_env demo_table demo_request"
    by (simp add: demo_request_def word_def trimmed_def c_isspace_def lookupOperator_def cond_filter_def col)
  have m: "filter (meaning demo_query_env demo_table demo_request) (map snd [(calm, 5), (calm, 2), (calm, 7)]) = [5]"
  proof -
    have n: "atoi ''3'' = 3" "atoi ''7'' = 7"
      by (simp_all add: atoi_def strtol_def c_isspace_def c_isdigit_def digits_value_def digit_val_def wrap32_def Let_def)
    have "meaning demo_query_env demo_table demo_request x \<longleftrightarrow> 3 < x \<and> x \<noteq> 7" for x
      by (simp add: demo_request_def cond_filter_def col lookupOperator_def int_accepts_def n)
    then show ?thesis by simp
  qed
  have st: "st_query_env demo_store = demo_query_env" "st_run_env demo_store = demo_run_env" by (simp_all add: demo_store_def)
  have m2: "[5] = filter (meaning (st_query_env demo_store) demo_table demo_request) (map snd [(calm, 5), (calm, 2), (calm, 7)])"
    unfolding st by (rule m [symmetric])
  have oe: "json_env (query_out_env (st_run_env demo_store) demo_get_query)"
    by (simp add: json_env_def query_out_env_def json_query_def new_query_def demo_store_def demo_run_env_def number_char_def c_isdigit_def demo_get_query_def)
  have vs: "those (map (row_json (query_out_env (st_run_env demo_store) demo_get_query) (q_columns demo_get_query)) [5]) = Some [JArray [JNumber ''5'']]"
    by (simp add: demo_get_query_def json_query_def demo_store_def col row_json_def array_json_def int_json_def output_integer_def show_int_def
        show_nat.simps wrap32_def char_of_def bit_0)
  have l: "\<not> limit_cause demo_run_env demo_get_query [(calm, 5), (calm, 2), (calm, 7)] (page_size demo_run_env demo_get_query [5]) msg" for msg
    using demo_get_small by (auto simp: limit_cause_def calm_def demo_get_query_def json_query_def new_query_def demo_run_env_def)
  have "\<exists>sent. client_loop (False # []) demo_store 100 demo_get_events (replicate 2 Not_ready @ [Wrote (length sent)]) new_input_buffer new_output_buffer = Some [sent] \<and>
     ((\<exists>msg. limit_cause (st_run_env demo_store) demo_get_query [(calm, 5), (calm, 2), (calm, 7)] (page_size (st_run_env demo_store) demo_get_query [5]) msg \<and>
        sent = take 8190 msg @ [CHR 0x0A]) \<or>
      within_limit (st_run_env demo_store) demo_get_query [5] \<and> json_read sent = Some (JArray [JArray [JNumber ''5'']], [CHR 0x0A]))"
    by (rule get_request_is_answered_in_json [OF _ _ _ _ _ _ _ _ _ oe m2 vs _ demo_get_bytes(1) _ _ new_output_buffer_wf _ demo_get_bytes(3)])
      (use e demo_get_bytes(2) in \<open>simp_all add: demo_store_def demo_get_lines_def findTable_def demo_table_def word_def c_isspace_def
         demo_get_query_def ib_ok_def new_input_buffer_def unread_def\<close>)
  with l show ?thesis by (auto simp: st)
qed

section \<open>A table that does not exist\<close>

definition error_stays :: "output_buffer \<Rightarrow> output_buffer \<Rightarrow> bool" where
  "error_stays ob ob' \<longleftrightarrow> (ob_has_error ob \<longrightarrow> ob_error_message ob' = ob_error_message ob \<and> ob_response_code ob' = ob_response_code ob)"

lemma error_stays_refl [simp]: "error_stays ob ob"
  by (simp add: error_stays_def)

lemma error_stays_trans: "error_stays ob ob' \<Longrightarrow> error_stays ob' ob'' \<Longrightarrow> error_stays ob ob''"
  by (simp add: error_stays_def ob_has_error_def)

lemma error_stays_set [simp]: "error_stays ob ob' \<Longrightarrow> error_stays ob (ob_set_error c m ob')"
  by (simp add: error_stays_def ob_set_error_def ob_has_error_def)

lemma output_set_error [simp]: "q_output (set_error c m q) = ob_set_error c m (q_output q)"
  by (simp add: set_error_def)

lemma error_stays_flags [simp]:
  "error_stays ob (ob\<lparr> ob_do_keepalive := k \<rparr>)" "error_stays ob (ob\<lparr> ob_response_header := r \<rparr>)"
  by (simp_all add: error_stays_def)

named_theorems stays \<open>a header keeps an error that is set\<close>

lemma filter_headers_stay [stays]:
  "error_stays (q_output q) (q_output (parse_filter_line env l b q))"
  "error_stays (q_output q) (q_output (parse_and_or_line l ao b q))"
  "error_stays (q_output q) (q_output (parse_negate_line l b q))"
  by (auto simp: parse_filter_line_def query_create_filter_def parse_and_or_line_def parse_negate_line_def Let_def
      split: option.splits prod.splits sum.splits if_split)

lemma steal_counts_stay: "error_stays (q_output q) (q_output (steal_counts n ao fs q))"
  by (induction n ao fs q rule: steal_counts.induct) (auto simp: Let_def split: option.splits)

lemma stats_headers_stay [stays]:
  "parse_stats_and_or_line l ao q = Some q' \<Longrightarrow> error_stays (q_output q) (q_output q')"
  "error_stays (q_output q) (q_output (parse_stats_negate_line l q))"
  "error_stays (q_output q) (q_output (parse_stats_line env l q))"
  by (auto simp: steal_counts_stay parse_stats_and_or_line_def parse_stats_negate_line_def parse_stats_line_def push_stats_def
      query_create_filter_def Let_def split: option.splits prod.splits if_splits)

lemma plain_headers_stay [stays]:
  "error_stays (q_output q) (q_output (parse_columns_line l q))"
  "error_stays (q_output q) (q_output (parse_sort_line l q))"
  "error_stays (q_output q) (q_output (parse_auth_user_header env l q))"
  "error_stays (q_output q) (q_output (parse_separators_line l q))"
  "error_stays (q_output q) (q_output (parse_output_format_line l q))"
  "error_stays (q_output q) (q_output (parse_column_headers_line l q))"
  "error_stays (q_output q) (q_output (parse_keep_alive_line l q))"
  "error_stays (q_output q) (q_output (parse_response_header_line l q))"
  "error_stays (q_output q) (q_output (parse_limit_line l q))"
  "error_stays (q_output q) (q_output (parse_offset_line l q))"
  "error_stays (q_output q) (q_output (parse_timelimit_line now l q))"
  "error_stays (q_output q) (q_output (parse_wait_timeout_line l q))"
  "error_stays (q_output q) (q_output (parse_wait_trigger_line l q))"
  "error_stays (q_output q) (q_output (parse_wait_object_line env l q))"
  "error_stays (q_output q) (q_output (parse_localtime_line now l q))"
  by (auto simp: parse_columns_line_def parse_sort_line_def parse_auth_user_header_def parse_separators_line_def
      parse_output_format_line_def parse_column_headers_line_def parse_keep_alive_line_def parse_response_header_line_def
      parse_limit_line_def parse_offset_line_def parse_timelimit_line_def parse_wait_timeout_line_def
      parse_wait_trigger_line_def parse_wait_object_line_def parse_localtime_line_def Let_def
      split: option.splits prod.splits)

lemma header_handlers_stay:
  "(name, h) \<in> set (header_handlers env now) \<Longrightarrow> h arg q = Some q' \<Longrightarrow> error_stays (q_output q) (q_output q')"
  unfolding header_handlers_def
  by (simp only: list.set insert_iff empty_iff prod.inject simp_thms, elim disjE conjE) (auto intro: stays)

lemma parse_headers_stay:
  "parse_headers env clock n lines q = Some (q', rest) \<Longrightarrow> error_stays (q_output q) (q_output q')"
proof (induction env clock n lines q rule: parse_headers.induct)
  case (2 env clock n line lines q)
  show ?case
  proof (cases "find_header (header_handlers env (clock n)) (rstrip (c_str line))")
    case None
    with "2.prems" show ?thesis by (auto split: if_splits)
  next
    case (Some r)
    obtain h arg where r: "r = (h, arg)" by (cases r)
    with Some "2.prems" obtain q1 where q1: "h arg q = Some q1" "parse_headers env clock (Suc n) lines q1 = Some (q', rest)"
      by (auto split: option.splits)
    from find_header_in [OF Some [unfolded r]] q1(1) have "error_stays (q_output q) (q_output q1)"
      by (auto dest: header_handlers_stay)
    with "2.IH" [OF Some r [symmetric] q1] show ?thesis by (rule error_stays_trans [rotated])
  qed
qed simp

text \<open>
  C28. A GET request for a table the store does not have, with any headers, is answered by the error that
  names the table (or that says it is missing), and by no rows, whatever errors the headers have: the
  first error is the one the client sees.
\<close>

theorem unknown_table_is_reported:
  assumes "findTable st tablename = None" and "\<forall>l \<in> set lines. \<not> bare_stats_header l"
  shows "\<exists>ob' rest. answerGetRequest st lines ob tablename = Some (ob', rest) \<and>
     (ob_response_code ob', response_body ob') =
       (if tablename = [] then (RESPONSE_CODE_INVALID_REQUEST, ''Invalid GET request, missing tablename'' @ [CHR 0x0A])
        else (RESPONSE_CODE_NOT_FOUND, take 8190 (''Invalid GET request, no such table '' @ quoted tablename) @ [CHR 0x0A]))"
proof -
  let ?ob1 = "if tablename = [] then ob_set_error RESPONSE_CODE_INVALID_REQUEST ''Invalid GET request, missing tablename'' (ob_reset ob) else ob_reset ob"
  let ?ob2 = "ob_set_error RESPONSE_CODE_NOT_FOUND (''Invalid GET request, no such table '' @ quoted tablename) ?ob1"
  obtain q rest where p: "parse_headers (st_query_env st) (st_clock st) 0 lines (new_query (st_query_env st) ?ob2 None) = Some (q, rest)"
    using parse_headers_total [OF assms(2)] by blast
  with assms(1) have a: "answerGetRequest st lines ob tablename = Some (q_output q, rest)"
    by (simp add: answerGetRequest_def query_of_request_def)
  have "ob_has_error ?ob2" by (simp add: ob_has_error_def ob_set_error_def)
  then have "ob_error_message (q_output q) = ob_error_message ?ob2" "ob_response_code (q_output q) = ob_response_code ?ob2"
    using parse_headers_stay [OF p] by (simp_all add: error_stays_def new_query_def)
  with a show ?thesis by (simp add: response_body_def ob_set_error_def ob_reset_def)
qed

theorem unknown_table_is_reported_witness:
  "\<exists>ob' rest. answerGetRequest demo_store [''Limit: x'', ''OutputFormat: json''] new_output_buffer ''hots'' = Some (ob', rest) \<and>
     (ob_response_code ob', response_body ob') =
       (404, take 8190 (''Invalid GET request, no such table '' @ quoted ''hots'') @ [CHR 0x0A])"
  using unknown_table_is_reported [of demo_store "''hots''" "[''Limit: x'', ''OutputFormat: json'']" new_output_buffer]
  by (simp add: demo_store_def findTable_def bare_stats_header_def rstrip_eq c_isspace_def has_prefix_def)

end
