(* ===== verification/Log_Entry.thy ===== *)
theory Log_Entry
  imports Strutil
begin

text \<open>
  One line of a log file (\<open>src/LogEntry.cc\<close>, \<open>src/LogEntry.h\<close>): its time, its class, its type and the
  fields of the message. The constructor cuts a copy of the line in place; a field is the text from its
  pointer to the NUL the tokenizer writes. The texts that may be missing are options. The objects of the
  core an entry refers to are found by the lookup functions of a record, which stand for the core's
  \<open>find_host\<close>, \<open>find_service\<close>, \<open>find_contact\<close> and \<open>find_command\<close> and give the object's identity.
\<close>

abbreviation (input) "LOGCLASS_INFO \<equiv> 0 :: int"
abbreviation (input) "LOGCLASS_ALERT \<equiv> 1 :: int"
abbreviation (input) "LOGCLASS_PROGRAM \<equiv> 2 :: int"
abbreviation (input) "LOGCLASS_NOTIFICATION \<equiv> 3 :: int"
abbreviation (input) "LOGCLASS_PASSIVECHECK \<equiv> 4 :: int"
abbreviation (input) "LOGCLASS_COMMAND \<equiv> 5 :: int"
abbreviation (input) "LOGCLASS_STATE \<equiv> 6 :: int"
abbreviation (input) "LOGCLASS_INVALID \<equiv> -1 :: int"

datatype log_entry_type =
    NONE | ALERT_HOST | ALERT_SERVICE | DOWNTIME_ALERT_HOST | DOWNTIME_ALERT_SERVICE | STATE_HOST
  | STATE_HOST_INITIAL | STATE_SERVICE | STATE_SERVICE_INITIAL | FLAPPING_HOST | FLAPPING_SERVICE
  | TIMEPERIOD_TRANSITION | CORE_STARTING | CORE_STOPPING | LOG_VERSION | LOG_INITIAL_STATES
  | ACKNOWLEDGE_ALERT_HOST | ACKNOWLEDGE_ALERT_SERVICE

record log_entry =
  le_lineno :: nat
  le_time :: int
  le_logclass :: int
  le_type :: log_entry_type
  le_complete :: string
  le_options :: string
  le_text :: "string option"
  le_host_name :: "string option"
  le_svc_desc :: "string option"
  le_command_name :: "string option"
  le_contact_name :: "string option"
  le_state :: int
  le_state_type :: "string option"
  le_attempt :: int
  le_check_output :: "string option"
  le_comment :: "string option"
  le_host :: "nat option"
  le_service :: "nat option"
  le_contact :: "nat option"
  le_command :: "nat option"

record objects =
  find_host :: "string \<Rightarrow> nat option"
  find_service :: "string option \<Rightarrow> string \<Rightarrow> nat option"
  find_contact :: "string \<Rightarrow> nat option"
  find_command :: "string \<Rightarrow> nat option"

section \<open>States\<close>

text \<open>
  A text that is a single closing parenthesis makes the code look at the byte before it, which is the NUL
  the tokenizer wrote over the separator.
\<close>

definition state_letter :: "string \<Rightarrow> char" where
  "state_letter s =
     (if last s = CHR '')'' then (if butlast s = [] then CHR 0x00 else last (butlast s)) else last s)"

definition serviceStateToInt :: "string option \<Rightarrow> int" where
  "serviceStateToInt s =
     (case s of
        None \<Rightarrow> 3
      | Some t \<Rightarrow>
          if t = [] then 3
          else let c = state_letter t
               in if c = CHR ''K'' \<or> c = CHR ''Y'' then 0
                  else if c = CHR ''G'' then 1
                  else if c = CHR ''L'' then 2
                  else if c = CHR ''N'' then 3
                  else 4)"

definition hostStateToInt :: "string option \<Rightarrow> int" where
  "hostStateToInt s =
     (case s of
        None \<Rightarrow> 2
      | Some t \<Rightarrow>
          if t = [] then 3
          else let c = state_letter t
               in if c = CHR ''P'' \<or> c = CHR ''Y'' then 0
                  else if c = CHR ''N'' then 1
                  else if c = CHR ''E'' then 2
                  else 3)"

section \<open>The messages\<close>

text \<open>
  Every handler that knows the beginning of a message first cuts off what stands before the colon and
  skips the byte after it; \<open>after_colon\<close> is the type of the message and the text that is left.
\<close>

definition after_colon :: "string \<Rightarrow> string option \<times> string" where
  "after_colon t = (let (ty, scan) = next_token t (CHR '':'') in (ty, drop 1 scan))"

abbreviation field :: "string \<Rightarrow> string option \<times> string" where
  "field s \<equiv> next_token s (CHR '';'')"

definition classified :: "int \<Rightarrow> log_entry_type \<Rightarrow> string option \<Rightarrow> log_entry \<Rightarrow> log_entry" where
  "classified cls ty text e = e\<lparr> le_logclass := cls, le_type := ty, le_text := text \<rparr>"

text \<open>A message on an object's state: state, state type, attempt and output.\<close>

definition state_fields :: "(string option \<Rightarrow> int) \<Rightarrow> string \<Rightarrow> log_entry \<Rightarrow> log_entry" where
  "state_fields to_int scan e =
     (let (state, s1) = save_next_token scan (CHR '';'');
          (state_type, s2) = field s1;
          (attempt, s3) = save_next_token s2 (CHR '';'');
          (check_output, _) = field s3
      in e\<lparr> le_state := to_int (Some state), le_state_type := state_type, le_attempt := atoi attempt,
            le_check_output := check_output \<rparr>)"

text \<open>State type and comment; and with the contact between them.\<close>

definition comment_fields :: "string \<Rightarrow> log_entry \<Rightarrow> log_entry" where
  "comment_fields scan e =
     (let (state_type, s1) = field scan; (comment, _) = field s1
      in e\<lparr> le_state_type := state_type, le_comment := comment \<rparr>)"

definition acknowledge_fields :: "string \<Rightarrow> log_entry \<Rightarrow> log_entry" where
  "acknowledge_fields scan e =
     (let (state_type, s1) = field scan; (contact, s2) = field s1; (comment, _) = field s2
      in e\<lparr> le_state_type := state_type, le_contact_name := contact, le_comment := comment \<rparr>)"

definition host_field :: "string \<Rightarrow> log_entry \<Rightarrow> string \<times> log_entry" where
  "host_field scan e = (let (h, s) = field scan in (s, e\<lparr> le_host_name := h \<rparr>))"

definition service_field :: "string \<Rightarrow> log_entry \<Rightarrow> string \<times> log_entry" where
  "service_field scan e = (let (d, s) = field scan in (s, e\<lparr> le_svc_desc := d \<rparr>))"

definition handleStatusEntry :: "string \<Rightarrow> log_entry \<Rightarrow> log_entry option" where
  "handleStatusEntry t e =
     (let (ty, scan0) = after_colon t;
          (scan, eh) = host_field scan0 e;
          (sscan, es) = service_field scan eh
      in if has_prefix ''INITIAL HOST STATE: '' t \<or> has_prefix ''CURRENT HOST STATE: '' t \<or> has_prefix ''HOST ALERT: '' t
         then Some (state_fields hostStateToInt scan
                (if hd t = CHR ''H'' then classified LOGCLASS_ALERT ALERT_HOST ty eh
                 else if hd t = CHR ''I'' then classified LOGCLASS_STATE STATE_HOST_INITIAL ty eh
                 else classified LOGCLASS_STATE STATE_HOST ty eh))
         else if has_prefix ''HOST DOWNTIME ALERT: '' t
         then Some (comment_fields scan (classified LOGCLASS_ALERT DOWNTIME_ALERT_HOST ty eh))
         else if has_prefix ''HOST ACKNOWLEDGE ALERT: '' t
         then Some (acknowledge_fields scan (classified LOGCLASS_ALERT ACKNOWLEDGE_ALERT_HOST ty eh))
         else if has_prefix ''HOST FLAPPING ALERT: '' t
         then Some (comment_fields scan (classified LOGCLASS_ALERT FLAPPING_HOST ty eh))
         else if has_prefix ''HOST NOTIFICATION SUPPRESSED: '' t \<or> has_prefix ''HOST INFO: '' t
         then Some ((classified LOGCLASS_INFO NONE ty eh)\<lparr> le_comment := fst (field scan) \<rparr>)
         else if has_prefix ''INITIAL SERVICE STATE: '' t \<or> has_prefix ''CURRENT SERVICE STATE: '' t \<or> has_prefix ''SERVICE ALERT: '' t
         then Some (state_fields serviceStateToInt sscan
                (if hd t = CHR ''S'' then classified LOGCLASS_ALERT ALERT_SERVICE ty es
                 else if hd t = CHR ''I'' then classified LOGCLASS_STATE STATE_SERVICE_INITIAL ty es
                 else classified LOGCLASS_STATE STATE_SERVICE ty es))
         else if has_prefix ''SERVICE DOWNTIME ALERT: '' t
         then Some (comment_fields sscan (classified LOGCLASS_ALERT DOWNTIME_ALERT_SERVICE ty es))
         else if has_prefix ''SERVICE ACKNOWLEDGE ALERT: '' t
         then Some (acknowledge_fields sscan (classified LOGCLASS_ALERT ACKNOWLEDGE_ALERT_SERVICE ty es))
         else if has_prefix ''SERVICE FLAPPING ALERT: '' t
         then Some (comment_fields sscan (classified LOGCLASS_ALERT FLAPPING_SERVICE ty es))
         else if has_prefix ''SERVICE NOTIFICATION SUPPRESSED: '' t \<or> has_prefix ''SERVICE INFO: '' t
         then Some ((classified LOGCLASS_INFO NONE ty es)\<lparr> le_comment := fst (field sscan) \<rparr>)
         else if has_prefix ''TIMEPERIOD TRANSITION: '' t
         then Some (e\<lparr> le_logclass := LOGCLASS_STATE, le_type := TIMEPERIOD_TRANSITION \<rparr>)
         else None)"

text \<open>
  A notification names its contact first; when the state of the message is not a state, state and
  command stand in the other order.
\<close>

definition handleNotificationEntry :: "string \<Rightarrow> log_entry \<Rightarrow> log_entry option" where
  "handleNotificationEntry t e =
     (if has_prefix ''HOST NOTIFICATION: '' t \<or> has_prefix ''SERVICE NOTIFICATION: '' t
      then let svc = (hd t = CHR ''S'');
               to_int = (if svc then serviceStateToInt else hostStateToInt);
               (ty, s0) = after_colon t;
               (contact, s1) = field s0;
               (s2, e1) = host_field s1 e;
               (s3, e2) = (if svc then service_field s2 e1 else (s2, e1));
               (state_type, s4) = save_next_token s3 (CHR '';'');
               (command, s5) = field s4;
               state = to_int (Some state_type);
               swapped = (if svc then state = 4 else state = 3);
               (check_output, _) = field s5
           in Some (e2\<lparr> le_logclass := LOGCLASS_NOTIFICATION, le_text := ty, le_contact_name := contact,
                le_state_type := (if swapped then command else Some state_type),
                le_command_name := (if swapped then Some state_type else command),
                le_state := (if swapped then to_int command else state), le_check_output := check_output \<rparr>)
      else None)"

definition handlePassiveCheckEntry :: "string \<Rightarrow> log_entry \<Rightarrow> log_entry option" where
  "handlePassiveCheckEntry t e =
     (if has_prefix ''PASSIVE SERVICE CHECK: '' t \<or> has_prefix ''PASSIVE HOST CHECK: '' t
      then let svc = (t ! 8 = CHR ''S'');
               (ty, s0) = after_colon t;
               (s1, e1) = host_field s0 e;
               (s2, e2) = (if svc then service_field s1 e1 else (s1, e1));
               (state, s3) = save_next_token s2 (CHR '';'');
               (check_output, _) = field s3
           in Some (e2\<lparr> le_logclass := LOGCLASS_PASSIVECHECK, le_text := ty, le_state := atoi state,
                le_check_output := check_output \<rparr>)
      else None)"

definition handleNotes :: "string \<Rightarrow> log_entry \<Rightarrow> log_entry option" where
  "handleNotes t e =
     (if has_prefix ''SERVICE NOTE: '' t \<or> has_prefix ''HOST NOTE: '' t
      then let (ty, s0) = after_colon t;
               (s1, e1) = host_field s0 e;
               (s2, e2) = (if hd t = CHR ''S'' then service_field s1 e1 else (s1, e1))
           in Some (e2\<lparr> le_logclass := LOGCLASS_INFO, le_text := ty \<rparr>)
      else None)"

text \<open>\<open>strstr\<close>. A command line without a command searches a null pointer: \<open>Inl\<close>, undefined.\<close>

definition c_strstr :: "string \<Rightarrow> string \<Rightarrow> bool" where
  "c_strstr hay needle \<longleftrightarrow> list_ex (has_prefix needle) (map (\<lambda>i. drop i hay) [0..<Suc (length hay)])"

definition handleExternalCommandEntry :: "string \<Rightarrow> log_entry \<Rightarrow> unit + log_entry option" where
  "handleExternalCommandEntry t e =
     (if has_prefix ''EXTERNAL COMMAND: '' t
      then let (ty, s0) = after_colon t;
               e0 = e\<lparr> le_logclass := LOGCLASS_COMMAND, le_text := ty \<rparr>
           in case field s0 of
                (None, _) \<Rightarrow> Inl ()
              | (Some cmd, s1) \<Rightarrow>
                  (if c_strstr cmd ''_HOST'' \<and> \<not> c_strstr cmd ''_HOSTGROUP'' then Inr (Some (snd (host_field s1 e0)))
                   else if c_strstr cmd ''_SVC''
                   then let (s2, e1) = host_field s1 e0 in Inr (Some (snd (service_field s2 e1)))
                   else Inr (Some e0))
      else Inr None)"

definition handleTextEntry :: "string \<Rightarrow> log_entry \<Rightarrow> log_entry option" where
  "handleTextEntry t e =
     (if has_prefix ''LOG VERSION: 2.0'' t then Some (e\<lparr> le_logclass := LOGCLASS_PROGRAM, le_type := LOG_VERSION \<rparr>)
      else if has_prefix ''logging initial states'' t \<or> has_prefix ''logging intitial states'' t
      then Some (e\<lparr> le_logclass := LOGCLASS_PROGRAM, le_type := LOG_INITIAL_STATES \<rparr>)
      else None)"

definition handleProgrammEntry :: "string \<Rightarrow> log_entry \<Rightarrow> log_entry option" where
  "handleProgrammEntry t e =
     (if c_strstr t ''starting...'' \<or> c_strstr t ''shutting down...'' \<or> c_strstr t ''Bailing out'' \<or> c_strstr t ''standby mode...''
      then Some (e\<lparr> le_logclass := LOGCLASS_PROGRAM, le_type := CORE_STOPPING \<rparr>)
      else if c_strstr t ''restarting...'' then Some (e\<lparr> le_logclass := LOGCLASS_PROGRAM \<rparr>)
      else None)"

section \<open>A line\<close>

definition updateReferences :: "objects \<Rightarrow> log_entry \<Rightarrow> log_entry" where
  "updateReferences os e =
     (let e1 = (case le_host_name e of None \<Rightarrow> e | Some h \<Rightarrow> e\<lparr> le_host := find_host os h \<rparr>);
          e2 = (case le_svc_desc e of None \<Rightarrow> e1 | Some d \<Rightarrow> e1\<lparr> le_service := find_service os (le_host_name e) d \<rparr>);
          e3 = (case le_contact_name e of None \<Rightarrow> e2 | Some c \<Rightarrow> e2\<lparr> le_contact := find_contact os c \<rparr>)
      in case le_command_name e of None \<Rightarrow> e3 | Some c \<Rightarrow> e3\<lparr> le_command := find_command os c \<rparr>)"

text \<open>The copy of the line, \<open>strdup\<close>, ends at a NUL byte; the line feeds before that end are cut off.\<close>

definition strip_newlines :: "string \<Rightarrow> string" where
  "strip_newlines line = rev (dropWhile (\<lambda>c. c = CHR 0x0A) (rev (c_str line)))"

definition options_of :: "string \<Rightarrow> string" where
  "options_of msg =
     (case dropWhile (\<lambda>c. c \<noteq> CHR '':'') msg of [] \<Rightarrow> [] | _ # r \<Rightarrow> dropWhile (\<lambda>c. c = CHR '' '') r)"

definition blank_entry :: "nat \<Rightarrow> string \<Rightarrow> log_entry" where
  "blank_entry lineno msg =
     \<lparr> le_lineno = lineno, le_time = 0, le_logclass = LOGCLASS_INFO, le_type = NONE, le_complete = msg,
       le_options = options_of msg, le_text = None, le_host_name = None, le_svc_desc = None,
       le_command_name = None, le_contact_name = None, le_state = 0, le_state_type = None, le_attempt = 0,
       le_check_output = None, le_comment = None, le_host = None, le_service = None, le_contact = None, le_command = None \<rparr>"

definition classify :: "objects \<Rightarrow> string \<Rightarrow> log_entry \<Rightarrow> log_entry option" where
  "classify os t e =
     (case handleStatusEntry t e of Some e' \<Rightarrow> Some (updateReferences os e') | None \<Rightarrow>
      case handleNotificationEntry t e of Some e' \<Rightarrow> Some (updateReferences os e') | None \<Rightarrow>
      case handlePassiveCheckEntry t e of Some e' \<Rightarrow> Some (updateReferences os e') | None \<Rightarrow>
      case handleExternalCommandEntry t e of Inl _ \<Rightarrow> None | Inr (Some e') \<Rightarrow> Some (updateReferences os e') | Inr None \<Rightarrow>
      case handleNotes t e of Some e' \<Rightarrow> Some (updateReferences os e') | None \<Rightarrow>
      case handleTextEntry t e of Some e' \<Rightarrow> Some e' | None \<Rightarrow>
      case handleProgrammEntry t e of Some e' \<Rightarrow> Some e' | None \<Rightarrow> Some e)"

definition log_entry_of :: "objects \<Rightarrow> nat \<Rightarrow> string \<Rightarrow> log_entry option" where
  "log_entry_of os lineno line =
     (let msg = strip_newlines line;
          e = blank_entry lineno msg
      in if length msg < 13 \<or> msg ! 0 \<noteq> CHR ''['' \<or> msg ! 11 \<noteq> CHR '']''
         then Some (e\<lparr> le_logclass := LOGCLASS_INVALID \<rparr>)
         else let t = drop 13 msg
              in classify os t (e\<lparr> le_time := atoi (take 10 (drop 1 msg)), le_text := Some t \<rparr>))"

section \<open>The classes of messages\<close>

lemma field_simps [simp]:
  "le_logclass (state_fields f s e) = le_logclass e" "le_logclass (comment_fields s e) = le_logclass e"
  "le_logclass (acknowledge_fields s e) = le_logclass e" "le_logclass (classified c ty x e) = c"
  "le_logclass (updateReferences os e) = le_logclass e"
  by (simp_all add: state_fields_def comment_fields_def acknowledge_fields_def classified_def updateReferences_def
      Let_def split: prod.splits option.splits)

lemma field_constants [simp]:
  "le_lineno (state_fields f s e) = le_lineno e" "le_lineno (comment_fields s e) = le_lineno e"
  "le_lineno (acknowledge_fields s e) = le_lineno e" "le_lineno (classified c ty x e) = le_lineno e"
  "le_lineno (updateReferences os e) = le_lineno e" "le_lineno (snd (host_field s e)) = le_lineno e"
  "le_lineno (snd (service_field s e)) = le_lineno e"
  "le_time (state_fields f s e) = le_time e" "le_time (comment_fields s e) = le_time e"
  "le_time (acknowledge_fields s e) = le_time e" "le_time (classified c ty x e) = le_time e"
  "le_time (updateReferences os e) = le_time e" "le_time (snd (host_field s e)) = le_time e"
  "le_time (snd (service_field s e)) = le_time e"
  by (simp_all add: state_fields_def comment_fields_def acknowledge_fields_def classified_def updateReferences_def
      host_field_def service_field_def Let_def split: prod.splits option.splits)

definition kept :: "log_entry \<Rightarrow> log_entry \<Rightarrow> bool" where
  "kept e e' \<longleftrightarrow> le_lineno e' = le_lineno e \<and> le_time e' = le_time e \<and> le_logclass e' \<in> {0..6}"

lemma handlers_keep:
  "handleStatusEntry t e = Some e' \<Longrightarrow> kept e e'"
  "handleNotificationEntry t e = Some e' \<Longrightarrow> kept e e'"
  "handlePassiveCheckEntry t e = Some e' \<Longrightarrow> kept e e'"
  "handleExternalCommandEntry t e = Inr (Some e') \<Longrightarrow> kept e e'"
  "handleNotes t e = Some e' \<Longrightarrow> kept e e'"
  "handleTextEntry t e = Some e' \<Longrightarrow> kept e e'"
  "handleProgrammEntry t e = Some e' \<Longrightarrow> kept e e'"
  subgoal by (auto simp: kept_def handleStatusEntry_def host_field_def service_field_def Let_def split: prod.splits if_splits)
  subgoal by (auto simp: kept_def handleNotificationEntry_def host_field_def service_field_def Let_def split: prod.splits if_splits)
  subgoal by (auto simp: kept_def handlePassiveCheckEntry_def host_field_def service_field_def Let_def split: prod.splits if_splits)
  subgoal by (auto simp: kept_def handleExternalCommandEntry_def host_field_def service_field_def Let_def split: prod.splits if_splits option.splits)
  subgoal by (auto simp: kept_def handleNotes_def host_field_def service_field_def Let_def split: prod.splits if_splits)
  subgoal by (auto simp: kept_def handleTextEntry_def split: if_splits)
  subgoal by (auto simp: kept_def handleProgrammEntry_def split: if_splits)
  done

lemma classify_keeps:
  assumes "classify os t e = Some e'" and "le_logclass e \<in> {0..6}"
  shows "kept e e'"
proof -
  have u: "kept e (updateReferences os x) = kept e x" for x by (simp add: kept_def)
  have "kept e e" using assms(2) by (simp add: kept_def)
  with assms show ?thesis unfolding classify_def
    by (auto simp: u dest: handlers_keep split: option.splits sum.splits)
qed

definition log_line :: "string \<Rightarrow> bool" where
  "log_line line \<longleftrightarrow> 13 \<le> length (strip_newlines line) \<and> strip_newlines line ! 0 = CHR ''['' \<and> strip_newlines line ! 11 = CHR '']''"

lemma log_entry_of_keeps:
  assumes "log_entry_of os n line = Some e"
  shows "le_lineno e = n \<and> (if log_line line then le_logclass e \<in> {0..6} \<and> le_time e = atoi (take 10 (drop 1 (strip_newlines line)))
     else le_logclass e = -1 \<and> le_time e = 0)"
proof (cases "log_line line")
  case False
  with assms show ?thesis by (auto simp: log_entry_of_def log_line_def blank_entry_def Let_def)
next
  case True
  let ?m = "strip_newlines line"
  have "classify os (drop 13 ?m) ((blank_entry n ?m)\<lparr> le_time := atoi (take 10 (drop 1 ?m)), le_text := Some (drop 13 ?m) \<rparr>) = Some e"
    using assms True by (auto simp: log_entry_of_def log_line_def Let_def)
  from classify_keeps [OF this] show ?thesis using True by (simp add: kept_def blank_entry_def)
qed

text \<open>
  The beginnings of the messages with the class and the type an entry gets, as a table of its own; a message with
  none of them is one of the core's own life when it contains one of a few words, and an information otherwise.
\<close>

definition message_kinds :: "(string \<times> int \<times> log_entry_type) list" where
  "message_kinds =
     [(''INITIAL HOST STATE: '', LOGCLASS_STATE, STATE_HOST_INITIAL), (''CURRENT HOST STATE: '', LOGCLASS_STATE, STATE_HOST),
      (''HOST ALERT: '', LOGCLASS_ALERT, ALERT_HOST), (''HOST DOWNTIME ALERT: '', LOGCLASS_ALERT, DOWNTIME_ALERT_HOST),
      (''HOST ACKNOWLEDGE ALERT: '', LOGCLASS_ALERT, ACKNOWLEDGE_ALERT_HOST), (''HOST FLAPPING ALERT: '', LOGCLASS_ALERT, FLAPPING_HOST),
      (''HOST NOTIFICATION SUPPRESSED: '', LOGCLASS_INFO, NONE), (''HOST INFO: '', LOGCLASS_INFO, NONE),
      (''INITIAL SERVICE STATE: '', LOGCLASS_STATE, STATE_SERVICE_INITIAL), (''CURRENT SERVICE STATE: '', LOGCLASS_STATE, STATE_SERVICE),
      (''SERVICE ALERT: '', LOGCLASS_ALERT, ALERT_SERVICE), (''SERVICE DOWNTIME ALERT: '', LOGCLASS_ALERT, DOWNTIME_ALERT_SERVICE),
      (''SERVICE ACKNOWLEDGE ALERT: '', LOGCLASS_ALERT, ACKNOWLEDGE_ALERT_SERVICE), (''SERVICE FLAPPING ALERT: '', LOGCLASS_ALERT, FLAPPING_SERVICE),
      (''SERVICE NOTIFICATION SUPPRESSED: '', LOGCLASS_INFO, NONE), (''SERVICE INFO: '', LOGCLASS_INFO, NONE),
      (''TIMEPERIOD TRANSITION: '', LOGCLASS_STATE, TIMEPERIOD_TRANSITION),
      (''HOST NOTIFICATION: '', LOGCLASS_NOTIFICATION, NONE), (''SERVICE NOTIFICATION: '', LOGCLASS_NOTIFICATION, NONE),
      (''PASSIVE SERVICE CHECK: '', LOGCLASS_PASSIVECHECK, NONE), (''PASSIVE HOST CHECK: '', LOGCLASS_PASSIVECHECK, NONE),
      (''EXTERNAL COMMAND: '', LOGCLASS_COMMAND, NONE), (''SERVICE NOTE: '', LOGCLASS_INFO, NONE), (''HOST NOTE: '', LOGCLASS_INFO, NONE),
      (''LOG VERSION: 2.0'', LOGCLASS_PROGRAM, LOG_VERSION), (''logging initial states'', LOGCLASS_PROGRAM, LOG_INITIAL_STATES),
      (''logging intitial states'', LOGCLASS_PROGRAM, LOG_INITIAL_STATES)]"

definition message_kind :: "string \<Rightarrow> int \<times> log_entry_type" where
  "message_kind t =
     (case List.find (\<lambda>(beginning, _). has_prefix beginning t) message_kinds of
        Some (_, k) \<Rightarrow> k
      | None \<Rightarrow> if list_ex (c_strstr t) [''starting...'', ''shutting down...'', ''Bailing out'', ''standby mode...''] then (LOGCLASS_PROGRAM, CORE_STOPPING)
                else (if c_strstr t ''restarting...'' then LOGCLASS_PROGRAM else LOGCLASS_INFO, NONE))"

lemma type_simps [simp]:
  "le_type (state_fields f s e) = le_type e" "le_type (comment_fields s e) = le_type e"
  "le_type (acknowledge_fields s e) = le_type e" "le_type (classified c ty x e) = ty"
  "le_type (updateReferences os e) = le_type e" "le_type (snd (host_field s e)) = le_type e"
  "le_type (snd (service_field s e)) = le_type e"
  "le_logclass (snd (host_field s e)) = le_logclass e" "le_logclass (snd (service_field s e)) = le_logclass e"
  by (simp_all add: state_fields_def comment_fields_def acknowledge_fields_def classified_def updateReferences_def
      host_field_def service_field_def Let_def split: prod.splits option.splits)

definition class_and_type :: "log_entry \<Rightarrow> int \<times> log_entry_type" where
  "class_and_type e = (le_logclass e, le_type e)"

lemma has_prefix_append: "has_prefix b t \<longleftrightarrow> (\<exists>r. t = b @ r)"
  by (metis append_eq_conv_conj has_prefix_def)

lemma message_kind_of:
  assumes "(b, k) \<in> set message_kinds"
  shows "message_kind (b @ r) = k"
  using assms unfolding message_kinds_def set_simps
  by (elim insertE emptyE Pair_inject) (simp_all add: message_kind_def message_kinds_def has_prefix_def)

lemma status_class:
  assumes "(b, k) \<in> set (take 17 message_kinds)" and "le_type e = NONE"
  shows "\<exists>e'. handleStatusEntry (b @ r) e = Some e' \<and> class_and_type e' = k"
  using assms(2) assms(1)[unfolded message_kinds_def, simplified]
  by (elim disjE conjE) (auto simp: handleStatusEntry_def has_prefix_def class_and_type_def Let_def case_prod_unfold)

lemma other_class:
  assumes "(b, k) \<in> set (drop 17 message_kinds)" and "classify os (b @ r) e = Some e'" and "le_type e = NONE" and "le_logclass e = 0"
  shows "class_and_type e' = k"
  using assms(2,3,4) assms(1)[unfolded message_kinds_def, simplified]
  by (elim disjE conjE) (auto simp: classify_def handleStatusEntry_def handleNotificationEntry_def handlePassiveCheckEntry_def
    handleExternalCommandEntry_def handleNotes_def handleTextEntry_def
    has_prefix_def class_and_type_def Let_def case_prod_unfold split: option.splits if_splits)

lemma no_kind_class:
  assumes "\<not> list_ex (\<lambda>(b, _). has_prefix b t) message_kinds"
  shows "classify os t e = (case handleProgrammEntry t e of Some e' \<Rightarrow> Some e' | None \<Rightarrow> Some e)"
  using assms by (simp add: message_kinds_def classify_def handleStatusEntry_def handleNotificationEntry_def handlePassiveCheckEntry_def
      handleExternalCommandEntry_def handleNotes_def handleTextEntry_def Let_def case_prod_unfold)

lemma classify_kind:
  assumes "classify os t e = Some e'" and "le_type e = NONE" and "le_logclass e = 0"
  shows "class_and_type e' = message_kind t"
proof (cases "list_ex (\<lambda>(b, _). has_prefix b t) message_kinds")
  case True
  then obtain b k r where bk: "(b, k) \<in> set message_kinds" and t: "t = b @ r"
    by (auto simp: list_ex_iff has_prefix_append)
  then have "(b, k) \<in> set (take 17 message_kinds) \<or> (b, k) \<in> set (drop 17 message_kinds)"
    by (metis Un_iff append_take_drop_id set_append)
  then show ?thesis
  proof
    assume "(b, k) \<in> set (take 17 message_kinds)"
    from status_class [OF this assms(2), of r] assms(1) show ?thesis
      by (auto simp: message_kind_of [OF bk] t classify_def class_and_type_def)
  next
    assume "(b, k) \<in> set (drop 17 message_kinds)"
    from other_class [OF this assms(1)[unfolded t] assms(2,3)] show ?thesis by (simp add: message_kind_of [OF bk] t)
  qed
next
  case False
  then have "List.find (\<lambda>(b, _). has_prefix b t) message_kinds = None"
    by (auto simp: find_None_iff list_ex_iff)
  with assms no_kind_class [OF False, of os e] show ?thesis
    by (auto simp: message_kind_def handleProgrammEntry_def class_and_type_def split: if_splits)
qed

lemma classify_undefined: "classify os t e = None \<longleftrightarrow> t = ''EXTERNAL COMMAND: ''"
proof
  assume "classify os t e = None"
  then have "handleExternalCommandEntry t e = Inl ()"
    by (auto simp: classify_def split: option.splits sum.splits)
  then have "has_prefix ''EXTERNAL COMMAND: '' t" "fst (field (snd (after_colon t))) = None"
    by (auto simp: handleExternalCommandEntry_def Let_def case_prod_unfold split: if_splits option.splits prod.splits)
  then show "t = ''EXTERNAL COMMAND: ''"
    by (auto simp: has_prefix_append after_colon_def next_token_def split: if_splits)
qed (simp add: classify_def handleStatusEntry_def handleNotificationEntry_def handlePassiveCheckEntry_def
    handleExternalCommandEntry_def has_prefix_def after_colon_def next_token_def)

definition log_text :: "string \<Rightarrow> string" where
  "log_text line = drop 13 (strip_newlines line)"

lemma log_entry_of_line:
  "log_entry_of os n line =
     (let e = blank_entry n (strip_newlines line)
      in if log_line line
         then classify os (log_text line) (e\<lparr> le_time := atoi (take 10 (drop 1 (strip_newlines line))), le_text := Some (log_text line) \<rparr>)
         else Some (e\<lparr> le_logclass := LOGCLASS_INVALID \<rparr>))"
  by (auto simp: log_entry_of_def log_line_def log_text_def Let_def)

lemma log_entry_of_none: "log_entry_of os n line = None \<longleftrightarrow> log_line line \<and> log_text line = ''EXTERNAL COMMAND: ''"
  by (simp add: log_entry_of_line classify_undefined Let_def)

lemma log_entry_of_kind:
  assumes "log_entry_of os n line = Some e" and "log_line line"
  shows "class_and_type e = message_kind (log_text line)"
  using assms by (auto simp: log_entry_of_line Let_def blank_entry_def intro: classify_kind)

lemma log_entry_of_undefined:
  assumes "log_entry_of os n line = None"
  shows "log_line line \<and> has_prefix ''EXTERNAL COMMAND: '' (drop 13 (strip_newlines line))"
  using assms by (simp add: log_entry_of_none log_text_def has_prefix_def)


section \<open>State messages\<close>

text \<open>A state message as the core writes it, of a host or, with a description, of a service.\<close>

definition state_message :: "string \<Rightarrow> int \<Rightarrow> string \<Rightarrow> string option \<Rightarrow> string \<Rightarrow> string \<Rightarrow> int \<Rightarrow> string \<Rightarrow> string" where
  "state_message kind time h d state state_type attempt output =
     ''['' @ show_int time @ ''] '' @ kind @ '': '' @ h @ '';'' @ (case d of None \<Rightarrow> [] | Some d' \<Rightarrow> d' @ '';'') @
       state @ '';'' @ state_type @ '';'' @ show_int attempt @ '';'' @ output @ [CHR 0x0A]"

definition no_semicolon :: "string \<Rightarrow> bool" where
  "no_semicolon s \<longleftrightarrow> CHR '';'' \<notin> set s"

lemma field_of: "no_semicolon s \<Longrightarrow> field (s @ CHR '';'' # r) = (Some s, r)"
  using next_token_word by (simp add: no_semicolon_def)

lemma save_field_of: "no_semicolon s \<Longrightarrow> save_next_token (s @ CHR '';'' # r) (CHR '';'') = (s, r)"
  by (simp add: save_next_token_def field_of)

lemma field_last: "no_semicolon s \<Longrightarrow> s \<noteq> [] \<Longrightarrow> field s = (Some s, [])"
  using next_token_last by (simp add: no_semicolon_def)

lemma show_int_no_semicolon: "no_semicolon (show_int i)"
proof -
  have "CHR '';'' \<notin> set (show_nat n)" for n
  proof
    assume "CHR '';'' \<in> set (show_nat n)"
    then have "c_isdigit (CHR '';'')" using show_nat_digits [of n] by (simp add: list_all_iff)
    then show False by (simp add: c_isdigit_def)
  qed
  then show ?thesis by (simp add: no_semicolon_def show_int_def)
qed

lemma strip_newlines_end:
  assumes "c_text s" and "s \<noteq> []" and "last s \<noteq> CHR 0x0A"
  shows "strip_newlines (s @ [CHR 0x0A]) = s"
  using assms by (cases s rule: rev_cases) (simp_all add: strip_newlines_def)

text \<open>
  The messages on the state of a host (without a description) and of a service, with the class and type of their
  entries; and what the names of the states mean, as the core numbers them.
\<close>

definition state_kinds :: "(string \<times> bool \<times> int \<times> log_entry_type) list" where
  "state_kinds =
     [(''HOST ALERT'', False, LOGCLASS_ALERT, ALERT_HOST), (''CURRENT HOST STATE'', False, LOGCLASS_STATE, STATE_HOST),
      (''INITIAL HOST STATE'', False, LOGCLASS_STATE, STATE_HOST_INITIAL),
      (''SERVICE ALERT'', True, LOGCLASS_ALERT, ALERT_SERVICE), (''CURRENT SERVICE STATE'', True, LOGCLASS_STATE, STATE_SERVICE),
      (''INITIAL SERVICE STATE'', True, LOGCLASS_STATE, STATE_SERVICE_INITIAL)]"

definition state_codes :: "bool \<Rightarrow> (string \<times> int) list" where
  "state_codes svc =
     (if svc then [(''OK'', 0), (''WARNING'', 1), (''CRITICAL'', 2), (''UNKNOWN'', 3), (''RECOVERY'', 0)]
      else [(''UP'', 0), (''DOWN'', 1), (''UNREACHABLE'', 2), (''RECOVERY'', 0)])"

lemma state_code_read:
  assumes "(state, code) \<in> set (state_codes svc)"
  shows "(if svc then serviceStateToInt else hostStateToInt) (Some state) = code"
  using assms by (cases svc) (auto simp: state_codes_def serviceStateToInt_def hostStateToInt_def state_letter_def)

lemma state_code_text: "(state, code) \<in> set (state_codes svc) \<Longrightarrow> no_semicolon state \<and> c_text state"
  by (auto simp: state_codes_def no_semicolon_def split: if_splits)

lemma state_kind_handled:
  assumes "(kind, svc, cls, ty) \<in> set state_kinds" and "no_semicolon h" and "\<And>d'. d = Some d' \<Longrightarrow> no_semicolon d'" and "svc = (d \<noteq> None)"
    and "le_svc_desc e = None"
  shows "handleStatusEntry (kind @ '': '' @ h @ '';'' @ (case d of None \<Rightarrow> [] | Some d' \<Rightarrow> d' @ '';'') @ r) e =
     Some (state_fields (if svc then serviceStateToInt else hostStateToInt) r
       (classified cls ty (Some kind) (e\<lparr> le_host_name := Some h, le_svc_desc := d \<rparr>)))"
proof -
  have c: "after_colon (kind @ '': '' @ s) = (Some kind, s)" for s
    using assms(1) by (auto simp: state_kinds_def after_colon_def next_token_def)
  have hf: "host_field (h @ '';'' @ s) e' = (s, e'\<lparr> le_host_name := Some h \<rparr>)" for s e'
    using assms(2) by (simp add: host_field_def field_of)
  have sf: "service_field (d' @ '';'' @ s) e' = (s, e'\<lparr> le_svc_desc := Some d' \<rparr>)" if "d = Some d'" for s e' d'
    using assms(3) [OF that] by (simp add: service_field_def field_of)
  have none: "e\<lparr> le_host_name := x, le_svc_desc := None \<rparr> = e\<lparr> le_host_name := x \<rparr>" for x
    using assms(5) by (cases e) simp
  show ?thesis
  proof (cases d)
    case None
    with assms(1,4) have "kind \<in> {''HOST ALERT'', ''CURRENT HOST STATE'', ''INITIAL HOST STATE''}" "\<not> svc"
      "(cls, ty) = (if hd kind = CHR ''H'' then (LOGCLASS_ALERT, ALERT_HOST) else if hd kind = CHR ''I''
        then (LOGCLASS_STATE, STATE_HOST_INITIAL) else (LOGCLASS_STATE, STATE_HOST))"
      by (auto simp: state_kinds_def)
    then show ?thesis unfolding handleStatusEntry_def c None option.case append.append_Nil hf Let_def prod.case none
      by (auto simp: has_prefix_def)
  next
    case (Some d')
    have svc: "svc" using Some assms(4) by simp
    have k: "(if hd (kind @ '': '' @ x) = CHR ''S'' then classified LOGCLASS_ALERT ALERT_SERVICE t e'
        else if hd (kind @ '': '' @ x) = CHR ''I'' then classified LOGCLASS_STATE STATE_SERVICE_INITIAL t e'
        else classified LOGCLASS_STATE STATE_SERVICE t e') = classified cls ty t e'" for x t e'
      using assms(1) svc by (auto simp: state_kinds_def)
    have pre: "\<not> has_prefix ''INITIAL HOST STATE: '' (kind @ x)" "\<not> has_prefix ''CURRENT HOST STATE: '' (kind @ x)"
      "\<not> has_prefix ''HOST ALERT: '' (kind @ x)" "\<not> has_prefix ''HOST DOWNTIME ALERT: '' (kind @ x)"
      "\<not> has_prefix ''HOST ACKNOWLEDGE ALERT: '' (kind @ x)" "\<not> has_prefix ''HOST FLAPPING ALERT: '' (kind @ x)"
      "\<not> has_prefix ''HOST NOTIFICATION SUPPRESSED: '' (kind @ x)" "\<not> has_prefix ''HOST INFO: '' (kind @ x)" for x
      using assms(1) svc by (auto simp: state_kinds_def has_prefix_def)
    have yes: "has_prefix ''INITIAL SERVICE STATE: '' (kind @ '': '' @ x) \<or> has_prefix ''CURRENT SERVICE STATE: '' (kind @ '': '' @ x) \<or>
        has_prefix ''SERVICE ALERT: '' (kind @ '': '' @ x)" for x
      using assms(1) svc by (auto simp: state_kinds_def has_prefix_def)
    show ?thesis unfolding handleStatusEntry_def c Some option.case append.assoc hf sf [OF Some] Let_def prod.case k
      using svc by (simp only: pre yes simp_thms if_True if_False)
  qed
qed

lemma state_fields_of:
  assumes "no_semicolon state" and "no_semicolon state_type" and "in_int32 attempt" and "no_semicolon output" and "output \<noteq> []"
  shows "state_fields to_int (state @ CHR '';'' # state_type @ CHR '';'' # show_int attempt @ CHR '';'' # output) e =
     e\<lparr> le_state := to_int (Some state), le_state_type := Some state_type, le_attempt := attempt, le_check_output := Some output \<rparr>"
  using assms by (simp add: state_fields_def save_field_of field_of field_last show_int_no_semicolon atoi_show_int)

text \<open>
  C29. What the core writes about the state of a host or a service is read back: an alert, a current or an
  initial state becomes an entry of the class and type of its message that has the time, the host, the service
  (if it is about one), the number of the named state, the type of the state, the attempt and the output of the
  message, and refers to the host and the service the core has under these names.
\<close>

theorem state_messages_read_back:
  assumes "(kind, d \<noteq> None, cls, ty) \<in> set state_kinds" and "(state, code) \<in> set (state_codes (d \<noteq> None))"
    and "length (show_int time) = 10" and "in_int32 time" and "in_int32 attempt"
    and "list_all (\<lambda>s. no_semicolon s \<and> c_text s) (h # state_type # output # (case d of None \<Rightarrow> [] | Some d' \<Rightarrow> [d']))"
    and "output \<noteq> []" and "last output \<noteq> CHR 0x0A"
  shows "\<exists>e. log_entry_of os n (state_message kind time h d state state_type attempt output) = Some e \<and>
     le_lineno e = n \<and> le_time e = time \<and> le_logclass e = cls \<and> le_type e = ty \<and> le_text e = Some kind \<and>
     le_host_name e = Some h \<and> le_svc_desc e = d \<and> le_state e = code \<and>
     le_state_type e = Some state_type \<and> le_attempt e = attempt \<and> le_check_output e = Some output \<and>
     le_host e = find_host os h \<and> le_service e = Option.bind d (find_service os (Some h))"
proof -
  let ?r = "state @ CHR '';'' # state_type @ CHR '';'' # show_int attempt @ CHR '';'' # output"
  let ?t = "kind @ '': '' @ h @ '';'' @ (case d of None \<Rightarrow> [] | Some d' \<Rightarrow> d' @ '';'') @ ?r"
  let ?m = "''['' @ show_int time @ ''] '' @ ?t"
  have kd: "c_text kind" using assms(1) by (auto simp: state_kinds_def)
  have m: "strip_newlines (state_message kind time h d state state_type attempt output) = ?m"
    using strip_newlines_end [of ?m] assms(6-8) kd state_code_text [OF assms(2)]
    by (cases d) (simp_all add: state_message_def)
  have parts: "13 \<le> length ?m" "?m ! 0 = CHR ''[''" "?m ! 11 = CHR '']''" "take 10 (drop 1 ?m) = show_int time" "drop 13 ?m = ?t"
    using assms(3) by (simp_all add: nth_append numeral_eq_Suc)
  let ?e = "(blank_entry n ?m)\<lparr> le_time := atoi (show_int time), le_text := Some ?t \<rparr>"
  have "log_entry_of os n (state_message kind time h d state state_type attempt output) = classify os ?t ?e"
    unfolding log_entry_of_def m Let_def parts(4,5) using parts(1-3) by (simp only: linorder_not_less [symmetric] simp_thms if_False)
  moreover have "handleStatusEntry ?t ?e =
      Some (state_fields (if d \<noteq> None then serviceStateToInt else hostStateToInt) ?r
        (classified cls ty (Some kind) (?e\<lparr> le_host_name := Some h, le_svc_desc := d \<rparr>)))"
    using assms(6) by (intro state_kind_handled [OF assms(1)]) (auto simp: blank_entry_def)
  moreover have "state_fields f ?r e' = e'\<lparr> le_state := f (Some state), le_state_type := Some state_type, le_attempt := attempt,
      le_check_output := Some output \<rparr>" for f e'
    using assms(5-7) state_code_text [OF assms(2)] by (intro state_fields_of) simp_all
  ultimately have "log_entry_of os n (state_message kind time h d state state_type attempt output) =
      Some (updateReferences os ((classified cls ty (Some kind) (?e\<lparr> le_host_name := Some h, le_svc_desc := d \<rparr>))
        \<lparr> le_state := code, le_state_type := Some state_type, le_attempt := attempt, le_check_output := Some output \<rparr>))"
    using state_code_read [OF assms(2)] unfolding classify_def by (simp only: option.case)
  then show ?thesis
    using assms(4) by (cases d) (simp_all add: updateReferences_def classified_def atoi_show_int blank_entry_def)
qed

theorem state_messages_read_back_witness:
  "\<exists>e. log_entry_of \<lparr> find_host = (\<lambda>h. Some 1), find_service = (\<lambda>h d. Some 2), find_contact = (\<lambda>c. None), find_command = (\<lambda>c. None) \<rparr> 7
        (state_message ''SERVICE ALERT'' 1260722267 ''web'' (Some ''CPU load'') ''CRITICAL'' ''HARD'' 3 ''load: 99'') = Some e \<and>
     le_lineno e = 7 \<and> le_time e = 1260722267 \<and> le_logclass e = LOGCLASS_ALERT \<and> le_state e = 2 \<and>
     le_svc_desc e = Some ''CPU load'' \<and> le_attempt e = 3 \<and> le_service e = Some 2"
proof -
  have t: "length (show_int 1260722267) = 10" by (simp add: show_int_def show_nat.simps)
  show ?thesis
    using state_messages_read_back [of "''SERVICE ALERT''" "Some ''CPU load''" LOGCLASS_ALERT ALERT_SERVICE "''CRITICAL''" 2 1260722267 3
        "''web''" "''HARD''" "''load: 99''" "\<lparr> find_host = (\<lambda>h. Some 1), find_service = (\<lambda>h d. Some 2), find_contact = (\<lambda>c. None), find_command = (\<lambda>c. None) \<rparr>" 7]
    by (auto simp: state_kinds_def state_codes_def t in_int32_def no_semicolon_def)
qed

section \<open>Notifications\<close>

text \<open>
  A notification is understood in both orders of its columns: the entry is the same whether the
  state stands before the command or after it, as long as the state ends like a state and the command
  does not.
\<close>

theorem notification_order_does_not_matter:
  assumes "list_all no_semicolon [contact, h, d, state, command, output]" and "output \<noteq> []"
    and "serviceStateToInt (Some state) \<noteq> 4" and "serviceStateToInt (Some command) = 4"
  shows "handleNotificationEntry (''SERVICE NOTIFICATION: '' @ contact @ '';'' @ h @ '';'' @ d @ '';'' @ state @ '';'' @ command @ '';'' @ output) e =
     handleNotificationEntry (''SERVICE NOTIFICATION: '' @ contact @ '';'' @ h @ '';'' @ d @ '';'' @ command @ '';'' @ state @ '';'' @ output) e \<and>
     map_option le_state (handleNotificationEntry
       (''SERVICE NOTIFICATION: '' @ contact @ '';'' @ h @ '';'' @ d @ '';'' @ command @ '';'' @ state @ '';'' @ output) e) =
       Some (serviceStateToInt (Some state))"
proof -
  have c: "after_colon (''SERVICE NOTIFICATION: '' @ s) = (Some ''SERVICE NOTIFICATION'', s)" for s
    by (simp add: after_colon_def next_token_def)
  have p: "has_prefix ''SERVICE NOTIFICATION: '' (''SERVICE NOTIFICATION: '' @ s)" "hd (''SERVICE NOTIFICATION: '' @ s) = CHR ''S''" for s
    by (simp_all add: has_prefix_def)
  show ?thesis
    using assms unfolding handleNotificationEntry_def c
    by (simp only: p simp_thms if_True Let_def prod.case)
      (simp add: host_field_def service_field_def field_of save_field_of field_last)
qed

theorem notification_order_does_not_matter_witness:
  "handleNotificationEntry (''SERVICE NOTIFICATION: '' @ ''admin'' @ '';'' @ ''web'' @ '';'' @ ''CPU'' @ '';'' @ ''CUSTOM (WARNING)'' @ '';'' @ ''mail'' @ '';'' @ ''x'')
     (blank_entry 1 []) =
   handleNotificationEntry (''SERVICE NOTIFICATION: '' @ ''admin'' @ '';'' @ ''web'' @ '';'' @ ''CPU'' @ '';'' @ ''mail'' @ '';'' @ ''CUSTOM (WARNING)'' @ '';'' @ ''x'')
     (blank_entry 1 [])"
proof -
  have "serviceStateToInt (Some ''CUSTOM (WARNING)'') \<noteq> 4" "serviceStateToInt (Some ''mail'') = 4"
    by (simp_all add: serviceStateToInt_def state_letter_def)
  then show ?thesis
    using notification_order_does_not_matter [of "''admin''" "''web''" "''CPU''" "''CUSTOM (WARNING)''" "''mail''" "''x''" "blank_entry 1 []"]
    by (simp add: no_semicolon_def)
qed

end
