(* ===== verification/Std_Map.thy ===== *)
theory Std_Map
  imports Main
begin

text \<open>
  The maps of the standard library (\<open>std::map\<close>), as lists of pairs in the order of their keys: finding,
  inserting a new key, changing the value of one and erasing one, with the laws the components use.
\<close>

fun map_find :: "'k \<Rightarrow> ('k \<times> 'v) list \<Rightarrow> 'v option" where
  "map_find k [] = None"
| "map_find k ((j, v) # xs) = (if j = k then Some v else map_find k xs)"

fun map_insert :: "'k :: linorder \<Rightarrow> 'v \<Rightarrow> ('k \<times> 'v) list \<Rightarrow> ('k \<times> 'v) list" where
  "map_insert k v [] = [(k, v)]"
| "map_insert k v ((j, w) # xs) = (if k < j then (k, v) # (j, w) # xs else (j, w) # map_insert k v xs)"

definition map_update :: "'k \<Rightarrow> ('v \<Rightarrow> 'v) \<Rightarrow> ('k \<times> 'v) list \<Rightarrow> ('k \<times> 'v) list" where
  "map_update k f xs = map (\<lambda>(j, v). (j, if j = k then f v else v)) xs"

definition map_erase :: "'k \<Rightarrow> ('k \<times> 'v) list \<Rightarrow> ('k \<times> 'v) list" where
  "map_erase k xs = filter (\<lambda>(j, v). j \<noteq> k) xs"

lemma map_find_None: "map_find k xs = None \<longleftrightarrow> k \<notin> fst ` set xs"
  by (induction k xs rule: map_find.induct) auto

lemma map_find_in: "map_find k xs = Some v \<Longrightarrow> (k, v) \<in> set xs"
  by (induction k xs rule: map_find.induct) (auto split: if_splits)

lemma map_find_Some: "distinct (map fst xs) \<Longrightarrow> map_find k xs = Some v \<longleftrightarrow> (k, v) \<in> set xs"
  by (induction k xs rule: map_find.induct) force+

lemma set_map_insert: "set (map_insert k v xs) = insert (k, v) (set xs)"
  by (induction k v xs rule: map_insert.induct) auto

lemma length_map_insert: "length (map_insert k v xs) = Suc (length xs)"
  by (induction k v xs rule: map_insert.induct) auto

lemma map_insert_sorted:
  "sorted_wrt (<) (map fst xs) \<Longrightarrow> map_find k xs = None \<Longrightarrow> sorted_wrt (<) (map fst (map_insert k v xs))"
proof (induction k v xs rule: map_insert.induct)
  case (2 k v j w xs)
  then have "map_find k xs = None" "k \<noteq> j" by (auto split: if_splits)
  with 2 show ?case by (auto simp: set_map_insert)
qed simp

lemma sorted_distinct: "sorted_wrt (<) (map fst xs) \<Longrightarrow> distinct (map fst (xs :: ('k :: linorder \<times> 'v) list))"
  by (induction xs) auto

lemma map_update_keys [simp]: "map fst (map_update k f xs) = map fst xs"
  by (simp add: map_update_def case_prod_unfold)

lemma map_find_update: "map_find j (map_update k f xs) = map_option (if j = k then f else id) (map_find j xs)"
  by (induction xs) (auto simp: map_update_def id_def)

lemma map_find_insert: "map_find k xs = None \<Longrightarrow> map_find j (map_insert k v xs) = (if j = k then Some v else map_find j xs)"
  by (induction k v xs rule: map_insert.induct) (auto split: if_splits)

lemma map_find_erase: "map_find j (map_erase k xs) = (if j = k then None else map_find j xs)"
  by (induction xs) (auto simp: map_erase_def)

lemma set_map_erase: "set (map_erase k xs) = {(j, v) \<in> set xs. j \<noteq> k}"
  by (auto simp: map_erase_def)

lemma map_erase_sorted: "sorted_wrt (<) (map fst xs) \<Longrightarrow> sorted_wrt (<) (map fst (map_erase k xs))"
  by (induction xs) (auto simp: map_erase_def)

end
