(* ===== verification/Log_Cache.thy ===== *)
theory Log_Cache
  imports Log_Entry Std_Map
begin

text \<open>
  The log files and the cache of their messages (\<open>src/Logfile.cc\<close>, \<open>src/Logfile.h\<close>, \<open>src/LogCache.cc\<close>,
  \<open>src/LogCache.h\<close>). A log file keeps the messages of the classes that have been read, in a map from time
  and line number; the cache keeps the files by the time of their first message and counts the messages
  of all of them. Both maps are lists in the order of their keys. The text of a file is a parameter of
  the operations that open it; it does not change while it is read. \<open>None\<close> is a line whose
  constructor is undefined (\<open>Log_Entry\<close>).
\<close>

unbundle bit_operations_syntax

section \<open>A log file\<close>

definition MAX_LOGLINE :: nat where
  "MAX_LOGLINE = 65536"

record logfile =
  lf_since :: int
  lf_watch :: bool
  lf_read_pos :: nat
  lf_lineno :: nat
  lf_entries :: "(64 word \<times> log_entry) list"
  lf_classes :: "32 word"

text \<open>The constructor: the time of the first line, 0 when the file cannot be read or is no log.\<close>

definition logfile_since :: "string option \<Rightarrow> int" where
  "logfile_since content =
     (case content of
        None \<Rightarrow> 0
      | Some s \<Rightarrow>
          if length s < 12 then 0
          else if s ! 0 \<noteq> CHR ''['' \<or> s ! 11 \<noteq> CHR '']'' then 0
          else atoi (take 10 (drop 1 s)))"

definition new_logfile :: "string option \<Rightarrow> bool \<Rightarrow> logfile" where
  "new_logfile content watch =
     \<lparr> lf_since = logfile_since content, lf_watch = watch, lf_read_pos = 0, lf_lineno = 0, lf_entries = [], lf_classes = 0 \<rparr>"

definition lf_flush :: "logfile \<Rightarrow> logfile" where
  "lf_flush lf = lf\<lparr> lf_entries := [], lf_classes := 0 \<rparr>"

definition numEntries :: "logfile \<Rightarrow> int" where
  "numEntries lf = int (length (lf_entries lf))"

definition class_bit :: "int \<Rightarrow> 32 word" where
  "class_bit cls = push_bit (nat cls) 1"

definition freeMessages :: "32 word \<Rightarrow> logfile \<Rightarrow> logfile" where
  "freeMessages classes lf =
     lf\<lparr> lf_entries := filter (\<lambda>(k, e). class_bit (le_logclass e) AND classes = 0) (lf_entries lf),
         lf_classes := lf_classes lf AND NOT classes \<rparr>"

text \<open>\<open>makeKey\<close> takes the line number as an \<open>unsigned\<close>.\<close>

definition makeKey :: "int \<Rightarrow> nat \<Rightarrow> 64 word" where
  "makeKey t lineno = push_bit 32 (word_of_int t) OR word_of_nat (lineno mod 2 ^ 32)"

definition processLogLine :: "objects \<Rightarrow> string \<Rightarrow> 32 word \<Rightarrow> logfile \<Rightarrow> (bool \<times> logfile) option" where
  "processLogLine os line classes lf =
     (case log_entry_of os (lf_lineno lf) line of
        None \<Rightarrow> None
      | Some e \<Rightarrow>
          if le_logclass e = LOGCLASS_INVALID then Some (False, lf)
          else if class_bit (le_logclass e) AND classes \<noteq> 0
          then let key = makeKey (le_time e) (lf_lineno lf)
               in if map_find key (lf_entries lf) = None
                  then Some (True, lf\<lparr> lf_entries := map_insert key e (lf_entries lf) \<rparr>)
                  else Some (False, lf)
          else Some (False, lf))"

section \<open>The cache\<close>

definition CHECK_MEM_CYCLE :: nat where
  "CHECK_MEM_CYCLE = 10000"

record log_cache =
  lc_max :: nat
  lc_num_at_last_check :: nat
  lc_num_cached :: int
  lc_files :: "(int \<times> logfile) list"
  lc_last_index_update :: int

definition lc_file :: "int \<Rightarrow> log_cache \<Rightarrow> logfile option" where
  "lc_file k c = map_find k (lc_files c)"

definition lc_update :: "int \<Rightarrow> (logfile \<Rightarrow> logfile) \<Rightarrow> log_cache \<Rightarrow> log_cache" where
  "lc_update k f c = c\<lparr> lc_files := map_update k f (lc_files c) \<rparr>"

definition forgetLogfiles :: "log_cache \<Rightarrow> log_cache" where
  "forgetLogfiles c = c\<lparr> lc_files := [], lc_num_cached := 0 \<rparr>"

definition scanLogfile :: "string option \<Rightarrow> bool \<Rightarrow> log_cache \<Rightarrow> log_cache" where
  "scanLogfile content watch c =
     (let lf = new_logfile content watch
      in if lf_since lf \<noteq> 0 \<and> map_find (lf_since lf) (lc_files c) = None
         then c\<lparr> lc_files := map_insert (lf_since lf) lf (lc_files c) \<rparr> else c)"

text \<open>The text of the current log file and the files of the archive, by name; \<open>None\<close> cannot be read.\<close>

definition updateLogfileIndex :: "int \<Rightarrow> string option \<Rightarrow> (string \<times> string option) list option \<Rightarrow> log_cache \<Rightarrow> log_cache" where
  "updateLogfileIndex now current archive c =
     (let c1 = scanLogfile current True (c\<lparr> lc_last_index_update := now \<rparr>)
      in case archive of
           None \<Rightarrow> c1
         | Some files \<Rightarrow> foldl (\<lambda>c (name, content). if take 1 name \<noteq> ''.'' then scanLogfile content False c else c) c1 files)"

definition new_log_cache :: "nat \<Rightarrow> int \<Rightarrow> string option \<Rightarrow> (string \<times> string option) list option \<Rightarrow> log_cache" where
  "new_log_cache mx now current archive =
     updateLogfileIndex now current archive
       \<lparr> lc_max = mx, lc_num_at_last_check = 0, lc_num_cached = 0, lc_files = [], lc_last_index_update = 0 \<rparr>"

definition setMaxCachedMessages :: "nat \<Rightarrow> log_cache \<Rightarrow> log_cache" where
  "setMaxCachedMessages m c = (if m \<noteq> lc_max c then c\<lparr> lc_max := m \<rparr> else c)"

definition logCachePreChecks ::
  "int \<Rightarrow> int \<Rightarrow> string option \<Rightarrow> (string \<times> string option) list option \<Rightarrow> log_cache \<Rightarrow> bool \<times> log_cache" where
  "logCachePreChecks last_log_rotation now current archive c =
     (if lc_files c = [] then (False, c)
      else if lc_last_index_update c < last_log_rotation
      then (True, updateLogfileIndex now current archive (forgetLogfiles c))
      else (True, c))"

section \<open>Freeing memory\<close>

text \<open>
  The counter is an \<open>int\<close> that is compared as an unsigned number. Each of the three loops frees messages of
  the files that qualify, one file after the other, until the count fits.
\<close>

definition fits :: "nat \<Rightarrow> int \<Rightarrow> bool" where
  "fits mx num \<longleftrightarrow> num mod 2 ^ 64 \<le> int mx"

fun free_until ::
  "(logfile \<Rightarrow> bool) \<Rightarrow> (logfile \<Rightarrow> logfile) \<Rightarrow> nat \<Rightarrow> int \<Rightarrow> (int \<times> logfile) list \<Rightarrow> bool \<times> int \<times> (int \<times> logfile) list" where
  "free_until P f mx num [] = (False, num, [])"
| "free_until P f mx num ((s, lf) # fs) =
     (if P lf
      then let num' = wrap32 (num - (numEntries lf - numEntries (f lf)))
           in if fits mx num' then (True, num', (s, f lf) # fs)
              else let (fit, n, fs') = free_until P f mx num' fs in (fit, n, (s, f lf) # fs')
      else let (fit, n, fs') = free_until P f mx num fs in (fit, n, (s, lf) # fs'))"

definition has_entries :: "logfile \<Rightarrow> bool" where
  "has_entries lf \<longleftrightarrow> 0 < numEntries lf"

definition irrelevant_entries :: "32 word \<Rightarrow> logfile \<Rightarrow> bool" where
  "irrelevant_entries classes lf \<longleftrightarrow> 0 < numEntries lf \<and> lf_classes lf AND NOT classes \<noteq> 0"

definition handleNewMessage :: "int \<Rightarrow> 32 word \<Rightarrow> log_cache \<Rightarrow> log_cache" where
  "handleNewMessage k classes c0 =
     (let num = wrap32 (lc_num_cached c0 + 1);
          c = c0\<lparr> lc_num_cached := num \<rparr>
      in if fits (lc_max c) num then c
         else if num mod 2 ^ 64 < int (lc_num_at_last_check c + CHECK_MEM_CYCLE) mod 2 ^ 64 then c
         else
           let older = takeWhile (\<lambda>(s, _). s \<noteq> k) (lc_files c);
               rest = dropWhile (\<lambda>(s, _). s \<noteq> k) (lc_files c);
               (fit1, n1, older') = free_until has_entries lf_flush (lc_max c) num older;
               (fit2, n2, rest') = (if fit1 then (True, n1, rest)
                 else free_until (irrelevant_entries classes) (freeMessages (NOT classes)) (lc_max c) n1 rest);
               (fit3, n3, newer') = (if fit2 then (True, n2, drop 1 rest')
                 else free_until has_entries lf_flush (lc_max c) n2 (drop 1 rest'))
           in c\<lparr> lc_num_cached := n3, lc_num_at_last_check := nat (n3 mod 2 ^ 64),
                 lc_files := older' @ take 1 rest' @ newer' \<rparr>)"

section \<open>Reading\<close>

text \<open>\<open>fgets\<close> with a buffer of \<open>n\<close> bytes.\<close>

definition fgets :: "nat \<Rightarrow> string \<Rightarrow> (string \<times> string) option" where
  "fgets n s =
     (if s = [] then None
      else let k = min (n - 1) (min (length s) (length (takeWhile (\<lambda>c. c \<noteq> CHR 0x0A) s) + 1)) in Some (take k s, drop k s))"

text \<open>
  \<open>loadRange\<close> on what is left of the file; \<open>stop n\<close> says whether the termination flag is seen after line \<open>n\<close>.
  It returns what it has not read.
\<close>

function loadRange ::
  "objects \<Rightarrow> nat \<Rightarrow> (nat \<Rightarrow> bool) \<Rightarrow> int \<Rightarrow> 32 word \<Rightarrow> 32 word \<Rightarrow> string \<Rightarrow> log_cache \<Rightarrow> (log_cache \<times> string) option" where
  "loadRange os max_lines stop k missing classes s c =
     (case fgets MAX_LOGLINE s of
        None \<Rightarrow> Some (c, s)
      | Some (line, r) \<Rightarrow>
          (case lc_file k c of
             None \<Rightarrow> None
           | Some lf0 \<Rightarrow>
               if max_lines \<le> lf_lineno lf0 then Some (c, r)
               else let lf = lf0\<lparr> lf_lineno := lf_lineno lf0 + 1 \<rparr>
                    in case processLogLine os line missing lf of
                         None \<Rightarrow> None
                       | Some (stored, lf') \<Rightarrow>
                           (let c1 = lc_update k (\<lambda>_. lf') c;
                                c2 = (if stored then handleNewMessage k classes c1 else c1)
                            in if stop (lf_lineno lf) then Some (c2, r)
                               else loadRange os max_lines stop k missing classes r c2)))"
  by pat_completeness auto
termination
  by (relation "measure (\<lambda>(_, _, _, _, _, _, s, _). length s)")
    (auto simp: fgets_def MAX_LOGLINE_def Let_def split: if_splits)

declare loadRange.simps [simp del]

definition load ::
  "objects \<Rightarrow> nat \<Rightarrow> (nat \<Rightarrow> bool) \<Rightarrow> string option \<Rightarrow> int \<Rightarrow> 32 word \<Rightarrow> log_cache \<Rightarrow> log_cache option" where
  "load os max_lines stop content k classes c =
     (case lc_file k c of
        None \<Rightarrow> None
      | Some lf \<Rightarrow>
          let missing = classes AND NOT (lf_classes lf)
          in if lf_watch lf
             then (case content of
                     None \<Rightarrow> Some c
                   | Some s \<Rightarrow>
                       let pos = (if lf_lineno lf = 0 then 0 else lf_read_pos lf);
                           c0 = lc_update k (\<lambda>f. f\<lparr> lf_read_pos := pos \<rparr>) c
                       in case (if lf_classes lf \<noteq> 0
                                then map_option (\<lambda>(c', r). lc_update k (\<lambda>f. f\<lparr> lf_read_pos := length s - length r \<rparr>) c')
                                       (loadRange os max_lines stop k (lf_classes lf) classes (drop pos s) c0)
                                else Some c0) of
                            None \<Rightarrow> None
                          | Some c1 \<Rightarrow>
                              if missing \<noteq> 0
                              then map_option (\<lambda>(c', r). lc_update k (\<lambda>f. f\<lparr> lf_classes := lf_classes f OR missing,
                                       lf_read_pos := length s - length r \<rparr>) c')
                                     (loadRange os max_lines stop k missing classes s (lc_update k (\<lambda>f. f\<lparr> lf_lineno := 0 \<rparr>) c1))
                              else Some c1)
             else if missing = 0 then Some c
             else (case content of
                     None \<Rightarrow> Some c
                   | Some s \<Rightarrow>
                       map_option (\<lambda>(c', _). lc_update k (\<lambda>f. f\<lparr> lf_classes := lf_classes f OR missing \<rparr>) c')
                         (loadRange os max_lines stop k missing classes s (lc_update k (\<lambda>f. f\<lparr> lf_lineno := 0 \<rparr>) c))))"

section \<open>Answering a query\<close>

text \<open>
  The rows of one file, forward and backward; \<open>consume\<close> is \<open>processDataset\<close> on a state, which says whether to
  go on. The result says whether the next file is to be looked at.
\<close>

fun answer_entries :: "(log_entry \<Rightarrow> bool) \<Rightarrow> (log_entry \<Rightarrow> 's \<Rightarrow> bool \<times> 's) \<Rightarrow> (64 word \<times> log_entry) list \<Rightarrow> 's \<Rightarrow> bool \<times> 's" where
  "answer_entries beyond consume [] st = (True, st)"
| "answer_entries beyond consume ((_, e) # es) st =
     (if beyond e then (False, st)
      else case consume e st of
             (False, st') \<Rightarrow> (False, st')
           | (True, st') \<Rightarrow> answer_entries beyond consume es st')"

definition answerQuery :: "int \<Rightarrow> int \<Rightarrow> (log_entry \<Rightarrow> 's \<Rightarrow> bool \<times> 's) \<Rightarrow> logfile \<Rightarrow> 's \<Rightarrow> bool \<times> 's" where
  "answerQuery since until consume lf st =
     answer_entries (\<lambda>e. until \<le> le_time e) consume (dropWhile (\<lambda>(k, _). k < makeKey since 0) (lf_entries lf)) st"

definition answerQueryReverse :: "int \<Rightarrow> int \<Rightarrow> (log_entry \<Rightarrow> 's \<Rightarrow> bool \<times> 's) \<Rightarrow> logfile \<Rightarrow> 's \<Rightarrow> bool \<times> 's" where
  "answerQueryReverse since until consume lf st =
     answer_entries (\<lambda>e. le_time e < since) consume (rev (takeWhile (\<lambda>(k, _). k \<le> makeKey until 999999999) (lf_entries lf))) st"

end
