(* ===== verification/Log_Loading.thy ===== *)
theory Log_Loading
  imports Log_Cache
begin

text \<open>
  What loading a log file does (\<open>Log_Cache\<close>). Whatever memory is freed on the way, the messages of the
  requested classes are all there afterwards, and nothing else is than messages of the file; the count of
  the cache is the number of the messages it holds.
\<close>

unbundle bit_operations_syntax

section \<open>The count\<close>

definition total_entries :: "(int \<times> logfile) list \<Rightarrow> int" where
  "total_entries fs = (\<Sum>(s, lf)\<leftarrow>fs. numEntries lf)"

lemma total_entries_simps [simp]:
  "total_entries [] = 0" "total_entries ((s, lf) # fs) = numEntries lf + total_entries fs"
  "total_entries (fs @ gs) = total_entries fs + total_entries gs"
  by (simp_all add: total_entries_def)

lemma wrap32_cong: "2 ^ 32 dvd x - y \<Longrightarrow> wrap32 x = wrap32 y"
proof -
  assume "2 ^ 32 dvd x - y"
  then have "(x + 2 ^ 31) mod 2 ^ 32 = (y + 2 ^ 31) mod 2 ^ 32" by (simp add: mod_eq_dvd_iff)
  then show ?thesis by (simp add: wrap32_def)
qed

lemma wrap32_diff: "2 ^ 32 dvd wrap32 x - x"
proof -
  have "x - wrap32 x = (x + 2 ^ 31) - (x + 2 ^ 31) mod 2 ^ 32" by (simp add: wrap32_def)
  moreover have "2 ^ 32 dvd \<dots>" by (rule dvd_minus_mod)
  ultimately have "2 ^ 32 dvd x - wrap32 x" by metis
  then show ?thesis by (simp add: dvd_diff_commute)
qed

lemma wrap32_wrap32: "wrap32 (wrap32 x + y) = wrap32 (x + y)"
  using wrap32_diff [of x] by (intro wrap32_cong) simp

lemma wrap32_wrap32_diff: "wrap32 (wrap32 x - y) = wrap32 (x - y)"
  using wrap32_wrap32 [of x "- y"] by simp

lemma free_until_count:
  "free_until P f mx num fs = (fit, n, fs') \<Longrightarrow> num = wrap32 x \<Longrightarrow> n = wrap32 (x - (total_entries fs - total_entries fs'))"
proof (induction P f mx num fs arbitrary: x fit n fs' rule: free_until.induct)
  case (2 P f mx num s lf fs)
  show ?case
  proof (cases "P lf")
    case True
    let ?num = "wrap32 (num - (numEntries lf - numEntries (f lf)))" and ?x = "x - (numEntries lf - numEntries (f lf))"
    have num: "?num = wrap32 ?x" unfolding "2.prems"(2) by (rule wrap32_wrap32_diff)
    show ?thesis
    proof (cases "fits mx ?num")
      case True
      with \<open>P lf\<close> "2.prems"(1) num show ?thesis by (auto simp: Let_def algebra_simps)
    next
      case False
      obtain fit1 n1 fs1 where r: "free_until P f mx ?num fs = (fit1, n1, fs1)" by (cases "free_until P f mx ?num fs")
      with "2.IH"(1) [OF True refl False _ num] have "n1 = wrap32 (?x - (total_entries fs - total_entries fs1))" by simp
      with True False r "2.prems"(1) show ?thesis by (auto simp: Let_def algebra_simps)
    qed
  next
    case False
    obtain fit1 n1 fs1 where r: "free_until P f mx num fs = (fit1, n1, fs1)" by (cases "free_until P f mx num fs")
    with "2.IH"(2) [OF False _ "2.prems"(2)] have "n1 = wrap32 (x - (total_entries fs - total_entries fs1))" by simp
    with False r "2.prems"(1) show ?thesis by (auto simp: Let_def)
  qed
qed simp

lemma free_until_files:
  "free_until P f mx num fs = (fit, n, fs') \<Longrightarrow> list_all2 (\<lambda>(s, lf) (s', lf'). s' = s \<and> (lf' = lf \<or> lf' = f lf)) fs fs'"
proof (induction P f mx num fs arbitrary: fit n fs' rule: free_until.induct)
  case (2 P f mx num s lf fs)
  have refl: "list_all2 (\<lambda>(s, lf) (s', lf'). s' = s \<and> (lf' = lf \<or> lf' = f lf)) xs xs" for xs
    by (rule list_all2_refl) auto
  from 2 show ?case by (auto simp: Let_def refl split: if_splits prod.splits)
qed simp

text \<open>What a check of the memory does to a file.\<close>

definition freed :: "int \<Rightarrow> 32 word \<Rightarrow> int \<times> logfile \<Rightarrow> int \<times> logfile \<Rightarrow> bool" where
  "freed k classes g g' \<longleftrightarrow> fst g' = fst g \<and>
     (snd g' = snd g \<or> snd g' = freeMessages (NOT classes) (snd g) \<or> fst g \<noteq> k \<and> snd g' = lf_flush (snd g))"

lemma freed_refl: "freed k classes g g"
  by (simp add: freed_def)

lemma split_at: "takeWhile P xs @ dropWhile P xs = xs" by simp

lemma handleNewMessage_effect:
  assumes "wrap32 (lc_num_cached c + 1) = wrap32 (total_entries (lc_files c))" and "distinct (map fst (lc_files c))"
  shows "list_all2 (freed k classes) (lc_files c) (lc_files (handleNewMessage k classes c)) \<and>
     lc_num_cached (handleNewMessage k classes c) = wrap32 (total_entries (lc_files (handleNewMessage k classes c)))"
proof -
  let ?num = "wrap32 (lc_num_cached c + 1)"
  let ?older = "takeWhile (\<lambda>(s, _). s \<noteq> k) (lc_files c)" and ?rest = "dropWhile (\<lambda>(s, _). s \<noteq> k) (lc_files c)"
  define due where "due \<longleftrightarrow> \<not> fits (lc_max c) ?num \<and> \<not> ?num mod 2 ^ 64 < int (lc_num_at_last_check c + CHECK_MEM_CYCLE) mod 2 ^ 64"
  show ?thesis
  proof (cases due)
    case False
    then show ?thesis using assms
      by (auto simp: due_def handleNewMessage_def Let_def list_all2_refl freed_refl)
  next
    case True
    obtain fit1 n1 older' where 1: "free_until has_entries lf_flush (lc_max c) ?num ?older = (fit1, n1, older')"
      by (cases "free_until has_entries lf_flush (lc_max c) ?num ?older")
    obtain fit2 n2 rest' where 2: "(if fit1 then (True, n1, ?rest)
        else free_until (irrelevant_entries classes) (freeMessages (NOT classes)) (lc_max c) n1 ?rest) = (fit2, n2, rest')"
      by (cases "if fit1 then (True, n1, ?rest)
        else free_until (irrelevant_entries classes) (freeMessages (NOT classes)) (lc_max c) n1 ?rest")
    obtain fit3 n3 newer' where 3: "(if fit2 then (True, n2, drop 1 rest')
        else free_until has_entries lf_flush (lc_max c) n2 (drop 1 rest')) = (fit3, n3, newer')"
      by (cases "if fit2 then (True, n2, drop 1 rest') else free_until has_entries lf_flush (lc_max c) n2 (drop 1 rest')")
    have h: "handleNewMessage k classes c = c\<lparr> lc_num_cached := n3, lc_num_at_last_check := nat (n3 mod 2 ^ 64),
        lc_files := older' @ take 1 rest' @ newer' \<rparr>"
      using True 1 2 3 by (cases fit1; cases fit2) (auto simp: due_def handleNewMessage_def Let_def)
    let ?t = total_entries
    have c1: "n1 = wrap32 (?t (lc_files c) - (?t ?older - ?t older'))" using free_until_count [OF 1 assms(1)] .
    have c2: "n2 = wrap32 (?t (lc_files c) - (?t ?older - ?t older') - (?t ?rest - ?t rest'))"
      using 2 c1 free_until_count [of _ _ _ n1 ?rest fit2 n2 rest'] by (auto split: if_splits)
    have c3: "n3 = wrap32 (?t (lc_files c) - (?t ?older - ?t older') - (?t ?rest - ?t rest') - (?t (drop 1 rest') - ?t newer'))"
      using 3 c2 free_until_count [of _ _ _ n2 "drop 1 rest'" fit3 n3 newer'] by (auto split: if_splits)
    have "?t (lc_files c) = ?t ?older + ?t ?rest" by (metis split_at total_entries_simps(3))
    moreover have "?t rest' = ?t (take 1 rest') + ?t (drop 1 rest')" by (metis append_take_drop_id total_entries_simps(3))
    ultimately have count: "n3 = wrap32 (?t (older' @ take 1 rest' @ newer'))" using c3 by (simp add: algebra_simps)
    have r1: "list_all2 (freed k classes) ?older older'"
      by (rule list.rel_mono_strong [OF free_until_files [OF 1]])
        (auto simp: freed_def dest!: set_takeWhileD)
    have r2: "list_all2 (freed k classes) ?rest (take 1 rest' @ newer')"
    proof (cases fit1)
      case True
      with 2 3 have "take 1 rest' @ newer' = ?rest" by (auto simp del: append_take_drop_id) simp
      then show ?thesis by (simp add: list_all2_refl freed_refl)
    next
      case False
      with 2 have f2: "list_all2 (\<lambda>(s, lf) (s', lf'). s' = s \<and> (lf' = lf \<or> lf' = freeMessages (NOT classes) lf)) ?rest rest'"
        using free_until_files by auto
      have f3: "list_all2 (\<lambda>(s, lf) (s', lf'). s' = s \<and> (lf' = lf \<or> lf' = lf_flush lf)) (drop 1 rest') newer'"
        using 3 free_until_files [of has_entries lf_flush "lc_max c" n2 "drop 1 rest'" fit3 n3 newer']
        by (cases fit2) (auto intro!: list_all2_refl)
      show ?thesis
      proof (cases ?rest)
        case Nil
        with f2 f3 show ?thesis by simp
      next
        case (Cons g more)
        then have k: "fst g = k" using hd_dropWhile [of "\<lambda>(s, _). s \<noteq> k" "lc_files c"] by (cases g) auto
        have "distinct (map fst (?older @ ?rest))" using assms(2) by simp
        with Cons k have "k \<notin> fst ` set more" by simp
        then have other: "\<And>x. x \<in> set more \<Longrightarrow> fst x \<noteq> k" by blast
        from f2 Cons obtain g' more' where r: "rest' = g' # more'" and g': "fst g' = fst g" "snd g' = snd g \<or> snd g' = freeMessages (NOT classes) (snd g)"
          and m: "list_all2 (\<lambda>(s, lf) (s', lf'). s' = s \<and> (lf' = lf \<or> lf' = freeMessages (NOT classes) lf)) more more'"
          by (auto simp: list_all2_Cons1)
        have "list_all2 (freed k classes) more newer'"
          unfolding list_all2_conv_all_nth
        proof (intro conjI allI impI)
          show len: "length more = length newer'" using m f3 r by (auto dest!: list_all2_lengthD)
          fix i assume i: "i < length more"
          have len': "length more = length more'" using m by (rule list_all2_lengthD)
          have "fst (more' ! i) = fst (more ! i) \<and> (snd (more' ! i) = snd (more ! i) \<or> snd (more' ! i) = freeMessages (NOT classes) (snd (more ! i)))"
            using list_all2_nthD [OF m i] by (simp add: case_prod_unfold)
          moreover have "fst (newer' ! i) = fst (more' ! i) \<and> (snd (newer' ! i) = snd (more' ! i) \<or> snd (newer' ! i) = lf_flush (snd (more' ! i)))"
            using list_all2_nthD [OF f3, of i] i r len' by (simp add: case_prod_unfold)
          moreover have "fst (more ! i) \<noteq> k" using other i by simp
          moreover have "lf_flush (freeMessages (NOT classes) lf) = lf_flush lf" for lf by (simp add: lf_flush_def freeMessages_def)
          ultimately show "freed k classes (more ! i) (newer' ! i)" by (auto simp: freed_def)
        qed
        with Cons r g' show ?thesis by (auto simp: freed_def)
      qed
    qed
    from r1 r2 have "list_all2 (freed k classes) (?older @ ?rest) (older' @ take 1 rest' @ newer')" by (rule list_all2_appendI)
    with count show ?thesis by (simp add: h)
  qed
qed

section \<open>What a file holds\<close>

function lines_of :: "string \<Rightarrow> string list" where
  "lines_of s = (case fgets MAX_LOGLINE s of None \<Rightarrow> [] | Some (line, r) \<Rightarrow> line # lines_of r)"
  by pat_completeness auto
termination
  by (relation "measure length") (auto simp: fgets_def MAX_LOGLINE_def Let_def split: if_splits)

declare lines_of.simps [simp del]

text \<open>The messages of a file with their keys, as its lines give them.\<close>

definition message_at :: "objects \<Rightarrow> string list \<Rightarrow> nat \<Rightarrow> log_entry \<Rightarrow> bool" where
  "message_at os ls i e \<longleftrightarrow> i < length ls \<and> log_entry_of os (Suc i) (ls ! i) = Some e \<and> le_logclass e \<noteq> LOGCLASS_INVALID"

definition messages :: "objects \<Rightarrow> string list \<Rightarrow> (64 word \<times> log_entry) set" where
  "messages os ls = {(makeKey (le_time e) (Suc i), e) | i e. message_at os ls i e}"

definition in_classes :: "log_entry \<Rightarrow> 32 word \<Rightarrow> bool" where
  "in_classes e classes \<longleftrightarrow> class_bit (le_logclass e) AND classes \<noteq> 0"

lemma in_classes_bit: "le_logclass e \<in> {0..6} \<Longrightarrow> in_classes e cs \<longleftrightarrow> bit cs (nat (le_logclass e))"
proof -
  have "in_classes e cs \<longleftrightarrow> (\<exists>n. bit (class_bit (le_logclass e) AND cs) n)"
    unfolding in_classes_def by (metis bit_0_eq bit_eq_iff bot_apply bot_bool_def)
  then show "le_logclass e \<in> {0..6} \<Longrightarrow> in_classes e cs \<longleftrightarrow> bit cs (nat (le_logclass e))"
    by (auto simp: class_bit_def bit_simps)
qed

lemma in_classes_simps:
  assumes "le_logclass e \<in> {0..6}"
  shows "in_classes e (a AND b) \<longleftrightarrow> in_classes e a \<and> in_classes e b" "in_classes e (a OR b) \<longleftrightarrow> in_classes e a \<or> in_classes e b"
    "in_classes e (NOT a) \<longleftrightarrow> \<not> in_classes e a" "\<not> in_classes e 0"
proof -
  have "nat (le_logclass e) < 32" using assms by auto
  then show "in_classes e (a AND b) \<longleftrightarrow> in_classes e a \<and> in_classes e b" "in_classes e (a OR b) \<longleftrightarrow> in_classes e a \<or> in_classes e b"
    "in_classes e (NOT a) \<longleftrightarrow> \<not> in_classes e a" "\<not> in_classes e 0"
    using assms by (simp_all add: in_classes_bit bit_simps)
qed

lemma message_class: "message_at os ls i e \<Longrightarrow> le_logclass e \<in> {0..6}"
  using log_entry_of_keeps [of os "Suc i" "ls ! i" e] by (auto simp: message_at_def split: if_splits)

lemma makeKey_line: "n < 2 ^ 32 \<Longrightarrow> m < 2 ^ 32 \<Longrightarrow> makeKey t n = makeKey u m \<Longrightarrow> n = m"
proof -
  assume nm: "n < 2 ^ 32" "m < 2 ^ 32" and eq: "makeKey t n = makeKey u m"
  have low: "take_bit 32 (makeKey t n) = word_of_nat n" if "n < 2 ^ 32" for t n
  proof (rule bit_eqI)
    fix i
    have "n mod 2 ^ 32 = n" using that by simp
    moreover have "bit n i \<Longrightarrow> i < 32"
      using that by (metis bit_take_bit_iff take_bit_nat_eq_self)
    ultimately show "bit (take_bit 32 (makeKey t n)) i = bit (word_of_nat n :: 64 word) i"
      unfolding makeKey_def by (auto simp: bit_simps)
  qed
  from low [OF nm(1), of t] low [OF nm(2), of u] eq have "(word_of_nat n :: 64 word) = word_of_nat m" by simp
  then have "unat (word_of_nat n :: 64 word) = unat (word_of_nat m :: 64 word)" by simp
  with nm show "n = m" by (simp add: unat_of_nat)
qed

lemma messages_unique:
  assumes "length ls < 2 ^ 32" and "(k, e) \<in> messages os ls" and "(k, e') \<in> messages os ls"
  shows "e = e'"
proof -
  from assms(2,3) obtain i j where i: "message_at os ls i e" "k = makeKey (le_time e) (Suc i)"
    and j: "message_at os ls j e'" "k = makeKey (le_time e') (Suc j)" by (auto simp: messages_def)
  with assms(1) have "Suc i = Suc j" by (intro makeKey_line [of "Suc i" "Suc j" "le_time e" "le_time e'"]) (auto simp: message_at_def)
  with i j show ?thesis by (simp add: message_at_def)
qed

text \<open>Every line has a defined constructor.\<close>

definition defined_lines :: "objects \<Rightarrow> string list \<Rightarrow> bool" where
  "defined_lines os ls \<longleftrightarrow> (\<forall>l \<in> set ls. \<forall>n. log_entry_of os n l \<noteq> None)"

definition sound :: "objects \<Rightarrow> string list \<Rightarrow> logfile \<Rightarrow> bool" where
  "sound os ls lf \<longleftrightarrow> set (lf_entries lf) \<subseteq> messages os ls \<and> sorted_wrt (<) (map fst (lf_entries lf))"

text \<open>
  While a range is read: of the classes that the file has or the query asks for, it holds every message
  of the classes \<open>known\<close>, and those of the classes \<open>types\<close> in the first \<open>n\<close> lines.
\<close>

definition partial :: "objects \<Rightarrow> string list \<Rightarrow> 32 word \<Rightarrow> 32 word \<Rightarrow> 32 word \<Rightarrow> nat \<Rightarrow> logfile \<Rightarrow> bool" where
  "partial os ls known types classes n lf \<longleftrightarrow> sound os ls lf \<and>
     (\<forall>i e. message_at os ls i e \<longrightarrow> in_classes e (lf_classes lf OR classes) \<longrightarrow>
        in_classes e known \<or> in_classes e types \<and> i < n \<longrightarrow> (makeKey (le_time e) (Suc i), e) \<in> set (lf_entries lf))"

lemma partial_free:
  assumes "partial os ls known types classes n lf"
  shows "partial os ls known types classes n (freeMessages (NOT classes) lf)"
proof -
  have "in_classes e (lf_classes lf AND classes OR classes) \<longrightarrow> in_classes e (lf_classes lf OR classes) \<and> in_classes e classes"
    if "message_at os ls i e" for i e
    using in_classes_simps [OF message_class [OF that]] by auto
  moreover have "in_classes e classes \<longrightarrow> class_bit (le_logclass e) AND NOT classes = 0" if "message_at os ls i e" for i e
    using in_classes_simps(3) [OF message_class [OF that], of classes] by (auto simp: in_classes_def)
  moreover have "sorted_wrt (<) (map fst (filter P xs))" if "sorted_wrt (<) (map fst xs)" for P and xs :: "(64 word \<times> log_entry) list"
    using that by (induction xs) auto
  ultimately show ?thesis
    using assms by (auto simp: partial_def sound_def freeMessages_def)
qed

lemma partial_line:
  assumes p: "partial os ls known types classes n lf" and n: "n < length ls" "length ls < 2 ^ 32"
    and l: "lf_lineno lf = Suc n" and r: "processLogLine os (ls ! n) types lf = Some (stored, lf')"
  shows "partial os ls known types classes (Suc n) lf' \<and> lf_lineno lf' = Suc n \<and> lf_classes lf' = lf_classes lf \<and>
     lf_watch lf' = lf_watch lf \<and> lf_read_pos lf' = lf_read_pos lf \<and>
     numEntries lf' = numEntries lf + (if stored then 1 else 0)"
proof -
  from r l obtain e where e: "log_entry_of os (Suc n) (ls ! n) = Some e" by (auto simp: processLogLine_def split: option.splits)
  let ?k = "makeKey (le_time e) (Suc n)"
  have at: "message_at os ls n x \<longleftrightarrow> x = e \<and> le_logclass e \<noteq> -1" for x using e n(1) by (auto simp: message_at_def)
  have step: "partial os ls known types classes (Suc n) lf'"
    if o: "partial os ls known types classes n lf'" "message_at os ls n e \<longrightarrow> in_classes e types \<longrightarrow> (?k, e) \<in> set (lf_entries lf')"
  proof -
    have "(makeKey (le_time x) (Suc i), x) \<in> set (lf_entries lf')"
      if a: "message_at os ls i x" "in_classes x (lf_classes lf' OR classes)" "in_classes x known \<or> in_classes x types \<and> i < Suc n" for i x
    proof (cases "i = n")
      case True
      with a(1) have "x = e" using at by simp
      with True a o show ?thesis unfolding partial_def by blast
    next
      case False
      with a(3) have "in_classes x known \<or> in_classes x types \<and> i < n" by auto
      with a(1,2) o(1) show ?thesis unfolding partial_def by blast
    qed
    with o(1) show ?thesis unfolding partial_def by blast
  qed
  consider (invalid) "le_logclass e = -1" "stored = False" "lf' = lf"
    | (other) "le_logclass e \<noteq> -1" "\<not> in_classes e types" "stored = False" "lf' = lf"
    | (dup) v where "le_logclass e \<noteq> -1" "map_find ?k (lf_entries lf) = Some v" "stored = False" "lf' = lf"
    | (store) "le_logclass e \<noteq> -1" "map_find ?k (lf_entries lf) = None" "stored = True"
        "lf' = lf\<lparr> lf_entries := map_insert ?k e (lf_entries lf) \<rparr>"
  proof -
    have r2: "(if le_logclass e = -1 then Some (False, lf)
        else if in_classes e types
        then (if map_find ?k (lf_entries lf) = None then Some (True, lf\<lparr> lf_entries := map_insert ?k e (lf_entries lf) \<rparr>) else Some (False, lf))
        else Some (False, lf)) = Some (stored, lf')"
      using r unfolding processLogLine_def l e Let_def option.case in_classes_def .
    show thesis
      using r2 invalid other dup store by (cases "map_find ?k (lf_entries lf)") (simp_all split: if_splits)
  qed
  then show ?thesis
  proof cases
    case invalid
    with p step at l show ?thesis by simp
  next
    case other
    with p step l show ?thesis by simp
  next
    case (dup v)
    have "(?k, v) \<in> messages os ls" using map_find_in [OF dup(2)] p by (auto simp: partial_def sound_def)
    moreover have "(?k, e) \<in> messages os ls" using at dup(1) by (auto simp: messages_def)
    ultimately have "v = e" by (rule messages_unique [OF n(2)])
    with map_find_in [OF dup(2)] p step dup(3,4) l show ?thesis by simp
  next
    case store
    have "(?k, e) \<in> messages os ls" using at store(1) by (auto simp: messages_def)
    with p store(2) have "partial os ls known types classes n lf'"
      by (auto simp: store(4) partial_def sound_def set_map_insert map_insert_sorted)
    with step store(3,4) l show ?thesis by (simp add: set_map_insert numEntries_def length_map_insert)
  qed
qed

section \<open>Reading a range\<close>

definition cache_ok :: "log_cache \<Rightarrow> bool" where
  "cache_ok c \<longleftrightarrow> lc_num_cached c = wrap32 (total_entries (lc_files c)) \<and> sorted_wrt (<) (map fst (lc_files c))"

text \<open>A property of the other files that freeing keeps.\<close>

definition others :: "32 word \<Rightarrow> (int \<Rightarrow> logfile \<Rightarrow> bool) \<Rightarrow> int \<Rightarrow> log_cache \<Rightarrow> bool" where
  "others classes Q k c \<longleftrightarrow> (\<forall>(j, g) \<in> set (lc_files c). j \<noteq> k \<longrightarrow> Q j g)"

definition freeing_keeps :: "32 word \<Rightarrow> (int \<Rightarrow> logfile \<Rightarrow> bool) \<Rightarrow> bool" where
  "freeing_keeps classes Q \<longleftrightarrow> (\<forall>j g. Q j g \<longrightarrow> Q j (lf_flush g) \<and> Q j (freeMessages (NOT classes) g))"

lemma total_update:
  "distinct (map fst fs) \<Longrightarrow> map_find k fs = Some lf \<Longrightarrow>
     total_entries (map_update k f fs) = total_entries fs - numEntries lf + numEntries (f lf)"
proof (induction fs)
  case (Cons g fs)
  obtain j h where g: "g = (j, h)" by (cases g)
  show ?case
  proof (cases "j = k")
    case True
    with Cons.prems g have "map_update k f fs = fs" by (induction fs) (auto simp: map_update_def)
    with True Cons.prems g show ?thesis by (simp add: map_update_def)
  next
    case False
    with Cons g show ?thesis by (simp add: map_update_def)
  qed
qed simp

lemma freed_keys: "list_all2 (freed k classes) fs fs' \<Longrightarrow> map fst fs' = map fst fs"
  by (induction rule: list_all2_induct) (auto simp: freed_def)

lemma freed_file:
  "list_all2 (freed k classes) fs fs' \<Longrightarrow> map_find k fs = Some lf \<Longrightarrow>
     \<exists>lf'. map_find k fs' = Some lf' \<and> (lf' = lf \<or> lf' = freeMessages (NOT classes) lf)"
  by (induction rule: list_all2_induct) (auto simp: freed_def split: if_splits)

lemma freed_others:
  "list_all2 (freed k classes) fs fs' \<Longrightarrow> freeing_keeps classes Q \<Longrightarrow> \<forall>(j, g) \<in> set fs. j \<noteq> k \<longrightarrow> Q j g \<Longrightarrow> \<forall>(j, g) \<in> set fs'. j \<noteq> k \<longrightarrow> Q j g"
  by (induction rule: list_all2_induct) (auto simp: freed_def freeing_keeps_def)

lemma others_update: "others classes Q k (lc_update k f c) = others classes Q k c"
  by (auto simp: others_def lc_update_def map_update_def)

lemma lc_file_update [simp]: "lc_file k (lc_update k f c) = map_option f (lc_file k c)"
  by (simp add: lc_file_def lc_update_def map_find_update)

lemma cache_ok_update:
  assumes "cache_ok c" and "lc_file k c = Some lf" and "numEntries (f lf) = numEntries lf"
  shows "cache_ok (lc_update k f c)"
  using assms total_update [of "lc_files c" k lf f] sorted_distinct [of "lc_files c"]
  by (simp add: cache_ok_def lc_update_def lc_file_def)

lemma store_message:
  assumes c: "cache_ok c" and lf: "lc_file k c = Some lf" and n: "numEntries lf' = numEntries lf + 1"
    and Q: "others classes Q k c" "freeing_keeps classes Q"
  shows "\<exists>c2 lf2. handleNewMessage k classes (lc_update k (\<lambda>_. lf') c) = c2 \<and> cache_ok c2 \<and> others classes Q k c2 \<and>
     lc_file k c2 = Some lf2 \<and> (lf2 = lf' \<or> lf2 = freeMessages (NOT classes) lf')"
proof -
  let ?c1 = "lc_update k (\<lambda>_. lf') c"
  have keys: "map fst (lc_files ?c1) = map fst (lc_files c)" by (simp add: lc_update_def)
  have d: "distinct (map fst (lc_files c))" using c sorted_distinct by (auto simp: cache_ok_def)
  have "total_entries (lc_files ?c1) = total_entries (lc_files c) + 1"
    using total_update [OF d, of k lf "\<lambda>_. lf'"] lf n by (simp add: lc_update_def lc_file_def)
  then have "wrap32 (lc_num_cached ?c1 + 1) = wrap32 (total_entries (lc_files ?c1))"
    using c wrap32_wrap32 [of "total_entries (lc_files c)" 1] by (simp add: cache_ok_def lc_update_def)
  from handleNewMessage_effect [OF this, of k classes] keys d have
    eff: "list_all2 (freed k classes) (lc_files ?c1) (lc_files (handleNewMessage k classes ?c1))"
      "lc_num_cached (handleNewMessage k classes ?c1) = wrap32 (total_entries (lc_files (handleNewMessage k classes ?c1)))" by simp_all
  have f1: "map_find k (lc_files ?c1) = Some lf'" using lf by (simp add: lc_file_def [symmetric])
  have "others classes Q k ?c1" using Q(1) by (simp add: others_update)
  then have "others classes Q k (handleNewMessage k classes ?c1)"
    using freed_others [OF eff(1) Q(2)] by (simp add: others_def)
  with eff freed_file [OF eff(1) f1] freed_keys [OF eff(1)] keys c show ?thesis
    by (auto simp: cache_ok_def lc_file_def)
qed

lemma lines_of_Cons: "fgets MAX_LOGLINE s = Some (line, r) \<Longrightarrow> lines_of s = line # lines_of r"
  by (subst lines_of.simps) simp

lemma lines_of_None: "fgets MAX_LOGLINE s = None \<Longrightarrow> s = [] \<and> lines_of s = []"
  by (subst lines_of.simps) (auto simp: fgets_def Let_def split: if_splits)

lemma loadRange_reads:
  assumes ls: "length ls < 2 ^ 32" "length ls \<le> max_lines" "defined_lines os ls" and stop: "\<forall>n. \<not> stop n"
    and Q: "freeing_keeps classes Q"
  shows "cache_ok c \<Longrightarrow> others classes Q k c \<Longrightarrow> lc_file k c = Some lf \<Longrightarrow>
     partial os ls known types classes (lf_lineno lf) lf \<Longrightarrow> lines_of s = drop (lf_lineno lf) ls \<Longrightarrow> lf_lineno lf \<le> length ls \<Longrightarrow>
     \<exists>c' lf'. loadRange os max_lines stop k types classes s c = Some (c', []) \<and> cache_ok c' \<and> others classes Q k c' \<and>
       lc_file k c' = Some lf' \<and> partial os ls known types classes (length ls) lf' \<and> lf_lineno lf' = length ls \<and>
       lf_watch lf' = lf_watch lf \<and> lf_classes lf' \<in> {lf_classes lf, lf_classes lf AND classes}"
proof (induction "length s" arbitrary: s c lf rule: less_induct)
  case less
  let ?n = "lf_lineno lf"
  show ?case
  proof (cases "fgets MAX_LOGLINE s")
    case None
    with lines_of_None [OF None] less.prems have "?n = length ls" "s = []" by auto
    with None less.prems show ?thesis by (subst loadRange.simps) auto
  next
    case (Some lr)
    obtain line r where lr: "lr = (line, r)" by (cases lr)
    note g = Some [unfolded lr]
    have drop_eq: "drop ?n ls = line # lines_of r" using less.prems(5) lines_of_Cons [OF g] by simp
    then have n: "?n < length ls" "ls ! ?n = line" "lines_of r = drop (Suc ?n) ls"
      by (metis drop_all linorder_not_less list.distinct(1), metis nth_via_drop, metis drop_Suc list.sel(3) tl_drop)
    have shorter: "length r < length s" using g by (auto simp: fgets_def MAX_LOGLINE_def Let_def split: if_splits)
    let ?lf = "lf\<lparr> lf_lineno := ?n + 1 \<rparr>"
    have "line \<in> set ls" using n(1,2) nth_mem by blast
    then obtain e where "log_entry_of os (Suc ?n) line = Some e" using ls(3) by (auto simp: defined_lines_def)
    then have "processLogLine os line types ?lf \<noteq> None" by (auto simp: processLogLine_def Let_def)
    then obtain stored lf1 where pl: "processLogLine os line types ?lf = Some (stored, lf1)" by auto
    have part: "partial os ls known types classes ?n ?lf" using less.prems(4) by (simp add: partial_def sound_def)
    from partial_line [OF part n(1) ls(1) _ pl [folded n(2)]] have
      p1: "partial os ls known types classes (Suc ?n) lf1" "lf_lineno lf1 = Suc ?n" "lf_classes lf1 = lf_classes lf" "lf_watch lf1 = lf_watch lf"
        "numEntries lf1 = numEntries lf + (if stored then 1 else 0)" by (simp_all add: numEntries_def)
    let ?c1 = "lc_update k (\<lambda>_. lf1) c"
    have "\<exists>c2 lf2. (if stored then handleNewMessage k classes ?c1 else ?c1) = c2 \<and> cache_ok c2 \<and> others classes Q k c2 \<and>
        lc_file k c2 = Some lf2 \<and> (lf2 = lf1 \<or> lf2 = freeMessages (NOT classes) lf1)"
    proof (cases stored)
      case True
      with store_message [OF less.prems(1,3) _ less.prems(2) Q, of lf1] p1(5) show ?thesis by simp
    next
      case False
      with cache_ok_update [OF less.prems(1,3), of "\<lambda>_. lf1"] less.prems(2,3) p1(5) show ?thesis
        by (simp add: others_update)
    qed
    then obtain c2 lf2 where c2: "(if stored then handleNewMessage k classes ?c1 else ?c1) = c2" "cache_ok c2" "others classes Q k c2"
      "lc_file k c2 = Some lf2" "lf2 = lf1 \<or> lf2 = freeMessages (NOT classes) lf1" by blast
    have lf2: "partial os ls known types classes (Suc ?n) lf2" "lf_lineno lf2 = Suc ?n" "lf_watch lf2 = lf_watch lf"
      "lf_classes lf2 \<in> {lf_classes lf, lf_classes lf AND classes}"
      using c2(5) p1 partial_free [OF p1(1)] by (auto simp: freeMessages_def)
    have step: "loadRange os max_lines stop k types classes s c = loadRange os max_lines stop k types classes r c2"
      using g pl c2(1) less.prems(3) n(1) ls(2) stop by (subst loadRange.simps) (auto simp: Let_def)
    from less.hyps [OF shorter c2(2,3,4)] lf2 n obtain c' lf' where
      "loadRange os max_lines stop k types classes r c2 = Some (c', [])" "cache_ok c'" "others classes Q k c'"
      "lc_file k c' = Some lf'" "partial os ls known types classes (length ls) lf'" "lf_lineno lf' = length ls"
      "lf_watch lf' = lf_watch lf2" "lf_classes lf' \<in> {lf_classes lf2, lf_classes lf2 AND classes}" by auto
    with step lf2(3,4) show ?thesis by (auto simp: and.assoc)
  qed
qed

section \<open>Loading a file\<close>

definition complete_to :: "objects \<Rightarrow> string list \<Rightarrow> nat \<Rightarrow> logfile \<Rightarrow> bool" where
  "complete_to os ls n lf \<longleftrightarrow>
     (\<forall>i e. message_at os ls i e \<longrightarrow> i < n \<longrightarrow> in_classes e (lf_classes lf) \<longrightarrow> (makeKey (le_time e) (Suc i), e) \<in> set (lf_entries lf))"

text \<open>
  A file of the archive holds every message of the classes it has read. The current file does so for the
  lines it has read, and what follows its position is what follows these lines.
\<close>

definition start_pos :: "logfile \<Rightarrow> nat" where
  "start_pos lf = (if lf_lineno lf = 0 then 0 else lf_read_pos lf)"

definition file_ready :: "objects \<Rightarrow> string \<Rightarrow> logfile \<Rightarrow> bool" where
  "file_ready os s lf \<longleftrightarrow> sound os (lines_of s) lf \<and>
     (if lf_watch lf
      then lines_of (drop (start_pos lf) s) = drop (lf_lineno lf) (lines_of s) \<and> lf_lineno lf \<le> length (lines_of s) \<and>
        complete_to os (lines_of s) (lf_lineno lf) lf
      else complete_to os (lines_of s) (length (lines_of s)) lf)"

definition cache_ready :: "objects \<Rightarrow> (int \<Rightarrow> string) \<Rightarrow> log_cache \<Rightarrow> bool" where
  "cache_ready os contents c \<longleftrightarrow> cache_ok c \<and> (\<forall>(j, g) \<in> set (lc_files c). file_ready os (contents j) g)"

lemma file_ready_freed: "freeing_keeps classes (\<lambda>j g. file_ready os (contents j) g)"
  unfolding freeing_keeps_def
proof (intro allI impI conjI)
  fix j g
  assume r: "file_ready os (contents j) g"
  let ?ls = "lines_of (contents j)"
  have "\<not> in_classes e 0" for e by (simp add: in_classes_def)
  with r show "file_ready os (contents j) (lf_flush g)"
    by (auto simp: file_ready_def lf_flush_def sound_def complete_to_def start_pos_def split: if_splits)
  have sorted: "sorted_wrt (<) (map fst (filter P xs))" if "sorted_wrt (<) (map fst xs)" for P and xs :: "(64 word \<times> log_entry) list"
    using that by (induction xs) auto
  have c: "complete_to os ?ls n (freeMessages (NOT classes) g)" if "complete_to os ?ls n g" for n
    unfolding complete_to_def
  proof (intro allI impI)
    fix i e
    assume a: "message_at os ?ls i e" "i < n" "in_classes e (lf_classes (freeMessages (NOT classes) g))"
    then have "in_classes e (lf_classes g)" "in_classes e classes"
      using in_classes_simps [OF message_class [OF a(1)]] by (simp_all add: freeMessages_def)
    moreover have "class_bit (le_logclass e) AND NOT classes = 0"
      using in_classes_simps(3) [OF message_class [OF a(1)], of classes] \<open>in_classes e classes\<close> by (simp add: in_classes_def)
    ultimately show "(makeKey (le_time e) (Suc i), e) \<in> set (lf_entries (freeMessages (NOT classes) g))"
      using that a(1,2) by (auto simp: complete_to_def freeMessages_def)
  qed
  have s: "sound os ?ls (freeMessages (NOT classes) g)" if "sound os ?ls g"
    using that sorted by (auto simp: sound_def freeMessages_def)
  from r c s show "file_ready os (contents j) (freeMessages (NOT classes) g)"
    by (auto simp: file_ready_def start_pos_def freeMessages_def)
qed

lemma in_classes_cases:
  assumes "message_at os ls i e"
  shows "in_classes e (a AND b) \<longleftrightarrow> in_classes e a \<and> in_classes e b" "in_classes e (a OR b) \<longleftrightarrow> in_classes e a \<or> in_classes e b"
    "in_classes e (NOT a) \<longleftrightarrow> \<not> in_classes e a" "\<not> in_classes e 0"
  using in_classes_simps [OF message_class [OF assms]] by auto

lemma partial_done:
  assumes "partial os ls old (classes AND NOT old) classes (length ls) lf" and "lf_classes lf \<in> {old, old AND classes}"
  shows "complete_to os ls (length ls) (lf\<lparr> lf_classes := lf_classes lf OR (classes AND NOT old), lf_read_pos := p \<rparr>) \<and>
     (\<forall>key e. in_classes e classes \<longrightarrow> ((key, e) \<in> set (lf_entries lf) \<longleftrightarrow> (key, e) \<in> messages os ls))"
proof
  have all: "(makeKey (le_time e) (Suc i), e) \<in> set (lf_entries lf)"
    if "message_at os ls i e" "in_classes e (lf_classes lf OR classes)" "in_classes e (old OR classes)" for i e
  proof -
    have "i < length ls" using that(1) by (simp add: message_at_def)
    moreover have "in_classes e old \<or> in_classes e (classes AND NOT old)"
      using that(3) in_classes_cases [OF that(1)] by auto
    ultimately show ?thesis using assms(1) that(1,2) unfolding partial_def by blast
  qed
  show "complete_to os ls (length ls) (lf\<lparr> lf_classes := lf_classes lf OR (classes AND NOT old), lf_read_pos := p \<rparr>)"
    unfolding complete_to_def
  proof (intro allI impI)
    fix i e
    assume a: "message_at os ls i e" "in_classes e (lf_classes (lf\<lparr> lf_classes := lf_classes lf OR (classes AND NOT old), lf_read_pos := p \<rparr>))"
    then have "in_classes e (lf_classes lf OR classes)" "in_classes e (old OR classes)"
      using assms(2) in_classes_cases [OF a(1)] by auto
    with all [OF a(1)] show "(makeKey (le_time e) (Suc i), e) \<in> set (lf_entries (lf\<lparr> lf_classes := lf_classes lf OR (classes AND NOT old), lf_read_pos := p \<rparr>))"
      by simp
  qed
  show "\<forall>key e. in_classes e classes \<longrightarrow> ((key, e) \<in> set (lf_entries lf) \<longleftrightarrow> (key, e) \<in> messages os ls)"
  proof (intro allI impI iffI)
    fix key e
    show "(key, e) \<in> messages os ls" if "(key, e) \<in> set (lf_entries lf)"
      using that assms(1) by (auto simp: partial_def sound_def)
    assume c: "in_classes e classes" and "(key, e) \<in> messages os ls"
    then obtain i where i: "message_at os ls i e" "key = makeKey (le_time e) (Suc i)" by (auto simp: messages_def)
    have "in_classes e (lf_classes lf OR classes)" "in_classes e (old OR classes)"
      using c in_classes_cases [OF i(1)] by auto
    with all [OF i(1)] i(2) show "(key, e) \<in> set (lf_entries lf)" by simp
  qed
qed

lemma cache_readyI:
  assumes "cache_ok c" and "others classes (\<lambda>j g. file_ready os (contents j) g) k c"
    and "lc_file k c = Some lf" and "file_ready os (contents k) lf"
  shows "cache_ready os contents c"
proof -
  have "distinct (map fst (lc_files c))" using assms(1) sorted_distinct by (auto simp: cache_ok_def)
  from map_find_Some [OF this, of k] assms(3) have "(k, g) \<in> set (lc_files c) \<Longrightarrow> g = lf" for g
    by (metis lc_file_def option.inject)
  with assms show ?thesis unfolding cache_ready_def others_def by fastforce
qed

lemma cache_readyD:
  assumes "cache_ready os contents c" and "lc_file k c = Some lf"
  shows "cache_ok c" "others classes (\<lambda>j g. file_ready os (contents j) g) k c" "file_ready os (contents k) lf"
  using assms map_find_in by (fastforce simp: cache_ready_def others_def lc_file_def)+

lemma loaded_step:
  assumes ls: "length (lines_of s) < 2 ^ 32" "length (lines_of s) \<le> max_lines" "defined_lines os (lines_of s)" and stop: "\<forall>n. \<not> stop n"
    and c: "cache_ok c" "others classes (\<lambda>j g. file_ready os (contents j) g) k c" "lc_file k c = Some lf"
    and p: "partial os (lines_of s) old (classes AND NOT old) classes 0 lf" and cls: "lf_classes lf \<in> {old, old AND classes}"
    and s: "contents k = s"
  shows "\<exists>c' lf'. loadRange os max_lines stop k (classes AND NOT old) classes s (lc_update k (\<lambda>f. f\<lparr> lf_lineno := 0 \<rparr>) c) = Some (c', []) \<and>
     cache_ok c' \<and> others classes (\<lambda>j g. file_ready os (contents j) g) k c' \<and> lc_file k c' = Some lf' \<and>
     partial os (lines_of s) old (classes AND NOT old) classes (length (lines_of s)) lf' \<and>
     lf_lineno lf' = length (lines_of s) \<and> lf_watch lf' = lf_watch lf \<and> lf_classes lf' \<in> {old, old AND classes}"
proof -
  let ?f = "\<lambda>f. f\<lparr> lf_lineno := 0 \<rparr>"
  have "cache_ok (lc_update k ?f c)" using cache_ok_update [OF c(1,3)] by (simp add: numEntries_def)
  moreover have "others classes (\<lambda>j g. file_ready os (contents j) g) k (lc_update k ?f c)" using c(2) by (simp add: others_update)
  moreover have "lc_file k (lc_update k ?f c) = Some (?f lf)" using c(3) by simp
  moreover have "partial os (lines_of s) old (classes AND NOT old) classes (lf_lineno (?f lf)) (?f lf)"
    using p by (simp add: partial_def sound_def)
  moreover have "lines_of s = drop (lf_lineno (?f lf)) (lines_of s)" "lf_lineno (?f lf) \<le> length (lines_of s)" by simp_all
  ultimately have "\<exists>c' lf'. loadRange os max_lines stop k (classes AND NOT old) classes s (lc_update k ?f c) = Some (c', []) \<and>
     cache_ok c' \<and> others classes (\<lambda>j g. file_ready os (contents j) g) k c' \<and> lc_file k c' = Some lf' \<and>
     partial os (lines_of s) old (classes AND NOT old) classes (length (lines_of s)) lf' \<and>
     lf_lineno lf' = length (lines_of s) \<and> lf_watch lf' = lf_watch (?f lf) \<and> lf_classes lf' \<in> {lf_classes (?f lf), lf_classes (?f lf) AND classes}"
    by (rule loadRange_reads [OF ls stop file_ready_freed])
  with cls show ?thesis by (auto simp: and.assoc)
qed

lemma load_finished:
  assumes c: "cache_ok c" "others classes (\<lambda>j g. file_ready os (contents j) g) k c" "lc_file k c = Some lf"
    and p: "partial os (lines_of (contents k)) old (classes AND NOT old) classes (length (lines_of (contents k))) lf"
    and cls: "lf_classes lf \<in> {old, old AND classes}"
    and l: "lf_watch lf \<Longrightarrow> lf_lineno lf = length (lines_of (contents k))" "lf_watch lf \<Longrightarrow> pos = length (contents k)"
    and f: "f lf = lf\<lparr> lf_classes := lf_classes lf OR (classes AND NOT old), lf_read_pos := pos \<rparr>"
  shows "\<exists>lf'. cache_ready os contents (lc_update k f c) \<and> lc_file k (lc_update k f c) = Some lf' \<and>
     (\<forall>key e. in_classes e classes \<longrightarrow> ((key, e) \<in> set (lf_entries lf') \<longleftrightarrow> (key, e) \<in> messages os (lines_of (contents k))))"
proof -
  have u: "cache_ok (lc_update k f c)" using cache_ok_update [OF c(1,3)] f by (simp add: numEntries_def)
  have o: "others classes (\<lambda>j g. file_ready os (contents j) g) k (lc_update k f c)" using c(2) by (simp add: others_update)
  have g: "lc_file k (lc_update k f c) = Some (f lf)" using c(3) by simp
  have e: "lines_of [] = []" using lines_of_None [of "[]"] by (simp add: fgets_def)
  have snd: "sound os (lines_of (contents k)) (f lf)" using p by (simp add: f partial_def sound_def)
  have "file_ready os (contents k) (f lf)"
    using partial_done [OF p cls, of pos] snd l e by (auto simp: file_ready_def f start_pos_def)
  from cache_readyI [OF u o g this] g partial_done [OF p cls, of pos] show ?thesis
    by (intro exI [of _ "f lf"]) (auto simp: f)
qed

lemma load_archive:
  assumes ls: "length (lines_of (contents k)) < 2 ^ 32" "length (lines_of (contents k)) \<le> max_lines"
      "defined_lines os (lines_of (contents k))" and stop: "\<forall>n. \<not> stop n"
    and c: "cache_ready os contents c" "lc_file k c = Some lf" and w: "\<not> lf_watch lf"
  shows "\<exists>c' lf'. load os max_lines stop (Some (contents k)) k classes c = Some c' \<and> cache_ready os contents c' \<and> lc_file k c' = Some lf' \<and>
     (\<forall>key e. in_classes e classes \<longrightarrow> ((key, e) \<in> set (lf_entries lf') \<longleftrightarrow> (key, e) \<in> messages os (lines_of (contents k))))"
proof -
  let ?old = "lf_classes lf" and ?ls = "lines_of (contents k)"
  let ?missing = "classes AND NOT ?old"
  note c' = cache_readyD [OF c]
  have ready: "sound os ?ls lf" "complete_to os ?ls (length ?ls) lf" using c'(3) w by (simp_all add: file_ready_def)
  have p: "partial os ?ls ?old ?missing classes 0 lf"
    using ready by (auto simp: partial_def complete_to_def message_at_def)
  show ?thesis
  proof (cases "?missing = 0")
    case True
    have "partial os ?ls ?old ?missing classes (length ?ls) lf"
      using p True by (auto simp: partial_def in_classes_def)
    from partial_done [OF this] True w c show ?thesis by (auto simp: load_def)
  next
    case False
    obtain c1 lf1 where r: "loadRange os max_lines stop k ?missing classes (contents k) (lc_update k (\<lambda>f. f\<lparr> lf_lineno := 0 \<rparr>) c) = Some (c1, [])"
      "cache_ok c1" "others classes (\<lambda>j g. file_ready os (contents j) g) k c1" "lc_file k c1 = Some lf1"
      "partial os ?ls ?old ?missing classes (length ?ls) lf1" "lf_watch lf1 = lf_watch lf" "lf_classes lf1 \<in> {?old, ?old AND classes}"
      using loaded_step [OF ls stop c'(1,2) c(2) p _ refl] by auto
    let ?f = "\<lambda>f. f\<lparr> lf_classes := lf_classes f OR ?missing \<rparr>"
    have u: "?f lf1 = lf1\<lparr> lf_classes := lf_classes lf1 OR ?missing, lf_read_pos := lf_read_pos lf1 \<rparr>" by (cases lf1) simp
    have "load os max_lines stop (Some (contents k)) k classes c = Some (lc_update k ?f c1)"
      using r(1) False w c(2) by (simp add: load_def)
    moreover from r(6) w have "\<exists>lf'. cache_ready os contents (lc_update k ?f c1) \<and> lc_file k (lc_update k ?f c1) = Some lf' \<and>
        (\<forall>key e. in_classes e classes \<longrightarrow> ((key, e) \<in> set (lf_entries lf') \<longleftrightarrow> (key, e) \<in> messages os (lines_of (contents k))))"
      using load_finished [where f = ?f and pos = "lf_read_pos lf1", OF r(2-5,7) _ _ u] by simp
    ultimately show ?thesis by auto
  qed
qed

lemma load_current:
  assumes ls: "length (lines_of (contents k)) < 2 ^ 32" "length (lines_of (contents k)) \<le> max_lines"
      "defined_lines os (lines_of (contents k))" and stop: "\<forall>n. \<not> stop n"
    and c: "cache_ready os contents c" "lc_file k c = Some lf" and w: "lf_watch lf"
  shows "\<exists>c' lf'. load os max_lines stop (Some (contents k)) k classes c = Some c' \<and> cache_ready os contents c' \<and> lc_file k c' = Some lf' \<and>
     (\<forall>key e. in_classes e classes \<longrightarrow> ((key, e) \<in> set (lf_entries lf') \<longleftrightarrow> (key, e) \<in> messages os (lines_of (contents k))))"
proof -
  let ?old = "lf_classes lf" and ?ls = "lines_of (contents k)" and ?s = "contents k"
  let ?missing = "classes AND NOT ?old" and ?Q = "\<lambda>j g. file_ready os (contents j) g"
  let ?f0 = "\<lambda>f. f\<lparr> lf_read_pos := start_pos lf \<rparr>" and ?c0 = "lc_update k (\<lambda>f. f\<lparr> lf_read_pos := start_pos lf \<rparr>) c"
  note c' = cache_readyD [OF c]
  have ready: "sound os ?ls lf" "complete_to os ?ls (lf_lineno lf) lf" "lines_of (drop (start_pos lf) ?s) = drop (lf_lineno lf) ?ls"
    "lf_lineno lf \<le> length ?ls" using c'(3) w by (simp_all add: file_ready_def)
  have c0: "cache_ok ?c0" "others classes ?Q k ?c0" "lc_file k ?c0 = Some (?f0 lf)"
    using cache_ok_update [OF c'(1) c(2), of ?f0] c'(2) c(2) by (simp_all add: others_update numEntries_def)
  define first where "first = (if ?old \<noteq> 0
      then map_option (\<lambda>(c', r). lc_update k (\<lambda>f. f\<lparr> lf_read_pos := length ?s - length r \<rparr>) c')
             (loadRange os max_lines stop k ?old classes (drop (start_pos lf) ?s) ?c0)
      else Some ?c0)"
  have load: "load os max_lines stop (Some ?s) k classes c = (case first of
       None \<Rightarrow> None
     | Some c1 \<Rightarrow> if ?missing \<noteq> 0
         then map_option (\<lambda>(c', r). lc_update k (\<lambda>f. f\<lparr> lf_classes := lf_classes f OR ?missing, lf_read_pos := length ?s - length r \<rparr>) c')
                (loadRange os max_lines stop k ?missing classes ?s (lc_update k (\<lambda>f. f\<lparr> lf_lineno := 0 \<rparr>) c1))
         else Some c1)"
    unfolding load_def c(2) option.case Let_def first_def start_pos_def using w by (simp only: if_True)
  have "\<exists>c1 lf1. first = Some c1 \<and> cache_ok c1 \<and> others classes ?Q k c1 \<and> lc_file k c1 = Some lf1 \<and>
     partial os ?ls ?old ?missing classes 0 lf1 \<and> lf_watch lf1 \<and> lf_classes lf1 \<in> {?old, ?old AND classes} \<and>
     (?missing = 0 \<longrightarrow> file_ready os ?s lf1)"
  proof (cases "?old = 0")
    case True
    have "partial os ?ls ?old ?missing classes 0 (?f0 lf)" using ready(1) True by (simp add: partial_def sound_def in_classes_def)
    moreover have "file_ready os ?s (?f0 lf)" using c'(3) w
      by (auto simp: file_ready_def start_pos_def sound_def complete_to_def split: if_splits)
    ultimately show ?thesis using c0 True w by (auto simp: first_def)
  next
    case False
    have p: "partial os ?ls 0 ?old classes (lf_lineno (?f0 lf)) (?f0 lf)"
      using ready by (auto simp: partial_def complete_to_def sound_def in_classes_def)
    have lr: "lines_of (drop (start_pos lf) ?s) = drop (lf_lineno (?f0 lf)) ?ls" "lf_lineno (?f0 lf) \<le> length ?ls" using ready by simp_all
    obtain c1 lf1 where r: "loadRange os max_lines stop k ?old classes (drop (start_pos lf) ?s) ?c0 = Some (c1, [])" "cache_ok c1"
      "others classes ?Q k c1" "lc_file k c1 = Some lf1" "partial os ?ls 0 ?old classes (length ?ls) lf1" "lf_lineno lf1 = length ?ls"
      "lf_watch lf1 = lf_watch (?f0 lf)" "lf_classes lf1 \<in> {lf_classes (?f0 lf), lf_classes (?f0 lf) AND classes}"
      using loadRange_reads [OF ls stop file_ready_freed c0 p lr] by blast
    let ?f1 = "\<lambda>f. f\<lparr> lf_read_pos := length ?s \<rparr>"
    have u: "cache_ok (lc_update k ?f1 c1)" using cache_ok_update [OF r(2,4)] by (simp add: numEntries_def)
    have all: "(makeKey (le_time e) (Suc i), e) \<in> set (lf_entries lf1)"
      if "message_at os ?ls i e" "in_classes e (lf_classes lf1 OR classes)" "in_classes e ?old" for i e
    proof -
      have "i < length ?ls" using that(1) by (simp add: message_at_def)
      with r(5) that show ?thesis unfolding partial_def by blast
    qed
    have snd: "sound os ?ls lf1" using r(5) by (simp add: partial_def)
    have p1: "partial os ?ls ?old ?missing classes 0 (?f1 lf1)" using all snd by (auto simp: partial_def sound_def)
    have cls: "in_classes e ?old" "in_classes e (lf_classes lf1 OR classes)"
      if "message_at os ?ls i e" "in_classes e (lf_classes lf1)" for i e
      using r(8) that in_classes_cases [OF that(1)] by auto
    have "complete_to os ?ls (length ?ls) (?f1 lf1)"
      unfolding complete_to_def using all cls by simp
    moreover have "lines_of [] = []" using lines_of_None [of "[]"] by (simp add: fgets_def)
    ultimately have "file_ready os ?s (?f1 lf1)"
      using snd r(6,7) w by (auto simp: file_ready_def start_pos_def sound_def)
    then show ?thesis using False r u p1 w by (auto simp: first_def others_update)
  qed
  then obtain c1 lf1 where f: "first = Some c1" "cache_ok c1" "others classes ?Q k c1" "lc_file k c1 = Some lf1"
    "partial os ?ls ?old ?missing classes 0 lf1" "lf_watch lf1" "lf_classes lf1 \<in> {?old, ?old AND classes}"
    "?missing = 0 \<longrightarrow> file_ready os ?s lf1" by blast
  show ?thesis
  proof (cases "?missing = 0")
    case True
    have "partial os ?ls ?old ?missing classes (length ?ls) lf1"
      using f(5) True by (auto simp: partial_def in_classes_def)
    from partial_done [OF this f(7)] cache_readyI [OF f(2-4)] f(8) True f(1,4) show ?thesis by (auto simp: load)
  next
    case False
    obtain c2 lf2 where r: "loadRange os max_lines stop k ?missing classes ?s (lc_update k (\<lambda>f. f\<lparr> lf_lineno := 0 \<rparr>) c1) = Some (c2, [])"
      "cache_ok c2" "others classes ?Q k c2" "lc_file k c2 = Some lf2"
      "partial os ?ls ?old ?missing classes (length ?ls) lf2" "lf_lineno lf2 = length ?ls" "lf_watch lf2 = lf_watch lf1" "lf_classes lf2 \<in> {?old, ?old AND classes}"
      using loaded_step [OF ls stop f(2-5,7) refl] by auto
    let ?f = "\<lambda>f. f\<lparr> lf_classes := lf_classes f OR ?missing, lf_read_pos := length ?s \<rparr>"
    from load_finished [where f = ?f and pos = "length ?s", OF r(2-5,8) _ _ refl] r(6) f(1) False r(1)
    show ?thesis by (auto simp: load)
  qed
qed

text \<open>
  C7. Loading a log file leaves the cache with exactly the messages of the classes the query asks for that
  the text of the file has, whatever the file had loaded before and whatever is freed on the way to keep
  the number of cached messages down, in this file and in the others. The invariant of the cache is kept: the
  counter is the number of the messages in the cache, every map is in order, and every file has all the
  messages of the classes it claims to have read.
\<close>

theorem loading_reads_the_requested_messages:
  assumes "cache_ready os contents c" and "lc_file k c = Some lf"
    and "length (lines_of (contents k)) < 2 ^ 32" and "length (lines_of (contents k)) \<le> max_lines"
    and "defined_lines os (lines_of (contents k))" and "\<forall>n. \<not> stop n"
  shows "\<exists>c' lf'. load os max_lines stop (Some (contents k)) k classes c = Some c' \<and> cache_ready os contents c' \<and> lc_file k c' = Some lf' \<and>
     (\<forall>key e. in_classes e classes \<longrightarrow> ((key, e) \<in> set (lf_entries lf') \<longleftrightarrow> (key, e) \<in> messages os (lines_of (contents k))))"
  using load_archive [OF assms(3-6,1,2)] load_current [OF assms(3-6,1,2)] by (cases "lf_watch lf") simp_all

definition no_objects :: objects where
  "no_objects = \<lparr> find_host = (\<lambda>h. None), find_service = (\<lambda>h d. None), find_contact = (\<lambda>c. None), find_command = (\<lambda>c. None) \<rparr>"

definition demo_log :: string where
  "demo_log = ''[1000000000] TIMEPERIOD TRANSITION: x'' @ [CHR 0x0A]"

definition demo_cache :: log_cache where
  "demo_cache = scanLogfile (Some demo_log) True
     \<lparr> lc_max = 0, lc_num_at_last_check = 0, lc_num_cached = 0, lc_files = [], lc_last_index_update = 0 \<rparr>"

definition demo_entry :: log_entry where
  "demo_entry = (blank_entry 1 (butlast demo_log))\<lparr> le_time := 1000000000, le_logclass := LOGCLASS_STATE,
     le_type := TIMEPERIOD_TRANSITION, le_text := Some ''TIMEPERIOD TRANSITION: x'' \<rparr>"

lemma demo_lines: "lines_of demo_log = [demo_log]"
  by (simp add: lines_of.simps fgets_def MAX_LOGLINE_def demo_log_def Let_def)

lemma demo_entry_read: "log_entry_of no_objects 1 demo_log = Some demo_entry"
proof -
  have t: "atoi ''1000000000'' = 1000000000"
    by (simp add: atoi_def strtol_def c_isspace_def c_isdigit_def digits_value_def digit_val_def wrap32_def Let_def)
  have "strip_newlines demo_log = butlast demo_log" by (simp add: strip_newlines_def demo_log_def)
  moreover have "handleStatusEntry ''TIMEPERIOD TRANSITION: x'' e = Some (e\<lparr> le_logclass := LOGCLASS_STATE, le_type := TIMEPERIOD_TRANSITION \<rparr>)" for e
    by (simp add: handleStatusEntry_def has_prefix_def Let_def split: prod.splits)
  ultimately show ?thesis
    by (simp add: log_entry_of_def demo_entry_def demo_log_def classify_def updateReferences_def blank_entry_def t Let_def)
qed

theorem loading_reads_the_requested_messages_witness:
  "\<exists>c' lf'. load no_objects 10 (\<lambda>n. False) (Some demo_log) 1000000000 64 demo_cache = Some c' \<and>
     cache_ready no_objects (\<lambda>k. demo_log) c' \<and> lc_file 1000000000 c' = Some lf' \<and>
     (makeKey 1000000000 1, demo_entry) \<in> set (lf_entries lf')"
proof -
  have t: "atoi ''1000000000'' = 1000000000"
    by (simp add: atoi_def strtol_def c_isspace_def c_isdigit_def digits_value_def digit_val_def wrap32_def Let_def)
  obtain lf where f: "lc_files demo_cache = [(1000000000, lf)]" "lc_num_cached demo_cache = 0" and
    lf: "lf = \<lparr> lf_since = 1000000000, lf_watch = True, lf_read_pos = 0, lf_lineno = 0, lf_entries = [], lf_classes = 0 \<rparr>"
    by (simp add: demo_cache_def scanLogfile_def new_logfile_def logfile_since_def demo_log_def t)
  have "cache_ready no_objects (\<lambda>k. demo_log) demo_cache"
    using f lf by (simp add: cache_ready_def cache_ok_def file_ready_def sound_def complete_to_def start_pos_def numEntries_def wrap32_def)
  moreover have "lc_file 1000000000 demo_cache = Some lf" using f by (simp add: lc_file_def)
  moreover have d: "defined_lines no_objects [demo_log]"
    using log_entry_of_undefined [of no_objects _ demo_log]
    by (auto simp: defined_lines_def demo_log_def strip_newlines_def has_prefix_def)
  moreover have "message_at no_objects [demo_log] 0 demo_entry" "in_classes demo_entry 64"
    using demo_entry_read by (simp_all add: message_at_def demo_entry_def in_classes_def class_bit_def)
  ultimately show ?thesis
    using loading_reads_the_requested_messages [of no_objects "\<lambda>k. demo_log" demo_cache 1000000000 lf 10 "\<lambda>n. False" 64]
    by (auto simp: demo_lines messages_def) (auto simp: demo_entry_def)
qed

section \<open>What a check of the memory leaves\<close>

lemma free_until_fits: "free_until P f mx num fs = (fit, n, fs') \<Longrightarrow> fit \<Longrightarrow> fits mx n"
  by (induction P f mx num fs arbitrary: fit n fs' rule: free_until.induct) (auto simp: Let_def split: if_splits prod.splits)

lemma free_until_all:
  "free_until P f mx num fs = (fit, n, fs') \<Longrightarrow> \<not> fit \<Longrightarrow> fs' = map (\<lambda>(s, lf). (s, if P lf then f lf else lf)) fs"
  by (induction P f mx num fs arbitrary: fit n fs' rule: free_until.induct) (auto simp: Let_def split: if_splits prod.splits)

lemma flushed_all: "free_until has_entries lf_flush mx num fs = (fit, n, fs') \<Longrightarrow> \<not> fit \<Longrightarrow> (j, g) \<in> set fs' \<Longrightarrow> lf_entries g = []"
  by (drule (1) free_until_all) (auto simp: has_entries_def numEntries_def lf_flush_def)

text \<open>
  A check of the memory that is due frees enough, or it leaves no message in any file but the one the
  query is reading: also not in the newer files, whose messages a query that goes back in time has
  already been given.
\<close>

theorem memory_check_empties_the_other_files:
  assumes "distinct (map fst (lc_files c))"
    and "\<not> fits (lc_max c) (wrap32 (lc_num_cached c + 1))"
    and "int (lc_num_at_last_check c + CHECK_MEM_CYCLE) mod 2 ^ 64 \<le> wrap32 (lc_num_cached c + 1) mod 2 ^ 64"
  shows "fits (lc_max c) (lc_num_cached (handleNewMessage k classes c)) \<or>
     (\<forall>(j, g) \<in> set (lc_files (handleNewMessage k classes c)). j \<noteq> k \<longrightarrow> lf_entries g = [])"
proof -
  let ?num = "wrap32 (lc_num_cached c + 1)"
  let ?older = "takeWhile (\<lambda>(s, _). s \<noteq> k) (lc_files c)" and ?rest = "dropWhile (\<lambda>(s, _). s \<noteq> k) (lc_files c)"
  obtain fit1 n1 older' where 1: "free_until has_entries lf_flush (lc_max c) ?num ?older = (fit1, n1, older')"
    by (cases "free_until has_entries lf_flush (lc_max c) ?num ?older")
  show ?thesis
  proof (cases fit1)
    case True
    have "handleNewMessage k classes c = c\<lparr> lc_num_cached := n1, lc_num_at_last_check := nat (n1 mod 2 ^ 64), lc_files := older' @ ?rest \<rparr>"
      using assms(2,3) 1 True by (simp add: handleNewMessage_def Let_def)
    with True free_until_fits [OF 1 True] show ?thesis by simp
  next
    case False
    obtain fit2 n2 rest' where 2: "free_until (irrelevant_entries classes) (freeMessages (NOT classes)) (lc_max c) n1 ?rest = (fit2, n2, rest')"
      by (cases "free_until (irrelevant_entries classes) (freeMessages (NOT classes)) (lc_max c) n1 ?rest")
    show ?thesis
    proof (cases fit2)
      case True
      have "lc_num_cached (handleNewMessage k classes c) = n2"
        using assms(2,3) 1 2 False True by (simp add: handleNewMessage_def Let_def)
      with free_until_fits [OF 2 True] show ?thesis by simp
    next
      case f2: False
      obtain fit3 n3 newer' where 3: "free_until has_entries lf_flush (lc_max c) n2 (drop 1 rest') = (fit3, n3, newer')"
        by (cases "free_until has_entries lf_flush (lc_max c) n2 (drop 1 rest')")
      have h: "lc_num_cached (handleNewMessage k classes c) = n3" "lc_files (handleNewMessage k classes c) = older' @ take 1 rest' @ newer'"
        using assms(2,3) 1 2 3 False f2 by (simp_all add: handleNewMessage_def Let_def)
      show ?thesis
      proof (cases fit3)
        case True
        with free_until_fits [OF 3 True] h show ?thesis by simp
      next
        case f3: False
        have "fst g = k" if "g \<in> set (take 1 rest')" for g
        proof -
          have "list_all2 (\<lambda>(s, lf) (s', lf'). s' = s \<and> (lf' = lf \<or> lf' = freeMessages (NOT classes) lf)) ?rest rest'"
            by (rule free_until_files [OF 2])
          with that show ?thesis using hd_dropWhile [of "\<lambda>(s, _). s \<noteq> k" "lc_files c"]
            by (cases ?rest; cases rest') auto
        qed
        with flushed_all [OF 1 False] flushed_all [OF 3 f3]
        show ?thesis unfolding h by fastforce
      qed
    qed
  qed
qed

definition full_cache :: log_cache where
  "full_cache = \<lparr> lc_max = 0, lc_num_at_last_check = 0, lc_num_cached = 10000,
     lc_files = [(1, \<lparr> lf_since = 1, lf_watch = False, lf_read_pos = 0, lf_lineno = 10000, lf_entries = replicate 9999 (1, demo_entry), lf_classes = 64 \<rparr>),
                 (2, \<lparr> lf_since = 2, lf_watch = True, lf_read_pos = 0, lf_lineno = 1, lf_entries = [(2, demo_entry)], lf_classes = 64 \<rparr>)],
     lc_last_index_update = 0 \<rparr>"

theorem memory_check_empties_the_other_files_witness:
  "fits (lc_max full_cache) (lc_num_cached (handleNewMessage 1 64 full_cache)) \<or>
     list_all (\<lambda>(j, g). j = 1 \<or> lf_entries g = []) (lc_files (handleNewMessage 1 64 full_cache))"
  using memory_check_empties_the_other_files [of full_cache 1 64]
  by (auto simp: full_cache_def fits_def wrap32_def CHECK_MEM_CYCLE_def list_all_iff)

end
