(* ===== verification/Filter_Narrowing.thy ===== *)
theory Filter_Narrowing
  imports Filters
begin

unbundle bit_operations_syntax

text \<open>
  How tables narrow their scan with a filter before they apply it: an interval of times for the log
  (\<open>findTimeLimits\<close>), a mask of log classes (\<open>optimizeBitmask\<close>), an object to start from
  (\<open>findIndexFilter\<close>). One contract, that narrowing keeps the rows the filter accepts, has an instance
  for each; where the code does not meet it the theorems say for which filters it does.
\<close>

definition demo_times :: "int filter" where
  "demo_times = AndingFilter
     [TimeColumnFilter ''time'' id OP_LESS True 10, TimeColumnFilter ''time'' id OP_LESS False 20]"

definition demo_masks :: "int filter" where
  "demo_masks = AndingFilter
     [OringFilter [IntColumnFilter ''class'' id OP_EQUAL False ''1'', IntColumnFilter ''class'' id OP_GREATER False ''2''],
      IntColumnFilter ''class'' id OP_GREATER True ''4'']"

definition demo_or_times :: "int filter" where
  "demo_or_times = OringFilter [TimeColumnFilter ''time'' id OP_EQUAL False 3, TimeColumnFilter ''time'' id OP_EQUAL False 7]"

definition demo_index :: "(string \<times> (nat \<times> string) list option) filter list" where
  "demo_index = [StringColumnFilter ''host_name'' fst ''b'' OP_EQUAL False None]"

section \<open>Narrowing is sound\<close>

text \<open>
  The contract under which a table may narrow its scan before it filters: a row that the filter accepts
  and the scan would visit is still visited after narrowing. It gives that the answer does not change.
\<close>

locale narrowing =
  fixes accept :: "'f \<Rightarrow> 'r \<Rightarrow> bool"
    and narrow :: "'f \<Rightarrow> 's \<Rightarrow> 's"
    and visits :: "'s \<Rightarrow> 'r \<Rightarrow> bool"
    and covered :: "'f \<Rightarrow> bool"
  assumes narrow_sound: "covered f \<Longrightarrow> accept f x \<Longrightarrow> visits s x \<Longrightarrow> visits (narrow f s) x"
begin

lemma scan_unchanged:
  assumes "covered f" and "\<forall>x\<in>set rows. visits s x"
  shows "filter (accept f) (filter (visits (narrow f s)) rows) = filter (accept f) rows"
  using assms by (intro filter_imp_filter) (blast intro: narrow_sound)

lemma narrow_all_sound:
  "\<forall>f\<in>set fs. covered f \<and> accept f x \<Longrightarrow> visits s x \<Longrightarrow> visits (fold narrow fs s) x"
  by (induction fs arbitrary: s) (auto intro: narrow_sound)

end

lemma time_limits_sound:
  assumes "0 \<le> opid" and "time_accepts opid negate ref v" and "lower \<le> v \<and> v < upper"
  shows "fst (time_limits opid negate ref (lower, upper)) \<le> v \<and> v < snd (time_limits opid negate ref (lower, upper))"
  using assms by (cases negate) (auto simp: time_limits_def time_accepts_def Let_def)

text \<open>
  The filters whose time limits are sound: on every path of conjunctions the filters of column \<open>col\<close>
  read the value \<open>g\<close>, and no disjunction holds one of them.
\<close>

fun limits_times :: "string \<Rightarrow> 'r filter \<Rightarrow> bool" where
  "limits_times col (TimeColumnFilter n _ _ _ _) = (n = col)"
| "limits_times col (AndingFilter fs) = list_ex (limits_times col) fs"
| "limits_times col (OringFilter fs) = list_ex (limits_times col) fs"
| "limits_times col _ = False"

fun and_only_times :: "string \<Rightarrow> ('r \<Rightarrow> int) \<Rightarrow> 'r filter \<Rightarrow> bool" where
  "and_only_times col g (TimeColumnFilter n h opid _ _) = (n = col \<longrightarrow> h = g \<and> 0 \<le> opid)"
| "and_only_times col g (AndingFilter fs) = list_all (and_only_times col g) fs"
| "and_only_times col g (OringFilter fs) = list_all (\<lambda>f. \<not> limits_times col f) fs"
| "and_only_times col g _ = True"

definition in_interval :: "('r \<Rightarrow> int) \<Rightarrow> int \<times> int \<Rightarrow> 'r \<Rightarrow> bool" where
  "in_interval g lu x \<longleftrightarrow> fst lu \<le> g x \<and> g x < snd lu"

lemma fold_id: "\<forall>f\<in>set fs. h f s = s \<Longrightarrow> fold h fs s = s"
  by (induction fs) auto

lemma no_time_limits: "\<not> limits_times col f \<Longrightarrow> find_time_limits f col lu = lu"
proof (induction f arbitrary: lu)
  case (AndingFilter fs)
  then have "fold (\<lambda>f. find_time_limits f col) fs lu = lu"
    by (intro fold_id) (simp add: list_ex_iff)
  then show ?case by simp
next
  case (OringFilter fs)
  then have "fold (\<lambda>f. find_time_limits f col) fs lu = lu"
    by (intro fold_id) (simp add: list_ex_iff)
  then show ?case by simp
qed simp_all

lemma fold_time_limits_sound:
  "(\<And>f lu. f \<in> set fs \<Longrightarrow> in_interval g lu x \<Longrightarrow> in_interval g (h f lu) x) \<Longrightarrow>
     in_interval g lu x \<Longrightarrow> in_interval g (fold h fs lu) x"
  by (induction fs arbitrary: lu) auto

lemma find_time_limits_sound:
  "and_only_times col g f \<Longrightarrow> accepts f x \<Longrightarrow> in_interval g lu x \<Longrightarrow> in_interval g (find_time_limits f col lu) x"
proof (induction f arbitrary: lu)
  case (TimeColumnFilter n h opid negate ref)
  then show ?case
    using time_limits_sound [of opid negate ref "g x" "fst lu" "snd lu"] by (auto simp: in_interval_def)
next
  case (AndingFilter fs)
  then show ?case by (auto simp: list_all_iff intro!: fold_time_limits_sound)
next
  case (OringFilter fs)
  then have "find_time_limits (OringFilter fs) col lu = lu"
    by (intro no_time_limits) (auto simp: list_all_iff list_ex_iff)
  with OringFilter show ?case by (simp only:)
qed auto

interpretation time_narrowing:
  narrowing accepts "\<lambda>f. find_time_limits f col" "in_interval g" "and_only_times col g" for col g
  by unfold_locales (rule find_time_limits_sound)

section \<open>Bit masks\<close>

lemma bit_bit32: "bit (bit32 k) i \<longleftrightarrow> i = k \<and> k < 32"
  by (auto simp: bit32_def bit_simps)

lemma bit32_nonzero: "k < 32 \<Longrightarrow> bit32 k \<noteq> 0"
  using bit_bit32 [of k k] by auto

lemma drop_bit32: "k < 32 \<Longrightarrow> drop_bit 1 (bit32 k) = (if k = 0 then 0 else bit32 (k - 1))"
  by (rule bit_word_eqI) (auto simp: bit_drop_bit_eq bit_bit32)

lemma push_bit32: "k < 31 \<Longrightarrow> push_bit 1 (bit32 k) = bit32 (Suc k)"
  by (simp add: bit32_def)

lemma top_bit: "0x80000000 = bit32 31"
  by (simp add: bit32_def push_bit_eq_mult)

lemma bit32_eq_iff: "k < 32 \<Longrightarrow> j < 32 \<Longrightarrow> bit32 k = bit32 j \<longleftrightarrow> k = j"
  using bit_bit32 [of k k] bit_bit32 [of j k] by auto

lemma bit_clear_1: "k < 32 \<Longrightarrow> bit (m AND NOT (bit32 k)) i \<longleftrightarrow> bit m i \<and> i \<noteq> k"
  by (auto simp: bit_and_iff bit_not_iff bit_bit32 dest: bit_imp_le_length)

lemma clear_down_zero: "0 < n \<Longrightarrow> clear_down n 0 m = Some m"
  by (cases n) auto

lemma clear_down_spec:
  "Suc k < n \<Longrightarrow> k < 32 \<Longrightarrow> \<exists>m'. clear_down n (bit32 k) m = Some m' \<and> (\<forall>i. bit m' i \<longleftrightarrow> bit m i \<and> k < i)"
proof (induction n arbitrary: k m)
  case (Suc n)
  let ?m = "m AND NOT (bit32 k)"
  have step: "clear_down (Suc n) (bit32 k) m = clear_down n (if k = 0 then 0 else bit32 (k - 1)) ?m"
    unfolding clear_down.simps drop_bit32 [OF Suc.prems(2)] using bit32_nonzero [OF Suc.prems(2)] by simp
  show ?case
  proof (cases "k = 0")
    case True
    then have "clear_down (Suc n) (bit32 k) m = Some ?m"
      unfolding step using Suc.prems by (simp add: clear_down_zero)
    then show ?thesis using bit_clear_1 [of k m] True by auto
  next
    case False
    then have k: "Suc (k - 1) < n" "k - 1 < 32" using Suc.prems by auto
    obtain m' where m': "clear_down n (bit32 (k - 1)) ?m = Some m'"
      "\<forall>i. bit m' i \<longleftrightarrow> bit ?m i \<and> k - 1 < i"
      using Suc.IH [OF k, of ?m] by (elim exE conjE)
    have "bit m' i \<longleftrightarrow> bit m i \<and> k < i" for i
      unfolding m'(2) [rule_format, of i] bit_clear_1 [OF Suc.prems(2)] using False by auto
    moreover have "clear_down (Suc n) (bit32 k) m = Some m'"
      unfolding step using m'(1) False by simp
    ultimately show ?thesis by (intro exI [of _ m'] conjI allI)
  qed
qed simp

lemma clear_up_spec:
  "32 < n + k \<Longrightarrow> k < 32 \<Longrightarrow> \<exists>m'. clear_up n (bit32 k) m = Some m' \<and> (\<forall>i. bit m' i \<longleftrightarrow> bit m i \<and> i < k)"
proof (induction n arbitrary: k m)
  case (Suc n)
  let ?m = "m AND NOT (bit32 k)"
  show ?case
  proof (cases "k = 31")
    case True
    then have "clear_up (Suc n) (bit32 k) m = Some ?m"
      unfolding clear_up.simps Let_def top_bit by simp
    moreover have "bit ?m i \<longleftrightarrow> bit m i \<and> i < k" for i
      using bit_clear_1 [of k m i] True bit_imp_le_length [of m i] by auto
    ultimately show ?thesis by (intro exI [of _ ?m] conjI allI)
  next
    case False
    then have k: "32 < n + Suc k" "Suc k < 32" using Suc.prems by auto
    obtain m' where m': "clear_up n (bit32 (Suc k)) ?m = Some m'"
      "\<forall>i. bit m' i \<longleftrightarrow> bit ?m i \<and> i < Suc k"
      using Suc.IH [OF k, of ?m] by (elim exE conjE)
    have "bit32 k \<noteq> bit32 31" using False Suc.prems by (simp add: bit32_eq_iff)
    moreover have "push_bit 1 (bit32 k) = bit32 (Suc k)" using k by (intro push_bit32) simp
    ultimately have "clear_up (Suc n) (bit32 k) m = Some m'"
      unfolding clear_up.simps Let_def top_bit using m'(1) by (simp only: if_False)
    moreover have "bit m' i \<longleftrightarrow> bit m i \<and> i < k" for i
      unfolding m'(2) [rule_format, of i] bit_clear_1 [OF Suc.prems(2)] by auto
    ultimately show ?thesis by (intro exI [of _ m'] conjI allI)
  qed
qed simp

lemma clear_below:
  assumes k: "k < 32"
  shows "\<exists>d. clear_down 33 (drop_bit 1 (bit32 k)) m = Some d \<and> (\<forall>i. bit d i \<longleftrightarrow> bit m i \<and> k \<le> i)"
proof (cases "k = 0")
  case True
  then show ?thesis unfolding drop_bit32 [OF k] by (simp add: clear_down_zero)
next
  case False
  then have "Suc (k - 1) = k" by simp
  with False show ?thesis unfolding drop_bit32 [OF k]
    using clear_down_spec [of "k - 1" 33 m] k by (auto simp: Suc_le_eq [symmetric])
qed

lemma clear_above:
  assumes "k < 31"
  shows "\<exists>u. clear_up 33 (push_bit 1 (bit32 k)) m = Some u \<and> (\<forall>i. bit u i \<longleftrightarrow> bit m i \<and> i \<le> k)"
  unfolding push_bit32 [OF assms] using clear_up_spec [of 33 "Suc k" m] assms by (simp add: less_Suc_eq_le)

lemma int_bitmask_total: "\<exists>b m'. int_bitmask opid negate ref m = Some (b, m')"
proof (cases "ref < 0 \<or> 31 < ref")
  case False
  then obtain k where k: "ref = int k" "k < 32" using nonneg_int_cases [of ref] by auto
  have "\<exists>m'. clear_down 33 (bit32 k) m = Some m'" "\<exists>m'. clear_up 33 (bit32 k) m = Some m'"
    using clear_down_spec [of k 33 m] clear_up_spec [of 33 k m] k by auto
  moreover have "\<exists>m'. clear_up 33 (push_bit 1 (bit32 k)) m = Some m'" if "k \<noteq> 31"
    using clear_above [of k m] k that by auto
  moreover have "\<exists>m'. clear_down 33 (drop_bit 1 (bit32 k)) m = Some m'"
    using clear_below [OF k(2), of m] by blast
  ultimately show ?thesis using k unfolding int_bitmask_def Let_def by (auto simp: nat_int)
qed (auto simp: int_bitmask_def)

text \<open>
  The mask of one filter: for a reference that is a bit, and an operator integers have, exactly the
  values the filter accepts stay; the loops always end.
\<close>

lemma int_bitmask_exact:
  assumes "0 \<le> ref" and "ref \<le> 31" and "opid \<in> {OP_EQUAL, OP_GREATER, OP_LESS}"
  shows "\<exists>m'. int_bitmask opid negate ref m = Some (True, m') \<and>
           (\<forall>i. bit m' i \<longleftrightarrow> bit m i \<and> int_accepts opid negate ref (int i))"
proof -
  obtain k where k: "ref = int k" "k < 32" using assms nonneg_int_cases [of ref] by auto
  have len: "bit m i \<Longrightarrow> i < 32" for i using bit_imp_le_length [of m i] by simp
  obtain dn where dn: "clear_down 33 (bit32 k) m = Some dn" "\<forall>i. bit dn i \<longleftrightarrow> bit m i \<and> k < i"
    using clear_down_spec [of k 33 m] k by auto
  obtain dn1 where dn1: "clear_down 33 (drop_bit 1 (bit32 k)) m = Some dn1" "\<forall>i. bit dn1 i \<longleftrightarrow> bit m i \<and> k \<le> i"
    using clear_below [OF k(2)] by blast
  obtain up where up: "clear_up 33 (bit32 k) m = Some up" "\<forall>i. bit up i \<longleftrightarrow> bit m i \<and> i < k"
    using clear_up_spec [of 33 k m] k by auto
  have up1: "\<exists>u. clear_up 33 (push_bit 1 (bit32 k)) m = Some u \<and> (\<forall>i. bit u i \<longleftrightarrow> bit m i \<and> i \<le> k)" if "k \<noteq> 31"
    using clear_above [of k m] k that by auto
  have lookup: "nat ref = k" "\<not> (ref < 0 \<or> 31 < ref)" using k by auto
  note def = int_bitmask_def lookup if_False Let_def dn(1) dn1(1) up(1)
  show ?thesis
  proof (cases negate)
    case True
    then show ?thesis
      using assms(3) dn1(2) up1 bit_bit32 [of k] k
      unfolding def by (auto simp: int_accepts_def bit_and_iff bit_not_iff dest: len)
  next
    case False
    then show ?thesis
      using assms(3) dn(2) up(2) bit_bit32 [of k] k 
      unfolding def by (auto simp: int_accepts_def bit_and_iff)
  qed
qed

lemma int_bitmask_sound:
  assumes "0 \<le> opid"
  shows "\<exists>b m'. int_bitmask opid negate ref m = Some (b, m') \<and>
           (\<forall>i. bit m i \<and> int_accepts opid negate ref (int i) \<longrightarrow> bit m' i)"
proof (cases "0 \<le> ref \<and> ref \<le> 31 \<and> opid \<in> {OP_EQUAL, OP_GREATER, OP_LESS}")
  case True
  then show ?thesis using int_bitmask_exact [of ref opid negate m] by blast
next
  case False
  then have "\<exists>b. int_bitmask opid negate ref m = Some (b, m)"
    using assms by (cases negate) (auto simp: int_bitmask_def Let_def)
  then show ?thesis by blast
qed

fun masks_ints :: "string \<Rightarrow> ('r \<Rightarrow> int) \<Rightarrow> 'r filter \<Rightarrow> bool" where
  "masks_ints col g (IntColumnFilter n h opid _ _) = (n = col \<longrightarrow> h = g \<and> 0 \<le> opid)"
| "masks_ints col g (AndingFilter fs) = list_all (masks_ints col g) fs"
| "masks_ints col g (OringFilter fs) = list_all (masks_ints col g) fs"
| "masks_ints col g _ = True"

definition in_mask :: "('r \<Rightarrow> int) \<Rightarrow> 32 word \<Rightarrow> 'r \<Rightarrow> bool" where
  "in_mask g m x \<longleftrightarrow> 0 \<le> g x \<and> bit m (nat (g x))"

definition narrows_mask :: "string \<Rightarrow> ('r \<Rightarrow> int) \<Rightarrow> 'r \<Rightarrow> 'r filter \<Rightarrow> bool" where
  "narrows_mask col g x f \<longleftrightarrow>
     (\<forall>m. \<exists>b m'. optimize_bitmask f col m = Some (b, m') \<and>
        (masks_ints col g f \<and> accepts f x \<and> in_mask g m x \<longrightarrow> in_mask g m' x))"

lemma narrows_maskE:
  assumes "narrows_mask col g x f"
  obtains b m' where "optimize_bitmask f col m = Some (b, m')"
    "masks_ints col g f \<Longrightarrow> accepts f x \<Longrightarrow> in_mask g m x \<Longrightarrow> in_mask g m' x"
  using assms unfolding narrows_mask_def by meson

lemma narrows_unchanged: "(\<And>m. \<exists>b. optimize_bitmask f col m = Some (b, m)) \<Longrightarrow> narrows_mask col g x f"
  unfolding narrows_mask_def by blast

lemma and_bitmask_sound:
  assumes "\<forall>f\<in>set fs. narrows_mask col g x f"
  shows "\<exists>b' m'. and_bitmask fs col b m = Some (b', m') \<and>
     (list_all (masks_ints col g) fs \<and> list_all (\<lambda>f. accepts f x) fs \<and> in_mask g m x \<longrightarrow> in_mask g m' x)"
  using assms
proof (induction fs arbitrary: b m)
  case (Cons f fs)
  then have f: "narrows_mask col g x f" by simp
  obtain b1 m1 where 1: "optimize_bitmask f col m = Some (b1, m1)"
    "masks_ints col g f \<Longrightarrow> accepts f x \<Longrightarrow> in_mask g m x \<Longrightarrow> in_mask g m1 x"
    by (rule narrows_maskE [OF f, of m]) blast
  from Cons.IH [of "b1 \<or> b" m1] Cons.prems obtain b' m' where
    "and_bitmask fs col (b1 \<or> b) m1 = Some (b', m')"
    "list_all (masks_ints col g) fs \<and> list_all (\<lambda>f. accepts f x) fs \<and> in_mask g m1 x \<longrightarrow> in_mask g m' x"
    by auto
  with 1 show ?case by simp
qed simp

lemma or_bitmask_sound:
  assumes "\<forall>f\<in>set fs. narrows_mask col g x f"
  shows "\<exists>b' m'. or_bitmask fs col acc m = Some (b', m') \<and>
     (list_all (masks_ints col g) fs \<and> (in_mask g acc x \<or> list_ex (\<lambda>f. accepts f x) fs) \<and> in_mask g m x \<longrightarrow>
        in_mask g m' x)"
  using assms
proof (induction fs arbitrary: acc)
  case Nil
  then show ?case by (auto simp: in_mask_def bit_and_iff)
next
  case (Cons f fs)
  then have f: "narrows_mask col g x f" by simp
  obtain b1 m1 where 1: "optimize_bitmask f col 0xFFFFFFFF = Some (b1, m1)"
    "masks_ints col g f \<Longrightarrow> accepts f x \<Longrightarrow> in_mask g 0xFFFFFFFF x \<Longrightarrow> in_mask g m1 x"
    by (rule narrows_maskE [OF f, of "0xFFFFFFFF"]) blast
  have full: "in_mask g 0xFFFFFFFF x" if "in_mask g m x"
  proof -
    from that have "nat (g x) < 32" using bit_imp_le_length [of m "nat (g x)"] by (simp add: in_mask_def)
    moreover have "bit (0xFFFFFFFF :: 32 word) i \<longleftrightarrow> i < 32" for i
      using bit_mask_iff [of 32 i, where ?'a = "32 word"] by (simp add: mask_eq_exp_minus_1)
    ultimately show ?thesis using that unfolding in_mask_def by blast
  qed
  from Cons.IH [of "acc OR m1"] Cons.prems obtain b' m' where 2:
    "or_bitmask fs col (acc OR m1) m = Some (b', m')"
    "list_all (masks_ints col g) fs \<and> (in_mask g (acc OR m1) x \<or> list_ex (\<lambda>f. accepts f x) fs) \<and> in_mask g m x \<longrightarrow>
        in_mask g m' x"
    by auto
  show ?case
  proof (cases b1)
    case True
    with 1 2 full show ?thesis by (auto simp: in_mask_def bit_or_iff)
  next
    case False
    with 1 show ?thesis by auto
  qed
qed

lemma optimize_bitmask_narrows: "narrows_mask col g x f"
proof (induction f)
  case (IntColumnFilter n h opid negate ref)
  show ?case
  proof (cases "n = col \<and> 0 \<le> opid \<and> h = g")
    case True
    then show ?thesis
      using int_bitmask_sound [of opid negate "atoi ref"]
      unfolding narrows_mask_def
      by (auto simp: in_mask_def) (metis int_nat_eq nat_int)
  next
    case False
    then show ?thesis
      using int_bitmask_total [of opid negate "atoi ref"] by (auto simp: narrows_mask_def)
  qed
next
  case (AndingFilter fs)
  then show ?case
    using and_bitmask_sound [of fs col g x False] by (auto simp: narrows_mask_def [of _ _ _ "AndingFilter fs"])
next
  case (OringFilter fs)
  then show ?case
    using or_bitmask_sound [of fs col g x 0] unfolding narrows_mask_def [of _ _ _ "OringFilter fs"]
    by simp meson
qed (auto simp: narrows_mask_def)

interpretation mask_narrowing:
  narrowing accepts "\<lambda>f m. snd (the (optimize_bitmask f col m))" "in_mask g" "masks_ints col g" for col g
proof unfold_locales
  fix f :: "'a filter" and x m
  assume "masks_ints col g f" "accepts f x" "in_mask g m x"
  with narrows_maskE [OF optimize_bitmask_narrows [of col g x f], of m]
  show "in_mask g (snd (the (optimize_bitmask f col m))) x" by (metis option.sel snd_conv)
qed

text \<open>
  C14. Narrowing by time never loses a row: for a filter whose conditions on the time column \<open>col\<close> stand in
  conjunctions only, the rows of the interval \<open>findTimeLimits\<close> leaves give the same answer as all rows of
  the interval it was given.
\<close>

theorem time_limits_keep_answer:
  assumes "and_only_times col g f" and "\<forall>x\<in>set rows. lower \<le> g x \<and> g x < upper"
  shows "filter (accepts f) (filter (in_interval g (find_time_limits f col (lower, upper))) rows) =
         filter (accepts f) rows"
  by (rule time_narrowing.scan_unchanged [OF assms(1)]) (use assms(2) in \<open>simp add: in_interval_def\<close>)

theorem time_limits_keep_answer_witness:
  "filter (accepts demo_times) (filter (in_interval id (find_time_limits demo_times ''time'' (0, 1000))) [5, 10, 15, 20, 25]) =
     filter (accepts demo_times) [5, 10, 15, 20, 25] \<and>
   find_time_limits demo_times ''time'' (0, 1000) = (10, 20)"
  by (rule conjI, rule time_limits_keep_answer) (simp_all add: demo_times_def time_limits_def)

text \<open>
  C13. Narrowing by bit mask never loses a row, and always ends: for any filter whose conditions on the
  integer column \<open>col\<close> read the value \<open>g\<close>, \<open>optimizeBitmask\<close> returns a mask under which the rows
  whose bit is set give the same answer as under the mask it was given.
\<close>

theorem bitmask_keeps_answer:
  assumes "masks_ints col g f" and "\<forall>x\<in>set rows. in_mask g m x"
  shows "\<exists>b m'. optimize_bitmask f col m = Some (b, m') \<and>
           filter (accepts f) (filter (in_mask g m') rows) = filter (accepts f) rows"
proof -
  obtain b m' where "optimize_bitmask f col m = Some (b, m')"
    by (rule narrows_maskE [OF optimize_bitmask_narrows [of col g undefined f], of m]) blast
  then show ?thesis
    using mask_narrowing.scan_unchanged [OF assms] by auto
qed

text \<open>
  Within the 32 bits the mask of one integer filter is exact: for each of the operators integers have,
  negated or not, the bits that stay set are those of the values the filter accepts.
\<close>

theorem single_filter_bitmask_exact:
  assumes "0 \<le> atoi ref" and "atoi ref \<le> 31" and "opid \<in> {OP_EQUAL, OP_GREATER, OP_LESS}"
  shows "\<exists>m'. optimize_bitmask (IntColumnFilter col g opid negate ref) col m = Some (True, m') \<and>
           (\<forall>x. 0 \<le> g x \<longrightarrow>
              bit m' (nat (g x)) = (bit m (nat (g x)) \<and> accepts (IntColumnFilter col g opid negate ref) x))"
  using int_bitmask_exact [OF assms, of negate m] by auto

theorem bitmask_keeps_answer_witness:
  "\<exists>b m'. optimize_bitmask demo_masks ''class'' 0xFF = Some (b, m') \<and>
     filter (accepts demo_masks) (filter (in_mask id m') [0, 1, 2, 3, 4, 7]) = filter (accepts demo_masks) [0, 1, 2, 3, 4, 7]"
  by (rule bitmask_keeps_answer) (simp_all add: demo_masks_def in_mask_def bit_numeral_rec)

definition demo_mask_filter :: "int filter" where
  "demo_mask_filter = IntColumnFilter ''class'' id OP_LESS True ''3''"

theorem single_filter_bitmask_exact_witness:
  "\<exists>m'. optimize_bitmask demo_mask_filter ''class'' 0xFF = Some (True, m') \<and>
     bit m' (nat 2) = (bit (0xFF :: 32 word) (nat 2) \<and> accepts demo_mask_filter 2) \<and>
     bit m' (nat 3) = (bit (0xFF :: 32 word) (nat 3) \<and> accepts demo_mask_filter 3)"
proof -
  have ref: "atoi ''3'' = 3"
    by (simp add: atoi_def strtol_def c_isspace_def c_isdigit_def digits_value_def digit_val_def wrap32_def Let_def)
  obtain m' where "optimize_bitmask demo_mask_filter ''class'' 0xFF = Some (True, m')"
    and bits: "\<forall>x. 0 \<le> id x \<longrightarrow> bit m' (nat (id x)) = (bit (0xFF :: 32 word) (nat (id x)) \<and> accepts demo_mask_filter x)"
    using single_filter_bitmask_exact [of "''3''" OP_LESS "''class''" id True "0xFF"]
    by (auto simp: demo_mask_filter_def ref)
  moreover have "bit m' (nat 2) = (bit (0xFF :: 32 word) (nat 2) \<and> accepts demo_mask_filter 2)"
    using bits [rule_format, of 2] by simp
  moreover have "bit m' (nat 3) = (bit (0xFF :: 32 word) (nat 3) \<and> accepts demo_mask_filter 3)"
    using bits [rule_format, of 3] by simp
  ultimately show ?thesis by blast
qed

text \<open>
  A disjunction inherits \<open>findTimeLimits\<close> from the conjunction, and so narrows by each of its conditions
  in turn: for "time is a or time is b" with two different instants the interval it leaves is empty,
  although the filter accepts the rows of both.
\<close>

theorem or_of_times_narrows_to_nothing:
  assumes "a \<noteq> b" and "lower \<le> a" and "a < upper" and "lower \<le> b" and "b < upper"
    and f: "f = OringFilter [TimeColumnFilter col g OP_EQUAL False a, TimeColumnFilter col g OP_EQUAL False b]"
  shows "(\<forall>x. accepts f x = (g x = a \<or> g x = b)) \<and>
         (\<forall>x. \<not> in_interval g (find_time_limits f col (lower, upper)) x)"
  using assms by (auto simp: time_accepts_def time_limits_def in_interval_def)

theorem or_of_times_narrows_to_nothing_witness:
  "(\<forall>x. accepts demo_or_times x = (id x = 3 \<or> id x = 7)) \<and>
   (\<forall>x. \<not> in_interval id (find_time_limits demo_or_times ''time'' (0, 10)) x)"
  by (rule or_of_times_narrows_to_nothing [where a = 3 and b = 7 and g = id]) (simp_all add: demo_or_times_def)

section \<open>Looking rows up by a filter\<close>

fun has_ref :: "('r \<Rightarrow> string) \<Rightarrow> ('r \<Rightarrow> (nat \<times> string) list option) \<Rightarrow> index_ref option \<Rightarrow> 'r \<Rightarrow> bool" where
  "has_ref gs gl None x = True"
| "has_ref gs gl (Some (IndexString s)) x = (gs x = s)"
| "has_ref gs gl (Some (IndexObject o')) x = (case gl x of None \<Rightarrow> False | Some ms \<Rightarrow> o' \<in> fst ` set ms)"

fun plain_index :: "string \<Rightarrow> ('r \<Rightarrow> string) \<Rightarrow> ('r \<Rightarrow> (nat \<times> string) list option) \<Rightarrow> 'r filter \<Rightarrow> bool" where
  "plain_index col gs gl (StringColumnFilter n h _ opid negate _) = (n = col \<longrightarrow> h = gs \<and> (opid = OP_EQUAL \<longrightarrow> \<not> negate))"
| "plain_index col gs gl (ListColumnFilter n h _ _ _) = (n = col \<longrightarrow> h = gl)"
| "plain_index col gs gl _ = True"

lemma index_filter_sound:
  "plain_index col gs gl f \<Longrightarrow> accepts f x \<Longrightarrow> index_filter f col = Some r \<Longrightarrow> has_ref gs gl (Some r) x"
  by (cases f)
    (force simp: string_accepts_def list_accepts_def is_member_def split: if_splits option.splits)+

lemma find_index_filter_sound:
  "list_all (plain_index col gs gl) fs \<Longrightarrow> list_all (\<lambda>f. accepts f x) fs \<Longrightarrow>
     find_index_filter fs col = Some r \<Longrightarrow> has_ref gs gl (Some r) x"
  by (induction fs) (auto split: option.splits dest: index_filter_sound)

interpretation index_narrowing:
  narrowing "\<lambda>fs. accepts (AndingFilter fs)"
    "\<lambda>fs s. case find_index_filter fs col of None \<Rightarrow> s | Some r \<Rightarrow> Some r"
    "has_ref gs gl" "list_all (plain_index col gs gl)" for col gs gl
  by unfold_locales (auto split: option.splits dest: find_index_filter_sound)

text \<open>
  A table may read only the rows that have the reference \<open>findIndexFilter\<close> finds: when the string
  filters for equality on the column are not negated, the answer over these rows is the answer over all.
\<close>

theorem index_lookup_keeps_answer:
  assumes "list_all (plain_index col gs gl) fs"
  shows "filter (accepts (AndingFilter fs)) (filter (has_ref gs gl (find_index_filter fs col)) rows) =
         filter (accepts (AndingFilter fs)) rows"
  using index_narrowing.scan_unchanged [OF assms, of rows None]
  by (cases "find_index_filter fs col") simp_all

theorem index_lookup_keeps_answer_witness:
  "filter (accepts (AndingFilter demo_index)) (filter (has_ref fst snd (find_index_filter demo_index ''host_name''))
       [(''a'', None), (''b'', None)]) =
     filter (accepts (AndingFilter demo_index)) [(''a'', None), (''b'', None)]"
  by (rule index_lookup_keeps_answer) (simp add: demo_index_def)

text \<open>
  The restriction is needed: \<open>StringColumnFilter::indexFilter\<close> does not look at \<open>_negate\<close>. The filter
  "column is not equal to the text" answers with the text as the reference to look up, and accepts
  exactly the rows that do not have it.
\<close>

theorem negated_equality_offers_its_own_complement:
  "let f = fst (create_filter env (StringColumn col g) (lookupOperator ''!='') s)
   in index_filter f col = Some (IndexString s) \<and> (\<forall>x. accepts f x = (\<not> has_ref g gl (Some (IndexString s)) x))"
  by (simp add: lookupOperator_def compile_regex_def string_accepts_def) blast

end
