(* ===== verification/Table_Log.thy ===== *)
theory Table_Log
  imports Log_Loading Filter_Narrowing Table
begin

text \<open>
  The table of log messages (\<open>src/TableLog.cc\<close>). It narrows a query by the conditions on \<open>time\<close> and \<open>class\<close>,
  goes back from the newest log file that can have messages of the interval, loads the classes that are
  left and offers the messages of each file, newest first, until the interval is passed or the query has
  enough. \<open>Logfile::end\<close> (\<open>src/Logfile.cc\<close>) is the time of the last line of a file of the archive.
\<close>

unbundle bit_operations_syntax

section \<open>The end of a log file\<close>

text \<open>
  \<open>end\<close> reads windows of 50 bytes from the end of the file backward. The first window is one byte short:
  its last byte is what the stack had there, the parameter \<open>stale\<close>. A read at the end of the file leaves the
  rest of the buffer as it was.
\<close>

definition end_window :: "string \<Rightarrow> char \<Rightarrow> nat \<Rightarrow> string" where
  "end_window s stale i = (if i = 1 then drop (length s - 49) s @ [stale] else take 50 (drop (length s - 49 * i) s))"

definition last_line_in :: "string \<Rightarrow> nat option" where
  "last_line_in w = List.find (\<lambda>j. w ! j = CHR 0x0A \<and> w ! (j + 1) = CHR ''['') (rev [0..<49])"

definition end_time_at :: "string \<Rightarrow> char \<Rightarrow> nat \<Rightarrow> nat \<Rightarrow> int" where
  "end_time_at s stale i j =
     (let r = take 10 (drop (length s - 49 * i + j + 2) s)
      in atoi (take 10 (r @ drop (length r) (end_window s stale i))))"

fun end_scan :: "string \<Rightarrow> char \<Rightarrow> nat \<Rightarrow> nat \<Rightarrow> int \<Rightarrow> int" where
  "end_scan s stale 0 i e = e"
| "end_scan s stale (Suc n) i e =
     (if length s < 49 * i then 0
      else case last_line_in (end_window s stale i) of
             None \<Rightarrow> end_scan s stale n (i + 1) e
           | Some j \<Rightarrow> if 0 < end_time_at s stale i j then end_time_at s stale i j
                       else end_scan s stale n (i + 1) (end_time_at s stale i j))"

definition logfile_end :: "string option \<Rightarrow> char \<Rightarrow> int" where
  "logfile_end content stale =
     (case content of None \<Rightarrow> 0 | Some s \<Rightarrow> if length s < 50 then 0 else end_scan s stale 100 1 0)"

section \<open>The table\<close>

definition LOGCLASS_ALL :: "32 word" where
  "LOGCLASS_ALL = 0xFFFF"

record log_env =
  lv_objects :: objects
  lv_max_lines :: nat
  lv_stop :: "nat \<Rightarrow> bool"
  lv_contents :: "int \<Rightarrow> string option"
  lv_stale :: "int \<Rightarrow> char"

definition lv_ends :: "log_env \<Rightarrow> int \<Rightarrow> int" where
  "lv_ends v k = logfile_end (lv_contents v k) (lv_stale v k)"

fun log_scan ::
  "log_env \<Rightarrow> int \<Rightarrow> int \<Rightarrow> 32 word \<Rightarrow> (log_entry \<Rightarrow> 's \<Rightarrow> bool \<times> 's) \<Rightarrow> int list \<Rightarrow> log_cache \<Rightarrow> 's \<Rightarrow> (log_cache \<times> 's) option" where
  "log_scan v since until classmask consume [] c st = Some (c, st)"
| "log_scan v since until classmask consume (k # ks) c st =
     (case lc_file k c of
        None \<Rightarrow> None
      | Some lf \<Rightarrow>
          if \<not> lf_watch lf \<and> 0 < lv_ends v k \<and> lv_ends v k < since then Some (c, st)
          else case load (lv_objects v) (lv_max_lines v) (lv_stop v) (lv_contents v k) k classmask c of
                 None \<Rightarrow> None
               | Some c1 \<Rightarrow>
                   (case lc_file k c1 of
                      None \<Rightarrow> None
                    | Some lf1 \<Rightarrow>
                        (case answerQueryReverse since until consume lf1 st of
                           (False, st1) \<Rightarrow> Some (c1, st1)
                         | (True, st1) \<Rightarrow> log_scan v since until classmask consume ks c1 st1)))"

definition table_log_answer ::
  "log_env \<Rightarrow> int \<Rightarrow> log_entry filter \<Rightarrow> (log_entry \<Rightarrow> 's \<Rightarrow> bool \<times> 's) \<Rightarrow> log_cache \<Rightarrow> 's \<Rightarrow> (log_cache \<times> 's) option" where
  "table_log_answer v now f consume c st =
     (let (since, until) = find_time_limits f ''time'' (0, now + 1)
      in case optimize_bitmask f ''class'' LOGCLASS_ALL of
           None \<Rightarrow> None
         | Some (_, classmask) \<Rightarrow>
             if classmask = 0 then Some (c, st)
             else if lc_files c = [] then None
             else log_scan v since until classmask consume (dropWhile (\<lambda>k. until \<le> k) (rev (map fst (lc_files c)))) c st)"

text \<open>Who may see a message; \<open>is_authorized_for\<close> decides for the objects the entry refers to.\<close>

definition log_authorized :: "(auth_user \<Rightarrow> nat option \<Rightarrow> nat option \<Rightarrow> bool) \<Rightarrow> auth_user \<Rightarrow> log_entry \<Rightarrow> bool" where
  "log_authorized is_authorized_for ctc e =
     (if le_host e \<noteq> None \<or> le_service e \<noteq> None then is_authorized_for ctc (le_host e) (le_service e)
      else \<not> (le_logclass e = LOGCLASS_ALERT \<or> le_logclass e = LOGCLASS_NOTIFICATION \<or>
              le_logclass e = LOGCLASS_PASSIVECHECK \<or> le_logclass e = LOGCLASS_STATE))"

definition log_column :: "log_entry table \<Rightarrow> string \<Rightarrow> log_entry column option" where
  "log_column t n = (case table_column t n of Some c \<Rightarrow> Some c | None \<Rightarrow> table_column t (''current_'' @ n))"

section \<open>The order of the messages of a file\<close>

lemma makeKey_value:
  assumes "0 \<le> t" "t < 2 ^ 32" "n < 2 ^ 32"
  shows "uint (makeKey t n) = t * 2 ^ 32 + int n"
proof -
  let ?a = "push_bit 32 (word_of_int t) :: 64 word" and ?b = "word_of_nat n :: 64 word"
  have low: "bit ?b i \<Longrightarrow> i < 32" for i
  proof -
    assume "bit ?b i"
    then have "bit n i" by (simp add: bit_simps)
    with assms(3) show "i < 32" by (metis bit_take_bit_iff take_bit_nat_eq_self)
  qed
  have "?a AND ?b = 0"
  proof (rule bit_eqI)
    fix i
    show "bit (?a AND ?b) i = bit 0 i" using low [of i] by (cases "i < 32") (auto simp: bit_and_iff bit_push_bit_iff)
  qed
  then have "?a OR ?b = ?a + ?b" using word_plus_and_or [of ?a ?b] by simp
  moreover have "?a = word_of_int (t * 2 ^ 32)" by (simp add: push_bit_eq_mult)
  ultimately have "makeKey t n = word_of_int (t * 2 ^ 32 + int n)"
    using assms(3) by (simp add: makeKey_def)
  moreover have "t * 2 ^ 32 + int n < 2 ^ 64"
  proof -
    have "t * 2 ^ 32 \<le> (2 ^ 32 - 1) * 2 ^ 32" using assms(2) by simp
    moreover have "int n < 2 ^ 32" using assms(3) by simp
    ultimately show ?thesis by simp
  qed
  moreover have "0 \<le> t * 2 ^ 32 + int n" using assms(1) by simp
  ultimately show ?thesis by (simp only: uint_word_of_int) (simp add: mod_pos_pos_trivial)
qed

lemma makeKey_le:
  assumes "0 \<le> t" "t < 2 ^ 32" "n \<le> 999999999" "0 \<le> u" "u < 2 ^ 32"
  shows "makeKey t n \<le> makeKey u 999999999 \<longleftrightarrow> t \<le> u"
proof -
  have "uint (makeKey t n) = t * 2 ^ 32 + int n" "uint (makeKey u 999999999) = u * 2 ^ 32 + 999999999"
    using assms by (simp_all add: makeKey_value)
  with assms(3) show ?thesis unfolding word_le_def by simp linarith
qed

lemma makeKey_time:
  assumes "0 \<le> t" "t < 2 ^ 32" "n < 2 ^ 32" "0 \<le> u" "u < 2 ^ 32" "m < 2 ^ 32" and "makeKey t n < makeKey u m"
  shows "t \<le> u"
proof -
  have "t * 2 ^ 32 + int n < u * 2 ^ 32 + int m"
    using assms(7) unfolding word_less_def using assms(1-6) by (simp add: makeKey_value)
  with assms(3,6) show ?thesis by simp
qed

section \<open>What a query is offered\<close>

text \<open>The texts of the log files: times in order, from file to file, and none of them from the future.\<close>

definition log_times_ok :: "log_env \<Rightarrow> (int \<Rightarrow> string) \<Rightarrow> int list \<Rightarrow> int \<Rightarrow> bool" where
  "log_times_ok v contents ks now \<longleftrightarrow>
     now < 2 ^ 31 \<and> sorted_wrt (<) ks \<and>
     (\<forall>k \<in> set ks. 0 \<le> k \<and> lv_contents v k = Some (contents k) \<and> length (lines_of (contents k)) \<le> lv_max_lines v \<and>
        length (lines_of (contents k)) \<le> 999999999 \<and> defined_lines (lv_objects v) (lines_of (contents k)) \<and>
        (0 < lv_ends v k \<longrightarrow> k \<le> lv_ends v k) \<and>
        (\<forall>i e. message_at (lv_objects v) (lines_of (contents k)) i e \<longrightarrow>
           k \<le> le_time e \<and> le_time e \<le> now \<and> (0 < lv_ends v k \<longrightarrow> le_time e \<le> lv_ends v k) \<and>
           (\<forall>k' \<in> set ks. k < k' \<longrightarrow> le_time e \<le> k')))"

definition accepted :: "log_env \<Rightarrow> (int \<Rightarrow> string) \<Rightarrow> log_entry filter \<Rightarrow> int \<Rightarrow> log_entry set" where
  "accepted v contents f k = {e. accepts f e \<and> (\<exists>i. message_at (lv_objects v) (lines_of (contents k)) i e)}"

text \<open>A query that takes every message its filter accepts.\<close>

definition collect :: "log_entry filter \<Rightarrow> log_entry \<Rightarrow> log_entry list \<Rightarrow> bool \<times> log_entry list" where
  "collect f e st = (True, if accepts f e then st @ [e] else st)"

lemma answer_entries_collect:
  "sorted_wrt (\<lambda>a b. le_time (snd b) \<le> le_time (snd a)) es \<Longrightarrow>
     answer_entries (\<lambda>e. le_time e < since) (collect f) es st =
       ((\<forall>e \<in> snd ` set es. since \<le> le_time e), st @ filter (accepts f) (map snd (filter (\<lambda>(k, e). since \<le> le_time e) es)))"
proof (induction es arbitrary: st)
  case (Cons a es)
  obtain k e where a: "a = (k, e)" by (cases a)
  show ?case
  proof (cases "le_time e < since")
    case True
    with Cons.prems a have "\<forall>x \<in> set es. le_time (snd x) < since" by auto
    then have "filter (\<lambda>(k, e). since \<le> le_time e) es = []" by (auto simp: filter_empty_conv)
    with True a show ?thesis by auto
  next
    case False
    with Cons a show ?thesis by (auto simp: collect_def)
  qed
qed simp

lemma takeWhile_sorted:
  "sorted_wrt (<) (map fst xs) \<Longrightarrow> takeWhile (\<lambda>(k, _). k \<le> b) xs = filter (\<lambda>(k, _). k \<le> (b :: 'k :: linorder)) xs"
proof (induction xs)
  case (Cons x xs)
  show ?case
  proof (cases "fst x \<le> b")
    case False
    with Cons.prems have "\<forall>y \<in> set xs. \<not> fst y \<le> b" by auto
    then have "filter (\<lambda>(k, _). k \<le> b) xs = []" by (auto simp: filter_empty_conv)
    with False show ?thesis by (cases x) simp
  qed (use Cons in \<open>cases x; simp\<close>)
qed simp

text \<open>The messages one loaded file offers.\<close>

lemma answer_file:
  assumes s: "sound os ls lf" and ls: "length ls \<le> 999999999" and t: "\<forall>i e. message_at os ls i e \<longrightarrow> 0 \<le> le_time e \<and> le_time e < 2 ^ 32"
    and u: "0 \<le> until" "until < 2 ^ 32"
  shows "\<exists>out. answerQueryReverse since until (collect f) lf st =
       ((\<forall>e \<in> snd ` set (lf_entries lf). le_time e \<le> until \<longrightarrow> since \<le> le_time e), st @ out) \<and>
     sorted_wrt (\<lambda>a b. le_time b \<le> le_time a) out \<and>
     set out = {e \<in> snd ` set (lf_entries lf). accepts f e \<and> since \<le> le_time e \<and> le_time e \<le> until}"
proof -
  let ?es = "lf_entries lf"
  have key: "\<exists>n. k = makeKey (le_time e) n \<and> n \<le> 999999999 \<and> 0 \<le> le_time e \<and> le_time e < 2 ^ 32" if "(k, e) \<in> set ?es" for k e
  proof -
    from that s have "(k, e) \<in> messages os ls" by (auto simp: sound_def)
    then obtain i where i: "message_at os ls i e" "k = makeKey (le_time e) (Suc i)" by (auto simp: messages_def)
    then have "Suc i \<le> 999999999" using ls by (auto simp: message_at_def)
    with i t show ?thesis by blast
  qed
  have win: "filter (\<lambda>(k, _). k \<le> makeKey until 999999999) ?es = filter (\<lambda>(k, e). le_time e \<le> until) ?es"
  proof (rule filter_cong [OF refl])
    fix x
    assume x: "x \<in> set ?es"
    obtain k e where ke: "x = (k, e)" by (cases x)
    from key [of k e] x ke obtain n where "k = makeKey (le_time e) n" "n \<le> 999999999" "0 \<le> le_time e" "le_time e < 2 ^ 32" by blast
    with ke makeKey_le [of "le_time e" n until] u show "(case x of (k, _) \<Rightarrow> k \<le> makeKey until 999999999) = (case x of (k, e) \<Rightarrow> le_time e \<le> until)"
      by simp
  qed
  have asc: "sorted_wrt (\<lambda>a b. le_time (snd a) \<le> le_time (snd b)) ?es"
  proof -
    have "sorted_wrt (\<lambda>a b. fst a < fst b) ?es" using s by (simp add: sound_def sorted_wrt_map)
    then show ?thesis
    proof (rule sorted_wrt_mono_rel [rotated])
      fix x y
      assume xy: "x \<in> set ?es" "y \<in> set ?es" "fst x < fst y"
      obtain k e where x: "x = (k, e)" by (cases x)
      obtain l d where y: "y = (l, d)" by (cases y)
      from key [of k e] xy(1) x obtain n where n: "k = makeKey (le_time e) n" "n \<le> 999999999" "0 \<le> le_time e" "le_time e < 2 ^ 32" by blast
      from key [of l d] xy(2) y obtain m where m: "l = makeKey (le_time d) m" "m \<le> 999999999" "0 \<le> le_time d" "le_time d < 2 ^ 32" by blast
      have "n < 2 ^ 32" "m < 2 ^ 32" using n(2) m(2) by simp_all
      moreover have "makeKey (le_time e) n < makeKey (le_time d) m" using xy(3) unfolding x y fst_conv n(1) m(1) .
      ultimately have "le_time e \<le> le_time d" using makeKey_time n(3,4) m(3,4) by blast
      then show "le_time (snd x) \<le> le_time (snd y)" unfolding x y snd_conv .
    qed
  qed
  let ?w = "filter (\<lambda>(k, e). le_time e \<le> until) ?es"
  have "sorted_wrt (\<lambda>a b. le_time (snd b) \<le> le_time (snd a)) (rev ?w)"
    using sorted_wrt_filter [OF asc] by (simp add: sorted_wrt_rev)
  moreover have srt: "sorted_wrt (<) (map fst ?es)" using s by (simp add: sound_def)
  ultimately have a: "answerQueryReverse since until (collect f) lf st =
      ((\<forall>e \<in> snd ` set ?w. since \<le> le_time e), st @ filter (accepts f) (map snd (filter (\<lambda>(k, e). since \<le> le_time e) (rev ?w))))"
    unfolding answerQueryReverse_def takeWhile_sorted [OF srt] win by (subst answer_entries_collect) simp_all
  let ?out = "filter (accepts f) (map snd (filter (\<lambda>(k, e). since \<le> le_time e) (rev ?w)))"
  have o1: "sorted_wrt (\<lambda>a b. le_time b \<le> le_time a) ?out"
    using \<open>sorted_wrt (\<lambda>a b. le_time (snd b) \<le> le_time (snd a)) (rev ?w)\<close>
    by (intro sorted_wrt_filter) (simp add: sorted_wrt_map sorted_wrt_filter)
  have o2: "set ?out = {e \<in> snd ` set ?es. accepts f e \<and> since \<le> le_time e \<and> le_time e \<le> until}" by force
  have o3: "(\<forall>e \<in> snd ` set ?w. since \<le> le_time e) = (\<forall>e \<in> snd ` set ?es. le_time e \<le> until \<longrightarrow> since \<le> le_time e)" by auto
  show ?thesis by (rule exI [of _ ?out]) (intro conjI a [unfolded o3] o1 o2)
qed

section \<open>The files stay the same\<close>

lemma free_until_keys: "free_until P f mx num fs = (fit, n, fs') \<Longrightarrow> map fst fs' = map fst fs"
  by (drule free_until_files) (induction rule: list_all2_induct, auto)

lemma handleNewMessage_keys: "map fst (lc_files (handleNewMessage k classes c)) = map fst (lc_files c)"
proof -
  let ?older = "takeWhile (\<lambda>(s, _). s \<noteq> k) (lc_files c)" and ?rest = "dropWhile (\<lambda>(s, _). s \<noteq> k) (lc_files c)"
  let ?num = "wrap32 (lc_num_cached c + 1)"
  obtain fit1 n1 older' where 1: "free_until has_entries lf_flush (lc_max c) ?num ?older = (fit1, n1, older')" by (metis prod_cases3)
  obtain fit2 n2 rest' where 2: "(if fit1 then (True, n1, ?rest)
      else free_until (irrelevant_entries classes) (freeMessages (NOT classes)) (lc_max c) n1 ?rest) = (fit2, n2, rest')" by (metis prod_cases3)
  obtain fit3 n3 newer' where 3: "(if fit2 then (True, n2, drop 1 rest')
      else free_until has_entries lf_flush (lc_max c) n2 (drop 1 rest')) = (fit3, n3, newer')" by (metis prod_cases3)
  have a: "map fst older' = map fst ?older" using 1 by (rule free_until_keys)
  have b: "map fst rest' = map fst ?rest" using 2 free_until_keys by (auto split: if_splits)
  have d: "map fst newer' = map fst (drop 1 rest')" using 3 free_until_keys by (auto split: if_splits)
  have "map fst (older' @ take 1 rest' @ newer') = map fst ?older @ map fst ?rest"
    by (simp only: map_append a d b [symmetric]) (simp only: append.assoc map_append [symmetric] append_take_drop_id)
  also have "\<dots> = map fst (lc_files c)" by (simp only: map_append [symmetric] split_at)
  finally have k: "map fst (older' @ take 1 rest' @ newer') = map fst (lc_files c)" .
  define due where "due \<longleftrightarrow> \<not> fits (lc_max c) ?num \<and> \<not> ?num mod 2 ^ 64 < int (lc_num_at_last_check c + CHECK_MEM_CYCLE) mod 2 ^ 64"
  show ?thesis
  proof (cases due)
    case False
    then show ?thesis by (auto simp: due_def handleNewMessage_def Let_def)
  next
    case True
    then have "lc_files (handleNewMessage k classes c) = older' @ take 1 rest' @ newer'"
      using 1 2 3 by (cases fit1; cases fit2) (auto simp: due_def handleNewMessage_def Let_def)
    with k show ?thesis by simp
  qed
qed

lemma lc_update_keys [simp]: "map fst (lc_files (lc_update k f c)) = map fst (lc_files c)"
  by (simp add: lc_update_def)

lemma loadRange_keys:
  "loadRange os max_lines stop k missing classes s c = Some (c', r) \<Longrightarrow> map fst (lc_files c') = map fst (lc_files c)"
proof (induction os max_lines stop k missing classes s c rule: loadRange.induct)
  case (1 os max_lines stop k missing classes s c)
  show ?case
  proof (cases "fgets MAX_LOGLINE s")
    case None
    with "1.prems" show ?thesis by (simp add: loadRange.simps [of os max_lines stop k missing classes s c])
  next
    case (Some lr)
    obtain line r' where lr: "lr = (line, r')" by (cases lr)
    show ?thesis
      using "1.prems" "1.IH" [OF Some lr [symmetric]]
      by (auto simp: loadRange.simps [of os max_lines stop k missing classes s c] Some lr Let_def handleNewMessage_keys
          split: option.splits if_splits prod.splits)
  qed
qed

lemma load_keys:
  assumes "load os max_lines stop content k classes c = Some c'" shows "map fst (lc_files c') = map fst (lc_files c)"
  using assms unfolding load_def Let_def
  by (auto split: option.splits if_splits dest!: loadRange_keys)

section \<open>The scan\<close>

lemma offered_in_class:
  assumes "message_at os ls i e" and "masks_ints ''class'' le_logclass f" and "accepts f e"
    and "optimize_bitmask f ''class'' LOGCLASS_ALL = Some (b, m)"
  shows "in_classes e m"
proof -
  have cls: "le_logclass e \<in> {0..6}" using message_class [OF assms(1)] .
  then have "nat (le_logclass e) \<in> {0..<7}" by auto
  then have "in_mask le_logclass LOGCLASS_ALL e"
    using cls by (simp add: in_mask_def LOGCLASS_ALL_def atLeastLessThan_upt upt_rec bit_simps) (elim disjE; simp add: bit_simps)
  with narrows_maskE [OF optimize_bitmask_narrows [of "''class''" le_logclass e f], of LOGCLASS_ALL] assms(2-4)
  have "in_mask le_logclass m e" by fastforce
  then show ?thesis using in_classes_bit [OF cls] by (simp add: in_mask_def)
qed

lemma log_scan_file:
  assumes ok: "log_times_ok v contents keys now" and stop: "\<forall>n. \<not> lv_stop v n" and k: "k \<in> set keys" "k < until"
    and since: "\<forall>e \<in> accepted v contents f k. since \<le> le_time e \<and> le_time e < until"
    and cls: "\<forall>i e. message_at (lv_objects v) (lines_of (contents k)) i e \<longrightarrow> accepts f e \<longrightarrow> in_classes e m"
    and until: "until < 2 ^ 32" and ready: "cache_ready (lv_objects v) contents c" "map fst (lc_files c) = keys" "lc_file k c = Some lf"
  obtains c1 lf1 out1 where "load (lv_objects v) (lv_max_lines v) (lv_stop v) (lv_contents v k) k m c = Some c1" "lc_file k c1 = Some lf1"
    "cache_ready (lv_objects v) contents c1" "map fst (lc_files c1) = keys"
    "answerQueryReverse since until (collect f) lf1 st =
       ((\<forall>e \<in> snd ` set (lf_entries lf1). le_time e \<le> until \<longrightarrow> since \<le> le_time e), st @ out1)"
    "sorted_wrt (\<lambda>a b. le_time b \<le> le_time a) out1" "set out1 = accepted v contents f k" "\<forall>e \<in> snd ` set (lf_entries lf1). k \<le> le_time e"
proof -
  let ?ls = "lines_of (contents k)"
  have fl: "lv_contents v k = Some (contents k)" "length ?ls \<le> lv_max_lines v" "length ?ls \<le> 999999999" "defined_lines (lv_objects v) ?ls" "0 \<le> k"
    using ok k(1) by (auto simp: log_times_ok_def)
  have time: "k \<le> le_time e" "le_time e \<le> now" if "message_at (lv_objects v) ?ls i e" for i e using ok k(1) that by (auto simp: log_times_ok_def)
  have n: "length ?ls < 2 ^ 32" using fl(3) by simp
  obtain c1 lf1 where l: "load (lv_objects v) (lv_max_lines v) (lv_stop v) (Some (contents k)) k m c = Some c1"
    "cache_ready (lv_objects v) contents c1" "lc_file k c1 = Some lf1"
    "\<forall>key e. in_classes e m \<longrightarrow> ((key, e) \<in> set (lf_entries lf1) \<longleftrightarrow> (key, e) \<in> messages (lv_objects v) ?ls)"
    using load_archive [OF n fl(2,4) stop ready(1,3)] load_current [OF n fl(2,4) stop ready(1,3)] by (cases "lf_watch lf") blast+
  have keys: "map fst (lc_files c1) = keys" using load_keys [OF l(1)] ready(2) by simp
  have snd: "sound (lv_objects v) ?ls lf1" using cache_readyD(3) [OF l(2,3)] by (simp add: file_ready_def)
  have times: "\<forall>i e. message_at (lv_objects v) ?ls i e \<longrightarrow> 0 \<le> le_time e \<and> le_time e < 2 ^ 32"
    using time fl(5) ok by (fastforce simp: log_times_ok_def)
  have "0 \<le> until" using k(2) fl(5) by simp
  from answer_file [where since = since and f = f and st = st, OF snd fl(3) times this until] obtain out1 where o:
    "answerQueryReverse since until (collect f) lf1 st =
       ((\<forall>e \<in> snd ` set (lf_entries lf1). le_time e \<le> until \<longrightarrow> since \<le> le_time e), st @ out1)"
    "sorted_wrt (\<lambda>a b. le_time b \<le> le_time a) out1"
    "set out1 = {e \<in> snd ` set (lf_entries lf1). accepts f e \<and> since \<le> le_time e \<and> le_time e \<le> until}" by blast
  have msg: "\<exists>i. message_at (lv_objects v) ?ls i e" if "e \<in> snd ` set (lf_entries lf1)" for e
    using snd that by (fastforce simp: sound_def messages_def)
  have "set out1 = accepted v contents f k"
  proof (rule equalityI; rule subsetI)
    fix e
    show "e \<in> accepted v contents f k" if "e \<in> set out1" using that msg by (auto simp: o(3) accepted_def)
    assume a: "e \<in> accepted v contents f k"
    then obtain i where i: "message_at (lv_objects v) ?ls i e" "accepts f e" by (auto simp: accepted_def)
    with cls l(4) have "e \<in> snd ` set (lf_entries lf1)" by (force simp: messages_def)
    moreover have "since \<le> le_time e \<and> le_time e < until" using since a by blast
    ultimately show "e \<in> set out1" using i(2) by (simp add: o(3))
  qed
  moreover have "\<forall>e \<in> snd ` set (lf_entries lf1). k \<le> le_time e" using msg time(1) by blast
  ultimately show thesis using that [OF _ l(3,2) keys o(1,2)] l(1) fl(1) by simp
qed

lemma log_scan_collects:
  assumes ok: "log_times_ok v contents keys now" and stop: "\<forall>n. \<not> lv_stop v n"
    and since': "\<forall>k \<in> set keys. \<forall>e \<in> accepted v contents f k. since \<le> le_time e \<and> le_time e < until"
    and cls': "\<forall>k \<in> set keys. \<forall>i e. message_at (lv_objects v) (lines_of (contents k)) i e \<longrightarrow> accepts f e \<longrightarrow> in_classes e m"
    and until: "until < 2 ^ 32"
  shows "cache_ready (lv_objects v) contents c \<Longrightarrow> map fst (lc_files c) = keys \<Longrightarrow> set ks \<subseteq> set keys \<Longrightarrow> \<forall>k \<in> set ks. k < until \<Longrightarrow>
    sorted_wrt (>) ks \<Longrightarrow>
    \<exists>c' out. log_scan v since until m (collect f) ks c st = Some (c', st @ out) \<and> cache_ready (lv_objects v) contents c' \<and>
      map fst (lc_files c') = keys \<and> sorted_wrt (\<lambda>a b. le_time b \<le> le_time a) out \<and> set out = (\<Union>k \<in> set ks. accepted v contents f k)"
proof (induction ks arbitrary: c st)
  case (Cons k ks)
  have since: "since \<le> le_time e \<and> le_time e < until" if "k \<in> set keys" "e \<in> accepted v contents f k" for k e
    using since' that by blast
  let ?ls = "lines_of (contents k)"
  have k: "k \<in> set keys" "0 \<le> k" "k < until" using Cons.prems ok by (auto simp: log_times_ok_def)
  have ends: "0 < lv_ends v k \<Longrightarrow> k \<le> lv_ends v k" using ok k(1) by (auto simp: log_times_ok_def)
  have time: "k \<le> le_time e" "le_time e \<le> now" "0 < lv_ends v k \<Longrightarrow> le_time e \<le> lv_ends v k"
    if "message_at (lv_objects v) ?ls i e" for i e using ok k(1) that by (auto simp: log_times_ok_def)
  have older: "le_time e \<le> k" if "e \<in> accepted v contents f k'" "k' \<in> set ks" for e k'
  proof -
    have "k' \<in> set keys" "k' < k" using that(2) Cons.prems(3,5) by auto
    moreover from that(1) obtain i where "message_at (lv_objects v) (lines_of (contents k')) i e" by (auto simp: accepted_def)
    ultimately show ?thesis using ok k(1) unfolding log_times_ok_def by blast
  qed
  obtain lf where lf: "lc_file k c = Some lf"
    using k(1) Cons.prems(2) by (cases "lc_file k c") (auto simp: lc_file_def map_find_None)
  have rest_gone: "(\<Union>k' \<in> set (k # ks). accepted v contents f k') = accepted v contents f k" if "k < since"
  proof -
    have "e \<notin> accepted v contents f k'" if "k' \<in> set ks" for e k'
    proof
      assume e: "e \<in> accepted v contents f k'"
      have "k' \<in> set keys" using that Cons.prems(3) by auto
      from since [OF this e] older [OF e that] \<open>k < since\<close> show False by linarith
    qed
    then show ?thesis by auto
  qed
  show ?case
  proof (cases "\<not> lf_watch lf \<and> 0 < lv_ends v k \<and> lv_ends v k < since")
    case True
    then have "k < since" using ends by simp
    note rest_gone [OF this]
    moreover have "accepted v contents f k = {}" using True time(3) since [OF k(1)] by (fastforce simp: accepted_def)
    ultimately have "(\<Union>k' \<in> set (k # ks). accepted v contents f k') = set []" by (metis empty_set)
    moreover have "log_scan v since until m (collect f) (k # ks) c st = Some (c, st @ [])" using lf True by simp
    ultimately show ?thesis using Cons.prems(1,2) by (metis sorted_wrt.simps(1))
  next
    case False
    have facts: "\<forall>e \<in> accepted v contents f k. since \<le> le_time e \<and> le_time e < until"
      "\<forall>i e. message_at (lv_objects v) ?ls i e \<longrightarrow> accepts f e \<longrightarrow> in_classes e m" using since' cls' k(1) by blast+
    obtain c1 lf1 out1 where l: "load (lv_objects v) (lv_max_lines v) (lv_stop v) (lv_contents v k) k m c = Some c1" "lc_file k c1 = Some lf1"
      "cache_ready (lv_objects v) contents c1" and keys: "map fst (lc_files c1) = keys" and o:
      "answerQueryReverse since until (collect f) lf1 st =
         ((\<forall>e \<in> snd ` set (lf_entries lf1). le_time e \<le> until \<longrightarrow> since \<le> le_time e), st @ out1)"
      "sorted_wrt (\<lambda>a b. le_time b \<le> le_time a) out1" and all: "set out1 = accepted v contents f k"
      and start: "\<forall>e \<in> snd ` set (lf_entries lf1). k \<le> le_time e"
      by (rule log_scan_file [OF ok stop k(1,3) facts until Cons.prems(1,2) lf])
    have step: "log_scan v since until m (collect f) (k # ks) c st = (case answerQueryReverse since until (collect f) lf1 st of
        (False, st1) \<Rightarrow> Some (c1, st1) | (True, st1) \<Rightarrow> log_scan v since until m (collect f) ks c1 st1)"
      by (simp only: log_scan.simps lf option.case if_not_P [OF False] l(1,2))
    show ?thesis
    proof (cases "\<forall>e \<in> snd ` set (lf_entries lf1). le_time e \<le> until \<longrightarrow> since \<le> le_time e")
      case True
      have "set ks \<subseteq> set keys" "\<forall>k \<in> set ks. k < until" "sorted_wrt (>) ks" using Cons.prems(3-5) by simp_all
      from Cons.IH [OF l(3) keys this, of "st @ out1"] obtain c2 out2 where r: "log_scan v since until m (collect f) ks c1 (st @ out1) = Some (c2, (st @ out1) @ out2)"
        "cache_ready (lv_objects v) contents c2" "map fst (lc_files c2) = keys" "sorted_wrt (\<lambda>a b. le_time b \<le> le_time a) out2"
        "set out2 = (\<Union>k' \<in> set ks. accepted v contents f k')"
        by blast
      have "log_scan v since until m (collect f) (k # ks) c st = Some (c2, st @ (out1 @ out2))"
        using True r(1) unfolding step o(1) by simp
      moreover have "sorted_wrt (\<lambda>a b. le_time b \<le> le_time a) (out1 @ out2)"
      proof -
        have "le_time b \<le> le_time a" if "a \<in> set out1" "b \<in> set out2" for a b
        proof -
          have "k \<le> le_time a" using that(1) time(1) by (auto simp: all accepted_def)
          moreover have "le_time b \<le> k" using that(2) older by (auto simp: r(5))
          ultimately show ?thesis by simp
        qed
        with o(2) r(4) show ?thesis by (simp add: sorted_wrt_append)
      qed
      moreover have "set (out1 @ out2) = (\<Union>k' \<in> set (k # ks). accepted v contents f k')" using all r(5) by simp
      ultimately show ?thesis using r(2,3) by blast
    next
      case beyond: False
      then obtain e where "e \<in> snd ` set (lf_entries lf1)" "le_time e < since" by (meson not_le)
      with start have "k < since" by fastforce
      moreover have "log_scan v since until m (collect f) (k # ks) c st = Some (c1, st @ out1)"
        unfolding step o(1) by (simp only: beyond prod.case bool.case)
      moreover have "(\<Union>k' \<in> set (k # ks). accepted v contents f k') = set out1" using rest_gone [OF \<open>k < since\<close>] all by metis
      ultimately show ?thesis using l(3) keys o(2) by blast
    qed
  qed
qed simp

lemma time_limits_upper: "snd (time_limits opid negate ref lu) \<le> snd lu"
  by (cases lu) (auto simp: time_limits_def Let_def)

lemma fold_upper: "(\<And>f lu. f \<in> set fs \<Longrightarrow> snd (h f lu) \<le> snd lu) \<Longrightarrow> snd (fold h fs lu) \<le> (snd lu :: int)"
proof (induction fs arbitrary: lu)
  case (Cons f fs)
  have "snd (fold h fs (h f lu)) \<le> snd (h f lu)" using Cons by simp
  also have "\<dots> \<le> snd lu" using Cons.prems by simp
  finally show ?case by simp
qed simp

lemma find_time_limits_upper: "snd (find_time_limits f col lu) \<le> snd lu"
proof (induction f arbitrary: lu)
  case (TimeColumnFilter n h opid negate ref)
  then show ?case using time_limits_upper by simp
next
  case (AndingFilter fs)
  then show ?case by (simp add: fold_upper)
next
  case (OringFilter fs)
  then show ?case by (simp add: fold_upper)
qed simp_all

lemma dropWhile_descending:
  "sorted_wrt (>) ks \<Longrightarrow> set (dropWhile (\<lambda>k. u \<le> k) ks) = {k \<in> set ks. k < (u :: int)} \<and> sorted_wrt (>) (dropWhile (\<lambda>k. u \<le> k) ks)"
  by (induction ks) (auto simp: not_le)

text \<open>The scan starts with the last file that begins before the upper limit; no message that is accepted is in a later one.\<close>

lemma scan_finds_accepted:
  assumes ok: "log_times_ok v contents keys now" and "\<forall>n. \<not> lv_stop v n" and ready: "cache_ready (lv_objects v) contents c" "map fst (lc_files c) = keys"
    and until: "until < 2 ^ 32" and since: "\<forall>k \<in> set keys. \<forall>e \<in> accepted v contents f k. since \<le> le_time e \<and> le_time e < until"
    and cls: "\<forall>k \<in> set keys. \<forall>i e. message_at (lv_objects v) (lines_of (contents k)) i e \<longrightarrow> accepts f e \<longrightarrow> in_classes e m"
  shows "\<exists>c' out. log_scan v since until m (collect f) (dropWhile (\<lambda>k. until \<le> k) (rev keys)) c [] = Some (c', out) \<and>
    cache_ready (lv_objects v) contents c' \<and> sorted_wrt (\<lambda>a b. le_time b \<le> le_time a) out \<and> set out = (\<Union>k \<in> set keys. accepted v contents f k)"
proof -
  let ?ks = "dropWhile (\<lambda>k. until \<le> k) (rev keys)"
  have "sorted_wrt (>) (rev keys)" using ok by (simp only: sorted_wrt_rev log_times_ok_def)
  from dropWhile_descending [OF this, of until] have ks: "set ?ks = {k \<in> set keys. k < until}" "sorted_wrt (>) ?ks" by (simp_all only: set_rev)
  from ks(1) have sub: "set ?ks \<subseteq> set keys" "\<forall>k \<in> set ?ks. k < until" by blast+
  obtain c' out where s: "log_scan v since until m (collect f) ?ks c [] = Some (c', [] @ out)" "cache_ready (lv_objects v) contents c'"
    "sorted_wrt (\<lambda>a b. le_time b \<le> le_time a) out" "set out = (\<Union>k \<in> set ?ks. accepted v contents f k)"
    using log_scan_collects [OF ok assms(2) since cls until ready sub ks(2)] by metis
  have "accepted v contents f k = {}" if "k \<in> set keys" "k \<notin> set ?ks" for k
  proof (rule equals0I)
    fix e
    assume e: "e \<in> accepted v contents f k"
    have "until \<le> k" using that by (simp add: ks(1) not_less)
    moreover have "k \<le> le_time e" using ok that(1) e unfolding log_times_ok_def accepted_def by force
    ultimately show False using since that(1) e by force
  qed
  then have "(\<Union>k \<in> set ?ks. accepted v contents f k) = (\<Union>k \<in> set keys. accepted v contents f k)" using sub(1) by blast
  with s show ?thesis by auto
qed

text \<open>
  C2. A query of the log is answered as if every message of every log file had been offered to its filter,
  the newest first: narrowing by time and class, leaving out the files that are too new or too old,
  loading only the classes that are missing and freeing messages on the way lose no message the filter
  accepts and add none. It holds for log files whose times are in order and for filters
  whose conditions on \<open>time\<close> stand in conjunctions.
\<close>

theorem log_queries_answer_as_a_full_scan:
  assumes "cache_ready (lv_objects v) contents c" and "lc_files c \<noteq> []" and "log_times_ok v contents (map fst (lc_files c)) now"
    and "\<forall>n. \<not> lv_stop v n" and "and_only_times ''time'' le_time f" and "masks_ints ''class'' le_logclass f"
  shows "\<exists>c' out. table_log_answer v now f (collect f) c [] = Some (c', out) \<and> cache_ready (lv_objects v) contents c' \<and>
     sorted_wrt (\<lambda>a b. le_time b \<le> le_time a) out \<and>
     set out = {e. accepts f e \<and> (\<exists>k \<in> set (map fst (lc_files c)). \<exists>i. message_at (lv_objects v) (lines_of (contents k)) i e)}"
proof -
  let ?keys = "map fst (lc_files c)"
  obtain since until where l: "find_time_limits f ''time'' (0, now + 1) = (since, until)" by (cases "find_time_limits f ''time'' (0, now + 1)")
  obtain b m where m: "optimize_bitmask f ''class'' LOGCLASS_ALL = Some (b, m)"
    by (rule narrows_maskE [OF optimize_bitmask_narrows [of "''class''" le_logclass undefined f], of LOGCLASS_ALL]) blast
  have since: "since \<le> le_time e \<and> le_time e < until" if "k \<in> set ?keys" "e \<in> accepted v contents f k" for k e
  proof -
    have "accepts f e" "0 \<le> le_time e \<and> le_time e \<le> now" using that assms(3) unfolding log_times_ok_def accepted_def by force+
    with find_time_limits_sound [OF assms(5) this(1), of "(0, now + 1)"] show ?thesis by (simp add: in_interval_def l)
  qed
  have cls: "in_classes e m" if "k \<in> set ?keys" "message_at (lv_objects v) (lines_of (contents k)) i e" "accepts f e" for k i e
    by (rule offered_in_class [OF that(2) assms(6) that(3) m])
  have until: "until < 2 ^ 32" using find_time_limits_upper [of f "''time''" "(0, now + 1)"] assms(3) by (simp add: l log_times_ok_def)
  have set: "{e. accepts f e \<and> (\<exists>k \<in> set ?keys. \<exists>i. message_at (lv_objects v) (lines_of (contents k)) i e)} = (\<Union>k \<in> set ?keys. accepted v contents f k)"
    unfolding accepted_def by blast
  show ?thesis
  proof (cases "m = 0")
    case True
    have "accepted v contents f k = {}" if "k \<in> set ?keys" for k
      using cls [OF that] True by (auto simp: accepted_def in_classes_def)
    then have "(\<Union>k \<in> set ?keys. accepted v contents f k) = set []" by simp
    moreover have "table_log_answer v now f (collect f) c [] = Some (c, [])" using True by (simp add: table_log_answer_def l m)
    ultimately show ?thesis unfolding set using assms(1) by (metis sorted_wrt.simps(1))
  next
    case False
    from since have "\<forall>k \<in> set ?keys. \<forall>e \<in> accepted v contents f k. since \<le> le_time e \<and> le_time e < until" by blast
    from scan_finds_accepted [OF assms(3,4,1) refl until this, of m] cls False assms(2) show ?thesis
      unfolding set by (simp add: table_log_answer_def l m)
  qed
qed

definition demo_log_env :: log_env where
  "demo_log_env = \<lparr> lv_objects = no_objects, lv_max_lines = 10, lv_stop = (\<lambda>n. False), lv_contents = (\<lambda>k. Some demo_log), lv_stale = (\<lambda>k. CHR 0x00) \<rparr>"

definition demo_log_filter :: "log_entry filter" where
  "demo_log_filter = AndingFilter [TimeColumnFilter ''time'' le_time OP_LESS True 1000000000, IntColumnFilter ''class'' le_logclass OP_EQUAL False ''6'']"

theorem log_queries_answer_as_a_full_scan_witness:
  "\<exists>c' out. table_log_answer demo_log_env 1000000007 demo_log_filter (collect demo_log_filter) demo_cache [] = Some (c', out) \<and> demo_entry \<in> set out"
proof -
  have t: "atoi ''1000000000'' = 1000000000" "atoi ''6'' = 6"
    by (simp_all add: atoi_def strtol_def c_isspace_def c_isdigit_def digits_value_def digit_val_def wrap32_def Let_def)
  obtain lf where f: "lc_files demo_cache = [(1000000000, lf)]" "lc_num_cached demo_cache = 0" and
    lf: "lf = \<lparr> lf_since = 1000000000, lf_watch = True, lf_read_pos = 0, lf_lineno = 0, lf_entries = [], lf_classes = 0 \<rparr>"
    by (simp add: demo_cache_def scanLogfile_def new_logfile_def logfile_since_def demo_log_def t(1))
  have "cache_ready no_objects (\<lambda>k. demo_log) demo_cache"
    using f lf by (simp add: cache_ready_def cache_ok_def file_ready_def sound_def complete_to_def start_pos_def numEntries_def wrap32_def)
  moreover have "logfile_end (Some demo_log) x = 0" for x by (simp add: logfile_end_def demo_log_def)
  then have e: "lv_ends demo_log_env k = 0" for k by (simp add: lv_ends_def demo_log_env_def)
  moreover have "defined_lines no_objects [demo_log]"
    using log_entry_of_undefined [of no_objects _ demo_log]
    by (auto simp: defined_lines_def demo_log_def strip_newlines_def has_prefix_def)
  moreover from this have "log_times_ok demo_log_env (\<lambda>k. demo_log) [1000000000] 1000000007"
    using demo_entry_read e
    by (auto simp: log_times_ok_def demo_log_env_def demo_lines message_at_def) (auto simp: demo_entry_def)
  moreover have "message_at no_objects [demo_log] 0 demo_entry" using demo_entry_read by (simp add: message_at_def) (simp add: demo_entry_def)
  moreover have "accepts demo_log_filter demo_entry"
    by (simp add: demo_log_filter_def demo_entry_def time_accepts_def int_accepts_def t(2))
  moreover have "and_only_times ''time'' le_time demo_log_filter" "masks_ints ''class'' le_logclass demo_log_filter"
    by (simp_all add: demo_log_filter_def)
  ultimately show ?thesis
    using log_queries_answer_as_a_full_scan [of demo_log_env "\<lambda>k. demo_log" demo_cache 1000000007 demo_log_filter] f(1)
    by (simp add: demo_lines) (simp add: demo_log_env_def; blast)
qed

end
