(* ===== verification/State_History.thy ===== *)
theory State_History
  imports Table_Log Output_Buffer
begin

text \<open>
  The table of state histories (\<open>src/TableStateHistory.cc\<close>, \<open>src/HostServiceState.cc\<close>). A query reads the log
  forward from before its interval and keeps one state object per host and service; whenever something
  changes in an object, the period that ends there is a row. The objects live in a map ordered by the
  address of the host or service, and point to each other; here an address is a number, a pointer to a
  state object the key it has in the map. What the rows are handed to is the parameter \<open>consume\<close> on a state
  of its own, as for the log table: \<open>processDataset\<close>, which says whether to go on. \<open>None\<close> is undefined
  behaviour: a null pointer handed to a function of the C library, or no log file at all.
\<close>

section \<open>State\<close>

record host_service_state =
  hs_is_host :: bool
  hs_time :: int
  hs_lineno :: int
  hs_from :: int
  hs_until :: int
  hs_duration :: int
  hs_duration_part :: real
  hs_duration_UNMONITORED :: int
  hs_part_UNMONITORED :: real
  hs_duration_OK :: int
  hs_part_OK :: real
  hs_duration_WARNING :: int
  hs_part_WARNING :: real
  hs_duration_CRITICAL :: int
  hs_part_CRITICAL :: real
  hs_duration_UNKNOWN :: int
  hs_part_UNKNOWN :: real
  hs_host_down :: int
  hs_state :: int
  hs_in_notification_period :: int
  hs_in_service_period :: int
  hs_in_downtime :: int
  hs_in_host_downtime :: int
  hs_is_flapping :: int
  hs_services :: "nat list"
  hs_may_no_longer_exist :: bool
  hs_has_vanished :: bool
  hs_last_known_time :: int
  hs_debug_info :: "string option"
  hs_log_output :: "string option"
  hs_notification_period :: string
  hs_service_period :: string
  hs_host :: "nat option"
  hs_service :: "nat option"
  hs_host_name :: string
  hs_service_description :: string

text \<open>
  The constructor. It does not set the pointer to the debug text, which stays \<open>None\<close> until a change sets it; the null
  pointers of the names are read as empty texts, as the columns do.
\<close>

definition new_host_service_state :: host_service_state where
  "new_host_service_state =
     \<lparr> hs_is_host = False, hs_time = 0, hs_lineno = 0, hs_from = 0, hs_until = 0, hs_duration = 0, hs_duration_part = 0,
       hs_duration_UNMONITORED = 0, hs_part_UNMONITORED = 0, hs_duration_OK = 0, hs_part_OK = 0,
       hs_duration_WARNING = 0, hs_part_WARNING = 0, hs_duration_CRITICAL = 0, hs_part_CRITICAL = 0,
       hs_duration_UNKNOWN = 0, hs_part_UNKNOWN = 0, hs_host_down = 0, hs_state = 0, hs_in_notification_period = 0,
       hs_in_service_period = 0, hs_in_downtime = 0, hs_in_host_downtime = 0, hs_is_flapping = 0, hs_services = [],
       hs_may_no_longer_exist = False, hs_has_vanished = False, hs_last_known_time = 0, hs_debug_info = None,
       hs_log_output = None, hs_notification_period = [], hs_service_period = [], hs_host = None, hs_service = None,
       hs_host_name = [], hs_service_description = [] \<rparr>"

text \<open>What the core knows of a host or a service.\<close>

record monitored =
  mo_host_name :: "nat \<Rightarrow> string"
  mo_service_description :: "nat \<Rightarrow> string"
  mo_host_notification_period :: "nat \<Rightarrow> string option"
  mo_service_notification_period :: "nat \<Rightarrow> string option"
  mo_host_vars :: "nat \<Rightarrow> (string \<times> string) list"
  mo_service_vars :: "nat \<Rightarrow> (string \<times> string) list"

definition getCustomVariable :: "(string \<times> string) list \<Rightarrow> string \<Rightarrow> string" where
  "getCustomVariable vars name = (case map_of vars name of Some v \<Rightarrow> v | None \<Rightarrow> [])"

text \<open>The members of the table and the local variables of \<open>answerQuery\<close>.\<close>

record 's statehist =
  sh_timeframe :: int
  sh_since :: int
  sh_until :: int
  sh_periods :: "string \<Rightarrow> int option"
  sh_info :: "(nat \<times> host_service_state) list"
  sh_abort :: bool
  sh_only_update :: bool
  sh_in_initial_states :: bool
  sh_blacklist :: "nat list"
  sh_rows :: 's

type_synonym 's consumer = "host_service_state \<Rightarrow> 's \<Rightarrow> bool \<times> 's"

section \<open>A row\<close>

definition spread_duration :: "int \<Rightarrow> real \<Rightarrow> host_service_state \<Rightarrow> host_service_state" where
  "spread_duration d p hs =
     (let z = hs\<lparr> hs_duration_UNMONITORED := 0, hs_part_UNMONITORED := 0, hs_duration_OK := 0, hs_part_OK := 0,
                  hs_duration_WARNING := 0, hs_part_WARNING := 0, hs_duration_CRITICAL := 0, hs_part_CRITICAL := 0,
                  hs_duration_UNKNOWN := 0, hs_part_UNKNOWN := 0 \<rparr>
      in if hs_state hs = -1 then z\<lparr> hs_duration_UNMONITORED := d, hs_part_UNMONITORED := p \<rparr>
         else if hs_state hs = 0 then z\<lparr> hs_duration_OK := d, hs_part_OK := p \<rparr>
         else if hs_state hs = 1 then z\<lparr> hs_duration_WARNING := d, hs_part_WARNING := p \<rparr>
         else if hs_state hs = 2 then z\<lparr> hs_duration_CRITICAL := d, hs_part_CRITICAL := p \<rparr>
         else if hs_state hs = 3 then z\<lparr> hs_duration_UNKNOWN := d, hs_part_UNKNOWN := p \<rparr>
         else z)"

definition period_row :: "int \<Rightarrow> host_service_state \<Rightarrow> host_service_state" where
  "period_row timeframe hs =
     (let d = hs_until hs - hs_from hs; p = real_of_int d / real_of_int timeframe
      in spread_duration d p (hs\<lparr> hs_duration := d, hs_duration_part := p \<rparr>))"

definition sh_process :: "'s consumer \<Rightarrow> host_service_state \<times> 's statehist \<Rightarrow> host_service_state \<times> 's statehist" where
  "sh_process consume = (\<lambda>(hs, sh).
     (let row = period_row (sh_timeframe sh) hs; (go_on, rows) = consume row (sh_rows sh)
      in (row\<lparr> hs_from := hs_until row \<rparr>, sh\<lparr> sh_rows := rows, sh_abort := \<not> go_on \<rparr>)))"

text \<open>Before the interval the objects are only updated.\<close>

definition report_change :: "'s consumer \<Rightarrow> host_service_state \<times> 's statehist \<Rightarrow> host_service_state \<times> 's statehist" where
  "report_change consume = (\<lambda>(hs, sh). if sh_only_update sh then (hs, sh) else sh_process consume (hs, sh))"

section \<open>An event of an object\<close>

definition period_status :: "'s statehist \<Rightarrow> string \<Rightarrow> int" where
  "period_status sh period = (case sh_periods sh period of Some s \<Rightarrow> s | None \<Rightarrow> 1)"

definition revive :: "'s consumer \<Rightarrow> log_entry \<Rightarrow> host_service_state \<times> 's statehist \<Rightarrow> host_service_state \<times> 's statehist" where
  "revive consume e = (\<lambda>(hs, sh).
     if le_type e \<noteq> TIMEPERIOD_TRANSITION \<and> hs_has_vanished hs
     then let (hs1, sh1) = report_change consume
                (hs\<lparr> hs_time := hs_last_known_time hs, hs_until := hs_last_known_time hs \<rparr>, sh)
          in (hs1\<lparr> hs_may_no_longer_exist := False, hs_has_vanished := False, hs_state := -1,
                   hs_debug_info := Some ''UNMONITORED'', hs_in_downtime := 0, hs_is_flapping := 0, hs_log_output := None,
                   hs_in_notification_period := period_status sh1 (hs_notification_period hs1),
                   hs_in_service_period := period_status sh1 (hs_service_period hs1) \<rparr>, sh1)
     else (hs, sh))"

text \<open>\<open>strtok_r\<close> with the separator \<open>;\<close>, call after call.\<close>

definition strtok_all :: "string \<Rightarrow> string list" where
  "strtok_all s = filter (\<lambda>t. t \<noteq> []) (Strutil.tokens (CHR '';'') s)"

definition started :: "string \<Rightarrow> int" where
  "started state_type = (if has_prefix ''STARTED'' state_type then 1 else 0)"

text \<open>
  The change an event makes, and whether it counts as one (\<open>state_changed\<close>).
\<close>

definition host_state_event :: "'s consumer \<Rightarrow> log_entry \<Rightarrow> host_service_state \<times> 's statehist \<Rightarrow> bool \<times> host_service_state \<times> 's statehist" where
  "host_state_event consume e = (\<lambda>(hs, sh).
     let down = (if 0 < le_state e then 1 else 0)
     in if hs_is_host hs
        then if hs_state hs \<noteq> le_state e
             then let (hs1, sh1) = report_change consume (hs, sh)
                  in (True, hs1\<lparr> hs_state := le_state e, hs_host_down := down, hs_debug_info := Some ''HOST STATE'' \<rparr>, sh1)
             else (False, hs, sh)
        else if hs_host_down hs \<noteq> down
             then let (hs1, sh1) = report_change consume (hs, sh)
                  in (True, hs1\<lparr> hs_host_down := down, hs_debug_info := Some ''SVC HOST STATE'' \<rparr>, sh1)
             else (True, hs, sh))"

definition service_state_event :: "'s consumer \<Rightarrow> log_entry \<Rightarrow> host_service_state \<times> 's statehist \<Rightarrow> bool \<times> host_service_state \<times> 's statehist" where
  "service_state_event consume e = (\<lambda>(hs, sh).
     if hs_state hs \<noteq> le_state e
     then let (hs1, sh1) = report_change consume (hs, sh)
          in (True, hs1\<lparr> hs_debug_info := Some ''SVC ALERT'', hs_state := le_state e \<rparr>, sh1)
     else (True, hs, sh))"

definition host_downtime_event :: "'s consumer \<Rightarrow> string \<Rightarrow> host_service_state \<times> 's statehist \<Rightarrow> bool \<times> host_service_state \<times> 's statehist" where
  "host_downtime_event consume state_type = (\<lambda>(hs, sh).
     if hs_in_host_downtime hs \<noteq> started state_type
     then let (hs1, sh1) = report_change consume (hs, sh);
              hs2 = hs1\<lparr> hs_debug_info := Some (if hs_is_host hs1 then ''HOST DOWNTIME'' else ''SVC HOST DOWNTIME''),
                         hs_in_host_downtime := started state_type \<rparr>
          in (True, if hs_is_host hs2 then hs2\<lparr> hs_in_downtime := started state_type \<rparr> else hs2, sh1)
     else (False, hs, sh))"

definition service_downtime_event :: "'s consumer \<Rightarrow> string \<Rightarrow> host_service_state \<times> 's statehist \<Rightarrow> bool \<times> host_service_state \<times> 's statehist" where
  "service_downtime_event consume state_type = (\<lambda>(hs, sh).
     if hs_in_downtime hs \<noteq> started state_type
     then let (hs1, sh1) = report_change consume (hs, sh)
          in (True, hs1\<lparr> hs_debug_info := Some ''DOWNTIME SERVICE'', hs_in_downtime := started state_type \<rparr>, sh1)
     else (True, hs, sh))"

definition flapping_event :: "'s consumer \<Rightarrow> string \<Rightarrow> host_service_state \<times> 's statehist \<Rightarrow> bool \<times> host_service_state \<times> 's statehist" where
  "flapping_event consume state_type = (\<lambda>(hs, sh).
     if hs_is_flapping hs \<noteq> started state_type
     then let (hs1, sh1) = report_change consume (hs, sh)
          in (True, hs1\<lparr> hs_debug_info := Some ''FLAPPING '', hs_is_flapping := started state_type \<rparr>, sh1)
     else (False, hs, sh))"

definition timeperiod_event :: "'s consumer \<Rightarrow> string \<Rightarrow> int \<Rightarrow> host_service_state \<times> 's statehist \<Rightarrow> bool \<times> host_service_state \<times> 's statehist" where
  "timeperiod_event consume period status = (\<lambda>(hs, sh).
     let (hs1, sh1) =
           (if hs_host hs \<noteq> None \<and> period = hs_notification_period hs \<and> status \<noteq> hs_in_notification_period hs
            then let (h, s) = report_change consume (hs, sh)
                 in (h\<lparr> hs_debug_info := Some ''TIMEPERIOD '', hs_in_notification_period := status \<rparr>, s)
            else (hs, sh))
     in if hs_host hs1 \<noteq> None \<and> period = hs_service_period hs1 \<and> status \<noteq> hs_in_service_period hs1
        then let (h, s) = report_change consume (hs1, sh1)
             in (True, h\<lparr> hs_debug_info := Some ''TIMEPERIOD '', hs_in_service_period := status \<rparr>, s)
        else (True, hs1, sh1))"

definition state_event ::
  "'s consumer \<Rightarrow> log_entry \<Rightarrow> host_service_state \<times> 's statehist \<Rightarrow> (bool \<times> host_service_state \<times> 's statehist) option" where
  "state_event consume e hsh =
     (case le_type e of
        STATE_HOST \<Rightarrow> Some (host_state_event consume e hsh)
      | STATE_HOST_INITIAL \<Rightarrow> Some (host_state_event consume e hsh)
      | ALERT_HOST \<Rightarrow> Some (host_state_event consume e hsh)
      | STATE_SERVICE \<Rightarrow> Some (service_state_event consume e hsh)
      | STATE_SERVICE_INITIAL \<Rightarrow> Some (service_state_event consume e hsh)
      | ALERT_SERVICE \<Rightarrow> Some (service_state_event consume e hsh)
      | DOWNTIME_ALERT_HOST \<Rightarrow> map_option (\<lambda>t. host_downtime_event consume t hsh) (le_state_type e)
      | DOWNTIME_ALERT_SERVICE \<Rightarrow> map_option (\<lambda>t. service_downtime_event consume t hsh) (le_state_type e)
      | FLAPPING_HOST \<Rightarrow> map_option (\<lambda>t. flapping_event consume t hsh) (le_state_type e)
      | FLAPPING_SERVICE \<Rightarrow> map_option (\<lambda>t. flapping_event consume t hsh) (le_state_type e)
      | TIMEPERIOD_TRANSITION \<Rightarrow>
          (case strtok_all (le_options e) of
             period # _ # status # _ \<Rightarrow> Some (timeperiod_event consume period (atoi status) hsh)
           | _ \<Rightarrow> None)
      | _ \<Rightarrow> Some (True, hsh))"

definition event_output :: "log_entry \<Rightarrow> string option" where
  "event_output e =
     (if (le_type e = STATE_HOST_INITIAL \<or> le_type e = STATE_SERVICE_INITIAL) \<and> le_check_output e = Some ''(null)''
      then None else le_check_output e)"

definition updateHostServiceState ::
  "'s consumer \<Rightarrow> log_entry \<Rightarrow> host_service_state \<times> 's statehist \<Rightarrow> (bool \<times> host_service_state \<times> 's statehist) option" where
  "updateHostServiceState consume e hsh =
     (let (hs, sh) = revive consume e hsh;
          tp = (le_type e = TIMEPERIOD_TRANSITION);
          hs1 = hs\<lparr> hs_time := le_time e, hs_lineno := wrap32 (int (le_lineno e)), hs_until := le_time e,
                    hs_may_no_longer_exist := (tp \<and> hs_may_no_longer_exist hs) \<rparr>
      in map_option (\<lambda>(changed, hs2, sh2). (changed, if tp then hs2 else hs2\<lparr> hs_log_output := event_output e \<rparr>, sh2))
           (state_event consume e (hs1, sh)))"

section \<open>The objects\<close>

definition update_object :: "'s consumer \<Rightarrow> log_entry \<Rightarrow> nat \<Rightarrow> 's statehist \<Rightarrow> (bool \<times> 's statehist) option" where
  "update_object consume e k sh =
     (case map_find k (sh_info sh) of
        None \<Rightarrow> None
      | Some hs \<Rightarrow> map_option (\<lambda>(changed, hs', sh'). (changed, sh'\<lparr> sh_info := map_update k (\<lambda>_. hs') (sh_info sh') \<rparr>))
          (updateHostServiceState consume e (hs, sh)))"

fun update_objects :: "'s consumer \<Rightarrow> log_entry \<Rightarrow> nat list \<Rightarrow> 's statehist \<Rightarrow> 's statehist option" where
  "update_objects consume e [] sh = Some sh"
| "update_objects consume e (k # ks) sh =
     (case update_object consume e k sh of None \<Rightarrow> None | Some (_, sh') \<Rightarrow> update_objects consume e ks sh')"

definition each_object :: "(host_service_state \<Rightarrow> host_service_state) \<Rightarrow> 's statehist \<Rightarrow> 's statehist" where
  "each_object f sh = sh\<lparr> sh_info := map (\<lambda>(k, hs). (k, f hs)) (sh_info sh) \<rparr>"

definition service_event :: "log_entry_type \<Rightarrow> bool" where
  "service_event t \<longleftrightarrow> t \<in> {ALERT_SERVICE, STATE_SERVICE, STATE_SERVICE_INITIAL, DOWNTIME_ALERT_SERVICE, FLAPPING_SERVICE}"

definition host_event :: "log_entry_type \<Rightarrow> bool" where
  "host_event t \<longleftrightarrow> t \<in> {ALERT_HOST, STATE_HOST, STATE_HOST_INITIAL, DOWNTIME_ALERT_HOST, FLAPPING_HOST}"

text \<open>The host's object knows those of its services.\<close>

definition relate_object :: "nat \<Rightarrow> host_service_state \<Rightarrow> (nat \<times> host_service_state) list \<Rightarrow> host_service_state \<times> (nat \<times> host_service_state) list" where
  "relate_object k hs info =
     (if hs_is_host hs
      then (hs\<lparr> hs_services := map fst (filter (\<lambda>(j, g). hs_host g = hs_host hs) info) \<rparr>, info)
      else (hs, case hs_host hs of None \<Rightarrow> info
                | Some h \<Rightarrow> map_update h (\<lambda>g. g\<lparr> hs_services := hs_services g @ [k] \<rparr>) info))"

definition object_periods :: "monitored \<Rightarrow> host_service_state \<Rightarrow> string \<times> string" where
  "object_periods mo hs =
     (case hs_service hs of
        Some s \<Rightarrow> (case mo_service_notification_period mo s of Some p \<Rightarrow> p | None \<Rightarrow> [],
                   getCustomVariable (mo_service_vars mo s) ''SERVICE_PERIOD'')
      | None \<Rightarrow>
          (case hs_host hs of
             Some h \<Rightarrow> (case mo_host_notification_period mo h of Some p \<Rightarrow> p | None \<Rightarrow> [],
                        getCustomVariable (mo_host_vars mo h) ''SERVICE_PERIOD'')
           | None \<Rightarrow> ([], [])))"

text \<open>A new object; the inner \<open>None\<close> is one that the query filters out.\<close>

definition new_object :: "monitored \<Rightarrow> host_service_state filter list \<Rightarrow> log_entry \<Rightarrow> nat \<Rightarrow> 's statehist \<Rightarrow> 's statehist option option" where
  "new_object mo object_filter e k sh =
     (case le_host e of
        None \<Rightarrow> None
      | Some h \<Rightarrow>
          let hs = new_host_service_state\<lparr> hs_is_host := (le_svc_desc e = None), hs_host := Some h, hs_service := le_service e,
                     hs_host_name := mo_host_name mo h,
                     hs_service_description := (case le_service e of Some s \<Rightarrow> mo_service_description mo s | None \<Rightarrow> []) \<rparr>
          in if le_svc_desc e \<noteq> None \<and> \<not> list_all (\<lambda>f. accepts f hs) object_filter then Some None
             else let (hs1, info) = relate_object k hs (sh_info sh);
                      (np, sp) = object_periods mo hs1;
                      hs2 = hs1\<lparr> hs_from := sh_since sh, hs_notification_period := np, hs_service_period := sp,
                                 hs_in_notification_period := period_status sh np, hs_in_service_period := period_status sh sp \<rparr>;
                      hs3 = (if hs_is_host hs2 then hs2
                             else case map_find h info of
                                    None \<Rightarrow> hs2
                                  | Some g \<Rightarrow> hs2\<lparr> hs_in_host_downtime := hs_in_host_downtime g, hs_host_down := hs_host_down g \<rparr>);
                      hs4 = (if \<not> sh_only_update sh \<and> 60 * 10 < le_time e - sh_since sh
                             then hs3\<lparr> hs_debug_info := Some ''UNMONITORED '', hs_state := -1 \<rparr> else hs3)
                  in Some (Some (sh\<lparr> sh_info := map_insert k hs4 info \<rparr>)))"

section \<open>A message of the log\<close>

definition object_event :: "'s consumer \<Rightarrow> monitored \<Rightarrow> host_service_state filter list \<Rightarrow> log_entry \<Rightarrow> nat \<Rightarrow> 's statehist \<Rightarrow> 's statehist option" where
  "object_event consume mo object_filter e k sh =
     (if k \<in> set (sh_blacklist sh) then Some sh
      else case (if map_find k (sh_info sh) = None then new_object mo object_filter e k sh else Some (Some sh)) of
             None \<Rightarrow> None
           | Some None \<Rightarrow> Some (sh\<lparr> sh_blacklist := k # sh_blacklist sh \<rparr>)
           | Some (Some sh1) \<Rightarrow>
               (case update_object consume e k sh1 of
                  None \<Rightarrow> None
                | Some (changed, sh2) \<Rightarrow>
                    if le_type e \<in> {ALERT_HOST, STATE_HOST, DOWNTIME_ALERT_HOST} \<and> changed
                    then (case map_find k (sh_info sh2) of None \<Rightarrow> None | Some hs \<Rightarrow> update_objects consume e (hs_services hs) sh2)
                    else Some sh2))"

definition timeperiod_transition :: "'s consumer \<Rightarrow> log_entry \<Rightarrow> 's statehist \<Rightarrow> 's statehist option" where
  "timeperiod_transition consume e sh =
     (case strtok_all (le_options e) of
        period # _ # status # _ \<Rightarrow>
          (let sh1 = sh\<lparr> sh_periods := (sh_periods sh)(period \<mapsto> atoi status) \<rparr>
           in update_objects consume e (map fst (sh_info sh1)) sh1)
      | _ \<Rightarrow> Some sh)"

definition start_output :: "log_entry \<Rightarrow> 's statehist \<Rightarrow> 's statehist" where
  "start_output e sh =
     (if sh_only_update sh \<and> sh_since sh \<le> le_time e
      then (each_object (\<lambda>hs. hs\<lparr> hs_from := sh_since sh, hs_until := sh_since sh \<rparr>) sh)\<lparr> sh_only_update := False \<rparr>
      else sh)"

definition end_initial_states :: "log_entry \<Rightarrow> 's statehist \<Rightarrow> 's statehist" where
  "end_initial_states e sh =
     (if sh_in_initial_states sh \<and> \<not> (le_type e = STATE_SERVICE_INITIAL \<or> le_type e = STATE_HOST_INITIAL)
      then (each_object (\<lambda>hs. if hs_may_no_longer_exist hs then hs\<lparr> hs_has_vanished := True \<rparr> else hs) sh)\<lparr> sh_in_initial_states := False \<rparr>
      else sh)"

definition log_initial_states :: "log_entry \<Rightarrow> 's statehist \<Rightarrow> 's statehist" where
  "log_initial_states e sh =
     (each_object (\<lambda>hs. if hs_has_vanished hs then hs else hs\<lparr> hs_last_known_time := le_time e, hs_may_no_longer_exist := True \<rparr>) sh)
       \<lparr> sh_in_initial_states := True \<rparr>"

definition history_event :: "'s consumer \<Rightarrow> monitored \<Rightarrow> host_service_state filter list \<Rightarrow> log_entry \<Rightarrow> 's statehist \<Rightarrow> 's statehist option" where
  "history_event consume mo object_filter e sh0 =
     (let sh = end_initial_states e (start_output e sh0)
      in if service_event (le_type e)
         then (case le_service e of None \<Rightarrow> Some sh | Some k \<Rightarrow> object_event consume mo object_filter e k sh)
         else if host_event (le_type e)
         then (case le_host e of None \<Rightarrow> Some sh | Some k \<Rightarrow> object_event consume mo object_filter e k sh)
         else if le_type e = TIMEPERIOD_TRANSITION then timeperiod_transition consume e sh
         else if le_type e = LOG_INITIAL_STATES then Some (log_initial_states e sh)
         else Some sh)"

section \<open>Reading the log forward\<close>

definition CLASSMASK_STATEHIST :: "32 word" where
  "CLASSMASK_STATEHIST = 0xC6"

text \<open>
  The iterators \<open>_it_logs\<close> and \<open>_it_entries\<close>: the file, the older and the newer ones, its messages and the position
  in them.
\<close>

record cursor =
  cu_cache :: log_cache
  cu_older :: "int list"
  cu_log :: int
  cu_newer :: "int list"
  cu_entries :: "log_entry list"
  cu_pos :: nat

definition getEntriesFromQuery :: "log_env \<Rightarrow> int \<Rightarrow> log_cache \<Rightarrow> (log_cache \<times> log_entry list) option" where
  "getEntriesFromQuery v k c =
     (case load (lv_objects v) (lv_max_lines v) (lv_stop v) (lv_contents v k) k CLASSMASK_STATEHIST c of
        None \<Rightarrow> None
      | Some c' \<Rightarrow> map_option (\<lambda>lf. (c', map snd (lf_entries lf))) (lc_file k c'))"

fun forward_file :: "log_env \<Rightarrow> int list \<Rightarrow> cursor \<Rightarrow> (log_entry option \<times> cursor) option" where
  "forward_file v ks cu =
     (if cu_pos cu < length (cu_entries cu) then Some (Some (cu_entries cu ! cu_pos cu), cu\<lparr> cu_newer := ks \<rparr>)
      else case ks of
             [] \<Rightarrow> Some (None, cu\<lparr> cu_newer := [] \<rparr>)
           | k # ks' \<Rightarrow>
               (case getEntriesFromQuery v k (cu_cache cu) of
                  None \<Rightarrow> None
                | Some (c, es) \<Rightarrow> forward_file v ks'
                    (cu\<lparr> cu_cache := c, cu_older := cu_log cu # cu_older cu, cu_log := k, cu_entries := es, cu_pos := 0 \<rparr>)))"

definition getNextLogentry :: "log_env \<Rightarrow> cursor \<Rightarrow> (log_entry option \<times> cursor) option" where
  "getNextLogentry v cu =
     forward_file v (cu_newer cu) (if cu_pos cu \<noteq> length (cu_entries cu) then cu\<lparr> cu_pos := cu_pos cu + 1 \<rparr> else cu)"

fun backward_file :: "log_env \<Rightarrow> int list \<Rightarrow> cursor \<Rightarrow> (log_entry option \<times> cursor) option" where
  "backward_file v ks cu =
     (if 0 < cu_pos cu then Some (Some (cu_entries cu ! (cu_pos cu - 1)), cu\<lparr> cu_pos := cu_pos cu - 1, cu_older := ks \<rparr>)
      else case ks of
             [] \<Rightarrow> Some (None, cu\<lparr> cu_older := [] \<rparr>)
           | k # ks' \<Rightarrow>
               (case getEntriesFromQuery v k (cu_cache cu) of
                  None \<Rightarrow> None
                | Some (c, es) \<Rightarrow> backward_file v ks'
                    (cu\<lparr> cu_cache := c, cu_newer := cu_log cu # cu_newer cu, cu_log := k, cu_entries := es, cu_pos := length es \<rparr>)))"

definition getPreviousLogentry :: "log_env \<Rightarrow> cursor \<Rightarrow> (log_entry option \<times> cursor) option" where
  "getPreviousLogentry v cu = backward_file v (cu_older cu) cu"

declare forward_file.simps [simp del] backward_file.simps [simp del]

definition cursor_order :: "(cursor \<times> cursor) set" where
  "cursor_order = measures [\<lambda>cu. length (cu_newer cu), \<lambda>cu. length (cu_entries cu) - cu_pos cu]"

lemma forward_file_progress:
  "forward_file v ks cu = Some (Some e, cu') \<Longrightarrow>
     cu_pos cu' < length (cu_entries cu') \<and> e = cu_entries cu' ! cu_pos cu' \<and>
     (length (cu_newer cu') < length ks \<or> cu_newer cu' = ks \<and> cu_entries cu' = cu_entries cu \<and> cu_pos cu' = cu_pos cu)"
proof (induction v ks cu rule: forward_file.induct)
  case (1 v ks cu)
  show ?case
  proof (cases "cu_pos cu < length (cu_entries cu)")
    case True
    with "1.prems" show ?thesis by (auto simp: forward_file.simps)
  next
    case False
    then obtain k ks' c es where k: "ks = k # ks'" "getEntriesFromQuery v k (cu_cache cu) = Some (c, es)"
      "forward_file v ks' (cu\<lparr> cu_cache := c, cu_older := cu_log cu # cu_older cu, cu_log := k, cu_entries := es, cu_pos := 0 \<rparr>) = Some (Some e, cu')"
      using "1.prems" by (subst (asm) forward_file.simps) (auto split: list.splits option.splits)
    from "1.IH" [OF False k(1,2) refl k(3)] k(1) show ?thesis by auto
  qed
qed

lemma getNextLogentry_progress:
  "getNextLogentry v cu = Some (Some e, cu') \<Longrightarrow> (cu', cu) \<in> cursor_order"
  unfolding getNextLogentry_def
  by (drule forward_file_progress) (auto simp: cursor_order_def split: if_splits)

function history_loop ::
  "log_env \<Rightarrow> 's consumer \<Rightarrow> monitored \<Rightarrow> host_service_state filter list \<Rightarrow> cursor \<Rightarrow> 's statehist \<Rightarrow> (cursor \<times> 's statehist) option" where
  "history_loop v consume mo object_filter cu sh =
     (case getNextLogentry v cu of
        None \<Rightarrow> None
      | Some (None, cu1) \<Rightarrow> Some (cu1, sh)
      | Some (Some e, cu1) \<Rightarrow>
          if sh_abort sh then Some (cu1, sh)
          else if sh_until sh \<le> le_time e then map_option (\<lambda>(_, cu2). (cu2, sh)) (getPreviousLogentry v cu1)
          else case history_event consume mo object_filter e sh of
                 None \<Rightarrow> None
               | Some sh1 \<Rightarrow> history_loop v consume mo object_filter cu1 sh1)"
  by pat_completeness auto
termination
proof (relation "inv_image cursor_order (\<lambda>(_, _, _, _, cu, _). cu)")
  show "wf (inv_image cursor_order (\<lambda>(_, _, _, _, cu, _). cu))" by (simp add: cursor_order_def)
qed (auto intro: getNextLogentry_progress)

declare history_loop.simps [simp del]

section \<open>The reports at the end\<close>

definition final_report :: "'s consumer \<Rightarrow> nat \<Rightarrow> 's statehist \<Rightarrow> 's statehist" where
  "final_report consume k sh =
     (case map_find k (sh_info sh) of
        None \<Rightarrow> sh
      | Some hs \<Rightarrow>
          let (hs1, sh1) =
                (if hs_may_no_longer_exist hs
                 then let (h, s) = sh_process consume (hs\<lparr> hs_time := hs_last_known_time hs, hs_until := hs_last_known_time hs \<rparr>, sh)
                      in (h\<lparr> hs_state := -1, hs_until := hs_time h, hs_debug_info := Some ''UNMONITORED'', hs_log_output := None \<rparr>, s)
                 else (hs, sh));
              (hs2, sh2) = sh_process consume (hs1\<lparr> hs_time := sh_until sh1 - 1, hs_until := sh_until sh1 - 1 \<rparr>, sh1)
          in sh2\<lparr> sh_info := map_update k (\<lambda>_. hs2) (sh_info sh2) \<rparr>)"

definition final_reports :: "'s consumer \<Rightarrow> 's statehist \<Rightarrow> 's statehist" where
  "final_reports consume sh = (if sh_abort sh then sh else fold (final_report consume) (map fst (sh_info sh)) sh)"

section \<open>The query\<close>

text \<open>The filters of the query that look at a column of the object, by the name of their column.\<close>

definition object_filters :: "bool \<Rightarrow> (string option \<times> host_service_state filter) list \<Rightarrow> host_service_state filter list" where
  "object_filters disabled fs =
     (if disabled then []
      else map snd (filter (\<lambda>(n, f). case n of None \<Rightarrow> False
             | Some name \<Rightarrow> has_prefix ''current_'' name \<or> has_prefix ''host_'' name \<or> has_prefix ''service_'' name) fs))"

text \<open>The newest file that begins before the interval, or the oldest of all.\<close>

fun go_back :: "int \<Rightarrow> int \<Rightarrow> int list \<Rightarrow> int list \<Rightarrow> int \<times> int list \<times> int list" where
  "go_back since k [] newer = (k, [], newer)"
| "go_back since k (j # older) newer = (if since \<le> k then go_back since j older (k # newer) else (k, j # older, newer))"

definition start_pos_in :: "int \<Rightarrow> int list \<Rightarrow> log_entry list \<Rightarrow> nat" where
  "start_pos_in since newer es =
     (if es \<noteq> [] \<and> newer \<noteq> []
      then let n = length es - 1 in if n \<noteq> 0 \<and> since \<le> le_time (es ! n) then 0 else n
      else 0)"

definition table_statehist_answer ::
  "log_env \<Rightarrow> monitored \<Rightarrow> bool \<Rightarrow> int \<Rightarrow> (string option \<times> host_service_state filter) list \<Rightarrow> 's consumer \<Rightarrow>
   log_cache \<Rightarrow> 's statehist \<Rightarrow> ((int \<times> string) option \<times> log_cache \<times> 's statehist) option" where
  "table_statehist_answer v mo disabled now fs consume c sh0 =
     (let (since, until) = find_time_limits (AndingFilter (map snd fs)) ''time'' (0, now + 1);
          sh = sh0\<lparr> sh_abort := False, sh_since := since, sh_until := until, sh_timeframe := wrap32 (until - since - 1),
                    sh_only_update := True, sh_in_initial_states := False, sh_blacklist := [] \<rparr>
      in if since = 0
         then Some (Some (RESPONSE_CODE_INVALID_REQUEST, ''Start of timeframe required. e.g. Filter: time > 1234567890''), c, sh)
         else if sh_timeframe sh = 0
         then Some (Some (RESPONSE_CODE_INVALID_REQUEST, ''Query timeframe is 0 seconds''), c, sh)
         else case rev (map fst (lc_files c)) of
                [] \<Rightarrow> None
              | newest # before \<Rightarrow>
                  (let (k, older, newer) = go_back since newest before []
                   in if until < k then Some (None, c, sh)
                      else case getEntriesFromQuery v k c of
                             None \<Rightarrow> None
                           | Some (c1, es) \<Rightarrow>
                               (case history_loop v consume mo (object_filters disabled fs)
                                       \<lparr> cu_cache = c1, cu_older = older, cu_log = k, cu_newer = newer, cu_entries = es,
                                         cu_pos = start_pos_in since newer es \<rparr> sh of
                                  None \<Rightarrow> None
                                | Some (cu, sh1) \<Rightarrow> Some (None, cu_cache cu, final_reports consume sh1))))"

definition sh_cleanupQuery :: "'s statehist \<Rightarrow> 's statehist" where
  "sh_cleanupQuery sh = sh\<lparr> sh_info := [] \<rparr>"

definition statehist_authorized :: "(auth_user \<Rightarrow> nat option \<Rightarrow> nat option \<Rightarrow> bool) \<Rightarrow> auth_user \<Rightarrow> host_service_state \<Rightarrow> bool" where
  "statehist_authorized is_authorized_for ctc hs =
     (if hs_host hs \<noteq> None \<or> hs_service hs \<noteq> None then is_authorized_for ctc (hs_host hs) (hs_service hs) else False)"

end
