(* ===== verification/History_Periods.thy ===== *)
theory History_Periods
  imports State_History
begin

text \<open>
  What a state history reports: for every host and service the periods of its rows follow each other without a
  gap from the beginning of the interval to its end.
\<close>

section \<open>Periods that follow each other\<close>

fun chain :: "int \<Rightarrow> host_service_state list \<Rightarrow> int \<Rightarrow> bool" where
  "chain a [] b = (a = b)"
| "chain a (r # rs) b = (hs_from r = a \<and> chain (hs_until r) rs b)"

lemma chain_append: "chain a (rs @ ss) c \<longleftrightarrow> (\<exists>b. chain a rs b \<and> chain b ss c)"
  by (induction rs arbitrary: a) auto

lemma chain_total: "chain a rs b \<Longrightarrow> sum_list (map (\<lambda>r. hs_until r - hs_from r) rs) = b - a"
  by (induction rs arbitrary: a) auto

text \<open>The address of the object a row is about.\<close>

definition hs_key :: "host_service_state \<Rightarrow> nat option" where
  "hs_key hs = (case hs_service hs of Some s \<Rightarrow> Some s | None \<Rightarrow> hs_host hs)"

lemma hs_key_cong: "hs_service h' = hs_service h \<Longrightarrow> hs_host h' = hs_host h \<Longrightarrow> hs_key h' = hs_key h"
  by (simp add: hs_key_def split: option.split)

lemma hs_key_from [simp]: "hs_key (h\<lparr> hs_from := t \<rparr>) = hs_key h"
  by (rule hs_key_cong) simp_all

text \<open>A query that takes every row.\<close>

definition collect_periods :: "host_service_state list consumer" where
  "collect_periods row rows = (True, rows @ [row])"

section \<open>What an event does to one object\<close>

type_synonym object_state = "host_service_state \<times> host_service_state list statehist"

definition advances :: "object_state \<Rightarrow> object_state \<Rightarrow> bool" where
  "advances x y \<longleftrightarrow>
     hs_key (fst y) = hs_key (fst x) \<and> hs_services (fst y) = hs_services (fst x) \<and> hs_host (fst y) = hs_host (fst x) \<and>
     (\<exists>rows. snd y = (snd x)\<lparr> sh_rows := sh_rows (snd x) @ rows \<rparr> \<and> chain (hs_from (fst x)) rows (hs_from (fst y)) \<and>
        (\<forall>r \<in> set rows. hs_key r = hs_key (fst x) \<and> (\<exists>h. r = period_row (sh_timeframe (snd x)) h)) \<and>
        (sh_only_update (snd x) \<longrightarrow> rows = []))"

text \<open>Changes of the object that keep what the chain depends on.\<close>

definition same_period :: "host_service_state \<Rightarrow> host_service_state \<Rightarrow> bool" where
  "same_period h h' \<longleftrightarrow> hs_service h' = hs_service h \<and> hs_host h' = hs_host h \<and> hs_services h' = hs_services h \<and> hs_from h' = hs_from h"

lemma same_period_refl [simp]: "same_period h h"
  by (simp add: same_period_def)

lemma advances_refl: "same_period h h' \<Longrightarrow> advances (h, s) (h', s)"
  unfolding advances_def same_period_def by (intro conjI exI [of _ "[]"]) (auto intro: hs_key_cong)

lemma advances_trans: "advances x y \<Longrightarrow> advances y z \<Longrightarrow> advances x z"
proof -
  assume x: "advances x y" and y: "advances y z"
  from x obtain r where r: "snd y = (snd x)\<lparr> sh_rows := sh_rows (snd x) @ r \<rparr>" "chain (hs_from (fst x)) r (hs_from (fst y))"
    "\<forall>q \<in> set r. hs_key q = hs_key (fst x) \<and> (\<exists>h. q = period_row (sh_timeframe (snd x)) h)" "sh_only_update (snd x) \<longrightarrow> r = []"
    by (auto simp: advances_def)
  from y obtain t where t: "snd z = (snd y)\<lparr> sh_rows := sh_rows (snd y) @ t \<rparr>" "chain (hs_from (fst y)) t (hs_from (fst z))"
    "\<forall>q \<in> set t. hs_key q = hs_key (fst y) \<and> (\<exists>h. q = period_row (sh_timeframe (snd y)) h)" "sh_only_update (snd y) \<longrightarrow> t = []"
    by (auto simp: advances_def)
  have k: "hs_key (fst y) = hs_key (fst x)" using x by (simp add: advances_def)
  have "snd z = (snd x)\<lparr> sh_rows := sh_rows (snd x) @ (r @ t) \<rparr>" using r(1) t(1) by simp
  moreover have "chain (hs_from (fst x)) (r @ t) (hs_from (fst z))" using r(2) t(2) by (auto simp: chain_append)
  moreover have "\<forall>q \<in> set (r @ t). hs_key q = hs_key (fst x) \<and> (\<exists>h. q = period_row (sh_timeframe (snd x)) h)"
    using r t k by auto
  moreover have "sh_only_update (snd x) \<longrightarrow> r @ t = []" using r t by auto
  moreover have "hs_key (fst z) = hs_key (fst x) \<and> hs_services (fst z) = hs_services (fst x) \<and> hs_host (fst z) = hs_host (fst x)"
    using x y by (auto simp: advances_def)
  ultimately show ?thesis unfolding advances_def by blast
qed

lemma advances_same: "advances x (h, s) \<Longrightarrow> same_period h h' \<Longrightarrow> advances x (h', s)"
  by (rule advances_trans [OF _ advances_refl])

lemma advances_abort: "advances x y \<Longrightarrow> sh_abort (snd y) = sh_abort (snd x)"
  by (auto simp: advances_def)

lemma period_row_keeps [simp]:
  "hs_service (period_row t h) = hs_service h" "hs_host (period_row t h) = hs_host h" "hs_services (period_row t h) = hs_services h"
  "hs_from (period_row t h) = hs_from h" "hs_until (period_row t h) = hs_until h" "hs_time (period_row t h) = hs_time h"
  "hs_state (period_row t h) = hs_state h" "hs_is_host (period_row t h) = hs_is_host h"
  by (simp_all add: period_row_def spread_duration_def Let_def)

lemma period_row_key [simp]: "hs_key (period_row t h) = hs_key h"
  by (rule hs_key_cong) simp_all

lemma advances_process: "sh_process collect_periods (h, s) = y \<Longrightarrow> \<not> sh_abort s \<Longrightarrow> \<not> sh_only_update s \<Longrightarrow> advances (h, s) y"
  unfolding advances_def sh_process_def collect_periods_def
  by (auto simp: Let_def intro!: exI [of _ "[period_row (sh_timeframe s) h]"])

lemma advances_report: "report_change collect_periods (h, s) = y \<Longrightarrow> \<not> sh_abort s \<Longrightarrow> advances (h, s) y"
  unfolding report_change_def by (auto intro: advances_refl advances_process split: if_splits)

lemma advances_change:
  assumes "report_change collect_periods (h, s) = (h1, s1)" and "\<not> sh_abort s" and "same_period h1 h2"
  shows "advances (h, s) (h2, s1)"
  using advances_same [OF advances_report [OF assms(1,2)] assms(3)] .

lemma event_advances:
  assumes "\<not> sh_abort s"
  shows "host_state_event collect_periods e (h, s) = (b, y) \<Longrightarrow> advances (h, s) y"
    and "service_state_event collect_periods e (h, s) = (b, y) \<Longrightarrow> advances (h, s) y"
    and "host_downtime_event collect_periods t (h, s) = (b, y) \<Longrightarrow> advances (h, s) y"
    and "service_downtime_event collect_periods t (h, s) = (b, y) \<Longrightarrow> advances (h, s) y"
    and "flapping_event collect_periods t (h, s) = (b, y) \<Longrightarrow> advances (h, s) y"
  using assms
  by (auto simp: host_state_event_def service_state_event_def host_downtime_event_def service_downtime_event_def flapping_event_def
      Let_def same_period_def split: if_splits prod.splits intro!: advances_refl elim!: advances_change)

lemma timeperiod_event_advances:
  assumes "\<not> sh_abort s" and "timeperiod_event collect_periods p i (h, s) = (b, y)"
  shows "advances (h, s) y"
proof -
  define change where "change x f = (case report_change collect_periods x of (h, s) \<Rightarrow> (f h, s))"
    for x and f :: "host_service_state \<Rightarrow> host_service_state"
  have change: "advances x (change x f)" if "\<not> sh_abort (snd x)" "\<And>h. same_period h (f h)" for x f
    unfolding change_def using that by (cases x) (auto split: prod.splits intro: advances_change)
  define f1 f2 where "f1 h = h\<lparr> hs_debug_info := Some ''TIMEPERIOD '', hs_in_notification_period := i \<rparr>"
    and "f2 h = h\<lparr> hs_debug_info := Some ''TIMEPERIOD '', hs_in_service_period := i \<rparr>" for h :: host_service_state
  obtain h1 s1 where 1: "(if hs_host h \<noteq> None \<and> p = hs_notification_period h \<and> i \<noteq> hs_in_notification_period h
      then change (h, s) f1 else (h, s)) = (h1, s1)" by fastforce
  have a1: "advances (h, s) (h1, s1)"
    using 1 change [of "(h, s)" f1] assms(1) by (auto simp: f1_def same_period_def split: if_splits intro: advances_refl)
  then have "\<not> sh_abort s1" using advances_abort assms(1) by fastforce
  moreover have "y = (if hs_host h1 \<noteq> None \<and> p = hs_service_period h1 \<and> i \<noteq> hs_in_service_period h1 then change (h1, s1) f2 else (h1, s1))"
    using assms(2) 1 unfolding timeperiod_event_def change_def f1_def f2_def by (auto simp: Let_def split: prod.splits if_splits)
  ultimately have "advances (h1, s1) y"
    using change [of "(h1, s1)" f2] by (auto simp: f2_def same_period_def intro: advances_refl)
  with a1 show ?thesis by (rule advances_trans)
qed

lemma state_event_advances:
  "state_event collect_periods e (h, s) = Some (b, y) \<Longrightarrow> \<not> sh_abort s \<Longrightarrow> advances (h, s) y"
  unfolding state_event_def
  by (auto split: log_entry_type.splits list.splits option.splits intro: event_advances timeperiod_event_advances advances_refl)

lemma revive_advances:
  assumes "revive collect_periods e (h, s) = y" and "\<not> sh_abort s"
  shows "advances (h, s) y"
proof (cases "le_type e \<noteq> TIMEPERIOD_TRANSITION \<and> hs_has_vanished h")
  case True
  let ?h = "h\<lparr> hs_time := hs_last_known_time h, hs_until := hs_last_known_time h \<rparr>"
  obtain h1 s1 where r: "report_change collect_periods (?h, s) = (h1, s1)" by fastforce
  have "advances (h, s) (?h, s)" by (rule advances_refl) (simp add: same_period_def)
  moreover have "advances (?h, s) y"
    using assms(1) True r by (auto simp: revive_def same_period_def intro!: advances_change [OF r assms(2)])
  ultimately show ?thesis by (rule advances_trans)
next
  case False
  then have "revive collect_periods e (h, s) = (h, s)" by (simp only: revive_def prod.case if_False)
  with assms(1) have "y = (h, s)" by simp
  then show ?thesis by (simp only: advances_refl same_period_refl)
qed

lemma update_advances:
  assumes "updateHostServiceState collect_periods e (h, s) = Some (b, h', s')" and "\<not> sh_abort s"
  shows "advances (h, s) (h', s')"
proof -
  obtain h1 s1 where r: "revive collect_periods e (h, s) = (h1, s1)" by fastforce
  define h2 where "h2 = h1\<lparr> hs_time := le_time e, hs_lineno := wrap32 (int (le_lineno e)), hs_until := le_time e,
      hs_may_no_longer_exist := (le_type e = TIMEPERIOD_TRANSITION \<and> hs_may_no_longer_exist h1) \<rparr>"
  have a: "advances (h, s) (h1, s1)" using revive_advances [OF r assms(2)] .
  obtain h3 where e: "state_event collect_periods e (h2, s1) = Some (b, h3, s')" "same_period h3 h'"
    using assms(1) r unfolding updateHostServiceState_def h2_def by (auto simp: Let_def same_period_def)
  have "advances (h1, s1) (h2, s1)" by (rule advances_refl) (simp add: h2_def same_period_def)
  moreover have "advances (h2, s1) (h3, s')"
    using state_event_advances [OF e(1)] advances_abort [OF a] assms(2) by simp
  ultimately show ?thesis using a advances_same [OF _ e(2)] advances_trans by blast
qed

section \<open>The objects of a query\<close>

text \<open>
  The invariant of a query over \<open>[since, until)\<close>: every object is in the map under its address, knows only objects of the
  map, and its rows so far reach from the beginning of the interval to the beginning of its current period.
\<close>

definition rows_of :: "nat \<Rightarrow> host_service_state list \<Rightarrow> host_service_state list" where
  "rows_of k rows = filter (\<lambda>r. hs_key r = Some k) rows"

definition object_ok :: "int \<Rightarrow> host_service_state list statehist \<Rightarrow> nat \<Rightarrow> host_service_state \<Rightarrow> bool" where
  "object_ok since sh k hs \<longleftrightarrow>
     hs_key hs = Some k \<and> set (hs_services hs) \<subseteq> fst ` set (sh_info sh) \<and> chain since (rows_of k (sh_rows sh)) (hs_from hs)"

definition rows_ok :: "host_service_state list statehist \<Rightarrow> bool" where
  "rows_ok sh \<longleftrightarrow>
     (\<forall>r \<in> set (sh_rows sh). hs_key r \<in> Some ` fst ` set (sh_info sh) \<and> (\<exists>h. r = period_row (sh_timeframe sh) h)) \<and>
     (sh_only_update sh \<longrightarrow> sh_rows sh = [])"

definition tracked :: "int \<Rightarrow> int \<Rightarrow> int \<Rightarrow> host_service_state list statehist \<Rightarrow> bool" where
  "tracked since until timeframe sh \<longleftrightarrow>
     \<not> sh_abort sh \<and> sh_since sh = since \<and> sh_until sh = until \<and> sh_timeframe sh = timeframe \<and>
     sorted_wrt (<) (map fst (sh_info sh)) \<and> (\<forall>(k, hs) \<in> set (sh_info sh). object_ok since sh k hs) \<and> rows_ok sh"

lemma set_map_update: "set (map_update k f xs) = (\<lambda>(j, v). (j, if j = k then f v else v)) ` set xs"
  by (simp add: map_update_def)

lemma tracked_keys: "tracked since until tf sh \<Longrightarrow> distinct (map fst (sh_info sh))"
  by (simp add: tracked_def sorted_distinct)

lemma rows_of_append: "rows_of k (a @ b) = rows_of k a @ rows_of k b"
  by (simp add: rows_of_def)

lemma tracked_advances:
  assumes t: "tracked since until tf sh" and k: "map_find k (sh_info sh) = Some hs" and a: "advances (hs, sh) (hs', sh')"
  shows "tracked since until tf (sh'\<lparr> sh_info := map_update k (\<lambda>_. hs') (sh_info sh') \<rparr>)" and "sh_info sh' = sh_info sh"
proof -
  let ?info = "map_update k (\<lambda>_. hs') (sh_info sh)"
  have kin: "(k, hs) \<in> set (sh_info sh)" using k by (rule map_find_in)
  then have kin': "Some k \<in> Some ` fst ` set (sh_info sh)" by force
  have ok: "object_ok since sh k hs" using t kin by (auto simp: tracked_def)
  have key: "hs_key hs = Some k" using ok by (simp add: object_ok_def)
  from a obtain rows where r: "sh' = sh\<lparr> sh_rows := sh_rows sh @ rows \<rparr>" "chain (hs_from hs) rows (hs_from hs')"
    "\<forall>r \<in> set rows. hs_key r = Some k \<and> (\<exists>h. r = period_row (sh_timeframe sh) h)" "sh_only_update sh \<longrightarrow> rows = []"
    using key by (auto simp: advances_def)
  have h': "hs_key hs' = Some k" "hs_services hs' = hs_services hs" using a key by (auto simp: advances_def)
  show "sh_info sh' = sh_info sh" using r(1) by simp
  have mine: "rows_of k rows = rows" using r(3) by (simp add: rows_of_def filter_id_conv)
  have yours: "rows_of j rows = []" if "j \<noteq> k" for j using r(3) that by (auto simp: rows_of_def filter_empty_conv)
  let ?sh = "sh'\<lparr> sh_info := ?info \<rparr>"
  have dom: "fst ` set ?info = fst ` set (sh_info sh)" by (force simp: set_map_update)
  have "object_ok since ?sh j g" if "(j, g) \<in> set ?info" for j g
  proof (cases "j = k")
    case True
    then have "g = hs'" using that by (auto simp: set_map_update)
    moreover have "chain since (rows_of k (sh_rows sh @ rows)) (hs_from hs')"
      using ok r(2) by (auto simp: object_ok_def rows_of_append mine chain_append)
    ultimately show ?thesis using ok h' True dom r(1) by (simp add: object_ok_def)
  next
    case False
    then have "(j, g) \<in> set (sh_info sh)" using that by (auto simp: set_map_update split: if_splits)
    with t have "object_ok since sh j g" by (auto simp: tracked_def)
    then show ?thesis using yours [OF False] dom r(1) by (simp add: object_ok_def rows_of_append)
  qed
  moreover have "rows_ok ?sh"
    using t r(1,3,4) kin' dom by (auto simp: tracked_def rows_ok_def)
  ultimately show "tracked since until tf (sh'\<lparr> sh_info := map_update k (\<lambda>_. hs') (sh_info sh') \<rparr>)"
    using t r(1) by (auto simp: tracked_def)
qed

text \<open>Events whose line has the fields they need.\<close>

definition event_complete :: "log_entry \<Rightarrow> bool" where
  "event_complete e \<longleftrightarrow>
     (le_type e \<in> {DOWNTIME_ALERT_HOST, DOWNTIME_ALERT_SERVICE, FLAPPING_HOST, FLAPPING_SERVICE} \<longrightarrow> le_state_type e \<noteq> None) \<and>
     (service_event (le_type e) \<and> le_service e \<noteq> None \<longrightarrow> le_host e \<noteq> None)"

definition has_period :: "log_entry \<Rightarrow> bool" where
  "has_period e \<longleftrightarrow> le_type e = TIMEPERIOD_TRANSITION \<longrightarrow> (\<exists>p x i r. strtok_all (le_options e) = p # x # i # r)"

lemma state_event_defined: "event_complete e \<Longrightarrow> has_period e \<Longrightarrow> \<exists>y. state_event consume e hsh = Some y"
  unfolding state_event_def event_complete_def has_period_def
  by (cases "le_type e") (auto simp del: split_paired_Ex)

lemma update_object_tracked:
  assumes t: "tracked since until tf sh" and k: "k \<in> fst ` set (sh_info sh)" and e: "event_complete e" "has_period e"
  shows "\<exists>b sh'. update_object collect_periods e k sh = Some (b, sh') \<and> tracked since until tf sh' \<and>
     map fst (sh_info sh') = map fst (sh_info sh) \<and> sh_only_update sh' = sh_only_update sh"
proof -
  obtain hs where hs: "map_find k (sh_info sh) = Some hs" using k map_find_None [of k "sh_info sh"] by fastforce
  obtain h1 s1 where r: "revive collect_periods e (hs, sh) = (h1, s1)" by fastforce
  obtain b h3 s3 where "state_event collect_periods e (h1\<lparr> hs_time := le_time e, hs_lineno := wrap32 (int (le_lineno e)), hs_until := le_time e,
      hs_may_no_longer_exist := (le_type e = TIMEPERIOD_TRANSITION \<and> hs_may_no_longer_exist h1) \<rparr>, s1) = Some (b, h3, s3)"
    using state_event_defined [OF e] by (metis prod_cases3)
  then obtain b hs' sh' where u: "updateHostServiceState collect_periods e (hs, sh) = Some (b, hs', sh')"
    unfolding updateHostServiceState_def r by (simp add: Let_def)
  have a: "advances (hs, sh) (hs', sh')" using update_advances [OF u] t by (simp add: tracked_def)
  have "update_object collect_periods e k sh = Some (b, sh'\<lparr> sh_info := map_update k (\<lambda>_. hs') (sh_info sh') \<rparr>)"
    using hs u by (simp add: update_object_def)
  moreover have "sh_only_update sh' = sh_only_update sh" using a by (auto simp: advances_def)
  ultimately show ?thesis using tracked_advances [OF t hs a] by simp
qed

lemma update_objects_tracked:
  "tracked since until tf sh \<Longrightarrow> set ks \<subseteq> fst ` set (sh_info sh) \<Longrightarrow> event_complete e \<Longrightarrow> has_period e \<Longrightarrow>
     \<exists>sh'. update_objects collect_periods e ks sh = Some sh' \<and> tracked since until tf sh' \<and>
       map fst (sh_info sh') = map fst (sh_info sh)"
proof (induction ks arbitrary: sh)
  case (Cons k ks)
  have k: "k \<in> fst ` set (sh_info sh)" using Cons.prems(2) by simp
  obtain b sh1 where 1: "update_object collect_periods e k sh = Some (b, sh1)" "tracked since until tf sh1"
    "map fst (sh_info sh1) = map fst (sh_info sh)" using update_object_tracked [OF Cons.prems(1) k Cons.prems(3,4)] by blast
  have "fst ` set (sh_info sh1) = fst ` set (sh_info sh)" using 1(3) by (metis list.set_map)
  with Cons.IH [OF 1(2)] Cons.prems(2-4) 1(1,3) show ?case by auto
qed simp

lemma tracked_flags:
  "tracked since until tf sh \<Longrightarrow> tracked since until tf (sh\<lparr> sh_in_initial_states := b \<rparr>)"
  "tracked since until tf sh \<Longrightarrow> tracked since until tf (sh\<lparr> sh_blacklist := l \<rparr>)"
  "tracked since until tf sh \<Longrightarrow> tracked since until tf (sh\<lparr> sh_periods := m \<rparr>)"
  "tracked since until tf sh \<Longrightarrow> tracked since until tf (sh\<lparr> sh_only_update := False \<rparr>)"
  by (auto simp: tracked_def object_ok_def rows_ok_def)

lemma each_object_tracked:
  assumes t: "tracked since until tf sh" and f: "\<And>k hs. object_ok since sh k hs \<Longrightarrow> object_ok since sh k (f hs)"
  shows "tracked since until tf (each_object f sh)"
proof -
  have dom: "fst ` set (map (\<lambda>(k, hs). (k, f hs)) (sh_info sh)) = fst ` set (sh_info sh)" by force
  have keys: "map fst (map (\<lambda>(k, hs). (k, f hs)) xs) = map fst xs" for xs :: "(nat \<times> host_service_state) list" by (induction xs) auto
  have "object_ok since (each_object f sh) k g" if "(k, g) \<in> set (sh_info (each_object f sh))" for k g
  proof -
    from that obtain hs where "(k, hs) \<in> set (sh_info sh)" "g = f hs" by (auto simp: each_object_def)
    with t f have "object_ok since sh k g" by (auto simp: tracked_def)
    then show ?thesis using dom by (simp add: object_ok_def each_object_def)
  qed
  then have "\<forall>(k, g) \<in> set (sh_info (each_object f sh)). object_ok since (each_object f sh) k g" by blast
  moreover have "rows_ok (each_object f sh)" using t dom by (auto simp: tracked_def rows_ok_def each_object_def)
  moreover have "sorted_wrt (<) (map fst (sh_info (each_object f sh)))"
    using t keys [of "sh_info sh"] by (simp only: tracked_def each_object_def) (simp del: map_map)
  moreover have "\<not> sh_abort (each_object f sh) \<and> sh_since (each_object f sh) = since \<and> sh_until (each_object f sh) = until \<and>
      sh_timeframe (each_object f sh) = tf" using t by (simp add: tracked_def each_object_def)
  ultimately show ?thesis unfolding tracked_def by blast
qed

lemma object_ok_same: "same_period hs hs' \<Longrightarrow> object_ok since sh k hs \<Longrightarrow> object_ok since sh k hs'"
  using hs_key_cong [of hs' hs] by (simp add: object_ok_def same_period_def)

lemma start_output_tracked:
  assumes t: "tracked since until tf sh" shows "tracked since until tf (start_output e sh)"
proof (cases "sh_only_update sh \<and> sh_since sh \<le> le_time e")
  case True
  then have "sh_rows sh = []" using t by (simp add: tracked_def rows_ok_def)
  then have "object_ok since sh k (hs\<lparr> hs_from := sh_since sh, hs_until := sh_since sh \<rparr>)" if "object_ok since sh k hs" for k hs
    using that t hs_key_cong [of "hs\<lparr> hs_from := sh_since sh, hs_until := sh_since sh \<rparr>" hs] by (simp add: object_ok_def tracked_def rows_of_def)
  from each_object_tracked [OF t this] True show ?thesis by (simp add: start_output_def tracked_flags)
qed (use t in \<open>auto simp: start_output_def\<close>)

lemma end_initial_states_tracked: "tracked since until tf sh \<Longrightarrow> tracked since until tf (end_initial_states e sh)"
  unfolding end_initial_states_def
  by (auto intro!: tracked_flags each_object_tracked elim!: object_ok_same [rotated] simp: same_period_def)

lemma log_initial_states_tracked: "tracked since until tf sh \<Longrightarrow> tracked since until tf (log_initial_states e sh)"
  unfolding log_initial_states_def
  by (auto intro!: tracked_flags each_object_tracked elim!: object_ok_same [rotated] simp: same_period_def)

lemma new_object_tracked:
  assumes t: "tracked since until tf sh" and k: "k \<notin> fst ` set (sh_info sh)" and h: "le_host e \<noteq> None"
    and key: "case le_service e of None \<Rightarrow> le_host e = Some k | Some s \<Rightarrow> s = k"
  shows "new_object mo fs e k sh = Some None \<or>
    (\<exists>sh'. new_object mo fs e k sh = Some (Some sh') \<and> tracked since until tf sh' \<and> k \<in> fst ` set (sh_info sh'))"
proof -
  obtain a where a: "le_host e = Some a" using h by blast
  let ?hs = "new_host_service_state\<lparr> hs_is_host := (le_svc_desc e = None), hs_host := Some a, hs_service := le_service e,
     hs_host_name := mo_host_name mo a,
     hs_service_description := (case le_service e of Some s \<Rightarrow> mo_service_description mo s | None \<Rightarrow> []) \<rparr>"
  obtain hs1 info where r: "relate_object k ?hs (sh_info sh) = (hs1, info)" by fastforce
  have hs1: "hs_key hs1 = Some k" "set (hs_services hs1) \<subseteq> fst ` set (sh_info sh)"
    using r key a by (force simp: relate_object_def hs_key_def new_host_service_state_def split: if_splits option.splits)+
  have info: "\<exists>hs0. (j, hs0) \<in> set (sh_info sh) \<and> hs_key g = hs_key hs0 \<and> hs_from g = hs_from hs0 \<and>
      set (hs_services g) \<subseteq> insert k (set (hs_services hs0))" if "(j, g) \<in> set info" for j g
  proof (cases "le_svc_desc e = None")
    case True
    then have "info = sh_info sh" using r by (auto simp: relate_object_def)
    with that show ?thesis by blast
  next
    case False
    then have "info = map_update a (\<lambda>g. g\<lparr> hs_services := hs_services g @ [k] \<rparr>) (sh_info sh)" using r by (auto simp: relate_object_def)
    with that obtain hs0 where "(j, hs0) \<in> set (sh_info sh)" "g = (if j = a then hs0\<lparr> hs_services := hs_services hs0 @ [k] \<rparr> else hs0)"
      by (auto simp: set_map_update)
    then show ?thesis using hs_key_cong [of g hs0] by (intro exI [of _ hs0]) auto
  qed
  have keys: "map fst info = map fst (sh_info sh)" using r by (auto simp: relate_object_def split: if_splits option.splits)
  then have dom: "fst ` set info = fst ` set (sh_info sh)" by (metis list.set_map)
  have none: "rows_of k (sh_rows sh) = []"
    using t k by (force simp: tracked_def rows_ok_def rows_of_def filter_empty_conv)
  have step: "tracked since until tf (sh\<lparr> sh_info := map_insert k hs4 info \<rparr>)"
    if h4: "hs_key hs4 = hs_key hs1" "hs_services hs4 = hs_services hs1" "hs_from hs4 = since" for hs4
  proof -
    let ?sh = "sh\<lparr> sh_info := map_insert k hs4 info \<rparr>"
    have dom': "fst ` set (map_insert k hs4 info) = insert k (fst ` set (sh_info sh))" using dom by (simp add: set_map_insert)
    have "object_ok since ?sh j g" if "(j, g) \<in> set (map_insert k hs4 info)" for j g
    proof (cases "(j, g) \<in> set info")
      case True
      from info [OF this] obtain hs0 where 0: "(j, hs0) \<in> set (sh_info sh)" "hs_key g = hs_key hs0" "hs_from g = hs_from hs0"
        "set (hs_services g) \<subseteq> insert k (set (hs_services hs0))" by blast
      then have "object_ok since sh j hs0" using t by (auto simp: tracked_def)
      with 0(2-4) dom' show ?thesis by (auto simp: object_ok_def)
    next
      case False
      then have "j = k" "g = hs4" using that by (auto simp: set_map_insert)
      with h4 hs1 none dom' show ?thesis by (auto simp: object_ok_def)
    qed
    moreover have "rows_ok ?sh" using t dom' by (auto simp: tracked_def rows_ok_def)
    moreover have "sorted_wrt (<) (map fst (map_insert k hs4 info))"
      using map_insert_sorted [of info k hs4] t k keys dom by (simp add: tracked_def map_find_None)
    ultimately show ?thesis using t by (auto simp: tracked_def)
  qed
  show ?thesis
  proof (cases "le_svc_desc e \<noteq> None \<and> \<not> list_all (\<lambda>f. accepts f ?hs) fs")
    case True
    have "new_object mo fs e k sh = Some None" unfolding new_object_def a option.case Let_def if_P [OF True] ..
    then show ?thesis ..
  next
    case False
    have since: "sh_since sh = since" using t by (simp add: tracked_def)
    obtain np sp where p: "object_periods mo hs1 = (np, sp)" by fastforce
    define hs2 where "hs2 = hs1\<lparr> hs_from := sh_since sh, hs_notification_period := np, hs_service_period := sp,
       hs_in_notification_period := period_status sh np, hs_in_service_period := period_status sh sp \<rparr>"
    define hs3 where "hs3 = (if hs_is_host hs2 then hs2
       else case map_find a info of None \<Rightarrow> hs2 | Some g \<Rightarrow> hs2\<lparr> hs_in_host_downtime := hs_in_host_downtime g, hs_host_down := hs_host_down g \<rparr>)"
    define hs4 where "hs4 = (if \<not> sh_only_update sh \<and> 60 * 10 < le_time e - sh_since sh
       then hs3\<lparr> hs_debug_info := Some ''UNMONITORED '', hs_state := -1 \<rparr> else hs3)"
    have "new_object mo fs e k sh = Some (Some (sh\<lparr> sh_info := map_insert k hs4 info \<rparr>))"
      unfolding new_object_def a option.case Let_def if_not_P [OF False] r p prod.case hs4_def hs3_def hs2_def ..
    moreover have "same_period hs2 hs4" by (auto simp: hs4_def hs3_def same_period_def split: option.split)
    then have "hs_key hs4 = hs_key hs1 \<and> hs_services hs4 = hs_services hs1 \<and> hs_from hs4 = since"
      using hs_key_cong [of hs4 hs1] since by (simp add: same_period_def hs2_def)
    ultimately show ?thesis using step [of hs4] by (auto simp: set_map_insert)
  qed
qed

section \<open>A message\<close>

definition event_ok :: "log_entry \<Rightarrow> bool" where
  "event_ok e \<longleftrightarrow> event_complete e \<and> (host_event (le_type e) \<longrightarrow> le_service e = None)"

lemma object_event_tracked:
  assumes t: "tracked since until tf sh" and e: "event_complete e" "le_type e \<noteq> TIMEPERIOD_TRANSITION" "le_host e \<noteq> None"
    and key: "case le_service e of None \<Rightarrow> le_host e = Some k | Some s \<Rightarrow> s = k"
  shows "\<exists>sh'. object_event collect_periods mo fs e k sh = Some sh' \<and> tracked since until tf sh'"
proof -
  have p: "has_period e" using e(2) by (simp add: has_period_def)
  have known: "\<exists>sh'. (case update_object collect_periods e k sh1 of
         None \<Rightarrow> None
       | Some (changed, sh2) \<Rightarrow>
           if le_type e \<in> {ALERT_HOST, STATE_HOST, DOWNTIME_ALERT_HOST} \<and> changed
           then (case map_find k (sh_info sh2) of None \<Rightarrow> None | Some hs \<Rightarrow> update_objects collect_periods e (hs_services hs) sh2)
           else Some sh2) = Some sh' \<and> tracked since until tf sh'"
    if t1: "tracked since until tf sh1" "k \<in> fst ` set (sh_info sh1)" for sh1
  proof -
    obtain b sh2 where u: "update_object collect_periods e k sh1 = Some (b, sh2)" "tracked since until tf sh2"
      "map fst (sh_info sh2) = map fst (sh_info sh1)" using update_object_tracked [OF t1 e(1) p] by blast
    have "k \<in> fst ` set (sh_info sh2)" using t1(2) u(3) by (metis list.set_map)
    then obtain hs where hs: "map_find k (sh_info sh2) = Some hs" using map_find_None [of k "sh_info sh2"] by fastforce
    have "set (hs_services hs) \<subseteq> fst ` set (sh_info sh2)"
      using u(2) map_find_in [OF hs] by (auto simp: tracked_def object_ok_def)
    from update_objects_tracked [OF u(2) this e(1) p] u(1,2) hs show ?thesis by (cases b) auto
  qed
  show ?thesis
  proof (cases "k \<in> set (sh_blacklist sh)")
    case True
    with t show ?thesis by (simp add: object_event_def)
  next
    case new: False
    show ?thesis
    proof (cases "map_find k (sh_info sh) = None")
      case True
      then have k: "k \<notin> fst ` set (sh_info sh)" by (simp add: map_find_None)
      from new_object_tracked [OF t k e(3) key, of mo fs] known tracked_flags(2) [OF t] show ?thesis
        unfolding object_event_def if_not_P [OF new] if_P [OF True] by (elim disjE exE conjE) simp_all
    next
      case False
      then have "k \<in> fst ` set (sh_info sh)" by (simp add: map_find_None)
      from known [OF t this] show ?thesis unfolding object_event_def if_not_P [OF new] if_not_P [OF False] option.case .
    qed
  qed
qed

lemma history_event_tracked:
  assumes "tracked since until tf sh0" and e: "event_ok e"
  shows "\<exists>sh'. history_event collect_periods mo fs e sh0 = Some sh' \<and> tracked since until tf sh'"
proof -
  let ?sh = "end_initial_states e (start_output e sh0)"
  have t: "tracked since until tf ?sh" by (rule end_initial_states_tracked [OF start_output_tracked [OF assms(1)]])
  have tp: "\<exists>sh'. timeperiod_transition collect_periods e ?sh = Some sh' \<and> tracked since until tf sh'" if "le_type e = TIMEPERIOD_TRANSITION"
  proof (cases "\<exists>p x i r. strtok_all (le_options e) = p # x # i # r")
    case True
    then obtain p x i r where s: "strtok_all (le_options e) = p # x # i # r" by blast
    then have "has_period e" by (simp add: has_period_def)
    moreover have "event_complete e" using e by (simp add: event_ok_def)
    moreover have "set (map fst (sh_info ?sh)) \<subseteq> fst ` set (sh_info (?sh\<lparr> sh_periods := (sh_periods ?sh)(p \<mapsto> atoi i) \<rparr>))" by simp
    ultimately show ?thesis
      using update_objects_tracked [OF tracked_flags(3) [OF t, of "(sh_periods ?sh)(p \<mapsto> atoi i)"], of "map fst (sh_info ?sh)" e] s
      by (auto simp: timeperiod_transition_def)
  next
    case False
    then have "timeperiod_transition collect_periods e ?sh = Some ?sh" by (simp add: timeperiod_transition_def split: list.split)
    with t show ?thesis by blast
  qed
  show ?thesis
  proof (cases "service_event (le_type e) \<or> host_event (le_type e)")
    case True
    then have "le_type e \<noteq> TIMEPERIOD_TRANSITION" by (auto simp: service_event_def host_event_def)
    note o = object_event_tracked [OF t _ this]
    show ?thesis
    proof (cases "service_event (le_type e)")
      case True
      with o e t show ?thesis
        by (cases "le_service e") (simp_all add: history_event_def event_ok_def event_complete_def)
    next
      case False
      with True o e t show ?thesis
        by (cases "le_host e") (simp_all add: history_event_def event_ok_def)
    qed
  next
    case False
    with tp t log_initial_states_tracked [OF t, of e] show ?thesis
      unfolding history_event_def Let_def by auto
  qed
qed

section \<open>The scan of the log\<close>

lemma message_fields [simp]:
  "le_svc_desc (state_fields f s e) = le_svc_desc e" "le_type (state_fields f s e) = le_type e" "le_service (state_fields f s e) = le_service e"
  "le_svc_desc (comment_fields s e) = le_svc_desc e" "le_type (comment_fields s e) = le_type e" "le_service (comment_fields s e) = le_service e"
  "le_svc_desc (acknowledge_fields s e) = le_svc_desc e" "le_type (acknowledge_fields s e) = le_type e"
  "le_service (acknowledge_fields s e) = le_service e"
  "le_svc_desc (classified c ty x e) = le_svc_desc e" "le_type (classified c ty x e) = ty" "le_service (classified c ty x e) = le_service e"
  "le_svc_desc (snd (host_field s e)) = le_svc_desc e" "le_service (snd (host_field s e)) = le_service e"
  "le_service (snd (service_field s e)) = le_service e"
  by (simp_all add: state_fields_def comment_fields_def acknowledge_fields_def classified_def host_field_def service_field_def case_prod_unfold Let_def)

lemma handlers_kind:
  assumes "handleStatusEntry t e = Some e'" "le_svc_desc e = None" "host_event (le_type e')"
  shows "le_svc_desc e' = None"
  using assms unfolding handleStatusEntry_def Let_def case_prod_unfold
  by (simp add: host_event_def split: if_split_asm) (auto simp: host_event_def)

lemma handlers_type:
  "handleNotificationEntry t e = Some e' \<Longrightarrow> le_type e' = le_type e" "handlePassiveCheckEntry t e = Some e' \<Longrightarrow> le_type e' = le_type e"
  "handleExternalCommandEntry t e = Inr (Some e') \<Longrightarrow> le_type e' = le_type e" "handleNotes t e = Some e' \<Longrightarrow> le_type e' = le_type e"
  "handleTextEntry t e = Some e' \<Longrightarrow> \<not> host_event (le_type e')" "handleProgrammEntry t e = Some e' \<Longrightarrow> \<not> host_event (le_type e') \<or> le_type e' = le_type e"
  subgoal by (auto simp: handleNotificationEntry_def host_field_def service_field_def Let_def split: prod.splits if_splits)
  subgoal by (auto simp: handlePassiveCheckEntry_def host_field_def service_field_def Let_def split: prod.splits if_splits)
  subgoal by (auto simp: handleExternalCommandEntry_def host_field_def service_field_def Let_def split: prod.splits if_splits option.splits)
  subgoal by (auto simp: handleNotes_def host_field_def service_field_def Let_def split: prod.splits if_splits)
  subgoal by (auto simp: handleTextEntry_def host_event_def split: if_splits)
  subgoal by (auto simp: handleProgrammEntry_def host_event_def split: if_splits)
  done

lemma handlers_service:
  assumes "handleStatusEntry t e = Some e'"
  shows "le_service e' = le_service e"
  using assms unfolding handleStatusEntry_def Let_def case_prod_unfold by (auto split: if_split_asm)

lemma updateReferences_simps [simp]:
  "le_type (updateReferences os e) = le_type e"
  "le_svc_desc e = None \<Longrightarrow> le_service (updateReferences os e) = le_service e"
  by (simp_all add: updateReferences_def Let_def split: option.splits)

lemma host_event_no_service:
  assumes "log_entry_of os n l = Some e" and "host_event (le_type e)"
  shows "le_service e = None"
proof -
  let ?b = "blank_entry n (strip_newlines l)"
  have b: "le_type ?b = NONE" "le_svc_desc ?b = None" "le_service ?b = None" by (simp_all add: blank_entry_def)
  have none: "\<not> host_event NONE" by (simp add: host_event_def)
  have c: "le_service e = None" if "classify os t b = Some e" "le_type b = NONE" "le_svc_desc b = None" "le_service b = None" for t b
  proof (cases "handleStatusEntry t b")
    case (Some e')
    then have "e = updateReferences os e'" using that(1) by (simp add: classify_def)
    with handlers_kind [OF Some that(3)] handlers_service [OF Some] assms(2) that(4) show ?thesis by simp
  next
    case None
    have "\<not> host_event (le_type e)"
      using that(1,2) None none
      by (auto simp: classify_def dest: handlers_type split: option.splits sum.splits)
    with assms(2) show ?thesis by simp
  qed
  from assms(1) c b assms(2) none show ?thesis
    by (auto simp: log_entry_of_def Let_def split: if_splits)
qed

text \<open>The texts of the log files give complete events.\<close>

definition history_logs :: "log_env \<Rightarrow> (int \<Rightarrow> string) \<Rightarrow> int list \<Rightarrow> bool" where
  "history_logs v contents ks \<longleftrightarrow> (\<forall>n. \<not> lv_stop v n) \<and>
     (\<forall>k \<in> set ks. lv_contents v k = Some (contents k) \<and> length (lines_of (contents k)) \<le> lv_max_lines v \<and>
        length (lines_of (contents k)) < 2 ^ 32 \<and> defined_lines (lv_objects v) (lines_of (contents k)) \<and>
        (\<forall>i e. message_at (lv_objects v) (lines_of (contents k)) i e \<longrightarrow> event_complete e))"

definition cursor_ok :: "log_env \<Rightarrow> (int \<Rightarrow> string) \<Rightarrow> int list \<Rightarrow> cursor \<Rightarrow> bool" where
  "cursor_ok v contents ks cu \<longleftrightarrow>
     cache_ready (lv_objects v) contents (cu_cache cu) \<and> map fst (lc_files (cu_cache cu)) = ks \<and>
     set (cu_older cu) \<subseteq> set ks \<and> cu_log cu \<in> set ks \<and> set (cu_newer cu) \<subseteq> set ks \<and> (\<forall>e \<in> set (cu_entries cu). event_ok e)"

lemma getEntriesFromQuery_ok:
  assumes l: "history_logs v contents ks" and c: "cache_ready (lv_objects v) contents c" "map fst (lc_files c) = ks" and k: "k \<in> set ks"
  shows "\<exists>c' es. getEntriesFromQuery v k c = Some (c', es) \<and> cache_ready (lv_objects v) contents c' \<and> map fst (lc_files c') = ks \<and>
     (\<forall>e \<in> set es. event_ok e)"
proof -
  let ?ls = "lines_of (contents k)"
  obtain lf where lf: "lc_file k c = Some lf"
    using k c(2) by (cases "lc_file k c") (auto simp: lc_file_def map_find_None)
  have f: "length ?ls < 2 ^ 32" "length ?ls \<le> lv_max_lines v" "defined_lines (lv_objects v) ?ls" "\<forall>n. \<not> lv_stop v n"
    "lv_contents v k = Some (contents k)" "\<forall>i e. message_at (lv_objects v) ?ls i e \<longrightarrow> event_complete e"
    using l k by (auto simp: history_logs_def)
  obtain c1 lf1 where r: "load (lv_objects v) (lv_max_lines v) (lv_stop v) (Some (contents k)) k CLASSMASK_STATEHIST c = Some c1"
    "cache_ready (lv_objects v) contents c1" "lc_file k c1 = Some lf1"
    using load_archive [OF f(1-4) c(1) lf] load_current [OF f(1-4) c(1) lf] by (cases "lf_watch lf") blast+
  have "event_ok e" if "(key, e) \<in> set (lf_entries lf1)" for key e
  proof -
    have "sound (lv_objects v) ?ls lf1" using cache_readyD(3) [OF r(2,3)] by (simp add: file_ready_def)
    with that obtain i where i: "message_at (lv_objects v) ?ls i e" by (fastforce simp: sound_def messages_def)
    then have "log_entry_of (lv_objects v) (Suc i) (?ls ! i) = Some e" by (simp add: message_at_def)
    from host_event_no_service [OF this] f(6) i show ?thesis by (auto simp: event_ok_def)
  qed
  then have "\<forall>e \<in> set (map snd (lf_entries lf1)). event_ok e" by auto
  moreover have "map fst (lc_files c1) = ks" using load_keys [OF r(1)] c(2) by simp
  ultimately show ?thesis using r by (simp add: getEntriesFromQuery_def f(5))
qed

lemma forward_file_ok:
  assumes l: "history_logs v contents ks"
  shows "cursor_ok v contents ks cu \<Longrightarrow> set js \<subseteq> set ks \<Longrightarrow>
    \<exists>r cu'. forward_file v js cu = Some (r, cu') \<and> cursor_ok v contents ks cu' \<and> (\<forall>e. r = Some e \<longrightarrow> event_ok e)"
proof (induction js arbitrary: cu)
  case Nil
  then show ?case by (auto simp: forward_file.simps cursor_ok_def)
next
  case (Cons k js)
  show ?case
  proof (cases "cu_pos cu < length (cu_entries cu)")
    case True
    with Cons.prems show ?thesis by (auto simp: forward_file.simps cursor_ok_def)
  next
    case False
    have c: "cache_ready (lv_objects v) contents (cu_cache cu)" "map fst (lc_files (cu_cache cu)) = ks" "k \<in> set ks"
      using Cons.prems by (simp_all add: cursor_ok_def)
    obtain c' es where g: "getEntriesFromQuery v k (cu_cache cu) = Some (c', es)" "cache_ready (lv_objects v) contents c'"
      "map fst (lc_files c') = ks" "\<forall>e \<in> set es. event_ok e" using getEntriesFromQuery_ok [OF l c] by blast
    let ?cu = "cu\<lparr> cu_cache := c', cu_older := cu_log cu # cu_older cu, cu_log := k, cu_entries := es, cu_pos := 0 \<rparr>"
    have "cursor_ok v contents ks ?cu" using Cons.prems g by (auto simp: cursor_ok_def)
    from Cons.IH [OF this] Cons.prems(2) obtain r cu' where "forward_file v js ?cu = Some (r, cu')" "cursor_ok v contents ks cu'"
      "\<forall>e. r = Some e \<longrightarrow> event_ok e" by auto
    moreover have "forward_file v (k # js) cu = forward_file v js ?cu"
      using False g(1) by (subst forward_file.simps) simp
    ultimately show ?thesis by auto
  qed
qed

lemma backward_file_ok:
  assumes l: "history_logs v contents ks"
  shows "cursor_ok v contents ks cu \<Longrightarrow> set js \<subseteq> set ks \<Longrightarrow>
    \<exists>r cu'. backward_file v js cu = Some (r, cu') \<and> cursor_ok v contents ks cu'"
proof (induction js arbitrary: cu)
  case Nil
  then show ?case by (auto simp: backward_file.simps cursor_ok_def)
next
  case (Cons k js)
  show ?case
  proof (cases "0 < cu_pos cu")
    case True
    with Cons.prems show ?thesis by (auto simp: backward_file.simps cursor_ok_def)
  next
    case False
    have c: "cache_ready (lv_objects v) contents (cu_cache cu)" "map fst (lc_files (cu_cache cu)) = ks" "k \<in> set ks"
      using Cons.prems by (simp_all add: cursor_ok_def)
    obtain c' es where g: "getEntriesFromQuery v k (cu_cache cu) = Some (c', es)" "cache_ready (lv_objects v) contents c'"
      "map fst (lc_files c') = ks" "\<forall>e \<in> set es. event_ok e" using getEntriesFromQuery_ok [OF l c] by blast
    let ?cu = "cu\<lparr> cu_cache := c', cu_newer := cu_log cu # cu_newer cu, cu_log := k, cu_entries := es, cu_pos := length es \<rparr>"
    have "cursor_ok v contents ks ?cu" using Cons.prems g by (auto simp: cursor_ok_def)
    from Cons.IH [OF this] Cons.prems(2) obtain r cu' where "backward_file v js ?cu = Some (r, cu')" "cursor_ok v contents ks cu'" by auto
    moreover have "backward_file v (k # js) cu = backward_file v js ?cu"
      using False g(1) by (subst backward_file.simps) simp
    ultimately show ?thesis by auto
  qed
qed

lemma getNextLogentry_ok:
  assumes "history_logs v contents ks" and "cursor_ok v contents ks cu"
  shows "\<exists>r cu'. getNextLogentry v cu = Some (r, cu') \<and> cursor_ok v contents ks cu' \<and> (\<forall>e. r = Some e \<longrightarrow> event_ok e)"
proof -
  have "cursor_ok v contents ks (if cu_pos cu \<noteq> length (cu_entries cu) then cu\<lparr> cu_pos := cu_pos cu + 1 \<rparr> else cu)" "set (cu_newer cu) \<subseteq> set ks"
    using assms(2) by (auto simp: cursor_ok_def)
  from forward_file_ok [OF assms(1) this] show ?thesis unfolding getNextLogentry_def .
qed

lemma history_loop_tracked:
  assumes l: "history_logs v contents ks"
  shows "cursor_ok v contents ks cu \<Longrightarrow> tracked since until tf sh \<Longrightarrow>
    \<exists>cu' sh'. history_loop v collect_periods mo fs cu sh = Some (cu', sh') \<and> cursor_ok v contents ks cu' \<and> tracked since until tf sh'"
proof (induction cu arbitrary: sh rule: wf_induct_rule [OF wf_measures [of "[\<lambda>cu. length (cu_newer cu), \<lambda>cu. length (cu_entries cu) - cu_pos cu]"]])
  case (1 cu)
  obtain r cu1 where n: "getNextLogentry v cu = Some (r, cu1)" "cursor_ok v contents ks cu1" "\<forall>e. r = Some e \<longrightarrow> event_ok e"
    using getNextLogentry_ok [OF l "1.prems"(1)] by blast
  show ?case
  proof (cases r)
    case None
    with n "1.prems" show ?thesis by (simp add: history_loop.simps [of v _ _ _ cu])
  next
    case (Some e)
    have go: "\<not> sh_abort sh" using "1.prems"(2) by (simp add: tracked_def)
    show ?thesis
    proof (cases "sh_until sh \<le> le_time e")
      case True
      have "set (cu_older cu1) \<subseteq> set ks" using n(2) by (simp add: cursor_ok_def)
      from backward_file_ok [OF l n(2) this] obtain r2 cu2 where "getPreviousLogentry v cu1 = Some (r2, cu2)" "cursor_ok v contents ks cu2"
        by (auto simp: getPreviousLogentry_def)
      with n(1) Some go True "1.prems" show ?thesis by (simp add: history_loop.simps [of v _ _ _ cu])
    next
      case False
      obtain sh1 where h: "history_event collect_periods mo fs e sh = Some sh1" "tracked since until tf sh1"
        using history_event_tracked [OF "1.prems"(2)] n(3) Some by blast
      have "(cu1, cu) \<in> measures [\<lambda>cu. length (cu_newer cu), \<lambda>cu. length (cu_entries cu) - cu_pos cu]"
        using getNextLogentry_progress n(1) Some unfolding cursor_order_def by blast
      from "1.IH" [OF this n(2) h(2)] n(1) Some go False h(1) show ?thesis by (simp add: history_loop.simps [of v _ _ _ cu])
    qed
  qed
qed

section \<open>The reports at the end\<close>

definition finished :: "int \<Rightarrow> nat set \<Rightarrow> host_service_state list statehist \<Rightarrow> bool" where
  "finished until ks sh \<longleftrightarrow> (\<forall>(k, hs) \<in> set (sh_info sh). k \<in> ks \<longrightarrow> hs_from hs = until - 1)"

lemma process_advances:
  assumes "\<not> sh_abort s" and "\<not> sh_only_update s" and "same_period h0 h" and "sh_process collect_periods (h, s) = (h1, s1)" and "same_period h1 h2"
  shows "advances (h0, s) (h2, s1)" and "hs_from h1 = hs_until h"
proof -
  have "advances (h0, s) (h, s)" by (rule advances_refl [OF assms(3)])
  from advances_trans [OF this advances_same [OF advances_process [OF assms(4,1,2)] assms(5)]] show "advances (h0, s) (h2, s1)" .
  show "hs_from h1 = hs_until h" using assms(4) by (auto simp: sh_process_def Let_def split: prod.splits)
qed

lemma final_report_tracked:
  assumes t: "tracked since until tf sh" and o: "\<not> sh_only_update sh" and d: "finished until ks sh"
  shows "tracked since until tf (final_report collect_periods k sh) \<and> \<not> sh_only_update (final_report collect_periods k sh) \<and>
    finished until (insert k ks) (final_report collect_periods k sh) \<and>
    map fst (sh_info (final_report collect_periods k sh)) = map fst (sh_info sh)"
proof (cases "map_find k (sh_info sh)")
  case None
  then have "k \<notin> fst ` set (sh_info sh)" by (simp add: map_find_None)
  then have "finished until (insert k ks) sh" using d by (force simp: finished_def)
  with None t o show ?thesis by (simp add: final_report_def)
next
  case (Some hs)
  have a: "\<not> sh_abort sh" "sh_until sh = until" using t by (simp_all add: tracked_def)
  define x where "x = (if hs_may_no_longer_exist hs
     then let (h, s) = sh_process collect_periods (hs\<lparr> hs_time := hs_last_known_time hs, hs_until := hs_last_known_time hs \<rparr>, sh)
          in (h\<lparr> hs_state := -1, hs_until := hs_time h, hs_debug_info := Some ''UNMONITORED'', hs_log_output := None \<rparr>, s)
     else (hs, sh))"
  obtain hs1 sh1 where 1: "x = (hs1, sh1)" by fastforce
  have a1: "advances (hs, sh) (hs1, sh1)"
  proof (cases "hs_may_no_longer_exist hs")
    case True
    let ?h = "hs\<lparr> hs_time := hs_last_known_time hs, hs_until := hs_last_known_time hs \<rparr>"
    obtain h s where p: "sh_process collect_periods (?h, sh) = (h, s)" by fastforce
    have "hs1 = h\<lparr> hs_state := -1, hs_until := hs_time h, hs_debug_info := Some ''UNMONITORED'', hs_log_output := None \<rparr>" "sh1 = s"
      using 1 True p by (auto simp: x_def)
    then show ?thesis using process_advances(1) [OF a(1) o _ p, of hs hs1] by (simp add: same_period_def)
  qed (use 1 in \<open>auto simp: x_def intro: advances_refl\<close>)
  then have s1: "\<not> sh_abort sh1" "\<not> sh_only_update sh1" "sh_until sh1 = until" using a o by (auto simp: advances_def)
  let ?hs = "hs1\<lparr> hs_time := sh_until sh1 - 1, hs_until := sh_until sh1 - 1 \<rparr>"
  obtain hs2 sh2 where 2: "sh_process collect_periods (?hs, sh1) = (hs2, sh2)" by fastforce
  have p: "advances (hs1, sh1) (hs2, sh2)" "hs_from hs2 = until - 1"
    using process_advances [OF s1(1,2) _ 2, of hs1 hs2] s1(3) by (auto simp: same_period_def)
  have adv: "advances (hs, sh) (hs2, sh2)" by (rule advances_trans [OF a1 p(1)])
  have r: "final_report collect_periods k sh = sh2\<lparr> sh_info := map_update k (\<lambda>_. hs2) (sh_info sh2) \<rparr>"
    unfolding final_report_def Some option.case Let_def x_def [unfolded Let_def, symmetric] 1 prod.case 2 ..
  note t2 = tracked_advances [OF t Some adv]
  have "\<not> sh_only_update sh2" using adv o by (auto simp: advances_def)
  moreover have "finished until (insert k ks) (sh2\<lparr> sh_info := map_update k (\<lambda>_. hs2) (sh_info sh2) \<rparr>)"
    using d p(2) t2(2) by (auto simp: finished_def set_map_update split: if_splits)
  ultimately show ?thesis unfolding r using t2 by simp
qed

lemma final_reports_tracked:
  "tracked since until tf sh \<Longrightarrow> \<not> sh_only_update sh \<Longrightarrow> finished until js sh \<Longrightarrow>
     tracked since until tf (fold (final_report collect_periods) ks sh) \<and> finished until (js \<union> set ks) (fold (final_report collect_periods) ks sh) \<and>
     map fst (sh_info (fold (final_report collect_periods) ks sh)) = map fst (sh_info sh)"
proof (induction ks arbitrary: sh js)
  case (Cons k ks)
  from final_report_tracked [OF Cons.prems, of k] Cons.IH [of "final_report collect_periods k sh" "insert k js"]
  show ?case by (simp add: Un_commute)
qed simp

text \<open>The reports do not look at \<open>only_update\<close>.\<close>

lemma final_report_only_update:
  "final_report consume k (sh\<lparr> sh_only_update := b \<rparr>) = (final_report consume k sh)\<lparr> sh_only_update := b \<rparr>"
proof -
  have p: "sh_process consume (h, s\<lparr> sh_only_update := b \<rparr>) = (case sh_process consume (h, s) of (h', s') \<Rightarrow> (h', s'\<lparr> sh_only_update := b \<rparr>))"
    for h s by (simp add: sh_process_def Let_def split: prod.split)
  show ?thesis
    by (auto simp: final_report_def p Let_def split: option.split prod.split)
qed

lemma final_reports_only_update:
  "fold (final_report consume) ks (sh\<lparr> sh_only_update := b \<rparr>) = (fold (final_report consume) ks sh)\<lparr> sh_only_update := b \<rparr>"
  by (induction ks arbitrary: sh) (simp_all add: final_report_only_update)

text \<open>What a row says of its period.\<close>

definition row_adds_up :: "int \<Rightarrow> host_service_state \<Rightarrow> bool" where
  "row_adds_up timeframe r \<longleftrightarrow>
     hs_duration r = hs_until r - hs_from r \<and> hs_duration_part r = real_of_int (hs_duration r) / real_of_int timeframe \<and>
     hs_duration_UNMONITORED r = (if hs_state r = -1 then hs_duration r else 0) \<and> hs_duration_OK r = (if hs_state r = 0 then hs_duration r else 0) \<and>
     hs_duration_WARNING r = (if hs_state r = 1 then hs_duration r else 0) \<and> hs_duration_CRITICAL r = (if hs_state r = 2 then hs_duration r else 0) \<and>
     hs_duration_UNKNOWN r = (if hs_state r = 3 then hs_duration r else 0)"

lemma period_row_adds_up: "row_adds_up t (period_row t h)"
  by (auto simp: row_adds_up_def period_row_def spread_duration_def Let_def)

section \<open>The property\<close>

text \<open>The state a query of state histories starts with.\<close>

definition history_start :: "int \<Rightarrow> int \<Rightarrow> 's statehist \<Rightarrow> 's statehist" where
  "history_start since until sh = sh\<lparr> sh_abort := False, sh_since := since, sh_until := until, sh_timeframe := wrap32 (until - since - 1),
     sh_only_update := True, sh_in_initial_states := False, sh_blacklist := [] \<rparr>"

lemma history_answer_steps:
  assumes "find_time_limits (AndingFilter (map snd fs)) ''time'' (0, now + 1) = (since, until)"
    and "since \<noteq> 0" and "wrap32 (until - since - 1) \<noteq> 0" and "rev (map fst (lc_files c)) = n # before" and "go_back since n before [] = (k, older, newer)"
  shows "table_statehist_answer v mo disabled now fs consume c sh0 =
     (if until < k then Some (None, c, history_start since until sh0)
      else case getEntriesFromQuery v k c of None \<Rightarrow> None
         | Some (c1, es) \<Rightarrow>
             (case history_loop v consume mo (object_filters disabled fs)
                     \<lparr> cu_cache = c1, cu_older = older, cu_log = k, cu_newer = newer, cu_entries = es, cu_pos = start_pos_in since newer es \<rparr>
                     (history_start since until sh0) of
                None \<Rightarrow> None
              | Some (cu, sh2) \<Rightarrow> Some (None, cu_cache cu, final_reports consume sh2)))"
  using assms(2,3) unfolding history_start_def by (simp add: table_statehist_answer_def assms(1,4,5) del: find_time_limits.simps)

lemma go_back_files: "go_back since j os ns = (k, older, newer) \<Longrightarrow> set older \<union> {k} \<union> set newer = set os \<union> {j} \<union> set ns"
  by (induction since j os ns rule: go_back.induct) (auto split: if_splits)

lemma final_reports_add_up:
  assumes "tracked since until tf sh2"
  defines "sh \<equiv> final_reports collect_periods sh2"
  shows "\<forall>(j, g) \<in> set (sh_info sh). chain since (rows_of j (sh_rows sh)) (until - 1) \<and>
      sum_list (map hs_duration (rows_of j (sh_rows sh))) = until - 1 - since"
    and "\<forall>r \<in> set (sh_rows sh). hs_key r \<in> Some ` fst ` set (sh_info sh) \<and> row_adds_up tf r"
proof -
  let ?sh2 = "sh2\<lparr> sh_only_update := False \<rparr>" and ?r = "sh\<lparr> sh_only_update := False \<rparr>"
  have fin: "?r = fold (final_report collect_periods) (map fst (sh_info ?sh2)) ?sh2"
    using assms(1) by (simp add: sh_def final_reports_def tracked_def final_reports_only_update)
  have f: "finished until {} ?sh2" by (auto simp: finished_def)
  have reached: "tracked since until tf ?r" "finished until (set (map fst (sh_info ?r))) ?r"
    using final_reports_tracked [OF tracked_flags(4) [OF assms(1)] _ f, of "map fst (sh_info ?sh2)"] by (simp_all only: fin) auto
  have rows: "hs_key r \<in> Some ` fst ` set (sh_info sh)" "row_adds_up tf r" if "r \<in> set (sh_rows sh)" for r
    using reached(1) that period_row_adds_up by (auto simp: tracked_def rows_ok_def)
  then show "\<forall>r \<in> set (sh_rows sh). hs_key r \<in> Some ` fst ` set (sh_info sh) \<and> row_adds_up tf r" by blast
  show "\<forall>(j, g) \<in> set (sh_info sh). chain since (rows_of j (sh_rows sh)) (until - 1) \<and>
      sum_list (map hs_duration (rows_of j (sh_rows sh))) = until - 1 - since"
  proof clarify
    fix j g
    assume "(j, g) \<in> set (sh_info sh)"
    then have c: "chain since (rows_of j (sh_rows sh)) (until - 1)"
      using reached by (force simp: tracked_def object_ok_def finished_def)
    have "map hs_duration (rows_of j (sh_rows sh)) = map (\<lambda>r. hs_until r - hs_from r) (rows_of j (sh_rows sh))"
      using rows(2) by (auto simp: rows_of_def row_adds_up_def)
    then have "sum_list (map hs_duration (rows_of j (sh_rows sh))) = until - 1 - since" using chain_total [OF c] by (simp only:)
    with c show "chain since (rows_of j (sh_rows sh)) (until - 1) \<and>
      sum_list (map hs_duration (rows_of j (sh_rows sh))) = until - 1 - since" ..
  qed
qed


definition demo_history :: string where
  "demo_history = ''[1000000000] LOG VERSION: 2.0'' @ [CHR 0x0A] @ ''[1000000001] HOST ALERT: h;DOWN;HARD;1;x'' @ [CHR 0x0A]"

definition demo_history_cache :: log_cache where
  "demo_history_cache = scanLogfile (Some demo_history) True
     \<lparr> lc_max = 0, lc_num_at_last_check = 0, lc_num_cached = 0, lc_files = [], lc_last_index_update = 0 \<rparr>"

definition demo_history_env :: log_env where
  "demo_history_env = \<lparr> lv_objects = no_objects\<lparr> find_host := \<lambda>h. Some 1 \<rparr>, lv_max_lines = 10, lv_stop = (\<lambda>n. False),
     lv_contents = (\<lambda>k. Some demo_history), lv_stale = (\<lambda>k. CHR 0x00) \<rparr>"

definition demo_monitored :: monitored where
  "demo_monitored = \<lparr> mo_host_name = (\<lambda>h. ''h''), mo_service_description = (\<lambda>s. []), mo_host_notification_period = (\<lambda>h. None),
     mo_service_notification_period = (\<lambda>s. None), mo_host_vars = (\<lambda>h. []), mo_service_vars = (\<lambda>s. []) \<rparr>"

definition demo_statehist :: "host_service_state list statehist" where
  "demo_statehist = \<lparr> sh_timeframe = 0, sh_since = 0, sh_until = 0, sh_periods = (\<lambda>p. None), sh_info = [], sh_abort = False,
     sh_only_update = False, sh_in_initial_states = False, sh_blacklist = [], sh_rows = [] \<rparr>"

lemma demo_history_lines:
  "lines_of demo_history = [''[1000000000] LOG VERSION: 2.0'' @ [CHR 0x0A], ''[1000000001] HOST ALERT: h;DOWN;HARD;1;x'' @ [CHR 0x0A]]"
  by (simp add: lines_of.simps fgets_def MAX_LOGLINE_def demo_history_def Let_def)

lemma demo_history_complete:
  assumes "message_at os (lines_of demo_history) i e" shows "event_complete e"
proof -
  have "le_type e = LOG_VERSION \<or> le_type e = ALERT_HOST"
    using assms unfolding message_at_def demo_history_lines
    by (cases i) (auto simp: log_entry_of_def classify_def strip_newlines_def has_prefix_def handleStatusEntry_def
        handleNotificationEntry_def handlePassiveCheckEntry_def handleExternalCommandEntry_def handleNotes_def handleTextEntry_def
        state_fields_def classified_def Let_def less_Suc_eq split: prod.splits if_splits)
  then show ?thesis by (auto simp: event_complete_def service_event_def)
qed


section \<open>Lesser deviations\<close>

text \<open>
  The first message of the file the scan begins in is never looked at, since every step first moves on. No filter of a
  query knows its column, as nothing calls \<open>setColumn\<close>, so no object is left out early.
\<close>

lemma first_message_skipped:
  "cu_pos cu = 0 \<Longrightarrow> cu_entries cu = a # b # es \<Longrightarrow> \<exists>cu'. getNextLogentry v cu = Some (Some b, cu')"
  by (simp add: getNextLogentry_def forward_file.simps)

lemma object_filters_never_apply: "object_filters disabled (map (Pair None) fs) = []"
  by (simp add: object_filters_def)

section \<open>Objects that vanished\<close>

text \<open>A run over messages that are given.\<close>

definition history_run :: "'s consumer \<Rightarrow> monitored \<Rightarrow> log_entry list \<Rightarrow> 's statehist \<Rightarrow> 's statehist option" where
  "history_run consume mo es sh = foldl (\<lambda>s e. case s of None \<Rightarrow> None | Some sh \<Rightarrow> history_event consume mo [] e sh) (Some sh) es"

definition host_down_at :: "int \<Rightarrow> log_entry" where
  "host_down_at t = (blank_entry 1 [])\<lparr> le_time := t, le_logclass := LOGCLASS_ALERT, le_type := ALERT_HOST, le_host_name := Some ''h'',
     le_state := 1, le_state_type := Some ''HARD'', le_host := Some 7 \<rparr>"

definition core_event_at :: "int \<Rightarrow> log_entry_type \<Rightarrow> log_entry" where
  "core_event_at t ty = (blank_entry 1 [])\<lparr> le_time := t, le_logclass := LOGCLASS_PROGRAM, le_type := ty \<rparr>"

text \<open>
  An object that vanished before the interval gets a row of negative duration: the row ends when the object was last known,
  which is before the interval, but begins where the interval begins, and the row of the unmonitored
  time that follows is longer than the interval. Here a host goes down at 100, the core lists its states without it
  at 200, and the query is about the time from 500 to 2000.
\<close>

theorem vanished_object_has_negative_duration:
  "\<exists>sh. history_run collect_periods demo_monitored [host_down_at 100, core_event_at 200 LOG_INITIAL_STATES, core_event_at 1000 LOG_VERSION]
         (demo_statehist\<lparr> sh_since := 500, sh_until := 2001, sh_timeframe := 1500, sh_only_update := True \<rparr>) = Some sh \<and>
     map (\<lambda>r. (hs_from r, hs_until r, hs_duration r, hs_state r)) (sh_rows (final_reports collect_periods sh)) =
       [(500, 200, -300, 1), (200, 2000, 1800, -1)]"
  by (simp add: history_run_def host_down_at_def core_event_at_def blank_entry_def demo_statehist_def demo_monitored_def history_event_def
      start_output_def end_initial_states_def each_object_def service_event_def host_event_def object_event_def new_object_def relate_object_def
      new_host_service_state_def object_periods_def getCustomVariable_def period_status_def update_object_def updateHostServiceState_def revive_def
      state_event_def host_state_event_def report_change_def log_initial_states_def final_reports_def final_report_def sh_process_def
      collect_periods_def period_row_def spread_duration_def map_update_def wrap32_def Let_def)

end
