(* ===== verification/Counters.thy ===== *)
theory Counters
  imports "HOL-Library.Word" Complex_Main
begin

text \<open>
  The performance counters of the module (\<open>src/global_counters.c\<close>): words of 64 bits that count events, and for each
  a rate per second, which is brought up to date every five seconds at most as an average of the old rate and the rate since
  then. Floating-point numbers are reals, and 0 for the time of the last update means that there was none.
\<close>

abbreviation (input) "COUNTER_NEB_CALLBACKS \<equiv> 0 :: nat"
abbreviation (input) "COUNTER_REQUESTS \<equiv> 1 :: nat"
abbreviation (input) "COUNTER_CONNECTIONS \<equiv> 2 :: nat"
abbreviation (input) "COUNTER_SERVICE_CHECKS \<equiv> 3 :: nat"
abbreviation (input) "COUNTER_HOST_CHECKS \<equiv> 4 :: nat"
abbreviation (input) "COUNTER_LOG_MESSAGES \<equiv> 6 :: nat"
abbreviation (input) "COUNTER_COMMANDS \<equiv> 7 :: nat"

definition NUM_COUNTERS :: nat where
  "NUM_COUNTERS = 10"

record counters =
  ct_values :: "64 word list"
  ct_last :: "64 word list"
  ct_rates :: "real list"
  ct_updated :: int

definition bump_counter :: "nat \<Rightarrow> counters \<Rightarrow> counters" where
  "bump_counter i c = c\<lparr> ct_values := (ct_values c)[i := ct_values c ! i + 1] \<rparr>"

definition average_rate :: "real \<Rightarrow> real \<Rightarrow> real" where
  "average_rate old_rate new_rate = (if old_rate = 0 then new_rate else old_rate * (1 - 0.25) + new_rate * 0.25)"

definition do_statistics :: "int \<Rightarrow> counters \<Rightarrow> counters" where
  "do_statistics now c =
     (if ct_updated c = 0
      then \<lparr> ct_values = replicate NUM_COUNTERS 0, ct_last = replicate NUM_COUNTERS 0, ct_rates = replicate NUM_COUNTERS 0, ct_updated = now \<rparr>
      else let delta_time = now - ct_updated c
           in if 5 \<le> delta_time
              then c\<lparr> ct_updated := now,
                      ct_rates := map (\<lambda>i. average_rate (ct_rates c ! i) (real (unat (ct_values c ! i - ct_last c ! i)) / real_of_int delta_time))
                        [0..<NUM_COUNTERS],
                      ct_last := ct_values c \<rparr>
              else c)"

text \<open>The rate of a counter is an average: it stays between the rates that were measured.\<close>

lemma rates_stay_between:
  "lo \<le> old \<Longrightarrow> old \<le> hi \<Longrightarrow> lo \<le> new \<Longrightarrow> new \<le> hi \<Longrightarrow> lo \<le> average_rate old new \<and> average_rate old new \<le> hi"
  by (simp add: average_rate_def)

end
