(* ===== verification/Client_Threads.thy ===== *)
theory Client_Threads
  imports Store Counters
begin

text \<open>
  The threads of the clients (\<open>reap_client_threads\<close>, \<open>accept_connection\<close> and \<open>shutdown_threads\<close> of \<open>src/module.c\<close>). The array of the
  threads is a list; every new connection first takes the threads that have ended out of it. Whether
  \<open>pthread_tryjoin_np\<close> finds a thread ended may change from one call to the next: \<open>ended k t\<close> is its answer in the call
  number \<open>k\<close> of the loop. A loop that does not end is \<open>None\<close>.
\<close>

partial_function (option) reap_loop :: "(nat \<Rightarrow> 't \<Rightarrow> bool) \<Rightarrow> nat \<Rightarrow> nat \<Rightarrow> 't list \<Rightarrow> 't list option" where
  "reap_loop ended k i ts =
     (if i < length ts
      then if \<not> ended k (ts ! i) then reap_loop ended (k + 1) (i + 1) ts
           else reap_loop ended (k + 1) i (butlast (ts[i := List.last ts]))
      else Some ts)"

definition reap_client_threads :: "(nat \<Rightarrow> 't \<Rightarrow> bool) \<Rightarrow> 't list \<Rightarrow> 't list option" where
  "reap_client_threads ended ts = reap_loop ended 0 0 ts"

record 't module_state =
  ms_threads :: "'t list"
  ms_counters :: counters
  ms_should_terminate :: bool
  ms_socket :: "int option"

text \<open>
  The thread of a new connection is kept in the array, also when it could not be started; memory does not run out. The
  statistics are brought up to date first, at the time \<open>now\<close>.
\<close>

definition accept_connection ::
  "int \<Rightarrow> (nat \<Rightarrow> 't \<Rightarrow> bool) \<Rightarrow> 't \<Rightarrow> ('t, 'b) module_state_scheme \<Rightarrow> ('t, 'b) module_state_scheme option" where
  "accept_connection now ended thr ms =
     (let ms1 = ms\<lparr> ms_counters := do_statistics now (ms_counters ms) \<rparr>
      in map_option (\<lambda>ts. ms1\<lparr> ms_threads := ts @ [thr], ms_counters := bump_counter COUNTER_CONNECTIONS (ms_counters ms1) \<rparr>)
           (reap_client_threads ended (ms_threads ms1)))"

definition close_socket :: "('t, 'b) module_state_scheme \<Rightarrow> ('t, 'b) module_state_scheme" where
  "close_socket ms = ms\<lparr> ms_socket := None \<rparr>"

text \<open>Every thread of the array is joined.\<close>

definition shutdown_threads :: "('t, 'b) module_state_scheme \<Rightarrow> 't list \<times> ('t, 'b) module_state_scheme" where
  "shutdown_threads ms =
     (let ms1 = close_socket (ms\<lparr> ms_should_terminate := True \<rparr>) in (ms_threads ms1, ms1\<lparr> ms_threads := [] \<rparr>))"

section \<open>Reaping ends\<close>

text \<open>The threads of a list that were not found ended when they were asked one after the other from call \<open>k\<close> on.\<close>

fun survivors :: "(nat \<Rightarrow> 't \<Rightarrow> bool) \<Rightarrow> nat \<Rightarrow> 't list \<Rightarrow> 't list" where
  "survivors ended k [] = []"
| "survivors ended k (t # ts) = (if ended k t then survivors ended (k + 1) ts else t # survivors ended (k + 1) ts)"

lemma replace_by_last:
  assumes "i < length ts"
  shows "mset (drop i ts) = add_mset (ts ! i) (mset (drop i (butlast (ts[i := List.last ts]))))"
    and "take i (butlast (ts[i := List.last ts])) = take i ts" and "length (butlast (ts[i := List.last ts])) = length ts - 1"
proof -
  obtain xs x ys where ts: "ts = xs @ x # ys" "length xs = i" using assms by (metis id_take_nth_drop length_take min.absorb2 less_imp_le)
  have "mset (drop i ts) = add_mset (ts ! i) (mset (drop i (butlast (ts[i := List.last ts])))) \<and>
      take i (butlast (ts[i := List.last ts])) = take i ts"
    using ts by (cases ys rule: rev_cases) (auto simp: nth_append butlast_append)
  then show "mset (drop i ts) = add_mset (ts ! i) (mset (drop i (butlast (ts[i := List.last ts]))))"
    and "take i (butlast (ts[i := List.last ts])) = take i ts" by simp_all
qed simp

lemma reap_loop_ends:
  "\<exists>order. mset order = mset (drop i ts) \<and>
     (\<exists>ts'. reap_loop ended k i ts = Some ts' \<and> mset ts' = mset (take i ts) + mset (survivors ended k order))"
proof (induction "length ts - i" arbitrary: k i ts)
  case 0
  then show ?case by (simp add: reap_loop.simps)
next
  case (Suc n)
  then have i: "i < length ts" by simp
  show ?case
  proof (cases "ended k (ts ! i)")
    case False
    have "n = length ts - Suc i" using Suc.hyps(2) by simp
    from Suc.hyps(1) [OF this, of "k + 1"] obtain order ts' where o: "mset order = mset (drop (Suc i) ts)"
      "reap_loop ended (k + 1) (i + 1) ts = Some ts'" "mset ts' = mset (take (Suc i) ts) + mset (survivors ended (k + 1) order)"
      by auto
    have "mset (ts ! i # order) = mset (drop i ts)" using o(1) i by (simp add: Cons_nth_drop_Suc [symmetric])
    moreover have "reap_loop ended k i ts = Some ts'" using i False o(2) by (subst reap_loop.simps) simp
    moreover have "mset ts' = mset (take i ts) + mset (survivors ended k (ts ! i # order))"
      using o(3) i False by (simp add: take_Suc_conv_app_nth)
    ultimately show ?thesis by blast
  next
    case True
    let ?us = "butlast (ts[i := List.last ts])"
    note r = replace_by_last [OF i]
    have "n = length ?us - i" using Suc.hyps(2) r(3) by simp
    from Suc.hyps(1) [OF this, of "k + 1"] obtain order ts' where o: "mset order = mset (drop i ?us)"
      "reap_loop ended (k + 1) i ?us = Some ts'" "mset ts' = mset (take i ?us) + mset (survivors ended (k + 1) order)"
      by auto
    have "mset (ts ! i # order) = mset (drop i ts)" using o(1) r(1) by simp
    moreover have "reap_loop ended k i ts = Some ts'" using i True o(2) by (subst reap_loop.simps) simp
    moreover have "mset ts' = mset (take i ts) + mset (survivors ended k (ts ! i # order))" using o(3) True r(2) by simp
    ultimately show ?thesis by blast
  qed
qed

text \<open>
  C36. Taking out the threads that have ended always ends, although the array shrinks under the loop: there is an order of all threads of the
  array in which each is asked exactly once whether it has ended, one call after the other, and the
  array holds afterwards exactly the threads that had not. So a new connection never loses a thread that is running
  and is itself in the array, and the shutdown joins every thread that was ever accepted and not yet found ended.
\<close>

theorem reaping_ends_and_keeps_the_running:
  "\<exists>order ms'. mset order = mset (ms_threads ms) \<and> accept_connection now ended thr ms = Some ms' \<and>
     mset (ms_threads ms') = mset (survivors ended 0 order) + {#thr#} \<and>
     mset (fst (shutdown_threads ms')) = mset (survivors ended 0 order) + {#thr#}"
proof -
  obtain order ts' where o: "mset order = mset (ms_threads ms)" "reap_loop ended 0 0 (ms_threads ms) = Some ts'"
    "mset ts' = mset (survivors ended 0 order)"
    using reap_loop_ends [of 0 "ms_threads ms" ended 0] by auto
  then have "accept_connection now ended thr ms =
      Some (ms\<lparr> ms_threads := ts' @ [thr], ms_counters := bump_counter COUNTER_CONNECTIONS (do_statistics now (ms_counters ms)) \<rparr>)"
    by (simp add: accept_connection_def reap_client_threads_def)
  moreover have "mset (ts' @ [thr]) = mset (survivors ended 0 order) + {#thr#}" using o(3) by simp
  ultimately show ?thesis using o(1) by (fastforce simp: shutdown_threads_def close_socket_def Let_def)
qed

end
