(* ===== verification/Authorization.thy ===== *)
theory Authorization
  imports Table
begin

text \<open>
  Who may see what (\<open>src/auth.cc\<close>, \<open>isAuthorized\<close> of \<open>src/TableHosts.cc\<close>, \<open>src/TableServices.cc\<close>,
  \<open>src/TableHostgroups.cc\<close>, \<open>src/TableServicegroups.cc\<close>). Whether a contact is responsible for a host or a
  service is what the core says; the two modes of \<open>service_authorization\<close> and \<open>group_authorization\<close> decide what
  follows from it. The members of a host group are a tree of the core, walked in the order of the names until the
  visitor answers that it is done.
\<close>

datatype auth_mode = AUTH_LOOSE | AUTH_STRICT

record core_contacts =
  contact_for_host :: "nat option \<Rightarrow> nat \<Rightarrow> bool"
  escalated_contact_for_host :: "nat option \<Rightarrow> nat \<Rightarrow> bool"
  contact_for_service :: "nat \<Rightarrow> nat \<Rightarrow> bool"
  escalated_contact_for_service :: "nat \<Rightarrow> nat \<Rightarrow> bool"

definition is_authorized_for :: "core_contacts \<Rightarrow> auth_mode \<Rightarrow> auth_user \<Rightarrow> nat option \<Rightarrow> nat option \<Rightarrow> bool" where
  "is_authorized_for cc service_authorization ctc hst svc =
     (case ctc of
        UNKNOWN_AUTH_USER \<Rightarrow> False
      | Contact c \<Rightarrow>
          (case svc of
             Some s \<Rightarrow>
               if service_authorization = AUTH_STRICT
               then contact_for_service cc s c \<or> escalated_contact_for_service cc s c
               else contact_for_host cc hst c \<or> escalated_contact_for_host cc hst c \<or>
                    contact_for_service cc s c \<or> escalated_contact_for_service cc s c
           | None \<Rightarrow> contact_for_host cc hst c \<or> escalated_contact_for_host cc hst c))"

definition host_authorized :: "core_contacts \<Rightarrow> auth_mode \<Rightarrow> auth_user \<Rightarrow> nat \<Rightarrow> bool" where
  "host_authorized cc sa ctc h = is_authorized_for cc sa ctc (Some h) None"

definition service_authorized :: "core_contacts \<Rightarrow> auth_mode \<Rightarrow> (nat \<Rightarrow> nat option) \<Rightarrow> auth_user \<Rightarrow> nat \<Rightarrow> bool" where
  "service_authorized cc sa host_ptr ctc s = is_authorized_for cc sa ctc (host_ptr s) (Some s)"

section \<open>Groups\<close>

text \<open>
  The visitor of the tree of a host group: it leaves its result behind and answers whether to stop.
\<close>

definition hostgroup_visitor :: "(nat \<Rightarrow> bool) \<Rightarrow> auth_mode \<Rightarrow> nat \<Rightarrow> bool \<Rightarrow> bool \<times> bool" where
  "hostgroup_visitor authorized ga h result =
     (let is = authorized h
      in if is \<and> ga = AUTH_LOOSE then (True, True)
         else if \<not> is \<and> ga = AUTH_STRICT then (True, True)
         else (False, False))"

fun g_tree_foreach :: "('a \<Rightarrow> 'b \<Rightarrow> bool \<times> 'b) \<Rightarrow> 'a list \<Rightarrow> 'b \<Rightarrow> 'b" where
  "g_tree_foreach visit [] b = b"
| "g_tree_foreach visit (x # xs) b = (case visit x b of (True, b1) \<Rightarrow> b1 | (False, b1) \<Rightarrow> g_tree_foreach visit xs b1)"

definition hostgroup_authorized :: "core_contacts \<Rightarrow> auth_mode \<Rightarrow> auth_mode \<Rightarrow> auth_user \<Rightarrow> nat list \<Rightarrow> bool" where
  "hostgroup_authorized cc sa ga ctc members =
     (if ctc = UNKNOWN_AUTH_USER then False
      else if members = [] then False
      else let result = g_tree_foreach (hostgroup_visitor (host_authorized cc sa ctc) ga) members False
           in if result then ga = AUTH_LOOSE
              else if ga = AUTH_LOOSE then False
              else True)"

fun servicegroup_members :: "(nat \<Rightarrow> bool) \<Rightarrow> auth_mode \<Rightarrow> nat list \<Rightarrow> bool" where
  "servicegroup_members authorized ga [] = (if ga = AUTH_LOOSE then False else True)"
| "servicegroup_members authorized ga (s # ss) =
     (let is = authorized s
      in if is \<and> ga = AUTH_LOOSE then True
         else if \<not> is \<and> ga = AUTH_STRICT then False
         else servicegroup_members authorized ga ss)"

definition servicegroup_authorized ::
  "core_contacts \<Rightarrow> auth_mode \<Rightarrow> auth_mode \<Rightarrow> (nat \<Rightarrow> nat option) \<Rightarrow> auth_user \<Rightarrow> nat list \<Rightarrow> bool" where
  "servicegroup_authorized cc sa ga host_ptr ctc members =
     (if ctc = UNKNOWN_AUTH_USER then False
      else if members = [] then False
      else servicegroup_members (service_authorized cc sa host_ptr ctc) ga members)"

section \<open>What the modes mean\<close>

lemma hostgroup_foreach:
  "g_tree_foreach (hostgroup_visitor P ga) members r =
     (if members = [] then r else case ga of AUTH_LOOSE \<Rightarrow> list_ex P members | AUTH_STRICT \<Rightarrow> \<not> list_all P members)"
  by (induction members arbitrary: r) (auto simp: hostgroup_visitor_def Let_def split: auth_mode.splits)

lemma servicegroup_members_eq:
  "servicegroup_members P ga ss = (case ga of AUTH_LOOSE \<Rightarrow> list_ex P ss | AUTH_STRICT \<Rightarrow> list_all P ss)"
  by (induction ss) (auto simp: Let_def split: auth_mode.splits)

text \<open>What a user may see of a group, by its members.\<close>

definition sees_group :: "auth_mode \<Rightarrow> (nat \<Rightarrow> bool) \<Rightarrow> nat list \<Rightarrow> bool" where
  "sees_group ga visible members =
     (members \<noteq> [] \<and> (case ga of AUTH_LOOSE \<Rightarrow> list_ex visible members | AUTH_STRICT \<Rightarrow> list_all visible members))"

lemma unknown_user_sees_nothing [simp]: "\<not> is_authorized_for cc sa UNKNOWN_AUTH_USER h s"
  by (simp add: is_authorized_for_def)

text \<open>
  C39. A group is visible, in the loose mode, to whoever may see one of its members and, in the strict mode,
  to whoever may see all of them; an empty group is visible to nobody. Host groups, which are walked by a visitor
  that leaves a flag behind, and service groups, which are walked by a loop, agree in this. A user the core does
  not know sees no group, no host and no service.
\<close>

theorem groups_are_visible_by_their_members:
  "hostgroup_authorized cc sa ga ctc members = sees_group ga (host_authorized cc sa ctc) members \<and>
   servicegroup_authorized cc sa ga host_ptr ctc members = sees_group ga (service_authorized cc sa host_ptr ctc) members \<and>
   \<not> host_authorized cc sa UNKNOWN_AUTH_USER h \<and> \<not> service_authorized cc sa host_ptr UNKNOWN_AUTH_USER s"
proof -
  have none: "host_authorized cc sa UNKNOWN_AUTH_USER = (\<lambda>_. False)" "service_authorized cc sa host_ptr UNKNOWN_AUTH_USER = (\<lambda>_. False)"
    by (simp_all add: host_authorized_def service_authorized_def fun_eq_iff)
  have empty: "\<not> sees_group ga (\<lambda>_. False) members"
    by (cases members) (auto simp: sees_group_def list_ex_iff split: auth_mode.splits)
  have "hostgroup_authorized cc sa ga ctc members = sees_group ga (host_authorized cc sa ctc) members"
    using empty none(1)
    by (auto simp: hostgroup_authorized_def hostgroup_foreach sees_group_def split: auth_mode.splits)
  moreover have "servicegroup_authorized cc sa ga host_ptr ctc members = sees_group ga (service_authorized cc sa host_ptr ctc) members"
    using empty none(2)
    by (auto simp: servicegroup_authorized_def servicegroup_members_eq sees_group_def split: auth_mode.splits)
  ultimately show ?thesis using none by simp
qed

end
