(* ===== verification/Downtimes.thy ===== *)
theory Downtimes
  imports Log_Loading Filters Authorization
begin

text \<open>
  The tables of downtimes and comments (\<open>src/DowntimeOrComment.cc\<close>, \<open>src/TableDownComm.cc\<close>, \<open>src/Store.cc\<close>) and the columns of
  hosts and services that list them (\<open>src/DownCommColumn.cc\<close>). The core tells of every downtime and comment that is
  added, loaded or deleted; the table keeps copies of them by their number, which is a word of 64 bits, except
  where an entry is removed or looked for by a text: there it is one of 32 bits. The mutex of a table makes each operation
  one step.
\<close>

section \<open>Entries\<close>

datatype notice = NEBTYPE_ADD | NEBTYPE_LOAD | NEBTYPE_DELETE | NEBTYPE_OTHER

text \<open>The two messages of the core begin alike, which is what the code relies on when it casts one to the other.\<close>

record neb_common =
  ne_type :: notice
  ne_kind :: int
  ne_host_name :: string
  ne_service_description :: "string option"
  ne_entry_time :: int
  ne_author_name :: string
  ne_comment_data :: string

record neb_downtime = neb_common +
  nd_start_time :: int
  nd_end_time :: int
  nd_fixed :: int
  nd_duration :: "64 word"
  nd_triggered_by :: "64 word"
  nd_id :: "64 word"

record neb_comment = neb_common +
  nc_persistent :: int
  nc_source :: int
  nc_entry_type :: int
  nc_expires :: int
  nc_expire_time :: int
  nc_id :: "64 word"

datatype down_comm_extra =
    Downtime (dx_start_time: int) (dx_end_time: int) (dx_fixed: int) (dx_duration: int) (dx_triggered_by: int)
  | Comment (cx_expire_time: int) (cx_persistent: int) (cx_source: int) (cx_entry_type: int) (cx_expires: int)

record down_comm =
  dc_type :: int
  dc_host :: "nat option"
  dc_service :: "nat option"
  dc_entry_time :: int
  dc_author_name :: string
  dc_comment :: string
  dc_id :: "64 word"
  dc_is_service :: int
  dc_extra :: down_comm_extra

definition new_down_comm :: "objects \<Rightarrow> 'a neb_common_scheme \<Rightarrow> 64 word \<Rightarrow> down_comm_extra \<Rightarrow> down_comm" where
  "new_down_comm os dt n extra =
     \<lparr> dc_type = ne_kind dt, dc_host = find_host os (ne_host_name dt),
       dc_service = (case ne_service_description dt of None \<Rightarrow> None | Some d \<Rightarrow> find_service os (Some (ne_host_name dt)) d),
       dc_entry_time = ne_entry_time dt, dc_author_name = ne_author_name dt, dc_comment = ne_comment_data dt,
       dc_id = n, dc_is_service = (if ne_service_description dt = None then 0 else 1), dc_extra = extra \<rparr>"

definition new_downtime :: "objects \<Rightarrow> neb_downtime \<Rightarrow> down_comm" where
  "new_downtime os dt = new_down_comm os dt (nd_id dt)
     (Downtime (nd_start_time dt) (nd_end_time dt) (nd_fixed dt) (wrap32 (uint (nd_duration dt))) (wrap32 (uint (nd_triggered_by dt))))"

definition new_comment :: "objects \<Rightarrow> neb_comment \<Rightarrow> down_comm" where
  "new_comment os co = new_down_comm os co (nc_id co)
     (Comment (nc_expire_time co) (nc_persistent co) (nc_source co) (nc_entry_type co) (nc_expires co))"

section \<open>The table\<close>

type_synonym down_comm_table = "(64 word \<times> down_comm) list"

definition dct_add :: "down_comm \<Rightarrow> down_comm_table \<Rightarrow> down_comm_table" where
  "dct_add data t = map_insert (dc_id data) data (if map_find (dc_id data) t = None then t else map_erase (dc_id data) t)"

definition dct_remove :: "32 word \<Rightarrow> down_comm_table \<Rightarrow> down_comm_table" where
  "dct_remove n t = (if map_find (ucast n) t = None then t else map_erase (ucast n) t)"

definition addDowntime :: "objects \<Rightarrow> neb_downtime \<Rightarrow> down_comm_table \<Rightarrow> down_comm_table" where
  "addDowntime os data t =
     (if ne_type data = NEBTYPE_ADD \<or> ne_type data = NEBTYPE_LOAD then dct_add (new_downtime os data) t
      else if ne_type data = NEBTYPE_DELETE then dct_remove (ucast (nd_id data)) t
      else t)"

definition addComment :: "objects \<Rightarrow> neb_comment \<Rightarrow> down_comm_table \<Rightarrow> down_comm_table" where
  "addComment os data t =
     (if ne_type data = NEBTYPE_ADD \<or> ne_type data = NEBTYPE_LOAD then dct_add (new_comment os data) t
      else if ne_type data = NEBTYPE_DELETE then dct_remove (ucast (nc_id data)) t
      else t)"

definition findEntry :: "64 word \<Rightarrow> down_comm_table \<Rightarrow> down_comm option" where
  "findEntry n t = map_find n t"

definition down_comm_answer :: "(down_comm \<Rightarrow> 's \<Rightarrow> bool \<times> 's) \<Rightarrow> down_comm_table \<Rightarrow> 's \<Rightarrow> 's" where
  "down_comm_answer consume t st = offer_rows consume (map snd t) st"

definition down_comm_authorized :: "core_contacts \<Rightarrow> auth_mode \<Rightarrow> auth_user \<Rightarrow> down_comm \<Rightarrow> bool" where
  "down_comm_authorized cc sa ctc dtc = is_authorized_for cc sa ctc (dc_host dtc) (dc_service dtc)"

section \<open>The columns of hosts and services\<close>

text \<open>
  An entry belongs to the object at an address when it is for that service, or for no service and for that host.
\<close>

definition entry_of :: "nat \<Rightarrow> down_comm \<Rightarrow> bool" where
  "entry_of data dt = (dc_service dt = Some data \<or> dc_service dt = None \<and> dc_host dt = Some data)"

definition dc_output :: "down_comm_table \<Rightarrow> nat option \<Rightarrow> (64 word \<times> down_comm) list" where
  "dc_output t data = (case data of None \<Rightarrow> [] | Some a \<Rightarrow> filter (\<lambda>(n, dt). entry_of a dt) t)"

definition dc_getNagiosObject :: "string \<Rightarrow> 64 word" where
  "dc_getNagiosObject name = ucast (word_of_int (fst (strtoul name)) :: 32 word)"

definition dc_isNagiosMember :: "down_comm_table \<Rightarrow> nat \<Rightarrow> 64 word \<Rightarrow> bool" where
  "dc_isNagiosMember t data n = (case findEntry n t of None \<Rightarrow> False | Some dt \<Rightarrow> entry_of data dt)"

definition dc_isEmpty :: "down_comm_table \<Rightarrow> nat option \<Rightarrow> bool" where
  "dc_isEmpty t data = (case data of None \<Rightarrow> True | Some a \<Rightarrow> \<not> list_ex (\<lambda>(n, dt). entry_of a dt) t)"

text \<open>As a column of a table whose rows lead to a host or a service by \<open>ptr\<close>.\<close>

definition dc_shown :: "bool \<Rightarrow> 64 word \<times> down_comm \<Rightarrow> printed" where
  "dc_shown with_info nd =
     (let (n, dt) = nd
      in if with_info
         then Shown_sublist ([Shown_ulong n, Shown_text (dc_author_name dt), Shown_text (dc_comment dt), Shown_time (dc_entry_time dt)] @
                (case dc_extra dt of
                   Downtime start_time end_time fixed duration triggered_by \<Rightarrow>
                     [Shown_time start_time, Shown_time end_time, Shown_int fixed, Shown_int64 duration, Shown_int triggered_by]
                 | Comment expire_time persistent source entry_type expires \<Rightarrow>
                     [Shown_int entry_type, Shown_int expires, Shown_time expire_time]))
         else Shown_ulong n)"

definition down_comm_column :: "string \<Rightarrow> bool \<Rightarrow> down_comm_table \<Rightarrow> ('r \<Rightarrow> nat option) \<Rightarrow> 'r column" where
  "down_comm_column name with_info t ptr =
     StructColumn name COLTYPE_LIST
       (Some (\<lambda>opid text r. case ptr r of None \<Rightarrow> False
          | Some a \<Rightarrow> list_test opid text (dc_isNagiosMember t a (dc_getNagiosObject text)) (dc_isEmpty t (Some a))))
       (\<lambda>r. Shown_list (map (dc_shown with_info) (dc_output t (ptr r))))"

section \<open>A table that follows a sequence of changes\<close>

datatype ('k, 'v) change = Put 'v | Drop 'k | Keep

definition concerns :: "('v \<Rightarrow> 'k) \<Rightarrow> 'k \<Rightarrow> ('k, 'v) change \<Rightarrow> bool" where
  "concerns key k c = (case c of Put v \<Rightarrow> key v = k | Drop j \<Rightarrow> j = k | Keep \<Rightarrow> False)"

text \<open>What the last change that concerns a key leaves behind.\<close>

definition latest :: "('v \<Rightarrow> 'k) \<Rightarrow> 'k \<Rightarrow> ('k, 'v) change list \<Rightarrow> 'v option \<Rightarrow> 'v option" where
  "latest key k cs old =
     (if filter (concerns key k) cs = [] then old
      else case List.last (filter (concerns key k) cs) of Put v \<Rightarrow> Some v | _ \<Rightarrow> None)"

lemma latest_simps [simp]:
  "latest key k [] old = old"
  "latest key k (cs @ [Put v]) old = (if key v = k then Some v else latest key k cs old)"
  "latest key k (cs @ [Drop j]) old = (if j = k then None else latest key k cs old)"
  "latest key k (cs @ [Keep]) old = latest key k cs old"
  by (simp_all add: latest_def concerns_def)

locale registry =
  fixes entry :: "'k \<Rightarrow> 't \<Rightarrow> 'v option" and put :: "'v \<Rightarrow> 't \<Rightarrow> 't" and drop_key :: "'k \<Rightarrow> 't \<Rightarrow> 't"
    and key :: "'v \<Rightarrow> 'k" and ok :: "'t \<Rightarrow> bool" and erasable :: "'k \<Rightarrow> bool"
  assumes entry_put: "ok t \<Longrightarrow> entry k (put v t) = (if key v = k then Some v else entry k t)"
    and ok_put: "ok t \<Longrightarrow> ok (put v t)"
    and entry_drop: "ok t \<Longrightarrow> erasable j \<Longrightarrow> entry k (drop_key j t) = (if j = k then None else entry k t)"
    and ok_drop: "ok t \<Longrightarrow> ok (drop_key j t)"
begin

definition apply_change :: "('k, 'v) change \<Rightarrow> 't \<Rightarrow> 't" where
  "apply_change c t = (case c of Put v \<Rightarrow> put v t | Drop j \<Rightarrow> drop_key j t | Keep \<Rightarrow> t)"

lemma ok_changes: "ok t \<Longrightarrow> ok (fold apply_change cs t)"
  by (induction cs arbitrary: t) (auto simp: apply_change_def ok_put ok_drop split: change.splits)

lemma entry_changes:
  assumes "ok t" and "list_all (\<lambda>c. case c of Drop j \<Rightarrow> erasable j | _ \<Rightarrow> True) cs"
  shows "entry k (fold apply_change cs t) = latest key k cs (entry k t)"
  using assms(2)
proof (induction cs rule: rev_induct)
  case (snoc c cs)
  define u where "u = fold apply_change cs t"
  have "fold apply_change (cs @ [c]) t = apply_change c u" by (simp add: u_def)
  moreover have "entry k u = latest key k cs (entry k t)" and "ok u"
    using snoc ok_changes [OF assms(1), of cs] by (simp_all add: u_def)
  moreover have "entry k (apply_change c u) = latest key k (cs @ [c]) (entry k t)"
    using snoc.prems calculation(2,3) by (cases c) (simp_all add: apply_change_def entry_put entry_drop)
  ultimately show ?case by (simp only:)
qed simp

end

text \<open>A table is well formed when it is ordered by number and every entry stands under its own number.\<close>

definition dct_ok :: "down_comm_table \<Rightarrow> bool" where
  "dct_ok t = (sorted_wrt (<) (map fst t) \<and> list_all (\<lambda>(n, dt). dc_id dt = n) t)"

definition erasable :: "64 word \<Rightarrow> bool" where
  "erasable n = (n < 2 ^ 32)"

lemma erasable_ucast: "erasable n \<Longrightarrow> ucast (ucast n :: 32 word) = n"
  unfolding erasable_def by transfer (simp add: take_bit_int_eq_self_iff take_bit_eq_mod)

lemma dct_ok_add: "dct_ok t \<Longrightarrow> dct_ok (dct_add v t)"
  using map_insert_sorted [of "map_erase (dc_id v) t" "dc_id v" v] map_insert_sorted [of t "dc_id v" v]
  by (auto simp: dct_ok_def dct_add_def map_erase_sorted map_find_erase set_map_insert set_map_erase list_all_iff)

lemma dct_ok_remove: "dct_ok t \<Longrightarrow> dct_ok (dct_remove n t)"
  by (auto simp: dct_ok_def dct_remove_def map_erase_sorted set_map_erase list_all_iff)

interpretation dct: registry findEntry dct_add "\<lambda>n. dct_remove (ucast n)" dc_id dct_ok erasable
proof
  fix t k v
  show "dct_ok t \<Longrightarrow> findEntry k (dct_add v t) = (if dc_id v = k then Some v else findEntry k t)"
    by (auto simp: findEntry_def dct_add_def map_find_insert map_find_erase)
next
  fix t j k
  show "dct_ok t \<Longrightarrow> erasable j \<Longrightarrow> findEntry k (dct_remove (ucast j) t) = (if j = k then None else findEntry k t)"
    by (auto simp: findEntry_def dct_remove_def map_find_erase erasable_ucast)
qed (simp_all add: dct_ok_add dct_ok_remove)

text \<open>What a message of the core changes.\<close>

definition downtime_change :: "objects \<Rightarrow> neb_downtime \<Rightarrow> (64 word, down_comm) change" where
  "downtime_change os d =
     (case ne_type d of NEBTYPE_ADD \<Rightarrow> Put (new_downtime os d) | NEBTYPE_LOAD \<Rightarrow> Put (new_downtime os d)
      | NEBTYPE_DELETE \<Rightarrow> Drop (nd_id d) | NEBTYPE_OTHER \<Rightarrow> Keep)"

definition comment_change :: "objects \<Rightarrow> neb_comment \<Rightarrow> (64 word, down_comm) change" where
  "comment_change os d =
     (case ne_type d of NEBTYPE_ADD \<Rightarrow> Put (new_comment os d) | NEBTYPE_LOAD \<Rightarrow> Put (new_comment os d)
      | NEBTYPE_DELETE \<Rightarrow> Drop (nc_id d) | NEBTYPE_OTHER \<Rightarrow> Keep)"

lemma addDowntime_change: "addDowntime os d = dct.apply_change (downtime_change os d)"
  by (simp add: fun_eq_iff addDowntime_def downtime_change_def dct.apply_change_def split: notice.splits)

lemma addComment_change: "addComment os d = dct.apply_change (comment_change os d)"
  by (simp add: fun_eq_iff addComment_def comment_change_def dct.apply_change_def split: notice.splits)

lemma sorted_ids: "dct_ok t \<Longrightarrow> map dc_id (map snd t) = map fst t"
  by (auto simp: dct_ok_def list_all_iff)

lemma sorted_wrt_filter_map: "sorted_wrt R (map f xs) \<Longrightarrow> sorted_wrt R (map f (filter P xs))"
  by (induction xs) auto

lemma down_comm_rows:
  assumes "dct_ok t"
  shows "sorted_wrt (<) (map dc_id (down_comm_answer (keep_if P) t []))"
    and "set (down_comm_answer (keep_if P) t []) = {d. findEntry (dc_id d) t = Some d \<and> P d}"
proof -
  have "sorted_wrt (<) (map dc_id (map snd t))" unfolding sorted_ids [OF assms] using assms by (simp add: dct_ok_def)
  from sorted_wrt_filter_map [OF this] show "sorted_wrt (<) (map dc_id (down_comm_answer (keep_if P) t []))"
    by (simp add: down_comm_answer_def)
  have "d \<in> snd ` set t \<longleftrightarrow> findEntry (dc_id d) t = Some d" for d
    using assms map_find_Some [OF sorted_distinct, of t "dc_id d" d]
    by (force simp: dct_ok_def findEntry_def list_all_iff)
  then show "set (down_comm_answer (keep_if P) t []) = {d. findEntry (dc_id d) t = Some d \<and> P d}"
    by (auto simp: down_comm_answer_def)
qed

section \<open>The table follows the core\<close>

text \<open>
  C32. After any sequence of messages of the core the table of downtimes holds, for every number, what the last message
  about that number left: the downtime as it was added or loaded last, or nothing when it was deleted since.
  A query that reads the table gets exactly those downtimes it accepts, in the order of their numbers. Numbers
  of deleted downtimes must fit into 32 bits.
\<close>

theorem downtimes_follow_the_core:
  assumes "dct_ok t" and "list_all (\<lambda>d. ne_type d = NEBTYPE_DELETE \<longrightarrow> erasable (nd_id d)) ds"
  shows "findEntry n (fold (addDowntime os) ds t) = latest dc_id n (map (downtime_change os) ds) (findEntry n t) \<and>
     sorted_wrt (<) (map dc_id (down_comm_answer (keep_if P) (fold (addDowntime os) ds t) [])) \<and>
     set (down_comm_answer (keep_if P) (fold (addDowntime os) ds t) []) =
       {d. latest dc_id (dc_id d) (map (downtime_change os) ds) (findEntry (dc_id d) t) = Some d \<and> P d}"
proof -
  let ?cs = "map (downtime_change os) ds"
  have f: "fold (addDowntime os) ds t = fold dct.apply_change ?cs t" by (simp add: addDowntime_change [abs_def] fold_map comp_def)
  have "list_all (\<lambda>c. case c of Drop j \<Rightarrow> erasable j | _ \<Rightarrow> True) ?cs"
    using assms(2) by (auto simp: list_all_iff downtime_change_def split: notice.splits)
  then have e: "findEntry k (fold dct.apply_change ?cs t) = latest dc_id k ?cs (findEntry k t)" for k
    by (rule dct.entry_changes [OF assms(1)])
  show ?thesis unfolding f using down_comm_rows [OF dct.ok_changes [OF assms(1)], of P ?cs] e by simp
qed

definition demo_downtime :: "notice \<Rightarrow> nat \<Rightarrow> neb_downtime" where
  "demo_downtime ty n =
     \<lparr> ne_type = ty, ne_kind = 2, ne_host_name = ''h'', ne_service_description = None, ne_entry_time = 100, ne_author_name = ''me'',
       ne_comment_data = ''why'', nd_start_time = 110, nd_end_time = 120, nd_fixed = 1, nd_duration = 10, nd_triggered_by = 0,
       nd_id = word_of_nat n \<rparr>"

definition demo_objects :: objects where
  "demo_objects = \<lparr> find_host = (\<lambda>h. if h = ''h'' then Some 7 else None), find_service = (\<lambda>_ _. None),
     find_contact = (\<lambda>_. None), find_command = (\<lambda>_. None) \<rparr>"

theorem downtimes_follow_the_core_witness:
  "set (down_comm_answer (keep_if (entry_of 7))
       (fold (addDowntime demo_objects) [demo_downtime NEBTYPE_ADD 5, demo_downtime NEBTYPE_LOAD 6, demo_downtime NEBTYPE_DELETE 5] []) []) =
     {new_downtime demo_objects (demo_downtime NEBTYPE_LOAD 6)}"
proof -
  let ?ds = "[demo_downtime NEBTYPE_ADD 5, demo_downtime NEBTYPE_LOAD 6, demo_downtime NEBTYPE_DELETE 5]"
  let ?n = "new_downtime demo_objects (demo_downtime NEBTYPE_LOAD 6)"
  have "list_all (\<lambda>d. ne_type d = NEBTYPE_DELETE \<longrightarrow> erasable (nd_id d)) ?ds"
    by (simp add: demo_downtime_def erasable_def)
  from downtimes_follow_the_core [OF _ this, of "[]" 0 demo_objects "entry_of 7"]
  have "set (down_comm_answer (keep_if (entry_of 7)) (fold (addDowntime demo_objects) ?ds []) []) =
     {d. latest dc_id (dc_id d) (map (downtime_change demo_objects) ?ds) None = Some d \<and> entry_of 7 d}"
    by (simp add: dct_ok_def findEntry_def)
  also have "\<dots> = {?n}"
    by (auto simp: latest_def concerns_def downtime_change_def demo_downtime_def new_downtime_def new_down_comm_def entry_of_def demo_objects_def)
  finally show ?thesis .
qed

lemma comments_follow_the_core:
  assumes "dct_ok t" and "list_all (\<lambda>d. ne_type d = NEBTYPE_DELETE \<longrightarrow> erasable (nc_id d)) cs"
  shows "findEntry n (fold (addComment os) cs t) = latest dc_id n (map (comment_change os) cs) (findEntry n t)"
proof -
  have "list_all (\<lambda>c. case c of Drop j \<Rightarrow> erasable j | _ \<Rightarrow> True) (map (comment_change os) cs)"
    using assms(2) by (auto simp: list_all_iff comment_change_def split: notice.splits)
  from dct.entry_changes [OF assms(1) this] show ?thesis by (simp add: addComment_change [abs_def] fold_map comp_def)
qed

text \<open>A deletion cuts the number to 32 bits: it removes the entry of the small number, and none with a large number is ever removed.\<close>

lemma deletion_of_large_numbers:
  assumes "ne_type d = NEBTYPE_DELETE"
  shows "findEntry n (addDowntime os d t) = (if n = ucast (ucast (nd_id d) :: 32 word) then None else findEntry n t)"
  using assms by (simp add: addDowntime_def findEntry_def dct_remove_def map_find_erase)

section \<open>The columns that list downtimes and comments\<close>

lemma small_word: "i < 2 ^ 32 \<Longrightarrow> unat (ucast (word_of_int (int i) :: 32 word) :: 64 word) = i"
  by (simp add: unsigned_ucast_eq unsigned_of_nat take_bit_nat_eq_self)

lemma dct_member:
  assumes "dct_ok t"
  shows "dc_isNagiosMember t a n \<longleftrightarrow> n \<in> fst ` set (dc_output t (Some a))"
proof -
  have "findEntry n t = Some dt \<longleftrightarrow> (n, dt) \<in> set t" for dt
    using assms map_find_Some [OF sorted_distinct, of t n dt] by (simp add: dct_ok_def findEntry_def)
  then show ?thesis
    by (cases "findEntry n t") (force simp: dc_isNagiosMember_def dc_output_def)+
qed

text \<open>
  C33. The columns of a host or service that list its downtimes or comments agree with each other and with their table: the
  column is empty exactly when it prints nothing, it holds a number exactly when the entry of that
  number is for the object, and the filter with the operator for membership, written with the number as
  text, selects exactly the objects of that entry; the test for the empty list rejects exactly those that
  print an entry. Numbers must fit into 32 bits, as the filter reads no more.
\<close>

theorem downtime_columns_agree:
  assumes "dct_ok t" and "i < 2 ^ 32"
  shows "dc_isEmpty t (ptr r) = (dc_output t (ptr r) = []) \<and>
     (dc_isNagiosMember t a (word_of_nat i) \<longleftrightarrow> word_of_nat i \<in> fst ` set (dc_output t (Some a))) \<and>
     (accepts (fst (create_filter env (down_comm_column name info t ptr) (- OP_LESS) (show_nat i))) r \<longleftrightarrow>
       (\<exists>a dt. ptr r = Some a \<and> findEntry (word_of_nat i) t = Some dt \<and> entry_of a dt)) \<and>
     (accepts (fst (create_filter env (down_comm_column name info t ptr) OP_EQUAL [])) r \<longleftrightarrow>
       ptr r \<noteq> None \<and> dc_output t (ptr r) = [])"
proof -
  have e: "dc_isEmpty t (ptr r) = (dc_output t (ptr r) = [])"
    by (auto simp: dc_isEmpty_def dc_output_def list_ex_iff filter_empty_conv split: option.splits)
  have i: "dc_getNagiosObject (show_nat i) = word_of_nat i"
  proof -
    have "unat (dc_getNagiosObject (show_nat i)) = i" "unat (word_of_nat i :: 64 word) = i"
      using assms(2) by (simp_all add: dc_getNagiosObject_def strtoul_show_nat small_word unsigned_of_nat take_bit_nat_eq_self)
    then show ?thesis by (simp add: word_unat_eq_iff)
  qed
  have "accepts (fst (create_filter env (down_comm_column name info t ptr) (- OP_LESS) (show_nat i))) r \<longleftrightarrow>
       (\<exists>a dt. ptr r = Some a \<and> findEntry (word_of_nat i) t = Some dt \<and> entry_of a dt)"
    by (auto simp: down_comm_column_def list_test_def i dc_isNagiosMember_def split: option.splits)
  moreover have "accepts (fst (create_filter env (down_comm_column name info t ptr) OP_EQUAL [])) r \<longleftrightarrow>
       ptr r \<noteq> None \<and> dc_output t (ptr r) = []"
    using e by (cases "ptr r") (simp_all add: down_comm_column_def list_test_def)
  ultimately show ?thesis using e dct_member [OF assms(1)] by simp
qed

theorem downtime_columns_agree_witness:
  "\<forall>env. accepts (fst (create_filter env (down_comm_column ''downtimes'' True [(5, new_downtime demo_objects (demo_downtime NEBTYPE_ADD 5))] Some)
     (- OP_LESS) (show_nat 5))) 7"
  using downtime_columns_agree [of "[(5, new_downtime demo_objects (demo_downtime NEBTYPE_ADD 5))]" 5 Some "7 :: nat" 7 _ "''downtimes''" True]
  by (simp add: dct_ok_def findEntry_def entry_of_def new_downtime_def new_down_comm_def demo_downtime_def demo_objects_def)

end
