(* ===== verification/Timeperiods.thy ===== *)
theory Timeperiods
  imports State_History Std_Map
begin

text \<open>
  The cache of the time periods (\<open>src/TimeperiodsCache.cc\<close>). Once a minute it asks the core for every time period whether it
  is now, and writes a message to the log of the core when that has changed; the columns of time periods read the cache, and
  the table of state histories reads the messages. Whether a time period holds at a time is what the core says
  (\<open>inside\<close>); times are not negative. The lock makes each operation one step.
\<close>

section \<open>The cache\<close>

record tp_cache =
  tc_minutes :: int
  tc_periods :: "(nat \<times> bool) list"

definition new_tp_cache :: tp_cache where
  "new_tp_cache = \<lparr> tc_minutes = 0, tc_periods = [] \<rparr>"

text \<open>\<open>snprintf\<close> into 256 bytes.\<close>

definition logTransition :: "string \<Rightarrow> int \<Rightarrow> int \<Rightarrow> string" where
  "logTransition name from to = take 255 (''TIMEPERIOD TRANSITION: '' @ name @ '';'' @ show_int from @ '';'' @ show_int to)"

abbreviation flag :: "bool \<Rightarrow> int" where
  "flag b \<equiv> (if b then 1 else 0)"

fun update_periods :: "(nat \<Rightarrow> bool) \<Rightarrow> (nat \<times> string) list \<Rightarrow> (nat \<times> bool) list \<Rightarrow> (nat \<times> bool) list \<times> string list" where
  "update_periods inside [] m = (m, [])"
| "update_periods inside ((tp, name) # ps) m =
     (let is_in = inside tp;
          (m1, ls) = (case map_find tp m of
              None \<Rightarrow> (map_insert tp is_in m, [logTransition name (- 1) (flag is_in)])
            | Some was \<Rightarrow> if was \<noteq> is_in then (map_update tp (\<lambda>_. is_in) m, [logTransition name (flag was) (flag is_in)]) else (m, []));
          (m2, ls2) = update_periods inside ps m1
      in (m2, ls @ ls2))"

definition tp_update :: "(int \<Rightarrow> nat \<Rightarrow> bool) \<Rightarrow> (nat \<times> string) list \<Rightarrow> int \<Rightarrow> tp_cache \<Rightarrow> tp_cache \<times> string list" where
  "tp_update inside ps now c =
     (let minutes = wrap32 (now div 60)
      in if minutes = tc_minutes c then (c, [])
         else let (m, ls) = update_periods (inside now) ps (tc_periods c)
              in (c\<lparr> tc_periods := m, tc_minutes := (if 0 < length ps then minutes else tc_minutes c) \<rparr>, ls))"

definition inTimeperiod :: "nat \<Rightarrow> tp_cache \<Rightarrow> bool" where
  "inTimeperiod tp c = (case map_find tp (tc_periods c) of Some is_in \<Rightarrow> is_in | None \<Rightarrow> False)"

section \<open>The messages in the log\<close>

text \<open>The core writes the time before a message and ends its line.\<close>

definition core_line :: "int \<Rightarrow> string \<Rightarrow> string" where
  "core_line t text = ''['' @ show_int t @ ''] '' @ text @ [CHR 0x0A]"

text \<open>The updates of the cache at some times, and the lines they leave in the log.\<close>

fun period_log :: "(int \<Rightarrow> nat \<Rightarrow> bool) \<Rightarrow> (nat \<times> string) list \<Rightarrow> int list \<Rightarrow> tp_cache \<Rightarrow> tp_cache \<times> string list" where
  "period_log inside ps [] c = (c, [])"
| "period_log inside ps (now # ts) c =
     (let (c1, ls) = tp_update inside ps now c; (c2, ls2) = period_log inside ps ts c1 in (c2, map (core_line now) ls @ ls2))"

text \<open>Reading lines the way a query of state histories does.\<close>

fun read_history :: "objects \<Rightarrow> 's consumer \<Rightarrow> monitored \<Rightarrow> string list \<Rightarrow> 's statehist \<Rightarrow> 's statehist option" where
  "read_history os consume mo [] sh = Some sh"
| "read_history os consume mo (l # ls) sh =
     (case log_entry_of os 1 l of
        None \<Rightarrow> None
      | Some e \<Rightarrow> (case history_event consume mo [] e sh of None \<Rightarrow> None | Some sh1 \<Rightarrow> read_history os consume mo ls sh1))"

lemma read_history_append:
  "read_history os consume mo (ls @ ls2) sh =
     (case read_history os consume mo ls sh of None \<Rightarrow> None | Some sh1 \<Rightarrow> read_history os consume mo ls2 sh1)"
  by (induction ls arbitrary: sh) (auto split: option.splits)

text \<open>
  A name a message can carry: a C string, not too long, without the separator and without a space at its
  beginning.
\<close>

definition period_name :: "string \<Rightarrow> bool" where
  "period_name name = (name \<noteq> [] \<and> hd name \<noteq> CHR '' '' \<and> no_semicolon name \<and> c_text name \<and> length name \<le> 226)"

lemma tokens_of:
  assumes "no_semicolon a" "no_semicolon b" "no_semicolon c" "a \<noteq> []" "b \<noteq> []" "c \<noteq> []"
  shows "strtok_all (a @ CHR '';'' # b @ CHR '';'' # c) = [a, b, c]"
proof -
  have "Strutil.tokens (CHR '';'') [] = []" by (rule tok.loop_None) (simp add: next_token_def)
  then show ?thesis
    using assms by (simp add: strtok_all_def tok.loop_Some [OF field_of] tok.loop_Some [OF field_last])
qed

lemma show_int_nonempty: "show_int i \<noteq> []"
  by (simp add: show_int_def)

lemma show_flags: "show_int 0 = ''0''" "show_int 1 = ''1''" "show_int (- 1) = ''-1''"
proof -
  have "show_nat 0 = ''0''" "show_nat 1 = ''1''" by code_simp+
  then show "show_int 0 = ''0''" "show_int 1 = ''1''" "show_int (- 1) = ''-1''" by (simp_all add: show_int_def)
qed

lemma show_int_no_colon: "CHR '':'' \<notin> set (show_int i)"
proof -
  have "CHR '':'' \<notin> set (show_nat n)" for n
  proof
    assume "CHR '':'' \<in> set (show_nat n)"
    then have "c_isdigit (CHR '':'')" using show_nat_digits [of n] by (simp add: list_all_iff)
    then show False by (simp add: c_isdigit_def)
  qed
  then show ?thesis by (simp add: show_int_def)
qed

lemma transition_read_back:
  assumes "period_name name" and "from \<in> {-1, 0, 1}" and "to \<in> {0, 1}" and "length (show_int t) = 10" and "in_int32 t"
  shows "\<exists>e. log_entry_of os n (core_line t (logTransition name from to)) = Some e \<and> le_type e = TIMEPERIOD_TRANSITION \<and>
     strtok_all (le_options e) = [name, show_int from, show_int to]"
proof -
  let ?o = "name @ CHR '';'' # show_int from @ CHR '';'' # show_int to"
  let ?t = "''TIMEPERIOD TRANSITION: '' @ ?o"
  have t: "logTransition name from to = ?t"
    using assms(1-3) by (auto simp: logTransition_def period_name_def show_flags)
  have nl: "last ?t \<noteq> CHR 0x0A"
    using assms(3) by (auto simp: show_flags)
  let ?m = "''['' @ show_int t @ ''] '' @ ?t"
  have m: "strip_newlines (core_line t (logTransition name from to)) = ?m"
    unfolding t using strip_newlines_end [of ?m] nl assms(1) by (simp add: core_line_def period_name_def)
  have parts: "\<not> length ?m < 13" "?m ! 0 = CHR ''[''" "?m ! 11 = CHR '']''" "take 10 (drop 1 ?m) = show_int t" "drop 13 ?m = ?t"
    using assms(4) by (simp_all add: nth_append numeral_eq_Suc)
  have "dropWhile (\<lambda>c. c \<noteq> CHR '':'') (show_int t @ x) = dropWhile (\<lambda>c. c \<noteq> CHR '':'') x" for x
    using show_int_no_colon [of t] by (auto intro: dropWhile_append2)
  then have o: "options_of ?m = ?o"
    using assms(1) by (cases name) (simp_all add: options_of_def period_name_def)
  have "handleStatusEntry ?t e = Some (e\<lparr> le_logclass := LOGCLASS_STATE, le_type := TIMEPERIOD_TRANSITION \<rparr>)" for e
    unfolding handleStatusEntry_def Let_def case_prod_unfold by (simp add: has_prefix_def)
  then have "log_entry_of os n (core_line t (logTransition name from to)) =
      Some (updateReferences os ((blank_entry n ?m)\<lparr> le_time := atoi (show_int t), le_text := Some ?t,
        le_logclass := LOGCLASS_STATE, le_type := TIMEPERIOD_TRANSITION \<rparr>))"
    unfolding log_entry_of_def m Let_def parts(4,5) using parts(1-3) by (simp add: classify_def)
  then show ?thesis
    using assms(1) tokens_of show_int_no_semicolon o
    by (simp add: updateReferences_def blank_entry_def period_name_def show_int_nonempty)
qed

section \<open>Cache, log and state histories agree\<close>

lemma timeperiod_transition_applied:
  assumes "sh_info sh = []" and "le_type e = TIMEPERIOD_TRANSITION" and "strtok_all (le_options e) = [name, from, status]"
  shows "\<exists>sh1. history_event consume mo [] e sh = Some sh1 \<and> sh_info sh1 = [] \<and> sh_periods sh1 = (sh_periods sh)(name \<mapsto> atoi status)"
proof -
  let ?sh = "end_initial_states e (start_output e sh)"
  have "sh_info ?sh = []" "sh_periods ?sh = sh_periods sh"
    using assms(1) by (simp_all add: end_initial_states_def start_output_def each_object_def)
  then show ?thesis
    using assms(2,3) by (simp add: history_event_def service_event_def host_event_def timeperiod_transition_def Let_def)
qed

text \<open>What the state histories know of the periods, and what the cache does.\<close>

definition agree :: "(nat \<times> string) list \<Rightarrow> (nat \<times> bool) list \<Rightarrow> 's statehist \<Rightarrow> bool" where
  "agree ps m sh = (sh_info sh = [] \<and> (\<forall>(tp, name) \<in> set ps. sh_periods sh name = map_option flag (map_find tp m)))"

lemma one_period:
  assumes "agree ps m sh" and "(tp, name) \<in> set ps" and "inj_on fst (set ps)" and "inj_on snd (set ps)"
    and "period_name name" and "length (show_int t) = 10" and "in_int32 t"
    and "(case map_find tp m of None \<Rightarrow> (map_insert tp is_in m, [logTransition name (- 1) (flag is_in)])
          | Some was \<Rightarrow> if was \<noteq> is_in then (map_update tp (\<lambda>_. is_in) m, [logTransition name (flag was) (flag is_in)]) else (m, [])) = (m1, ls)"
  shows "(\<exists>sh1. read_history os consume mo (map (core_line t) ls) sh = Some sh1 \<and> agree ps m1 sh1) \<and>
     (\<forall>j. map_find j m1 = (if j = tp then Some is_in else map_find j m))"
proof (cases "map_find tp m = Some is_in")
  case True
  then show ?thesis using assms(1,8) by auto
next
  case False
  define prior where "prior = (case map_find tp m of None \<Rightarrow> - 1 | Some was \<Rightarrow> flag was)"
  have ls: "ls = [logTransition name prior (flag is_in)]" and m1: "map_find j m1 = (if j = tp then Some is_in else map_find j m)" for j
    using assms(8) False by (auto simp: prior_def map_find_insert map_find_update option.map_id split: option.splits if_splits)
  have "prior \<in> {-1, 0, 1}" by (simp add: prior_def split: option.splits)
  moreover have "flag is_in \<in> {0, 1}" by simp
  ultimately obtain e where e: "log_entry_of os 1 (core_line t (logTransition name prior (flag is_in))) = Some e" "le_type e = TIMEPERIOD_TRANSITION"
    "strtok_all (le_options e) = [name, show_int prior, show_int (flag is_in)]"
    using transition_read_back [OF assms(5) _ _ assms(6,7), of prior "flag is_in" os 1] by blast
  have a: "atoi (show_int (flag is_in)) = flag is_in" by (simp add: atoi_show_int in_int32_def)
  obtain sh1 where sh1: "history_event consume mo [] e sh = Some sh1" "sh_info sh1 = []"
    "sh_periods sh1 = (sh_periods sh)(name \<mapsto> flag is_in)"
    using timeperiod_transition_applied [OF _ e(2,3), of sh consume mo] assms(1) unfolding a agree_def by blast
  have "sh_periods sh1 k = map_option flag (map_find j m1)" if "(j, k) \<in> set ps" for j k
  proof -
    have "j = tp \<longleftrightarrow> k = name" using that assms(2-4) by (force simp: inj_on_def)
    with assms(1) that show ?thesis by (auto simp: agree_def sh1 m1)
  qed
  then have "agree ps m1 sh1" using sh1(2) by (auto simp: agree_def)
  then show ?thesis using ls m1 e(1) sh1(1) by simp
qed

lemma update_periods_agree:
  assumes "agree ps m sh" and "set qs \<subseteq> set ps" and "inj_on fst (set ps)" and "inj_on snd (set ps)"
    and "list_all (\<lambda>(tp, name). period_name name) ps" and "length (show_int t) = 10" and "in_int32 t"
    and "update_periods inside qs m = (m', ls)"
  shows "(\<exists>sh'. read_history os consume mo (map (core_line t) ls) sh = Some sh' \<and> agree ps m' sh') \<and>
     (\<forall>j. map_find j m' = (if j \<in> fst ` set qs then Some (inside j) else map_find j m))"
  using assms(1,2,8)
proof (induction qs arbitrary: m sh ls)
  case (Cons q qs)
  obtain tp name where q: "q = (tp, name)" by (cases q)
  define one where "one = (case map_find tp m of None \<Rightarrow> (map_insert tp (inside tp) m, [logTransition name (- 1) (flag (inside tp))])
          | Some was \<Rightarrow> if was \<noteq> inside tp then (map_update tp (\<lambda>_. inside tp) m, [logTransition name (flag was) (flag (inside tp))]) else (m, []))"
  obtain m1 ls1 where one: "one = (m1, ls1)" by (cases one)
  obtain m2 ls2 where two: "update_periods inside qs m1 = (m2, ls2)" by (cases "update_periods inside qs m1")
  have "update_periods inside (q # qs) m = (m2, ls1 @ ls2)"
    unfolding q update_periods.simps Let_def one_def [symmetric] one prod.case two ..
  with Cons.prems(3) two have rest: "update_periods inside qs m1 = (m', ls2)" and ls: "ls = ls1 @ ls2" by simp_all
  have "(tp, name) \<in> set ps" "period_name name" using Cons.prems(2) assms(5) by (auto simp: q list_all_iff)
  from one_period [OF Cons.prems(1) this(1) assms(3,4) this(2) assms(6,7) one [unfolded one_def], of os consume mo]
  obtain sh1 where sh1: "read_history os consume mo (map (core_line t) ls1) sh = Some sh1" "agree ps m1 sh1"
    and m1: "map_find j m1 = (if j = tp then Some (inside tp) else map_find j m)" for j by blast
  from Cons.IH [OF sh1(2) _ rest] Cons.prems(2) m1 sh1(1) show ?case
    by (auto simp: q ls read_history_append)
qed (auto simp: agree_def)

lemma minutes_small: "in_int32 t \<Longrightarrow> 0 \<le> t \<Longrightarrow> wrap32 (t div 60) = t div 60"
  by (intro wrap32_id) (auto simp: in_int32_def)

text \<open>The cache after an update at time \<open>t\<close>.\<close>

definition current :: "(int \<Rightarrow> nat \<Rightarrow> bool) \<Rightarrow> (nat \<times> string) list \<Rightarrow> int \<Rightarrow> tp_cache \<Rightarrow> bool" where
  "current inside ps t c = (tc_minutes c = t div 60 \<and> (\<forall>tp \<in> fst ` set ps. map_find tp (tc_periods c) = Some (inside t tp)))"

lemma update_agrees:
  assumes "agree ps (tc_periods c) sh" and "ps \<noteq> []" and "inj_on fst (set ps)" and "inj_on snd (set ps)"
    and "list_all (\<lambda>(tp, name). period_name name) ps" and "length (show_int t) = 10" and "in_int32 t" and "0 \<le> t"
    and "tc_minutes c = t div 60 \<longrightarrow> current inside ps t c" and "tp_update inside ps t c = (c', ls)"
  shows "(\<exists>sh'. read_history os consume mo (map (core_line t) ls) sh = Some sh' \<and> agree ps (tc_periods c') sh') \<and> current inside ps t c'"
proof (cases "tc_minutes c = t div 60")
  case True
  with assms minutes_small show ?thesis by (simp add: tp_update_def)
next
  case False
  then obtain m where m: "update_periods (inside t) ps (tc_periods c) = (m, ls)"
    "c' = c\<lparr> tc_periods := m, tc_minutes := t div 60 \<rparr>"
    using assms(2,7,8,10) minutes_small by (auto simp: tp_update_def split: prod.splits)
  from update_periods_agree [OF assms(1) subset_refl assms(3-7) m(1), of os consume mo] m(2) show ?thesis
    by (auto simp: current_def)
qed

definition by_minutes :: "(int \<Rightarrow> nat \<Rightarrow> bool) \<Rightarrow> bool" where
  "by_minutes inside = (\<forall>s t. s div 60 = t div 60 \<longrightarrow> inside s = inside t)"

definition log_time :: "int \<Rightarrow> bool" where
  "log_time t = (length (show_int t) = 10 \<and> in_int32 t \<and> 60 \<le> t)"

definition up_to_date :: "(int \<Rightarrow> nat \<Rightarrow> bool) \<Rightarrow> (nat \<times> string) list \<Rightarrow> tp_cache \<Rightarrow> bool" where
  "up_to_date inside ps c = (\<forall>t\<ge>60. tc_minutes c = t div 60 \<longrightarrow> current inside ps t c)"

lemma up_to_date_current: "by_minutes inside \<Longrightarrow> current inside ps t c \<Longrightarrow> up_to_date inside ps c"
  unfolding up_to_date_def current_def by_minutes_def by metis

lemma period_log_agrees:
  assumes "ps \<noteq> []" and "inj_on fst (set ps)" and "inj_on snd (set ps)" and "list_all (\<lambda>(tp, name). period_name name) ps"
    and "by_minutes inside" and "list_all log_time ts"
    and "agree ps (tc_periods c) sh" and "up_to_date inside ps c" and "period_log inside ps ts c = (c', ls)"
  shows "(\<exists>sh'. read_history os consume mo ls sh = Some sh' \<and> agree ps (tc_periods c') sh') \<and>
     (ts \<noteq> [] \<longrightarrow> current inside ps (List.last ts) c')"
  using assms(6-9)
proof (induction ts arbitrary: c sh ls)
  case (Cons t ts)
  obtain c1 ls1 where one: "tp_update inside ps t c = (c1, ls1)" by (cases "tp_update inside ps t c")
  obtain ls2 where rest: "period_log inside ps ts c1 = (c', ls2)" and ls: "ls = map (core_line t) ls1 @ ls2"
    using Cons.prems(4) one by (cases "period_log inside ps ts c1") auto
  have t: "length (show_int t) = 10" "in_int32 t" "0 \<le> t" and ts: "list_all log_time ts"
    using Cons.prems(1) by (auto simp: log_time_def [of t])
  have now: "tc_minutes c = t div 60 \<longrightarrow> current inside ps t c"
    using Cons.prems(1,3) by (simp add: up_to_date_def log_time_def)
  from update_agrees [OF Cons.prems(2) assms(1-4) t now one, of os consume mo]
  obtain sh1 where sh1: "read_history os consume mo (map (core_line t) ls1) sh = Some sh1" "agree ps (tc_periods c1) sh1"
    and c1: "current inside ps t c1" by blast
  from Cons.IH [OF ts sh1(2) up_to_date_current [OF assms(5) c1] rest] sh1(1) c1 rest show ?case
    by (cases ts) (auto simp: ls read_history_append)
qed auto

text \<open>
  C34. The cache of the time periods, the log and the state histories agree. After updates at any times the
  cache has the status every time period has at the last of them, though it asks the core only once a minute; and whoever reads
  the messages the cache wrote, line by line as a query of state histories does, ends up with the same
  status of every time period. Time periods have distinct names that fit into a message, and change only with the minute.
\<close>

theorem period_status_reaches_the_histories:
  assumes "ps \<noteq> []" and "inj_on fst (set ps)" and "inj_on snd (set ps)" and "list_all (\<lambda>(tp, name). period_name name) ps"
    and "by_minutes inside" and "list_all log_time ts" and "ts \<noteq> []"
    and "sh_info sh = []" and "sh_periods sh = (\<lambda>_. None)" and "period_log inside ps ts new_tp_cache = (c, ls)"
  shows "\<exists>sh'. read_history os consume mo ls sh = Some sh' \<and>
     list_all (\<lambda>(tp, name). inTimeperiod tp c = inside (List.last ts) tp \<and> period_status sh' name = flag (inside (List.last ts) tp)) ps"
proof -
  have "agree ps (tc_periods new_tp_cache) sh" using assms(8,9) by (simp add: agree_def new_tp_cache_def)
  moreover have "up_to_date inside ps new_tp_cache" by (auto simp: up_to_date_def new_tp_cache_def)
  ultimately obtain sh' where sh': "read_history os consume mo ls sh = Some sh'" "agree ps (tc_periods c) sh'"
    and c: "current inside ps (List.last ts) c"
    using period_log_agrees [OF assms(1-6) _ _ assms(10), of sh os consume mo] assms(7) by blast
  have "inTimeperiod tp c = inside (List.last ts) tp \<and> period_status sh' name = flag (inside (List.last ts) tp)"
    if "(tp, name) \<in> set ps" for tp name
  proof -
    have "map_find tp (tc_periods c) = Some (inside (List.last ts) tp)" using c that by (force simp: current_def)
    moreover from this have "sh_periods sh' name = Some (flag (inside (List.last ts) tp))"
      using sh'(2) that by (force simp: agree_def)
    ultimately show ?thesis by (simp add: inTimeperiod_def period_status_def)
  qed
  with sh'(1) show ?thesis by (auto simp: list_all_iff)
qed

definition office_hours :: "int \<Rightarrow> nat \<Rightarrow> bool" where
  "office_hours t tp = (tp = 1 \<and> t div 60 mod 2 = 1)"

lemma demo_log_times: "list_all log_time [1000000000, 1000000010, 1000000070]"
  by (simp add: log_time_def show_int_def in_int32_def show_nat.simps)

definition demo_period_log :: "tp_cache \<times> string list" where
  "demo_period_log = period_log office_hours [(1, ''office''), (2, ''never'')] [1000000000, 1000000010, 1000000070] new_tp_cache"

definition no_history :: "string list statehist" where
  "no_history = \<lparr> sh_timeframe = 0, sh_since = 1, sh_until = 2, sh_periods = (\<lambda>_. None), sh_info = [], sh_abort = False,
     sh_only_update = True, sh_in_initial_states = False, sh_blacklist = [], sh_rows = [] \<rparr>"

theorem period_status_reaches_the_histories_witness:
  "\<forall>os consume mo. \<exists>sh'. read_history os consume mo (snd demo_period_log) no_history = Some sh' \<and>
     period_status sh' ''office'' = 1 \<and> period_status sh' ''never'' = 0"
proof -
  let ?ps = "[(1 :: nat, ''office''), (2, ''never'')]"
  have p: "?ps \<noteq> []" "inj_on fst (set ?ps)" "inj_on snd (set ?ps)" "list_all (\<lambda>(tp, name). period_name name) ?ps"
    "by_minutes office_hours"
    by (simp_all add: inj_on_def period_name_def no_semicolon_def by_minutes_def office_hours_def fun_eq_iff)
  have l: "period_log office_hours ?ps [1000000000, 1000000010, 1000000070] new_tp_cache = (fst demo_period_log, snd demo_period_log)"
    by (simp only: demo_period_log_def prod.collapse)
  have h: "sh_info no_history = []" "sh_periods no_history = (\<lambda>_. None)" by (simp_all add: no_history_def)
  have "office_hours 1000000070 1" "\<not> office_hours 1000000070 2" by (simp_all add: office_hours_def)
  with period_status_reaches_the_histories [OF p demo_log_times _ h l] show ?thesis by simp blast
qed

end
