(* ===== verification/Event_Broker.thy ===== *)
theory Event_Broker
  imports Client_Threads Downtimes Timeperiods
begin

text \<open>
  The callbacks the module registers with the event broker of the core (\<open>src/module.c\<close>). An event counts, wakes the queries that wait for its trigger and for any event, and
  brings the downtimes, the comments and the time periods up to date. The broker calls, for an event, the
  callbacks that are registered for its type; a callback that is taken back must be given with the type it was registered
  for. What a broadcast on a condition variable wakes is in \<open>Query_Wait\<close>; here the broadcasts are kept in
  order.
\<close>

section \<open>Callbacks\<close>

datatype neb_callback =
    NEBCALLBACK_HOST_STATUS_DATA | NEBCALLBACK_COMMENT_DATA | NEBCALLBACK_DOWNTIME_DATA | NEBCALLBACK_SERVICE_CHECK_DATA
  | NEBCALLBACK_HOST_CHECK_DATA | NEBCALLBACK_LOG_DATA | NEBCALLBACK_EXTERNAL_COMMAND_DATA | NEBCALLBACK_STATE_CHANGE_DATA
  | NEBCALLBACK_ADAPTIVE_PROGRAM_DATA | NEBCALLBACK_PROCESS_DATA | NEBCALLBACK_PROGRAM_STATUS_DATA

datatype process_event = EVENTLOOPSTART | EVENTLOOPEND | PROCESS_OTHER

text \<open>An event with what its callback looks at of its data: whether a check was processed, a command begins or a status is an update.\<close>

datatype neb_event =
    HostStatus | CommentData neb_comment | DowntimeData neb_downtime | ServiceCheckData bool | HostCheckData bool | LogData
  | ExternalCommandData bool | StateChangeData | AdaptiveProgramData | ProcessData process_event | ProgramStatusData bool int

fun callback_of :: "neb_event \<Rightarrow> neb_callback" where
  "callback_of HostStatus = NEBCALLBACK_HOST_STATUS_DATA"
| "callback_of (CommentData _) = NEBCALLBACK_COMMENT_DATA"
| "callback_of (DowntimeData _) = NEBCALLBACK_DOWNTIME_DATA"
| "callback_of (ServiceCheckData _) = NEBCALLBACK_SERVICE_CHECK_DATA"
| "callback_of (HostCheckData _) = NEBCALLBACK_HOST_CHECK_DATA"
| "callback_of LogData = NEBCALLBACK_LOG_DATA"
| "callback_of (ExternalCommandData _) = NEBCALLBACK_EXTERNAL_COMMAND_DATA"
| "callback_of StateChangeData = NEBCALLBACK_STATE_CHANGE_DATA"
| "callback_of AdaptiveProgramData = NEBCALLBACK_ADAPTIVE_PROGRAM_DATA"
| "callback_of (ProcessData _) = NEBCALLBACK_PROCESS_DATA"
| "callback_of (ProgramStatusData _ _) = NEBCALLBACK_PROGRAM_STATUS_DATA"

datatype broker =
    Broker_host | Broker_comment | Broker_downtime | Broker_check | Broker_log | Broker_command | Broker_state | Broker_program
  | Broker_process | Broker_program_data

record broker_env =
  be_objects :: objects
  be_inside :: "int \<Rightarrow> nat \<Rightarrow> bool"
  be_periods :: "(nat \<times> string) list"
  be_now :: int
  be_register_ok :: bool

record 't broker_state = "'t module_state" +
  br_woken :: "nat list"
  br_comments :: down_comm_table
  br_downtimes :: down_comm_table
  br_cache :: tp_cache
  br_log :: "string list"
  br_last_log_rotation :: int
  br_reopened :: nat
  br_eventloop :: bool
  br_callbacks :: "(neb_callback \<times> broker) list"

abbreviation (input) "WT_CHECK \<equiv> 1 :: nat"
abbreviation (input) "WT_STATE \<equiv> 2 :: nat"
abbreviation (input) "WT_LOG \<equiv> 3 :: nat"
abbreviation (input) "WT_DOWNTIME \<equiv> 4 :: nat"
abbreviation (input) "WT_COMMENT \<equiv> 5 :: nat"
abbreviation (input) "WT_COMMAND \<equiv> 6 :: nat"
abbreviation (input) "WT_PROGRAM \<equiv> 7 :: nat"

definition count_event :: "nat \<Rightarrow> 't broker_state \<Rightarrow> 't broker_state" where
  "count_event i st = st\<lparr> ms_counters := bump_counter i (ms_counters st) \<rparr>"

definition wake :: "nat \<Rightarrow> 't broker_state \<Rightarrow> 't broker_state" where
  "wake trigger st = st\<lparr> br_woken := br_woken st @ [WT_ALL, trigger] \<rparr>"

definition broker_host :: "'t broker_state \<Rightarrow> 't broker_state" where
  "broker_host st = count_event COUNTER_NEB_CALLBACKS st"

definition broker_check :: "neb_event \<Rightarrow> 't broker_state \<Rightarrow> 't broker_state" where
  "broker_check e st =
     wake WT_CHECK
       (case e of
          ServiceCheckData processed \<Rightarrow> if processed then count_event COUNTER_SERVICE_CHECKS st else st
        | HostCheckData processed \<Rightarrow> if processed then count_event COUNTER_HOST_CHECKS st else st
        | _ \<Rightarrow> st)"

definition broker_comment :: "broker_env \<Rightarrow> neb_comment \<Rightarrow> 't broker_state \<Rightarrow> 't broker_state" where
  "broker_comment env co st =
     wake WT_COMMENT (count_event COUNTER_NEB_CALLBACKS (st\<lparr> br_comments := addComment (be_objects env) co (br_comments st) \<rparr>))"

definition broker_downtime :: "broker_env \<Rightarrow> neb_downtime \<Rightarrow> 't broker_state \<Rightarrow> 't broker_state" where
  "broker_downtime env dt st =
     wake WT_DOWNTIME (count_event COUNTER_NEB_CALLBACKS (st\<lparr> br_downtimes := addDowntime (be_objects env) dt (br_downtimes st) \<rparr>))"

definition broker_log :: "'t broker_state \<Rightarrow> 't broker_state" where
  "broker_log st = wake WT_LOG (count_event COUNTER_LOG_MESSAGES (count_event COUNTER_NEB_CALLBACKS st))"

definition broker_command :: "bool \<Rightarrow> 't broker_state \<Rightarrow> 't broker_state" where
  "broker_command start st =
     wake WT_COMMAND (count_event COUNTER_NEB_CALLBACKS (if start then count_event COUNTER_COMMANDS st else st))"

definition broker_state_change :: "'t broker_state \<Rightarrow> 't broker_state" where
  "broker_state_change st = wake WT_STATE (count_event COUNTER_NEB_CALLBACKS st)"

definition broker_program :: "'t broker_state \<Rightarrow> 't broker_state" where
  "broker_program st = wake WT_PROGRAM (count_event COUNTER_NEB_CALLBACKS st)"

definition broker_program_data :: "bool \<Rightarrow> int \<Rightarrow> 't broker_state \<Rightarrow> 't broker_state" where
  "broker_program_data is_update last_log_rotation st =
     (if is_update \<and> last_log_rotation \<noteq> br_last_log_rotation st
      then st\<lparr> br_last_log_rotation := last_log_rotation, br_reopened := br_reopened st + 1 \<rparr>
      else st)"

definition update_timeperiods_cache :: "broker_env \<Rightarrow> 't broker_state \<Rightarrow> 't broker_state" where
  "update_timeperiods_cache env st =
     (let (c, ls) = tp_update (be_inside env) (be_periods env) (be_now env) (br_cache st)
      in st\<lparr> br_cache := c, br_log := br_log st @ map (core_line (be_now env)) ls \<rparr>)"

text \<open>The event the module schedules for itself every second.\<close>

definition schedule_timeperiods_cache_update :: "broker_env \<Rightarrow> bool \<Rightarrow> 't broker_state \<Rightarrow> bool \<times> 't broker_state" where
  "schedule_timeperiods_cache_update env normal st =
     (let st1 = count_event COUNTER_NEB_CALLBACKS st
      in if normal then (True, update_timeperiods_cache env st1) else (False, st1))"

section \<open>Registration\<close>

definition neb_register_callback :: "neb_callback \<Rightarrow> broker \<Rightarrow> 't broker_state \<Rightarrow> 't broker_state" where
  "neb_register_callback ty b st = st\<lparr> br_callbacks := br_callbacks st @ [(ty, b)] \<rparr>"

definition neb_deregister_callback :: "neb_callback \<Rightarrow> broker \<Rightarrow> 't broker_state \<Rightarrow> 't broker_state" where
  "neb_deregister_callback ty b st = st\<lparr> br_callbacks := remove1 (ty, b) (br_callbacks st) \<rparr>"

definition register_callbacks :: "'t broker_state \<Rightarrow> 't broker_state" where
  "register_callbacks st = fold (\<lambda>(ty, b). neb_register_callback ty b)
     [(NEBCALLBACK_HOST_STATUS_DATA, Broker_host), (NEBCALLBACK_COMMENT_DATA, Broker_comment), (NEBCALLBACK_DOWNTIME_DATA, Broker_downtime),
      (NEBCALLBACK_SERVICE_CHECK_DATA, Broker_check), (NEBCALLBACK_HOST_CHECK_DATA, Broker_check), (NEBCALLBACK_LOG_DATA, Broker_log),
      (NEBCALLBACK_EXTERNAL_COMMAND_DATA, Broker_command), (NEBCALLBACK_STATE_CHANGE_DATA, Broker_state),
      (NEBCALLBACK_ADAPTIVE_PROGRAM_DATA, Broker_program), (NEBCALLBACK_PROCESS_DATA, Broker_process),
      (NEBCALLBACK_PROGRAM_STATUS_DATA, Broker_program_data)] st"

definition deregister_callbacks :: "'t broker_state \<Rightarrow> 't broker_state" where
  "deregister_callbacks st = fold (\<lambda>(ty, b). neb_deregister_callback ty b)
     [(NEBCALLBACK_HOST_STATUS_DATA, Broker_host), (NEBCALLBACK_COMMENT_DATA, Broker_comment), (NEBCALLBACK_DOWNTIME_DATA, Broker_downtime),
      (NEBCALLBACK_SERVICE_CHECK_DATA, Broker_check), (NEBCALLBACK_HOST_CHECK_DATA, Broker_check), (NEBCALLBACK_LOG_DATA, Broker_log),
      (NEBCALLBACK_EXTERNAL_COMMAND_DATA, Broker_command), (NEBCALLBACK_STATE_CHANGE_DATA, Broker_state),
      (NEBCALLBACK_ADAPTIVE_PROGRAM_DATA, Broker_program), (NEBCALLBACK_PROCESS_DATA, Broker_program),
      (NEBCALLBACK_PROGRAM_STATUS_DATA, Broker_program)] st"

definition broker_process :: "broker_env \<Rightarrow> process_event \<Rightarrow> 't broker_state \<Rightarrow> 't broker_state" where
  "broker_process env ty st =
     (case ty of
        EVENTLOOPSTART \<Rightarrow>
          (let st1 = update_timeperiods_cache env (st\<lparr> br_eventloop := True \<rparr>);
               st2 = st1\<lparr> ms_counters := do_statistics (be_now env) (ms_counters st1) \<rparr>
           in if be_register_ok env then st2 else st2\<lparr> ms_socket := None \<rparr>)
      | EVENTLOOPEND \<Rightarrow> snd (shutdown_threads (deregister_callbacks (st\<lparr> br_eventloop := False \<rparr>)))
      | PROCESS_OTHER \<Rightarrow> st)"

text \<open>An event reaches the callbacks that are registered for its type; a callback reads the data as those of its own type.\<close>

fun run_broker :: "broker_env \<Rightarrow> neb_event \<Rightarrow> broker \<Rightarrow> 't broker_state \<Rightarrow> 't broker_state" where
  "run_broker env e Broker_host st = broker_host st"
| "run_broker env (CommentData co) Broker_comment st = broker_comment env co st"
| "run_broker env (DowntimeData dt) Broker_downtime st = broker_downtime env dt st"
| "run_broker env e Broker_check st = broker_check e st"
| "run_broker env e Broker_log st = broker_log st"
| "run_broker env (ExternalCommandData start) Broker_command st = broker_command start st"
| "run_broker env e Broker_state st = broker_state_change st"
| "run_broker env e Broker_program st = broker_program st"
| "run_broker env (ProcessData ty) Broker_process st = broker_process env ty st"
| "run_broker env (ProgramStatusData is_update r) Broker_program_data st = broker_program_data is_update r st"
| "run_broker env e b st = st"

definition deliver :: "broker_env \<Rightarrow> neb_event \<Rightarrow> 't broker_state \<Rightarrow> 't broker_state" where
  "deliver env e st = fold (\<lambda>(ty, b) st. if ty = callback_of e then run_broker env e b st else st) (br_callbacks st) st"

text \<open>The options the module needs of the broker; the masks are those of the core.\<close>

definition verify_event_broker_options :: "64 word list \<Rightarrow> 64 word \<Rightarrow> bool" where
  "verify_event_broker_options needed options =
     (foldl (\<lambda>errors b. if (and) options b = 0 then errors + 1 else errors) (0 :: int) needed = 0)"

section \<open>What the events do\<close>

text \<open>The condition variables an event wakes, and what it tells of downtimes and comments.\<close>

fun wakes :: "neb_event \<Rightarrow> nat list" where
  "wakes (CommentData _) = [WT_ALL, WT_COMMENT]"
| "wakes (DowntimeData _) = [WT_ALL, WT_DOWNTIME]"
| "wakes (ServiceCheckData _) = [WT_ALL, WT_CHECK]"
| "wakes (HostCheckData _) = [WT_ALL, WT_CHECK]"
| "wakes LogData = [WT_ALL, WT_LOG]"
| "wakes (ExternalCommandData _) = [WT_ALL, WT_COMMAND]"
| "wakes StateChangeData = [WT_ALL, WT_STATE]"
| "wakes AdaptiveProgramData = [WT_ALL, WT_PROGRAM]"
| "wakes _ = []"

fun downtimes_in :: "neb_event list \<Rightarrow> neb_downtime list" where
  "downtimes_in [] = []"
| "downtimes_in (DowntimeData d # es) = d # downtimes_in es"
| "downtimes_in (_ # es) = downtimes_in es"

fun comments_in :: "neb_event list \<Rightarrow> neb_comment list" where
  "comments_in [] = []"
| "comments_in (CommentData c # es) = c # comments_in es"
| "comments_in (_ # es) = comments_in es"

definition all_callbacks :: "(neb_callback \<times> broker) list" where
  "all_callbacks =
     [(NEBCALLBACK_HOST_STATUS_DATA, Broker_host), (NEBCALLBACK_COMMENT_DATA, Broker_comment), (NEBCALLBACK_DOWNTIME_DATA, Broker_downtime),
      (NEBCALLBACK_SERVICE_CHECK_DATA, Broker_check), (NEBCALLBACK_HOST_CHECK_DATA, Broker_check), (NEBCALLBACK_LOG_DATA, Broker_log),
      (NEBCALLBACK_EXTERNAL_COMMAND_DATA, Broker_command), (NEBCALLBACK_STATE_CHANGE_DATA, Broker_state),
      (NEBCALLBACK_ADAPTIVE_PROGRAM_DATA, Broker_program), (NEBCALLBACK_PROCESS_DATA, Broker_process),
      (NEBCALLBACK_PROGRAM_STATUS_DATA, Broker_program_data)]"

lemma registered: "br_callbacks (register_callbacks st) = br_callbacks st @ all_callbacks"
  by (simp add: register_callbacks_def neb_register_callback_def all_callbacks_def)

lemma broker_simps [simp]:
  "br_callbacks (count_event i st) = br_callbacks st" "br_woken (count_event i st) = br_woken st"
  "br_downtimes (count_event i st) = br_downtimes st" "br_comments (count_event i st) = br_comments st"
  "br_callbacks (wake w st) = br_callbacks st" "br_woken (wake w st) = br_woken st @ [WT_ALL, w]"
  "br_downtimes (wake w st) = br_downtimes st" "br_comments (wake w st) = br_comments st"
  "br_callbacks (update_timeperiods_cache env st) = br_callbacks st" "br_woken (update_timeperiods_cache env st) = br_woken st"
  "br_downtimes (update_timeperiods_cache env st) = br_downtimes st" "br_comments (update_timeperiods_cache env st) = br_comments st"
  by (simp_all add: count_event_def wake_def update_timeperiods_cache_def Let_def split: prod.splits)

lemma deliver_effect:
  assumes "br_callbacks st = all_callbacks" and "e \<noteq> ProcessData EVENTLOOPEND"
  shows "br_callbacks (deliver env e st) = all_callbacks \<and> br_woken (deliver env e st) = br_woken st @ wakes e \<and>
     br_downtimes (deliver env e st) = fold (addDowntime (be_objects env)) (downtimes_in [e]) (br_downtimes st) \<and>
     br_comments (deliver env e st) = fold (addComment (be_objects env)) (comments_in [e]) (br_comments st)"
proof (cases e)
  case (ProcessData ty)
  with assms show ?thesis by (cases ty) (simp_all add: deliver_def all_callbacks_def broker_process_def Let_def)
qed (use assms in \<open>simp_all add: deliver_def all_callbacks_def broker_host_def broker_check_def broker_comment_def broker_downtime_def
  broker_log_def broker_command_def broker_state_change_def broker_program_def broker_program_data_def\<close>)

lemma events_split: "downtimes_in (e # es) = downtimes_in [e] @ downtimes_in es" "comments_in (e # es) = comments_in [e] @ comments_in es"
  by (cases e; simp)+

text \<open>
  C37. Once the callbacks are registered, every event of the core has its effect: in the order of the events, each wakes the
  queries that wait for any event and those that wait for its own trigger, and the tables of downtimes and of comments become
  what the messages among the events make of them. No event is lost or handled twice, until the event
  loop of the core ends.
\<close>

theorem events_have_their_effect:
  assumes "br_callbacks st0 = []" and "ProcessData EVENTLOOPEND \<notin> set es"
  shows "br_woken (fold (deliver env) es (register_callbacks st0)) = br_woken st0 @ concat (map wakes es) \<and>
     br_downtimes (fold (deliver env) es (register_callbacks st0)) = fold (addDowntime (be_objects env)) (downtimes_in es) (br_downtimes st0) \<and>
     br_comments (fold (deliver env) es (register_callbacks st0)) = fold (addComment (be_objects env)) (comments_in es) (br_comments st0)"
proof -
  have "br_woken (fold (deliver env) es st) = br_woken st @ concat (map wakes es) \<and>
     br_downtimes (fold (deliver env) es st) = fold (addDowntime (be_objects env)) (downtimes_in es) (br_downtimes st) \<and>
     br_comments (fold (deliver env) es st) = fold (addComment (be_objects env)) (comments_in es) (br_comments st)"
    if "br_callbacks st = all_callbacks" for st :: "'a broker_state"
    using assms(2) that
  proof (induction es arbitrary: st)
    case (Cons e es)
    then have "e \<noteq> ProcessData EVENTLOOPEND" by auto
    from deliver_effect [OF Cons.prems(2) this, of env] Cons.IH [of "deliver env e st"] Cons.prems(1) show ?case
      by (simp add: events_split [of e es])
  qed simp
  from this [of "register_callbacks st0"] assms(1) show ?thesis
    by (simp add: registered) (simp add: register_callbacks_def neb_register_callback_def)
qed

definition demo_broker :: "nat broker_state" where
  "demo_broker =
     \<lparr> ms_threads = [], ms_counters = \<lparr> ct_values = replicate 10 0, ct_last = replicate 10 0, ct_rates = replicate 10 0, ct_updated = 0 \<rparr>,
       ms_should_terminate = False, ms_socket = Some 3,
       br_woken = [], br_comments = [], br_downtimes = [], br_cache = new_tp_cache, br_log = [], br_last_log_rotation = -1, br_reopened = 0,
       br_eventloop = False, br_callbacks = [] \<rparr>"

theorem events_have_their_effect_witness:
  "\<forall>env. br_woken (fold (deliver env) [LogData, DowntimeData (demo_downtime NEBTYPE_ADD 5), HostCheckData True] (register_callbacks demo_broker)) =
     [0, 3, 0, 4, 0, 1]"
  using events_have_their_effect [of demo_broker "[LogData, DowntimeData (demo_downtime NEBTYPE_ADD 5), HostCheckData True]"]
  by (simp add: demo_broker_def WT_ALL_def)

section \<open>What is left when the module is unloaded\<close>

text \<open>
  Two callbacks are taken back with the wrong function: after the end of the event loop the core still calls the
  callbacks for the process and for the status of the program.
\<close>

lemma two_callbacks_are_left:
  "br_callbacks st = [] \<Longrightarrow> br_callbacks (deregister_callbacks (register_callbacks st)) =
     [(NEBCALLBACK_PROCESS_DATA, Broker_process), (NEBCALLBACK_PROGRAM_STATUS_DATA, Broker_program_data)]"
  by (simp add: deregister_callbacks_def registered all_callbacks_def neb_deregister_callback_def)

text \<open>The options are set to all ones before they are verified, so that the verification never fails.\<close>

lemma forced_options_are_sufficient: "list_all (\<lambda>b. b \<noteq> 0) needed \<Longrightarrow> verify_event_broker_options needed (- 1)"
proof -
  have "list_all (\<lambda>b. b \<noteq> 0) needed \<Longrightarrow> foldl (\<lambda>errors b. if (and) (- 1) b = 0 then errors + 1 else errors) n needed = n" for n :: int
    by (induction needed arbitrary: n) simp_all
  then show "list_all (\<lambda>b. b \<noteq> 0) needed \<Longrightarrow> ?thesis" by (simp add: verify_event_broker_options_def)
qed

end
