(* ===== verification/Settings.thy ===== *)
theory Settings
  imports Strutil Query_Output Authorization
begin

text \<open>
  The options of the module (\<open>livestatus_parse_arguments\<close> of \<open>src/module.c\<close>): the argument the core hands to the
  module is cut into words, and every word sets one of the global variables. The path of the core's log, the
  default socket, the resolution of relative paths, the smallest stack of a thread and the check of the
  directory with the performance data are the environment. A text that does not fit into its array is left without a
  terminating NUL by \<open>strncpy\<close>; that is \<open>None\<close>, as is a missing word.
\<close>

record module_env =
  me_log_file :: string
  me_default_socket :: string
  me_absolute :: "string \<Rightarrow> string"
  me_stack_min :: int
  me_readable :: "string \<Rightarrow> bool"

record settings =
  se_socket_addr :: string
  se_use_inet_socket :: bool
  se_pnp_path :: string
  se_logfile_path :: string
  se_debug_level :: int
  se_max_cached_messages :: int
  se_max_lines_per_logfile :: int
  se_max_response_size :: int
  se_thread_stack_size :: int
  se_query_timeout :: int
  se_idle_timeout :: int
  se_service_authorization :: auth_mode
  se_group_authorization :: auth_mode
  se_data_encoding :: encoding
  se_max_backlog :: int
  se_hidden_custom_var_prefix :: string

text \<open>The values of the variables when the module is loaded.\<close>

definition initial_settings :: settings where
  "initial_settings =
     \<lparr> se_socket_addr = [], se_use_inet_socket = False, se_pnp_path = [], se_logfile_path = [], se_debug_level = 0,
       se_max_cached_messages = 500000, se_max_lines_per_logfile = 1000000, se_max_response_size = 500 * 1024 * 1024,
       se_thread_stack_size = 65536, se_query_timeout = 10 * 1000, se_idle_timeout = 300 * 1000,
       se_service_authorization = AUTH_LOOSE, se_group_authorization = AUTH_STRICT, se_data_encoding = ENCODING_UTF8,
       se_max_backlog = 256, se_hidden_custom_var_prefix = [] \<rparr>"

definition strncpy :: "nat \<Rightarrow> string \<Rightarrow> string option" where
  "strncpy n s = (if length s < n then Some s else None)"

definition default_logfile :: "string \<Rightarrow> string" where
  "default_logfile log_file =
     (let path = take (4096 - 16) log_file
      in if CHR ''/'' \<in> set path then rev (dropWhile (\<lambda>c. c \<noteq> CHR ''/'') (rev path)) @ ''livestatus.log''
         else ''/tmp/livestatus.log'')"

text \<open>The directory is not used when it cannot be read; its path always ends in a slash.\<close>

definition check_pnp_path :: "module_env \<Rightarrow> string \<Rightarrow> string" where
  "check_pnp_path env path = (if me_readable env path then path else [])"

definition pnp_directory :: "string \<Rightarrow> string" where
  "pnp_directory right =
     (let path = take 4095 right
      in if List.last right \<noteq> CHR ''/'' then path @ take (4096 - length path - 1) ''/'' else path)"

definition auth_option :: "string \<Rightarrow> auth_mode \<Rightarrow> auth_mode" where
  "auth_option right mode = (if right = ''strict'' then AUTH_STRICT else if right = ''loose'' then AUTH_LOOSE else mode)"

definition not_negative :: "string \<Rightarrow> int \<Rightarrow> int" where
  "not_negative right old = (let c = atoi right in if c < 0 then old else c)"

definition apply_option :: "module_env \<Rightarrow> string \<Rightarrow> string \<Rightarrow> settings \<Rightarrow> settings option" where
  "apply_option env left right s =
     (if left = ''debug'' then Some (s\<lparr> se_debug_level := atoi right \<rparr>)
      else if left = ''log_file'' then map_option (\<lambda>t. s\<lparr> se_logfile_path := t \<rparr>) (strncpy 4096 right)
      else if left = ''inet_addr'' then map_option (\<lambda>t. s\<lparr> se_use_inet_socket := True, se_socket_addr := t \<rparr>) (strncpy 4096 right)
      else if left = ''max_cached_messages'' then Some (s\<lparr> se_max_cached_messages := fst (strtoul right) \<rparr>)
      else if left = ''max_lines_per_logfile'' then Some (s\<lparr> se_max_lines_per_logfile := fst (strtoul right) \<rparr>)
      else if left = ''thread_stack_size'' then Some (s\<lparr> se_thread_stack_size := max (fst (strtoul right)) (me_stack_min env) \<rparr>)
      else if left = ''max_response_size'' then Some (s\<lparr> se_max_response_size := fst (strtoul right) \<rparr>)
      else if left = ''num_client_threads'' then Some s
      else if left = ''query_timeout'' then Some (s\<lparr> se_query_timeout := not_negative right (se_query_timeout s) \<rparr>)
      else if left = ''idle_timeout'' then Some (s\<lparr> se_idle_timeout := not_negative right (se_idle_timeout s) \<rparr>)
      else if left = ''service_authorization'' then Some (s\<lparr> se_service_authorization := auth_option right (se_service_authorization s) \<rparr>)
      else if left = ''group_authorization'' then Some (s\<lparr> se_group_authorization := auth_option right (se_group_authorization s) \<rparr>)
      else if left = ''pnp_path'' then Some (s\<lparr> se_pnp_path := check_pnp_path env (pnp_directory right) \<rparr>)
      else if left = ''data_encoding''
      then Some (s\<lparr> se_data_encoding := (if right = ''utf8'' then ENCODING_UTF8 else if right = ''latin1'' then ENCODING_LATIN1
                                       else if right = ''mixed'' then ENCODING_MIXED else se_data_encoding s) \<rparr>)
      else if left = ''max_backlog'' then Some (s\<lparr> se_max_backlog := not_negative right (se_max_backlog s) \<rparr>)
      else if left = ''livecheck'' then Some s
      else if left = ''hidden_custom_var_prefix'' then map_option (\<lambda>t. s\<lparr> se_hidden_custom_var_prefix := t \<rparr>) (strncpy 256 right)
      else Some s)"

text \<open>One word: without a value it is the path of the socket.\<close>

definition apply_word :: "module_env \<Rightarrow> string \<Rightarrow> settings \<Rightarrow> settings option" where
  "apply_word env token s =
     (let (left, part) = next_token token (CHR ''=''); (right, _) = next_token part (CHR 0x00)
      in case left of
           None \<Rightarrow> None
         | Some l \<Rightarrow>
             (case right of
                None \<Rightarrow> map_option (\<lambda>t. s\<lparr> se_socket_addr := t \<rparr>) (strncpy 4096 (me_absolute env l))
              | Some r \<Rightarrow> apply_option env l r s))"

fun apply_words :: "module_env \<Rightarrow> string list \<Rightarrow> settings \<Rightarrow> settings option" where
  "apply_words env [] s = Some s"
| "apply_words env (w # ws) s = (case apply_word env w s of None \<Rightarrow> None | Some s1 \<Rightarrow> apply_words env ws s1)"

definition livestatus_parse_arguments :: "module_env \<Rightarrow> string option \<Rightarrow> settings \<Rightarrow> settings option" where
  "livestatus_parse_arguments env args s0 =
     (let s = s0\<lparr> se_socket_addr := me_default_socket env, se_logfile_path := default_logfile (me_log_file env),
                  se_pnp_path := [], se_hidden_custom_var_prefix := [] \<rparr>
      in case args of
           None \<Rightarrow> Some s
         | Some text \<Rightarrow>
             map_option
               (\<lambda>s1. if se_use_inet_socket s1 \<and> CHR ''/'' \<in> set (se_socket_addr s1) then s1\<lparr> se_use_inet_socket := False \<rparr> else s1)
               (apply_words env (Strutil.fields text) s))"

text \<open>The beginning of \<open>nebmodule_init\<close>.\<close>

definition init_settings :: "module_env \<Rightarrow> string option \<Rightarrow> settings option" where
  "init_settings env args =
     livestatus_parse_arguments env args
       (initial_settings\<lparr> se_thread_stack_size := max (se_thread_stack_size initial_settings) (me_stack_min env) \<rparr>)"

section \<open>What the options can set\<close>

definition settings_ok :: "module_env \<Rightarrow> settings \<Rightarrow> bool" where
  "settings_ok env s =
     (me_stack_min env \<le> se_thread_stack_size s \<and> 0 \<le> se_query_timeout s \<and> 0 \<le> se_idle_timeout s \<and> 0 \<le> se_max_backlog s \<and>
      0 \<le> se_max_cached_messages s \<and> 0 \<le> se_max_lines_per_logfile s \<and> 0 \<le> se_max_response_size s \<and>
      length (se_socket_addr s) < 4096 \<and> length (se_logfile_path s) < 4096 \<and> length (se_hidden_custom_var_prefix s) < 256 \<and>
      length (se_pnp_path s) < 4096 \<and> (se_pnp_path s = [] \<or> me_readable env (se_pnp_path s)))"

lemma pnp_directory_length: "length (pnp_directory t) < 4096"
  by (auto simp: pnp_directory_def Let_def min_def)

lemma settings_ok_updates [simp]:
  assumes "settings_ok env s"
  shows "settings_ok env (s\<lparr> se_debug_level := i \<rparr>)" "settings_ok env (s\<lparr> se_use_inet_socket := b \<rparr>)"
    "settings_ok env (s\<lparr> se_service_authorization := m \<rparr>)" "settings_ok env (s\<lparr> se_group_authorization := m \<rparr>)"
    "settings_ok env (s\<lparr> se_data_encoding := enc \<rparr>)"
    "length t < 4096 \<Longrightarrow> settings_ok env (s\<lparr> se_socket_addr := t \<rparr>)" "length t < 4096 \<Longrightarrow> settings_ok env (s\<lparr> se_logfile_path := t \<rparr>)"
    "length t < 256 \<Longrightarrow> settings_ok env (s\<lparr> se_hidden_custom_var_prefix := t \<rparr>)"
    "0 \<le> i \<Longrightarrow> settings_ok env (s\<lparr> se_max_cached_messages := i \<rparr>)" "0 \<le> i \<Longrightarrow> settings_ok env (s\<lparr> se_max_lines_per_logfile := i \<rparr>)"
    "0 \<le> i \<Longrightarrow> settings_ok env (s\<lparr> se_max_response_size := i \<rparr>)" "0 \<le> i \<Longrightarrow> settings_ok env (s\<lparr> se_query_timeout := i \<rparr>)"
    "0 \<le> i \<Longrightarrow> settings_ok env (s\<lparr> se_idle_timeout := i \<rparr>)" "0 \<le> i \<Longrightarrow> settings_ok env (s\<lparr> se_max_backlog := i \<rparr>)"
    "settings_ok env (s\<lparr> se_thread_stack_size := max i (me_stack_min env) \<rparr>)"
    "settings_ok env (s\<lparr> se_pnp_path := check_pnp_path env (pnp_directory t) \<rparr>)"
  using assms pnp_directory_length [of t] by (simp_all add: settings_ok_def check_pnp_path_def)

lemma not_negative_ok: "settings_ok env s \<Longrightarrow> 0 \<le> not_negative r (se_query_timeout s) \<and> 0 \<le> not_negative r (se_idle_timeout s) \<and> 0 \<le> not_negative r (se_max_backlog s)"
  by (simp add: settings_ok_def not_negative_def Let_def)

lemma strncpy_Some [simp]: "strncpy n t = Some u \<longleftrightarrow> u = t \<and> length t < n"
  by (auto simp: strncpy_def)

lemma apply_option_ok: "settings_ok env s \<Longrightarrow> apply_option env l r s = Some s' \<Longrightarrow> settings_ok env s'"
  unfolding apply_option_def using not_negative_ok [of env s r]
  by (simp split: if_split_asm add: strtoul_nonneg) (auto simp: strtoul_nonneg)

lemma apply_words_ok: "settings_ok env s \<Longrightarrow> apply_words env ws s = Some s' \<Longrightarrow> settings_ok env s'"
proof (induction ws arbitrary: s)
  case (Cons w ws)
  then obtain s1 where s1: "apply_word env w s = Some s1" "apply_words env ws s1 = Some s'" by (auto split: option.splits)
  have "settings_ok env s1"
    using s1(1) Cons.prems(1) apply_option_ok [OF Cons.prems(1)]
    by (auto simp: apply_word_def Let_def split: prod.splits option.splits)
  with Cons.IH s1(2) show ?case by blast
qed simp

text \<open>A word that is short enough is applied, whatever it says.\<close>

definition short_word :: "module_env \<Rightarrow> string \<Rightarrow> bool" where
  "short_word env w = (w \<noteq> [] \<and> length w < 256 \<and> (\<forall>n \<le> length w. length (me_absolute env (take n w)) < 4096))"

lemma apply_option_total: "length r < 256 \<Longrightarrow> \<exists>s'. apply_option env l r s = Some s'"
  by (simp add: apply_option_def strncpy_def)

lemma apply_words_total: "list_all (short_word env) ws \<Longrightarrow> \<exists>s'. apply_words env ws s = Some s'"
proof (induction ws arbitrary: s)
  case (Cons w ws)
  have w: "w \<noteq> []" "length w < 256" using Cons.prems by (simp_all add: short_word_def)
  let ?l = "takeWhile (\<lambda>x. x \<noteq> CHR ''='') w" and ?p = "drop 1 (dropWhile (\<lambda>x. x \<noteq> CHR ''='') w)"
  have l: "length (me_absolute env ?l) < 4096"
    using Cons.prems length_takeWhile_le [of "\<lambda>x. x \<noteq> CHR ''=''" w] takeWhile_eq_take [of "\<lambda>x. x \<noteq> CHR ''=''" w]
    unfolding list.pred_inject short_word_def by metis
  have "length (takeWhile (\<lambda>x. x \<noteq> CHR 0x00) ?p) \<le> length w"
    using length_takeWhile_le [of "\<lambda>x. x \<noteq> CHR 0x00" ?p] length_dropWhile_le [of "\<lambda>x. x \<noteq> CHR ''=''" w] by simp
  with w(2) have "\<exists>s1. apply_option env ?l (takeWhile (\<lambda>x. x \<noteq> CHR 0x00) ?p) s = Some s1" by (intro apply_option_total) simp
  then have "\<exists>s1. apply_word env w s = Some s1"
    using w(1) l by (cases "?p = []") (simp_all add: apply_word_def next_token_def Let_def strncpy_def del: drop_eq_Nil)
  with Cons show ?case by auto
qed simp

text \<open>
  C38. Whatever the argument of the module says, as long as its words fit into the arrays, it is parsed, and the settings
  that come out are within their bounds: the stack of a thread is never smaller than the system allows, the timeouts and
  the backlog are not negative although they are read as signed numbers, every path is terminated, the directory with the performance
  data is readable or not used, and a socket that has a path is not opened as a TCP socket.
\<close>

theorem settings_stay_within_bounds:
  assumes "length (me_default_socket env) < 4096" and "list_all (short_word env) (Strutil.fields text)"
  shows "\<exists>s. init_settings env (Some text) = Some s \<and> settings_ok env s \<and>
     (se_use_inet_socket s \<longrightarrow> CHR ''/'' \<notin> set (se_socket_addr s))"
proof -
  let ?s0 = "initial_settings\<lparr> se_thread_stack_size := max (se_thread_stack_size initial_settings) (me_stack_min env) \<rparr>"
  let ?s = "?s0\<lparr> se_socket_addr := me_default_socket env, se_logfile_path := default_logfile (me_log_file env),
                  se_pnp_path := [], se_hidden_custom_var_prefix := [] \<rparr>"
  have "length (dropWhile (\<lambda>c. c \<noteq> CHR ''/'') (rev (take 4080 (me_log_file env)))) \<le> 4080"
    using length_dropWhile_le [of "\<lambda>c. c \<noteq> CHR ''/''" "rev (take 4080 (me_log_file env))"] by simp
  then have ok: "settings_ok env ?s"
    using assms(1) by (simp add: settings_ok_def initial_settings_def default_logfile_def Let_def)
  obtain s1 where s1: "apply_words env (Strutil.fields text) ?s = Some s1" using apply_words_total [OF assms(2)] by blast
  have "settings_ok env (s1\<lparr> se_use_inet_socket := b \<rparr>)" for b using apply_words_ok [OF ok s1] by (simp add: settings_ok_def)
  from this [of False] apply_words_ok [OF ok s1] s1 show ?thesis
    by (simp add: init_settings_def livestatus_parse_arguments_def Let_def)
qed

definition demo_module_env :: module_env where
  "demo_module_env = \<lparr> me_log_file = ''/var/log/naemon.log'', me_default_socket = ''/run/live'', me_absolute = (\<lambda>s. s), me_stack_min = 131072,
     me_readable = (\<lambda>_. True) \<rparr>"

theorem settings_stay_within_bounds_witness:
  "\<exists>s. init_settings demo_module_env (Some ''idle_timeout=-5 thread_stack_size=1'') = Some s \<and>
     131072 \<le> se_thread_stack_size s \<and> 0 \<le> se_idle_timeout s"
proof -
  have "Strutil.fields ''idle_timeout=-5 thread_stack_size=1'' = [''idle_timeout=-5'', ''thread_stack_size=1'']" by code_simp
  then show ?thesis
    using settings_stay_within_bounds [of demo_module_env "''idle_timeout=-5 thread_stack_size=1''"]
    by (auto simp: demo_module_env_def short_word_def settings_ok_def)
qed

end
