(* ===== verification/Listener.thy ===== *)
theory Listener
  imports Strutil
begin

text \<open>
  The socket the module listens on (\<open>open_unix_socket\<close> and \<open>open_inet_socket\<close> of \<open>src/module.c\<close>). The answers of the system
  calls are the environment; the state is the number of the socket and the list of the descriptors
  that are open.
\<close>

record sys_calls =
  sy_exists :: bool
  sy_unlink :: bool
  sy_socket :: int
  sy_bind :: bool
  sy_chmod :: bool
  sy_listen :: bool
  sy_reuseaddr :: bool
  sy_reuseport :: bool
  sy_inet_aton :: "string \<Rightarrow> bool"

record listener =
  li_fd :: int
  li_open :: "int list"

definition socket_call :: "sys_calls \<Rightarrow> listener \<Rightarrow> listener" where
  "socket_call sy li = li\<lparr> li_fd := sy_socket sy, li_open := (if sy_socket sy < 0 then li_open li else sy_socket sy # li_open li) \<rparr>"

definition close_call :: "listener \<Rightarrow> listener" where
  "close_call li = li\<lparr> li_open := remove1 (li_fd li) (li_open li) \<rparr>"

definition open_unix_socket :: "sys_calls \<Rightarrow> listener \<Rightarrow> bool \<times> listener" where
  "open_unix_socket sy li =
     (if sy_exists sy \<and> \<not> sy_unlink sy then (False, li)
      else let li1 = socket_call sy li
           in if li_fd li1 < 0 then (False, li1)
              else if \<not> sy_bind sy then (False, close_call li1)
              else if \<not> sy_chmod sy then (False, close_call li1)
              else if \<not> sy_listen sy then (False, close_call li1)
              else (True, li1))"

text \<open>\<open>address:port\<close>; the port is read by \<open>strtoul\<close>, which sets \<open>errno\<close> when the number does not fit.\<close>

definition inet_address :: "string \<Rightarrow> string option \<times> string option" where
  "inet_address addr =
     (let (ip_str, r) = next_token addr (CHR '':''); (port_str, _) = next_token r (CHR 0x00) in (ip_str, port_str))"

definition port_of :: "string \<Rightarrow> int option" where
  "port_of port_str =
     (let port = fst (strtoul port_str) in if port = 0 \<or> 65535 < port then None else Some port)"

definition open_inet_socket :: "sys_calls \<Rightarrow> string \<Rightarrow> listener \<Rightarrow> bool \<times> listener" where
  "open_inet_socket sy addr li =
     (let li1 = socket_call sy li
      in if li_fd li1 < 0 then (False, li1)
         else case inet_address addr of
                (Some ip_str, Some port_str) \<Rightarrow>
                  (case port_of port_str of
                     None \<Rightarrow> (False, close_call li1)
                   | Some port \<Rightarrow>
                       if ip_str \<noteq> ''0.0.0.0'' \<and> \<not> sy_inet_aton sy ip_str then (False, close_call li1)
                       else if \<not> sy_reuseaddr sy then (False, li1)
                       else if \<not> sy_reuseport sy then (False, li1)
                       else if \<not> sy_bind sy then (False, close_call li1)
                       else if \<not> sy_listen sy then (False, close_call li1)
                       else (True, li1))
              | _ \<Rightarrow> (False, close_call li1))"

definition open_socket :: "sys_calls \<Rightarrow> bool \<Rightarrow> string \<Rightarrow> listener \<Rightarrow> bool \<times> listener" where
  "open_socket sy use_inet addr li = (if use_inet then open_inet_socket sy addr li else open_unix_socket sy li)"

lemma close_socket_call [simp]: "\<not> li_fd (socket_call sy li) < 0 \<Longrightarrow> li_open (close_call (socket_call sy li)) = li_open li"
  by (simp add: socket_call_def close_call_def)

lemma failed_socket_call [simp]: "li_fd (socket_call sy li) < 0 \<Longrightarrow> li_open (socket_call sy li) = li_open li"
  by (simp add: socket_call_def)

text \<open>
  Opening the socket fails closed: when it fails no new descriptor is open, and when it succeeds exactly the socket is,
  for a TCP socket with a port from 1 to 65535 and an address that is valid; except when the options for the reuse of the
  address cannot be set, where the socket is left open.
\<close>

theorem failed_socket_is_closed:
  assumes "sy_reuseaddr sy" and "sy_reuseport sy" and "open_socket sy use_inet addr li = (ok, li')"
  shows "li_open li' = (if ok then li_fd li' # li_open li else li_open li) \<and>
     (ok \<and> use_inet \<longrightarrow> (\<exists>ip port_str port. inet_address addr = (Some ip, Some port_str) \<and> port_of port_str = Some port \<and>
        1 \<le> port \<and> port \<le> 65535 \<and> (ip = ''0.0.0.0'' \<or> sy_inet_aton sy ip)))"
proof (cases use_inet)
  case False
  with assms(3) show ?thesis
    by (auto simp: open_socket_def open_unix_socket_def Let_def socket_call_def close_call_def split: if_splits)
next
  case True
  have port: "1 \<le> p \<and> p \<le> 65535" if "port_of s = Some p" for s p
    using that strtoul_nonneg [of s] by (auto simp: port_of_def Let_def split: if_splits)
  show ?thesis
    using assms True port
    by (auto simp: open_socket_def open_inet_socket_def Let_def split: if_splits option.splits prod.splits)
      (auto simp: socket_call_def)
qed

definition demo_calls :: sys_calls where
  "demo_calls = \<lparr> sy_exists = False, sy_unlink = True, sy_socket = 3, sy_bind = True, sy_chmod = True, sy_listen = True, sy_reuseaddr = True,
     sy_reuseport = True, sy_inet_aton = (\<lambda>s. s = ''127.0.0.1'') \<rparr>"

definition demo_opened :: "bool \<times> listener" where
  "demo_opened = open_socket demo_calls True ''127.0.0.1:70000'' \<lparr> li_fd = -1, li_open = [] \<rparr>"

theorem failed_socket_is_closed_witness: "li_open (snd demo_opened) = []"
proof -
  have "sy_reuseaddr demo_calls" "sy_reuseport demo_calls" by (simp_all add: demo_calls_def)
  moreover have "open_socket demo_calls True ''127.0.0.1:70000'' \<lparr> li_fd = -1, li_open = [] \<rparr> = (fst demo_opened, snd demo_opened)"
    by (simp only: demo_opened_def prod.collapse)
  moreover have "\<not> fst demo_opened" by code_simp
  ultimately show ?thesis using failed_socket_is_closed by fastforce
qed

text \<open>The socket is left open when the options for the reuse of the address cannot be set.\<close>

lemma reuse_failure_leaks:
  "li_open (snd (open_socket (demo_calls\<lparr> sy_reuseaddr := False \<rparr>) True ''127.0.0.1:80'' \<lparr> li_fd = -1, li_open = [] \<rparr>)) = [3]"
  by code_simp

end
