(* ===== verification/Module_Life.thy ===== *)
theory Module_Life
  imports Event_Broker Settings Listener
begin

text \<open>
  The life of the module (\<open>nebmodule_init\<close> and \<open>nebmodule_deinit\<close> of \<open>src/module.c\<close>): it is loaded, parses its argument, opens its socket
  and registers its callbacks; then the core delivers events, the module's own timer runs and clients connect, in any
  order, until the core unloads it. The steps between are a relation whose states also count the threads
  that were accepted, those that were found ended when the array was tidied up, and those that were joined.
\<close>

section \<open>Loading and unloading\<close>

definition loaded_module :: "int option \<Rightarrow> 't broker_state" where
  "loaded_module socket =
     \<lparr> ms_threads = [],
       ms_counters = \<lparr> ct_values = replicate NUM_COUNTERS 0, ct_last = replicate NUM_COUNTERS 0, ct_rates = replicate NUM_COUNTERS 0, ct_updated = 0 \<rparr>,
       ms_should_terminate = False, ms_socket = socket, br_woken = [], br_comments = [], br_downtimes = [], br_cache = new_tp_cache, br_log = [],
       br_last_log_rotation = -1, br_reopened = 0, br_eventloop = False, br_callbacks = [] \<rparr>"

text \<open>
  What \<open>nebmodule_init\<close> returns to the core, and the module it leaves. The options of the broker are set to all ones before they are
  verified. An argument that is too long for its buffer is undefined.
\<close>

definition nebmodule_init :: "module_env \<Rightarrow> sys_calls \<Rightarrow> 64 word list \<Rightarrow> string option \<Rightarrow> (int \<times> settings \<times> 't broker_state) option" where
  "nebmodule_init env sy needed args =
     map_option
       (\<lambda>s. let (opened, li) = open_socket sy (se_use_inet_socket s) (se_socket_addr s) \<lparr> li_fd = -1, li_open = [] \<rparr>
            in if \<not> opened then (1, s, loaded_module None)
               else if \<not> verify_event_broker_options needed (- 1) then (1, s, loaded_module (Some (li_fd li)))
               else (0, s, register_callbacks (loaded_module (Some (li_fd li)))))
       (init_settings env args)"

text \<open>The threads it joins, and what is left; the store and the log file are freed after that.\<close>

definition nebmodule_deinit :: "'t broker_state \<Rightarrow> 't list \<times> 't broker_state" where
  "nebmodule_deinit st = shutdown_threads st"

section \<open>What happens between\<close>

text \<open>
  \<open>module_runs P E st acc gone joined\<close>: a module that was loaded can be in the state \<open>st\<close> after the threads \<open>acc\<close> were accepted. The core delivers events with
  any data; a client can connect while the event loop runs and the socket is open. \<open>E\<close> are the threads that end at some time:
  only such a thread is ever found ended.
\<close>

definition stops_clients :: "neb_event \<Rightarrow> 't broker_state \<Rightarrow> bool" where
  "stops_clients e st = (e = ProcessData EVENTLOOPEND \<and> (NEBCALLBACK_PROCESS_DATA, Broker_process) \<in> set (br_callbacks st))"

inductive module_runs :: "'t broker_state \<Rightarrow> 't set \<Rightarrow> 't broker_state \<Rightarrow> 't multiset \<Rightarrow> 't multiset \<Rightarrow> 't multiset \<Rightarrow> bool"
  for st0 :: "'t broker_state" and E :: "'t set" where
  loaded: "module_runs st0 E st0 {#} {#} {#}"
| event: "module_runs st0 E st acc gone joined \<Longrightarrow>
    module_runs st0 E (deliver env e st) acc gone (joined + (if stops_clients e st then mset (fst (shutdown_threads st)) else {#}))"
| timer: "module_runs st0 E st acc gone joined \<Longrightarrow>
    module_runs st0 E (snd (schedule_timeperiods_cache_update env normal st)) acc gone joined"
| client: "module_runs st0 E st acc gone joined \<Longrightarrow> br_eventloop st \<Longrightarrow> ms_socket st \<noteq> None \<Longrightarrow> (\<And>k t. ended k t \<Longrightarrow> t \<in> E) \<Longrightarrow>
    accept_connection now ended thr st = Some st' \<Longrightarrow>
    module_runs st0 E st' (acc + {#thr#}) (gone + (mset (ms_threads st) - mset (butlast (ms_threads st')))) joined"

section \<open>No thread is lost\<close>

lemma threads_kept:
  "ms_threads (count_event i st) = ms_threads st" "ms_threads (wake w st) = ms_threads st" "ms_threads (update_timeperiods_cache env st) = ms_threads st"
  by (simp_all add: count_event_def wake_def update_timeperiods_cache_def split: prod.splits)

lemmas broker_defs = broker_host_def broker_check_def broker_comment_def broker_downtime_def broker_log_def broker_command_def
  broker_state_change_def broker_program_def broker_program_data_def broker_process_def

lemma run_broker_threads: "\<not> (e = ProcessData EVENTLOOPEND \<and> b = Broker_process) \<Longrightarrow> ms_threads (run_broker env e b st) = ms_threads st"
  by (cases b; cases e) (auto simp: broker_defs threads_kept Let_def split: neb_event.splits process_event.splits)

lemma run_broker_empty: "ms_threads st = [] \<Longrightarrow> ms_threads (run_broker env e b st) = []"
  by (cases "e = ProcessData EVENTLOOPEND \<and> b = Broker_process")
    (auto simp: run_broker_threads broker_process_def shutdown_threads_def Let_def)

definition deliver_to :: "broker_env \<Rightarrow> neb_event \<Rightarrow> neb_callback \<times> broker \<Rightarrow> 't broker_state \<Rightarrow> 't broker_state" where
  "deliver_to env e c st = (if fst c = callback_of e then run_broker env e (snd c) st else st)"

lemma deliver_fold: "deliver env e st = fold (deliver_to env e) (br_callbacks st) st"
  unfolding deliver_def by (rule fold_cong) (auto simp: deliver_to_def split: prod.splits)

lemma deliver_to_threads:
  "\<not> (e = ProcessData EVENTLOOPEND \<and> c = (NEBCALLBACK_PROCESS_DATA, Broker_process)) \<Longrightarrow> ms_threads (deliver_to env e c st) = ms_threads st"
  by (cases c) (auto simp: deliver_to_def run_broker_threads)

lemma deliver_to_empty: "ms_threads st = [] \<Longrightarrow> ms_threads (deliver_to env e c st) = []"
  by (simp add: deliver_to_def run_broker_empty)

lemma deliver_keeps:
  assumes "\<not> stops_clients e st"
  shows "ms_threads (deliver env e st) = ms_threads st"
proof -
  have "ms_threads (fold (deliver_to env e) cs s) = ms_threads s"
    if "\<not> (e = ProcessData EVENTLOOPEND \<and> (NEBCALLBACK_PROCESS_DATA, Broker_process) \<in> set cs)" for cs and s :: "'a broker_state"
    using that
  proof (induction cs arbitrary: s)
    case (Cons c cs)
    then have "ms_threads (deliver_to env e c s) = ms_threads s" by (intro deliver_to_threads) auto
    with Cons show ?case by simp
  qed simp
  with assms show ?thesis by (simp add: deliver_fold stops_clients_def)
qed

lemma deliver_stops:
  assumes "stops_clients e st"
  shows "ms_threads (deliver env e st) = []"
proof -
  have e: "e = ProcessData EVENTLOOPEND" using assms by (simp add: stops_clients_def)
  have empty: "ms_threads (fold (deliver_to env e) cs s) = []" if "ms_threads s = []" for cs and s :: "'a broker_state"
    using that by (induction cs arbitrary: s) (simp_all add: deliver_to_empty)
  have "ms_threads (fold (deliver_to env e) cs s) = []" if "(NEBCALLBACK_PROCESS_DATA, Broker_process) \<in> set cs" for cs and s :: "'a broker_state"
    using that
  proof (induction cs arbitrary: s)
    case (Cons c cs)
    show ?case
    proof (cases "c = (NEBCALLBACK_PROCESS_DATA, Broker_process)")
      case True
      then have "ms_threads (deliver_to env e c s) = []"
        by (simp add: deliver_to_def e broker_process_def shutdown_threads_def Let_def)
      from empty [OF this] show ?thesis by simp
    qed (use Cons in simp)
  qed simp
  with assms show ?thesis by (simp add: deliver_fold stops_clients_def)
qed

text \<open>What one connection does to the array.\<close>

lemma accept_counts:
  assumes "accept_connection now ended thr st = Some st'" and "\<And>k t. ended k t \<Longrightarrow> t \<in> E"
  shows "mset (ms_threads st') = mset (butlast (ms_threads st')) + {#thr#}" and "mset (butlast (ms_threads st')) \<subseteq># mset (ms_threads st)"
    and "set_mset (mset (ms_threads st) - mset (butlast (ms_threads st'))) \<subseteq> E"
proof -
  obtain order ts' where o: "mset order = mset (ms_threads st)" "reap_loop ended 0 0 (ms_threads st) = Some ts'"
    "mset ts' = mset (survivors ended 0 order)"
    using reap_loop_ends [of 0 "ms_threads st" ended 0] by auto
  have st': "ms_threads st' = ts' @ [thr]" using assms(1) o(2) by (auto simp: accept_connection_def reap_client_threads_def Let_def)
  then show "mset (ms_threads st') = mset (butlast (ms_threads st')) + {#thr#}" by simp
  have s: "mset (survivors ended k ts) \<subseteq># mset ts \<and> set_mset (mset ts - mset (survivors ended k ts)) \<subseteq> E" for k ts
  proof (induction ts arbitrary: k)
    case (Cons t ts)
    show ?case
    proof (cases "ended k t")
      case True
      with Cons [of "k + 1"] assms(2) [of k t] show ?thesis
        by (auto simp: subset_mset.diff_add_assoc2 [of _ _ "{#t#}", simplified] subset_eq_diff_conv intro: subset_mset.order_trans)
    qed (use Cons [of "k + 1"] in simp)
  qed simp
  from s [of 0 order] show "mset (butlast (ms_threads st')) \<subseteq># mset (ms_threads st)"
    and "set_mset (mset (ms_threads st) - mset (butlast (ms_threads st'))) \<subseteq> E"
    using st' o(1,3) by simp_all
qed

lemma threads_accounted:
  assumes "module_runs st0 E st acc gone joined" and "ms_threads st0 = []"
  shows "acc = gone + joined + mset (ms_threads st) \<and> set_mset gone \<subseteq> E"
  using assms
proof (induction rule: module_runs.induct)
  case (event st acc gone joined env e)
  then show ?case
    by (cases "stops_clients e st") (simp_all add: deliver_keeps deliver_stops shutdown_threads_def close_socket_def Let_def)
next
  case (timer st acc gone joined env normal)
  then show ?case by (simp add: schedule_timeperiods_cache_update_def threads_kept Let_def)
next
  case (client st acc gone joined ended now thr st')
  let ?old = "mset (ms_threads st)" and ?kept = "mset (butlast (ms_threads st'))"
  note a = accept_counts [OF client.hyps(5) client.hyps(4)]
  have "?old = (?old - ?kept) + ?kept" using a(2) by simp
  with client.IH [OF client.prems] have "acc = gone + joined + ((?old - ?kept) + ?kept)" by simp
  moreover have "set_mset (gone + (?old - ?kept)) \<subseteq> E" using a(3) client.IH [OF client.prems] by simp
  moreover have "mset (ms_threads st') = ?kept + {#thr#}" by (rule a(1))
  ultimately show ?case by (simp add: ac_simps)
qed simp

lemma registered_callbacks: "br_callbacks (register_callbacks (loaded_module sock)) \<noteq> []" "ms_threads (register_callbacks (loaded_module sock)) = []"
  by (simp_all add: register_callbacks_def neb_register_callback_def loaded_module_def)

lemma init_result:
  assumes "nebmodule_init env sy needed args = Some (code, s, st)"
  shows "ms_threads st = []" and "code = 0 \<longleftrightarrow> br_callbacks st \<noteq> []" and "init_settings env args = Some s"
proof -
  from assms obtain z where z: "init_settings env args = Some z" by (auto simp: nebmodule_init_def)
  obtain opened li where "open_socket sy (se_use_inet_socket z) (se_socket_addr z) \<lparr> li_fd = -1, li_open = [] \<rparr> = (opened, li)"
    by (rule prod.exhaust)
  with assms z have "(if \<not> opened then (1, z, loaded_module None)
      else if \<not> verify_event_broker_options needed (- 1) then (1, z, loaded_module (Some (li_fd li)))
      else (0, z, register_callbacks (loaded_module (Some (li_fd li))))) = (code, s, st)"
    by (simp add: nebmodule_init_def)
  moreover have "ms_threads (loaded_module sock) = []" "br_callbacks (loaded_module sock) = []" for sock :: "int option"
    by (simp_all add: loaded_module_def)
  ultimately show "ms_threads st = []" and "code = 0 \<longleftrightarrow> br_callbacks st \<noteq> []" and "init_settings env args = Some s"
    using registered_callbacks z by (auto split: if_splits)
qed

text \<open>
  C35. No client thread outlives the module: however the core delivers events, the timer runs and clients connect between the loading and the unloading, every
  thread that was ever accepted was either found ended or is joined exactly once by the time
  the module is unloaded; only threads that end are taken out before. The socket is closed, and the flag that
  ends the loops of the clients is set. A module whose loading fails has no callback registered, one whose loading succeeds has.
\<close>

theorem every_client_thread_is_joined:
  assumes "nebmodule_init env sy needed args = Some (code, s, st0)" and "module_runs st0 E st acc gone joined"
    and "nebmodule_deinit st = (last_joined, st')"
  shows "(code = 0 \<longleftrightarrow> br_callbacks st0 \<noteq> []) \<and> acc = gone + joined + mset last_joined \<and> set_mset gone \<subseteq> E \<and>
    ms_threads st' = [] \<and> ms_socket st' = None \<and> ms_should_terminate st'"
proof -
  note i = init_result [OF assms(1)]
  from assms(3) have "last_joined = ms_threads st" "ms_threads st' = []" "ms_socket st' = None" "ms_should_terminate st'"
    by (auto simp: nebmodule_deinit_def shutdown_threads_def close_socket_def Let_def)
  with threads_accounted [OF assms(2) i(1)] i(2) show ?thesis by simp
qed

text \<open>The event loop starts, a client connects, and the module is unloaded while the client is still served.\<close>

definition demo_broker_env :: broker_env where
  "demo_broker_env = \<lparr> be_objects = no_objects, be_inside = (\<lambda>now tp. False), be_periods = [], be_now = 60, be_register_ok = True \<rparr>"

definition demo_loaded :: "(int \<times> settings \<times> nat broker_state) option" where
  "demo_loaded = nebmodule_init demo_module_env demo_calls [1] None"

lemma demo_loading:
  "\<exists>s. demo_loaded = Some (0, s, register_callbacks (loaded_module (Some 3)))"
proof -
  obtain s where "init_settings demo_module_env None = Some s" "\<not> se_use_inet_socket s"
    by (simp add: init_settings_def livestatus_parse_arguments_def initial_settings_def)
  then show ?thesis
    by (simp add: demo_loaded_def nebmodule_init_def open_socket_def open_unix_socket_def socket_call_def demo_calls_def verify_event_broker_options_def)
qed

lemma demo_start:
  fixes st0 :: "nat broker_state"
  assumes "st0 = register_callbacks (loaded_module (Some 3))"
  defines "st1 \<equiv> deliver demo_broker_env (ProcessData EVENTLOOPSTART) st0"
  shows "br_eventloop st1" and "ms_socket st1 = Some 3" and "ms_threads st1 = []"
  by (simp_all add: st1_def assms(1) deliver_def register_callbacks_def neb_register_callback_def loaded_module_def broker_process_def update_timeperiods_cache_def
      demo_broker_env_def Let_def split: prod.splits)

theorem every_client_thread_is_joined_witness:
  "\<exists>s st0 st joined st'. demo_loaded = Some (0, s, st0) \<and> module_runs st0 {} st {#7#} {#} {#} \<and>
     nebmodule_deinit st = (joined, st') \<and> mset joined = {#7#} \<and> ms_socket st' = None"
proof -
  let ?st0 = "register_callbacks (loaded_module (Some 3)) :: nat broker_state"
  let ?st1 = "deliver demo_broker_env (ProcessData EVENTLOOPSTART) ?st0"
  note start = demo_start [OF refl]
  obtain s where s: "demo_loaded = Some (0, s, ?st0)" using demo_loading by blast
  have one: "module_runs ?st0 {} ?st1 {#} {#} {#}"
    using module_runs.event [OF module_runs.loaded, of ?st0 "{}" demo_broker_env "ProcessData EVENTLOOPSTART"] by (simp add: stops_clients_def)
  obtain st2 where st2: "accept_connection 60 (\<lambda>_ _. False) 7 ?st1 = Some st2" "ms_threads st2 = [7]"
    by (simp add: accept_connection_def reap_client_threads_def reap_loop.simps start(3) Let_def)
  have two: "module_runs ?st0 {} st2 {#7#} {#} {#}"
    using module_runs.client [OF one start(1) _ _ st2(1)] start(2,3) st2(2) by simp
  obtain joined st' where d: "nebmodule_deinit st2 = (joined, st')" by (rule prod.exhaust)
  have "nebmodule_init demo_module_env demo_calls [1] None = Some (0, s, ?st0)" using s by (simp add: demo_loaded_def)
  from every_client_thread_is_joined [OF this two d] s two d show ?thesis by auto
qed

end
