(* ===== verification/Core_Objects.thy ===== *)
theory Core_Objects
  imports Prelude "HOL-Library.Word" Complex_Main
begin

text \<open>
  The objects of the core in memory and the columns that read a member of one (\<open>src/Column.cc\<close>, the \<open>src/Offset*Column.cc\<close> files,
  \<open>src/HostSpecialIntColumn.cc\<close>, \<open>src/HostSpecialDoubleColumn.cc\<close>, \<open>src/ServiceSpecialIntColumn.cc\<close>,
  \<open>src/ServiceSpecialDoubleColumn.cc\<close>, \<open>src/pnp4nagios.cc\<close>). The structs belong to the core: the memory is a function from the address of an object and
  the name of a member to its value, by the type it is read with, and an offset is the name of the member. A row is a null
  pointer, the address of an object, or one of the structs that the tables by group make for a member of a group,
  whose members are pointers. A column with an indirection follows one pointer first.
\<close>

section \<open>Memory\<close>

record contacts_member =
  cn_name_address :: nat
  cn_name :: string
  cn_contact :: nat

record dependency =
  dp_master :: nat
  dp_failure_options :: int
  dp_period :: "string option"
  dp_inherits_parent :: int

record daterange =
  dr_member :: "string \<Rightarrow> int"
  dr_times :: "(int \<times> int) list"

text \<open>
  Lists and trees are the objects they lead to, in order; a tree is walked in the order of the names. \<open>cm_all\<close> are the
  core's lists of all objects of a kind, and \<open>cm_find\<close> its
  functions that find an object of a kind by its name.
\<close>

record core_memory =
  cm_int :: "nat \<Rightarrow> string \<Rightarrow> int"
  cm_ulong :: "nat \<Rightarrow> string \<Rightarrow> 64 word"
  cm_time :: "nat \<Rightarrow> string \<Rightarrow> int"
  cm_timeval :: "nat \<Rightarrow> string \<Rightarrow> int \<times> int"
  cm_double :: "nat \<Rightarrow> string \<Rightarrow> real"
  cm_text :: "nat \<Rightarrow> string \<Rightarrow> string option"
  cm_ptr :: "nat \<Rightarrow> string \<Rightarrow> nat option"
  cm_list :: "nat \<Rightarrow> string \<Rightarrow> nat list"
  cm_vars :: "nat \<Rightarrow> string \<Rightarrow> (string \<times> string) list"
  cm_contacts :: "nat \<Rightarrow> string \<Rightarrow> contacts_member list"
  cm_dependencies :: "nat \<Rightarrow> string \<Rightarrow> dependency list"
  cm_days :: "nat \<Rightarrow> nat \<Rightarrow> (int \<times> int) list"
  cm_exceptions :: "nat \<Rightarrow> nat \<Rightarrow> daterange list"
  cm_all :: "string \<Rightarrow> nat list"
  cm_find :: "string \<Rightarrow> string \<Rightarrow> nat option"
  cm_find_service :: "string option \<Rightarrow> string \<Rightarrow> nat option"
  cm_macro_user :: "nat \<Rightarrow> string option"
  cm_max_user_macros :: int
  cm_interval_length :: int

datatype data_ptr = Null | At nat | Joined "(string \<times> nat) list"

text \<open>A struct that joins two objects is only read through an indirection.\<close>

fun shiftPointer :: "core_memory \<Rightarrow> string option \<Rightarrow> data_ptr \<Rightarrow> nat option" where
  "shiftPointer m indirect Null = None"
| "shiftPointer m None (At a) = Some a"
| "shiftPointer m (Some i) (At a) = cm_ptr m a i"
| "shiftPointer m None (Joined ms) = None"
| "shiftPointer m (Some i) (Joined ms) = map_of ms i"

text \<open>A value behind the pointer, or what the column answers for a null pointer.\<close>

definition behind :: "core_memory \<Rightarrow> string option \<Rightarrow> 'v \<Rightarrow> (nat \<Rightarrow> 'v) \<Rightarrow> data_ptr \<Rightarrow> 'v" where
  "behind m indirect null_value value data = (case shiftPointer m indirect data of None \<Rightarrow> null_value | Some p \<Rightarrow> value p)"

definition offset_int :: "core_memory \<Rightarrow> string \<Rightarrow> string option \<Rightarrow> data_ptr \<Rightarrow> int" where
  "offset_int m off indirect = behind m indirect 0 (\<lambda>p. cm_int m p off)"

definition text_at :: "core_memory \<Rightarrow> nat \<Rightarrow> string \<Rightarrow> string" where
  "text_at m p off = (case cm_text m p off of None \<Rightarrow> [] | Some s \<Rightarrow> s)"

definition offset_string :: "core_memory \<Rightarrow> string \<Rightarrow> string option \<Rightarrow> data_ptr \<Rightarrow> string" where
  "offset_string m off indirect = behind m indirect [] (\<lambda>p. text_at m p off)"

definition offset_time :: "core_memory \<Rightarrow> string \<Rightarrow> string option \<Rightarrow> data_ptr \<Rightarrow> int" where
  "offset_time m off indirect = behind m indirect 0 (\<lambda>p. cm_time m p off)"

definition offset_timeval :: "core_memory \<Rightarrow> string \<Rightarrow> string option \<Rightarrow> data_ptr \<Rightarrow> int \<times> int" where
  "offset_timeval m off indirect = behind m indirect (0, 0) (\<lambda>p. cm_timeval m p off)"

definition offset_double :: "core_memory \<Rightarrow> string \<Rightarrow> string option \<Rightarrow> data_ptr \<Rightarrow> real" where
  "offset_double m off indirect = behind m indirect 0 (\<lambda>p. cm_double m p off)"

text \<open>A missing time period is taken for always; a column of the period itself has no offset.\<close>

definition offset_timeperiod :: "core_memory \<Rightarrow> (nat \<Rightarrow> bool) \<Rightarrow> string option \<Rightarrow> string option \<Rightarrow> data_ptr \<Rightarrow> int" where
  "offset_timeperiod m inTimeperiod off indirect = behind m indirect 0
     (\<lambda>p. case (case off of None \<Rightarrow> Some p | Some f \<Rightarrow> cm_ptr m p f) of
             None \<Rightarrow> 1
           | Some tp \<Rightarrow> if inTimeperiod tp then 1 else 0)"

section \<open>Graphs of PNP4Nagios\<close>

definition cleanup_pnpname :: "string \<Rightarrow> string" where
  "cleanup_pnpname p = map (\<lambda>c. if c = CHR '' '' \<or> c = CHR ''/'' \<or> c = CHR 0x5C \<or> c = CHR '':'' then CHR ''_'' else c) p"

definition pnp_file :: "string \<Rightarrow> string \<Rightarrow> string option \<Rightarrow> string" where
  "pnp_file g_pnp_path host service =
     g_pnp_path @ cleanup_pnpname host @ ''/'' @
     (case service of Some s \<Rightarrow> cleanup_pnpname s @ ''.xml'' | None \<Rightarrow> ''_HOST_.xml'')"

definition pnpgraph_present :: "(string \<Rightarrow> bool) \<Rightarrow> string \<Rightarrow> string \<Rightarrow> string option \<Rightarrow> int" where
  "pnpgraph_present readable g_pnp_path host service =
     (if g_pnp_path = [] then -1
      else if 4096 < length g_pnp_path + length host + 16 + (case service of Some s \<Rightarrow> length s | None \<Rightarrow> 0) then -1
      else if readable (pnp_file g_pnp_path host service) then 1 else 0)"

text \<open>The path and its NUL fit into the buffer of 4096 bytes whenever it is written.\<close>

lemma pnp_path_fits:
  assumes "pnpgraph_present readable g_pnp_path host service \<noteq> -1"
  shows "length (pnp_file g_pnp_path host service) < 4096"
  using assms by (auto simp: pnpgraph_present_def pnp_file_def cleanup_pnpname_def split: if_splits option.splits)

section \<open>Computed columns\<close>

abbreviation (input) "HSIC_REAL_HARD_STATE \<equiv> 0 :: int"
abbreviation (input) "SIC_PNP_GRAPH_PRESENT \<equiv> 1 :: int"
abbreviation (input) "SIC_SHOULD_BE_SCHEDULED \<equiv> 2 :: int"

definition host_special_int :: "core_memory \<Rightarrow> (string \<Rightarrow> bool) \<Rightarrow> string \<Rightarrow> int \<Rightarrow> string option \<Rightarrow> data_ptr \<Rightarrow> int" where
  "host_special_int m readable pnp_path ty indirect = behind m indirect 0
     (\<lambda>hst. if ty = HSIC_REAL_HARD_STATE
            then (if cm_int m hst ''current_state'' = 0 then 0
                  else if cm_int m hst ''state_type'' = 1 then cm_int m hst ''current_state''
                  else cm_int m hst ''last_hard_state'')
            else if ty = SIC_PNP_GRAPH_PRESENT then pnpgraph_present readable pnp_path (text_at m hst ''name'') None
            else if ty = SIC_SHOULD_BE_SCHEDULED
            then (if 0 < cm_double m hst ''check_interval'' \<and> cm_int m hst ''checks_enabled'' \<noteq> 0 then 1 else 0)
            else -1)"

text \<open>Every service has a host and a check command.\<close>

definition ptr_at :: "core_memory \<Rightarrow> nat \<Rightarrow> string \<Rightarrow> nat" where
  "ptr_at m p off = the (cm_ptr m p off)"

definition service_special_int :: "core_memory \<Rightarrow> (string \<Rightarrow> bool) \<Rightarrow> string \<Rightarrow> int \<Rightarrow> string option \<Rightarrow> data_ptr \<Rightarrow> int" where
  "service_special_int m readable pnp_path ty indirect = behind m indirect 0
     (\<lambda>svc. if ty = SIC_PNP_GRAPH_PRESENT
            then pnpgraph_present readable pnp_path (text_at m (ptr_at m svc ''host_ptr'') ''name'') (Some (text_at m svc ''description''))
            else if ty = SIC_SHOULD_BE_SCHEDULED
            then (if 0 < cm_double m svc ''check_interval'' \<and> cm_int m svc ''checks_enabled'' \<noteq> 0 then 1 else 0)
            else -1)"

definition intervals_since :: "core_memory \<Rightarrow> int \<Rightarrow> real \<Rightarrow> real" where
  "intervals_since m age check_interval =
     real_of_int age / ((if check_interval = 0 then 1 else check_interval) * real_of_int (cm_interval_length m))"

definition host_staleness :: "core_memory \<Rightarrow> int \<Rightarrow> string option \<Rightarrow> data_ptr \<Rightarrow> real" where
  "host_staleness m now indirect = behind m indirect 0
     (\<lambda>hst. intervals_since m (now - cm_time m hst ''last_check'') (cm_double m hst ''check_interval''))"

definition command_of :: "core_memory \<Rightarrow> nat \<Rightarrow> string" where
  "command_of m svc = text_at m (ptr_at m svc ''check_command_ptr'') ''name''"

text \<open>
  A passive check of check-mk is as old as the interval of the service of its host that runs check-mk says. Comparing nine
  characters with \<open>check-mk\<close> compares its NUL as well.
\<close>

definition service_staleness :: "core_memory \<Rightarrow> int \<Rightarrow> string option \<Rightarrow> data_ptr \<Rightarrow> real" where
  "service_staleness m now indirect = behind m indirect 0
     (\<lambda>svc. let check_result_age = now - cm_time m svc ''last_check''
            in if has_prefix ''check_mk-'' (command_of m svc)
               then (case List.find (\<lambda>tmp_svc. command_of m tmp_svc = ''check-mk'') (cm_list m (ptr_at m svc ''host_ptr'') ''services'') of
                       Some tmp_svc \<Rightarrow> intervals_since m check_result_age (cm_double m tmp_svc ''check_interval'')
                     | None \<Rightarrow> 1)
               else intervals_since m check_result_age (cm_double m svc ''check_interval''))"

section \<open>Macros\<close>

text \<open>A name of a macro, and the text it stands for; a macro that stands for a null pointer is left as it is.\<close>

fun expandCustomVariables :: "string \<Rightarrow> (string \<times> string) list \<Rightarrow> string option" where
  "expandCustomVariables varname [] = None"
| "expandCustomVariables varname ((n, v) # custvars) =
     (if strcasecmp varname n = 0 then Some v else expandCustomVariables varname custvars)"

definition host_macros :: "(string \<times> string) list" where
  "host_macros = [(''HOSTNAME'', ''name''), (''HOSTDISPLAYNAME'', ''display_name''), (''HOSTALIAS'', ''alias''),
     (''HOSTADDRESS'', ''address''), (''HOSTOUTPUT'', ''plugin_output''), (''LONGHOSTOUTPUT'', ''long_plugin_output''),
     (''HOSTPERFDATA'', ''perf_data''), (''HOSTCHECKCOMMAND'', ''check_command'')]"

definition service_macros :: "(string \<times> string) list" where
  "service_macros = [(''SERVICEDESC'', ''description''), (''SERVICEDISPLAYNAME'', ''display_name''), (''SERVICEOUTPUT'', ''plugin_output''),
     (''LONGSERVICEOUTPUT'', ''long_plugin_output''), (''SERVICEPERFDATA'', ''perf_data''), (''SERVICECHECKCOMMAND'', ''check_command'')]"

definition user_macro :: "core_memory \<Rightarrow> string \<Rightarrow> string option" where
  "user_macro m macroname =
     (if has_prefix ''USER'' macroname
      then let n = atoi (drop 4 macroname) in if 0 < n \<and> n \<le> cm_max_user_macros m then cm_macro_user m (nat (n - 1)) else None
      else None)"

definition expandMacro :: "core_memory \<Rightarrow> nat \<Rightarrow> nat option \<Rightarrow> string \<Rightarrow> string option" where
  "expandMacro m hst svc macroname =
     (case map_of host_macros macroname of
        Some off \<Rightarrow> cm_text m hst off
      | None \<Rightarrow>
          if has_prefix ''_HOST'' macroname then expandCustomVariables (drop 5 macroname) (cm_vars m hst ''custom_variables'')
          else case svc of
                 None \<Rightarrow> user_macro m macroname
               | Some s \<Rightarrow>
                   (case map_of service_macros macroname of
                      Some off \<Rightarrow> cm_text m s off
                    | None \<Rightarrow>
                        if has_prefix ''_SERVICE'' macroname then expandCustomVariables (drop 8 macroname) (cm_vars m s ''custom_variables'')
                        else user_macro m macroname))"

text \<open>The loop of \<open>valueAsString\<close>: the text up to a dollar sign, the name up to the next, and so on.\<close>

abbreviation dollar :: char where
  "dollar \<equiv> CHR 0x24"

function expand_text :: "(string \<Rightarrow> string option) \<Rightarrow> string \<Rightarrow> string" where
  "expand_text expand scan =
     (case dropWhile (\<lambda>c. c \<noteq> dollar) scan of
        [] \<Rightarrow> scan
      | d # after \<Rightarrow>
          takeWhile (\<lambda>c. c \<noteq> dollar) scan @
          (case dropWhile (\<lambda>c. c \<noteq> dollar) after of
             [] \<Rightarrow> d # after
           | otherdollar # rest \<Rightarrow>
               (let macroname = takeWhile (\<lambda>c. c \<noteq> dollar) after
                in case expand macroname of Some r \<Rightarrow> r | None \<Rightarrow> dollar # macroname @ [dollar]) @
               expand_text expand rest))"
  by pat_completeness auto
termination
proof (relation "measure (\<lambda>(_, scan). length scan)")
  fix scan d after otherdollar rest and expand :: "string \<Rightarrow> string option"
  assume "dropWhile (\<lambda>c. c \<noteq> dollar) scan = d # after" and "dropWhile (\<lambda>c. c \<noteq> dollar) after = otherdollar # rest"
  then have "length (d # after) \<le> length scan" "length (otherdollar # rest) \<le> length after"
    by (metis length_dropWhile_le)+
  then show "((expand, rest), expand, scan) \<in> measure (\<lambda>(_, scan). length scan)" by simp
qed simp

declare expand_text.simps [simp del]

definition host_macro_text :: "core_memory \<Rightarrow> string \<Rightarrow> string option \<Rightarrow> data_ptr \<Rightarrow> string" where
  "host_macro_text m off indirect data =
     behind m indirect [] (\<lambda>hst. expand_text (expandMacro m hst None) (text_at m hst off)) data"

definition service_macro_text :: "core_memory \<Rightarrow> string \<Rightarrow> string option \<Rightarrow> data_ptr \<Rightarrow> string" where
  "service_macro_text m off indirect data =
     behind m indirect [] (\<lambda>svc. expand_text (expandMacro m (ptr_at m svc ''host_ptr'') (Some svc)) (text_at m svc off)) data"

section \<open>What is expanded\<close>

text \<open>A text as its author means it: pieces of plain text and macros.\<close>

datatype piece = Plain string | Macro string

definition no_dollar :: "string \<Rightarrow> bool" where
  "no_dollar s = (dollar \<notin> set s)"

fun piece_ok :: "piece \<Rightarrow> bool" where
  "piece_ok (Plain s) = no_dollar s"
| "piece_ok (Macro s) = no_dollar s"

fun written :: "piece \<Rightarrow> string" where
  "written (Plain s) = s"
| "written (Macro s) = dollar # s @ [dollar]"

fun replaced :: "(string \<Rightarrow> string option) \<Rightarrow> piece \<Rightarrow> string" where
  "replaced expand (Plain s) = s"
| "replaced expand (Macro s) = (case expand s of Some r \<Rightarrow> r | None \<Rightarrow> dollar # s @ [dollar])"

lemma up_to_dollar:
  assumes "no_dollar s"
  shows "takeWhile (\<lambda>c. c \<noteq> dollar) (s @ dollar # t) = s" and "dropWhile (\<lambda>c. c \<noteq> dollar) (s @ dollar # t) = dollar # t"
    and "takeWhile (\<lambda>c. c \<noteq> dollar) s = s" and "dropWhile (\<lambda>c. c \<noteq> dollar) s = []"
  using assms unfolding no_dollar_def by (auto simp: takeWhile_append dropWhile_append takeWhile_eq_all_conv)

lemma expand_plain_macro:
  "no_dollar s \<Longrightarrow> no_dollar name \<Longrightarrow>
   expand_text expand (s @ written (Macro name) @ rest) = s @ replaced expand (Macro name) @ expand_text expand rest"
  by (subst expand_text.simps) (simp add: up_to_dollar Let_def split: option.split)

lemma expand_no_dollar: "no_dollar s \<Longrightarrow> expand_text expand s = s"
  by (subst expand_text.simps) (simp add: up_to_dollar)

lemma expand_unfinished: "no_dollar s \<Longrightarrow> no_dollar t \<Longrightarrow> expand_text expand (s @ dollar # t) = s @ dollar # t"
  by (subst expand_text.simps) (simp add: up_to_dollar)

lemma expand_pieces:
  assumes "list_all piece_ok ps" and "no_dollar s" and "rest = [] \<or> (\<exists>t. rest = dollar # t \<and> no_dollar t)"
  shows "expand_text expand (s @ concat (map written ps) @ rest) = s @ concat (map (replaced expand) ps) @ rest"
  using assms
proof (induction ps arbitrary: s)
  case Nil
  then show ?case by (auto simp: expand_no_dollar expand_unfinished)
next
  case (Cons p ps)
  show ?case
  proof (cases p)
    case (Plain t)
    with Cons.prems Cons.IH [of "s @ t"] show ?thesis by (simp add: no_dollar_def)
  next
    case (Macro name)
    with Cons.prems Cons.IH [of "[]"] show ?thesis
      using expand_plain_macro [of s name expand "concat (map written ps) @ rest"] by (simp add: no_dollar_def)
  qed
qed

text \<open>
  C40. A column with macros expands exactly the macros of its text: whatever pieces of plain text and macros the text is made
  of, each macro is replaced by what it stands for on the host or service of the row, a macro that stands for nothing is left as it
  is written, and so is a dollar sign that is not closed. What a macro stands for is not expanded again, and filters
  and the order of the rows look at the text as it was written.
\<close>

theorem macros_are_expanded_piecewise:
  assumes "cm_text m svc off = Some (concat (map written ps) @ rest)" and "list_all piece_ok ps"
    and "rest = [] \<or> (\<exists>t. rest = dollar # t \<and> no_dollar t)"
  shows "service_macro_text m off None (At svc) =
       concat (map (replaced (expandMacro m (ptr_at m svc ''host_ptr'') (Some svc))) ps) @ rest \<and>
     host_macro_text m off None (At svc) = concat (map (replaced (expandMacro m svc None)) ps) @ rest \<and>
     offset_string m off None (At svc) = concat (map written ps) @ rest"
  using expand_pieces [OF assms(2) _ assms(3), of "[]"] assms(1)
  by (simp add: service_macro_text_def host_macro_text_def offset_string_def behind_def text_at_def no_dollar_def)

definition blank_memory :: core_memory where
  "blank_memory =
     \<lparr> cm_int = (\<lambda>a f. 0), cm_ulong = (\<lambda>a f. 0), cm_time = (\<lambda>a f. 0), cm_timeval = (\<lambda>a f. (0, 0)), cm_double = (\<lambda>a f. 0),
       cm_text = (\<lambda>a f. None), cm_ptr = (\<lambda>a f. None), cm_list = (\<lambda>a f. []), cm_vars = (\<lambda>a f. []), cm_contacts = (\<lambda>a f. []),
       cm_dependencies = (\<lambda>a f. []), cm_days = (\<lambda>a d. []), cm_exceptions = (\<lambda>a k. []), cm_all = (\<lambda>k. []),
       cm_find = (\<lambda>k n. None), cm_find_service = (\<lambda>h d. None),
       cm_macro_user = (\<lambda>n. None), cm_max_user_macros = 256, cm_interval_length = 60 \<rparr>"

definition demo_memory :: core_memory where
  "demo_memory = blank_memory\<lparr>
     cm_text := (\<lambda>a f. if a = 7 \<and> f = ''notes'' then Some ''see $HOSTNAME$ and $X$ for 5$'' else if a = 3 \<and> f = ''name'' then Some ''web'' else None),
     cm_ptr := (\<lambda>a f. if a = 7 \<and> f = ''host_ptr'' then Some 3 else None) \<rparr>"

theorem macros_are_expanded_piecewise_witness:
  "service_macro_text demo_memory ''notes'' None (At 7) = ''see web and $X$ for 5$''"
proof -
  let ?ps = "[Plain ''see '', Macro ''HOSTNAME'', Plain '' and '', Macro ''X'', Plain '' for 5'']"
  have "cm_text demo_memory 7 ''notes'' = Some (concat (map written ?ps) @ [dollar])" by (simp add: demo_memory_def)
  from macros_are_expanded_piecewise [OF this] show ?thesis
    by (simp add: no_dollar_def) (simp add: expandMacro_def host_macros_def service_macros_def user_macro_def ptr_at_def demo_memory_def has_prefix_def)
qed

end
