(* ===== verification/Core_Columns.thy ===== *)
theory Core_Columns
  imports Core_Objects Filters State_Columns Downtimes Timeperiods Event_Broker
begin

text \<open>
  The columns of the tables of the core's objects, by class (the remaining \<open>src/*Column.cc\<close> files): lists of groups,
  commands and contacts, the dependencies, the days and exceptions of a time period, and the variables of the program. A
  declaration is the call of a constructor as the tables write it, with its offset and its indirection; \<open>declared_column\<close>
  is the column it makes. The state columns of services and hosts are those of \<open>State_Columns\<close>, which shows that the cache of the query
  does not change them; the objects the user of the query may not see are left out of their lists first.
\<close>

record core_view =
  vw_memory :: core_memory
  vw_now :: int
  vw_pnp_path :: string
  vw_readable :: "string \<Rightarrow> bool"
  vw_periods :: tp_cache
  vw_downtimes :: down_comm_table
  vw_comments :: down_comm_table
  vw_contacts :: core_contacts
  vw_service_authorization :: auth_mode
  vw_auth_user :: "auth_user option"
  vw_counters :: counters
  vw_int_variable :: "string \<Rightarrow> int"
  vw_time_variable :: "string \<Rightarrow> int"
  vw_text_variable :: "string \<Rightarrow> string"

definition sees_host :: "core_view \<Rightarrow> nat \<Rightarrow> bool" where
  "sees_host vw h =
     (case vw_auth_user vw of None \<Rightarrow> True | Some u \<Rightarrow> host_authorized (vw_contacts vw) (vw_service_authorization vw) u h)"

definition sees_service :: "core_view \<Rightarrow> nat \<Rightarrow> bool" where
  "sees_service vw s =
     (case vw_auth_user vw of None \<Rightarrow> True
      | Some u \<Rightarrow> service_authorized (vw_contacts vw) (vw_service_authorization vw) (\<lambda>s. cm_ptr (vw_memory vw) s ''host_ptr'') u s)"

section \<open>Lists of objects\<close>

text \<open>
  Groups, commands and excluded periods: the list at the offset, the name of each object and the function of the core
  that finds an object by the text of a filter.
\<close>

definition object_list :: "core_view \<Rightarrow> string \<Rightarrow> string \<Rightarrow> string option \<Rightarrow> data_ptr \<Rightarrow> (nat \<times> string) list option" where
  "object_list vw member off indirect data =
     map_option (\<lambda>p. map (\<lambda>a. (a, text_at (vw_memory vw) a member)) (cm_list (vw_memory vw) p off)) (shiftPointer (vw_memory vw) indirect data)"

definition object_list_column :: "core_view \<Rightarrow> string \<Rightarrow> string \<Rightarrow> string \<Rightarrow> string \<Rightarrow> string option \<Rightarrow> data_ptr column" where
  "object_list_column vw kind member name off indirect =
     ListColumn name (cm_find (vw_memory vw) kind) (object_list vw member off indirect)"

definition host_member_of :: "core_memory \<Rightarrow> nat \<Rightarrow> host_member" where
  "host_member_of m h = \<lparr> hm_name = text_at m h ''name'', hm_state = cm_int m h ''current_state'',
     hm_has_been_checked = cm_int m h ''has_been_checked'' \<rparr>"

definition svc_member_of :: "core_memory \<Rightarrow> nat \<Rightarrow> svc_member" where
  "svc_member_of m s = \<lparr> sm_host_name = text_at m s ''host_name'', sm_description = text_at m s ''description'',
     sm_state = cm_int m s ''current_state'', sm_has_been_checked = cm_int m s ''has_been_checked'',
     sm_plugin_output = text_at m s ''plugin_output'' \<rparr>"

definition svc_row_of :: "core_memory \<Rightarrow> nat \<Rightarrow> svc_row" where
  "svc_row_of m s = \<lparr> sv_current_state = cm_int m s ''current_state'', sv_last_hard_state = cm_int m s ''last_hard_state'',
     sv_has_been_checked = (cm_int m s ''has_been_checked'' \<noteq> 0) \<rparr>"

definition hst_row_of :: "core_memory \<Rightarrow> nat \<Rightarrow> hst_row" where
  "hst_row_of m h = \<lparr> hs_current_state = cm_int m h ''current_state'', hs_has_been_checked = (cm_int m h ''has_been_checked'' \<noteq> 0),
     hs_services = h \<rparr>"

definition visible_services :: "core_view \<Rightarrow> string \<Rightarrow> nat \<Rightarrow> svc_row list" where
  "visible_services vw off p = map (svc_row_of (vw_memory vw)) (filter (sees_service vw) (cm_list (vw_memory vw) p off))"

definition visible_hosts :: "core_view \<Rightarrow> string \<Rightarrow> nat \<Rightarrow> hst_row list" where
  "visible_hosts vw off p = map (hst_row_of (vw_memory vw)) (filter (sees_host vw) (cm_list (vw_memory vw) p off))"

definition servicelist_state :: "core_view \<Rightarrow> int \<Rightarrow> string \<Rightarrow> string option \<Rightarrow> data_ptr \<Rightarrow> int" where
  "servicelist_state vw logictype off indirect data =
     (case shiftPointer (vw_memory vw) indirect data of
        None \<Rightarrow> sa_get no_services logictype
      | Some p \<Rightarrow> fst (servicelist_state_value (\<lambda>_. True) (visible_services vw off) logictype Map.empty p))"

definition hostlist_state :: "core_view \<Rightarrow> int \<Rightarrow> string \<Rightarrow> string option \<Rightarrow> data_ptr \<Rightarrow> int" where
  "hostlist_state vw logictype off indirect data =
     (case shiftPointer (vw_memory vw) indirect data of
        None \<Rightarrow> 0
      | Some p \<Rightarrow> fst (hostlist_state_value (\<lambda>_. True) (visible_services vw ''services'') (\<lambda>_. True) (visible_hosts vw off)
                        logictype (Map.empty, Map.empty) p))"

section \<open>Contacts\<close>

text \<open>
  The contacts of a host or a service are its own and those of its contact groups, sorted by the addresses of their names
  (the comparison is one of pointers) and with neighbours for the same contact merged. Whether one is a contact is
  what the core says. The test for no contacts follows the indirection a second time.
\<close>

fun unique_contacts :: "contacts_member list \<Rightarrow> contacts_member list" where
  "unique_contacts [] = []"
| "unique_contacts [c] = [c]"
| "unique_contacts (c # d # cs) =
     (if cn_contact c = cn_contact d then unique_contacts (c # cs) else c # unique_contacts (d # cs))"

definition all_contacts :: "core_memory \<Rightarrow> nat \<Rightarrow> contacts_member list" where
  "all_contacts m p = cm_contacts m p ''contacts'' @ concat (map (\<lambda>g. cm_contacts m g ''members'') (cm_list m p ''contact_groups''))"

definition merged_contacts :: "core_memory \<Rightarrow> nat \<Rightarrow> contacts_member list" where
  "merged_contacts m p = unique_contacts (sort_key cn_name_address (all_contacts m p))"

definition no_contacts :: "core_memory \<Rightarrow> string option \<Rightarrow> nat \<Rightarrow> bool" where
  "no_contacts m indirect p =
     (case shiftPointer m indirect (At p) of
        None \<Rightarrow> True
      | Some q \<Rightarrow> cm_contacts m q ''contacts'' = [] \<and> cm_list m q ''contact_groups'' = [])"

definition contacts_column :: "core_view \<Rightarrow> (nat \<Rightarrow> nat \<Rightarrow> bool) \<Rightarrow> string \<Rightarrow> string option \<Rightarrow> data_ptr column" where
  "contacts_column vw isNagiosMember name indirect =
     (let m = vw_memory vw
      in StructColumn name COLTYPE_LIST
           (Some (\<lambda>opid text data. case shiftPointer m indirect data of None \<Rightarrow> False
              | Some p \<Rightarrow> list_test opid text (case cm_find m ''contact'' text of None \<Rightarrow> False | Some c \<Rightarrow> isNagiosMember p c) (no_contacts m indirect p)))
           (\<lambda>data. Shown_list (map (\<lambda>c. Shown_text (cn_name c))
              (case shiftPointer m indirect data of None \<Rightarrow> [] | Some p \<Rightarrow> merged_contacts m p))))"

definition group_contact :: "core_memory \<Rightarrow> nat \<Rightarrow> nat \<Rightarrow> bool" where
  "group_contact m cg ctc = list_ex (\<lambda>c. cn_contact c = ctc) (cm_contacts m cg ''members'')"

definition contactgroup_members_column :: "core_view \<Rightarrow> string \<Rightarrow> string option \<Rightarrow> data_ptr column" where
  "contactgroup_members_column vw name indirect =
     (let m = vw_memory vw
      in StructColumn name COLTYPE_LIST
           (Some (\<lambda>opid text data. case shiftPointer m indirect data of None \<Rightarrow> False
              | Some p \<Rightarrow> list_test opid text (case cm_find m ''contact'' text of None \<Rightarrow> False | Some c \<Rightarrow> group_contact m p c)
                           (\<not> list_ex (group_contact m p) (cm_all m ''contact''))))
           (\<lambda>data. Shown_list (map (\<lambda>c. Shown_text (text_at m c ''name''))
              (case shiftPointer m indirect data of None \<Rightarrow> [] | Some p \<Rightarrow> filter (group_contact m p) (cm_all m ''contact'')))))"

section \<open>Dependencies\<close>

text \<open>
  A dependency is printed by the object it depends on, when the user may see it. The filter looks at all of them; for a
  service its reference is cut at the separator, and only a reference without a description is the test for the empty list.
\<close>

definition dependency_info :: "bool \<Rightarrow> dependency \<Rightarrow> printed list" where
  "dependency_info with_info d =
     (if with_info
      then [Shown_int64 (dp_failure_options d), Shown_text (case dp_period d of None \<Rightarrow> [] | Some p \<Rightarrow> p), Shown_int64 (dp_inherits_parent d)]
      else [])"

definition dependencies_at :: "core_view \<Rightarrow> string \<Rightarrow> string option \<Rightarrow> data_ptr \<Rightarrow> dependency list" where
  "dependencies_at vw off indirect = behind (vw_memory vw) indirect [] (\<lambda>p. cm_dependencies (vw_memory vw) p off)"

definition dependency_test :: "int \<Rightarrow> string \<Rightarrow> bool \<Rightarrow> bool \<Rightarrow> bool" where
  "dependency_test opid ref is_empty is_mem =
     (if (opid = OP_EQUAL \<or> opid = - OP_EQUAL) \<and> ref = [] then is_empty = (opid = OP_EQUAL)
      else if opid = - OP_LESS then is_mem
      else if opid = OP_LESS then \<not> is_mem
      else True)"

definition host_dependency_accepts :: "core_memory \<Rightarrow> int \<Rightarrow> string \<Rightarrow> dependency list \<Rightarrow> bool" where
  "host_dependency_accepts m opid text ds =
     dependency_test opid text (ds = []) (list_ex (\<lambda>d. text_at m (dp_master d) ''name'' = text) ds)"

definition service_dependency_accepts :: "core_memory \<Rightarrow> int \<Rightarrow> string \<Rightarrow> dependency list \<Rightarrow> bool" where
  "service_dependency_accepts m opid text ds =
     (let (ref_host, ref_service) = servicelist_ref True opid text
      in dependency_test opid ref_service (ds = [])
           (list_ex (\<lambda>d. text_at m (dp_master d) ''host_name'' = ref_host \<and> text_at m (dp_master d) ''description'' = ref_service) ds))"

definition host_dependency_column :: "core_view \<Rightarrow> string \<Rightarrow> string \<Rightarrow> string option \<Rightarrow> bool \<Rightarrow> data_ptr column" where
  "host_dependency_column vw name off indirect with_info =
     (let m = vw_memory vw
      in StructColumn name COLTYPE_LIST
           (Some (\<lambda>opid text data. host_dependency_accepts m opid text (dependencies_at vw off indirect data)))
           (\<lambda>data. Shown_list (map
              (\<lambda>d. let hst = Shown_text (text_at m (dp_master d) ''name'')
                   in if with_info then Shown_sublist (hst # dependency_info True d) else hst)
              (filter (\<lambda>d. sees_host vw (dp_master d)) (dependencies_at vw off indirect data)))))"

definition service_dependency_column :: "core_view \<Rightarrow> string \<Rightarrow> string \<Rightarrow> string option \<Rightarrow> bool \<Rightarrow> data_ptr column" where
  "service_dependency_column vw name off indirect with_info =
     (let m = vw_memory vw
      in StructColumn name COLTYPE_LIST
           (Some (\<lambda>opid text data. service_dependency_accepts m opid text (dependencies_at vw off indirect data)))
           (\<lambda>data. Shown_list (map
              (\<lambda>d. Shown_sublist ([Shown_text (text_at m (dp_master d) ''host_name''), Shown_text (text_at m (dp_master d) ''description'')] @
                                 dependency_info with_info d))
              (filter (\<lambda>d. sees_service vw (dp_master d)) (dependencies_at vw off indirect data)))))"

section \<open>Time periods\<close>

text \<open>The days and the exceptions of a time period cannot be searched: a filter accepts every row or none.\<close>

definition period_test :: "int \<Rightarrow> string \<Rightarrow> data_ptr \<Rightarrow> bool" where
  "period_test opid text data = (opid < 0)"

definition shown_ranges :: "(int \<times> int) list \<Rightarrow> printed" where
  "shown_ranges rs = Shown_sublist (concat (map (\<lambda>(range_start, range_end). [Shown_int range_start, Shown_int range_end]) rs))"

definition timeperiod_days_column :: "core_view \<Rightarrow> string \<Rightarrow> string option \<Rightarrow> data_ptr column" where
  "timeperiod_days_column vw name indirect =
     StructColumn name COLTYPE_LIST (Some period_test)
       (behind (vw_memory vw) indirect Shown_nothing (\<lambda>tp. Shown_list (map (\<lambda>day. shown_ranges (cm_days (vw_memory vw) tp day)) [0..<7])))"

definition exception_members :: "nat \<Rightarrow> string list" where
  "exception_members kind =
     (if kind = 0 then [''syear'', ''smon'', ''smday'', ''eyear'', ''emon'', ''emday'']
      else if kind = 1 then [''smon'', ''smday'', ''emon'', ''emday'']
      else if kind = 2 then [''smday'', ''emday'']
      else if kind = 3 then [''smon'', ''swday'', ''swday_offset'', ''emon'', ''ewday'', ''ewday_offset'']
      else if kind = 4 then [''swday'', ''swday_offset'', ''ewday'', ''ewday_offset'']
      else []) @ [''skip_interval'']"

definition timeperiod_exceptions_column :: "core_view \<Rightarrow> string \<Rightarrow> string option \<Rightarrow> nat \<Rightarrow> data_ptr column" where
  "timeperiod_exceptions_column vw name indirect kind =
     StructColumn name COLTYPE_LIST (Some period_test)
       (behind (vw_memory vw) indirect Shown_nothing
         (\<lambda>tp. Shown_list (map
            (\<lambda>dr. Shown_dict (map (\<lambda>f. (f, Shown_int (dr_member dr f))) (exception_members kind) @ [(''times'', shown_ranges (dr_times dr))]))
            (cm_exceptions (vw_memory vw) tp kind))))"

section \<open>Other columns\<close>

definition custom_variable :: "core_view \<Rightarrow> string \<Rightarrow> string option \<Rightarrow> string \<Rightarrow> data_ptr \<Rightarrow> string" where
  "custom_variable vw off indirect varname =
     behind (vw_memory vw) indirect []
       (\<lambda>p. case map_of (cm_vars (vw_memory vw) p off) varname of Some v \<Rightarrow> v | None \<Rightarrow> [])"

text \<open>A counter of the module or its rate; it can be printed, but neither filtered nor summed up.\<close>

definition counter_column :: "core_view \<Rightarrow> string \<Rightarrow> nat \<Rightarrow> bool \<Rightarrow> data_ptr column" where
  "counter_column vw name counter_index do_average =
     StructColumn name (if do_average then COLTYPE_DOUBLE else COLTYPE_INT) None
       (\<lambda>data. if do_average then Shown_double (ct_rates (vw_counters vw) ! counter_index)
               else Shown_ulong (ct_values (vw_counters vw) ! counter_index))"

section \<open>Declarations\<close>

datatype column_decl =
    OffsetInt string string "string option"
  | OffsetString string string "string option"
  | OffsetTime string string "string option"
  | OffsetTimeVal string string "string option"
  | OffsetDouble string string "string option"
  | OffsetTimeperiod string "string option" "string option"
  | OffsetStringHostMacro string string "string option"
  | OffsetStringServiceMacro string string "string option"
  | Attributelist string string "string option" bool
  | CustomVars string string "string option" cvt
  | CustomVarsExplicit string string "string option" string
  | Hostlist string string "string option" bool
  | Servicelist string string "string option" bool nat
  | ServicelistState string int string "string option"
  | HostlistState string int string "string option"
  | HostSpecialInt string int "string option"
  | ServiceSpecialInt string int "string option"
  | HostStaleness string "string option"
  | ServiceStaleness string "string option"
  | DownComm string "string option" bool bool
  | HostContacts string "string option"
  | ServiceContacts string "string option"
  | ContactgroupsMember string "string option"
  | Hostgroups string string "string option"
  | Servicegroups string string "string option"
  | Contactgroups string string "string option"
  | CommandsMember string string "string option"
  | TimeperiodExclusion string string "string option"
  | HostlistDependency string string "string option" bool
  | ServicelistDependency string string "string option" bool
  | TimeperiodDays string "string option"
  | TimeperiodExceptions string "string option" nat
  | GlobalCounters string nat bool
  | IntPointer string string
  | TimePointer string string
  | StringPointer string string

fun declared_column :: "core_view \<Rightarrow> column_decl \<Rightarrow> data_ptr column" where
  "declared_column vw (OffsetInt n off i) = IntColumn n (offset_int (vw_memory vw) off i)"
| "declared_column vw (OffsetString n off i) = StringColumn n (offset_string (vw_memory vw) off i)"
| "declared_column vw (OffsetTime n off i) = TimeColumn n (offset_time (vw_memory vw) off i)"
| "declared_column vw (OffsetTimeVal n off i) = TimeValColumn n (offset_timeval (vw_memory vw) off i)"
| "declared_column vw (OffsetDouble n off i) = DoubleColumn n (offset_double (vw_memory vw) off i)"
| "declared_column vw (OffsetTimeperiod n off i) =
     IntColumn n (offset_timeperiod (vw_memory vw) (\<lambda>tp. inTimeperiod tp (vw_periods vw)) off i)"
| "declared_column vw (OffsetStringHostMacro n off i) = MacroColumn n (offset_string (vw_memory vw) off i) (host_macro_text (vw_memory vw) off i)"
| "declared_column vw (OffsetStringServiceMacro n off i) =
     MacroColumn n (offset_string (vw_memory vw) off i) (service_macro_text (vw_memory vw) off i)"
| "declared_column vw (Attributelist n off i show_list) =
     AttributelistColumn n show_list (behind (vw_memory vw) i 0 (\<lambda>p. cm_ulong (vw_memory vw) p off))"
| "declared_column vw (CustomVars n off i what) = CustomVarsColumn n what (behind (vw_memory vw) i [] (\<lambda>p. cm_vars (vw_memory vw) p off))"
| "declared_column vw (CustomVarsExplicit n off i varname) = StringColumn n (custom_variable vw off i varname)"
| "declared_column vw (Hostlist n off i show_state) =
     HostlistColumn n show_state (behind (vw_memory vw) i [] (\<lambda>p. map (host_member_of (vw_memory vw)) (cm_list (vw_memory vw) p off)))"
| "declared_column vw (Servicelist n off i show_host info_depth) =
     ServicelistColumn n show_host info_depth
       (behind (vw_memory vw) i [] (\<lambda>p. map (svc_member_of (vw_memory vw)) (cm_list (vw_memory vw) p off)))"
| "declared_column vw (ServicelistState n logictype off i) = IntColumn n (servicelist_state vw logictype off i)"
| "declared_column vw (HostlistState n logictype off i) = IntColumn n (hostlist_state vw logictype off i)"
| "declared_column vw (HostSpecialInt n ty i) = IntColumn n (host_special_int (vw_memory vw) (vw_readable vw) (vw_pnp_path vw) ty i)"
| "declared_column vw (ServiceSpecialInt n ty i) = IntColumn n (service_special_int (vw_memory vw) (vw_readable vw) (vw_pnp_path vw) ty i)"
| "declared_column vw (HostStaleness n i) = DoubleColumn n (host_staleness (vw_memory vw) (vw_now vw) i)"
| "declared_column vw (ServiceStaleness n i) = DoubleColumn n (service_staleness (vw_memory vw) (vw_now vw) i)"
| "declared_column vw (DownComm n i is_downtime with_info) =
     down_comm_column n with_info (if is_downtime then vw_downtimes vw else vw_comments vw) (shiftPointer (vw_memory vw) i)"
| "declared_column vw (HostContacts n i) =
     contacts_column vw (\<lambda>h c. contact_for_host (vw_contacts vw) (Some h) c) n i"
| "declared_column vw (ServiceContacts n i) = contacts_column vw (contact_for_service (vw_contacts vw)) n i"
| "declared_column vw (ContactgroupsMember n i) = contactgroup_members_column vw n i"
| "declared_column vw (Hostgroups n off i) = object_list_column vw ''hostgroup'' ''group_name'' n off i"
| "declared_column vw (Servicegroups n off i) = object_list_column vw ''servicegroup'' ''group_name'' n off i"
| "declared_column vw (Contactgroups n off i) = object_list_column vw ''contactgroup'' ''group_name'' n off i"
| "declared_column vw (CommandsMember n off i) = object_list_column vw ''command'' ''name'' n off i"
| "declared_column vw (TimeperiodExclusion n off i) = object_list_column vw ''timeperiod'' ''name'' n off i"
| "declared_column vw (HostlistDependency n off i with_info) = host_dependency_column vw n off i with_info"
| "declared_column vw (ServicelistDependency n off i with_info) = service_dependency_column vw n off i with_info"
| "declared_column vw (TimeperiodDays n i) = timeperiod_days_column vw n i"
| "declared_column vw (TimeperiodExceptions n i kind) = timeperiod_exceptions_column vw n i kind"
| "declared_column vw (GlobalCounters n counter do_average) = counter_column vw n counter do_average"
| "declared_column vw (IntPointer n v) = IntColumn n (\<lambda>_. vw_int_variable vw v)"
| "declared_column vw (TimePointer n v) = TimeColumn n (\<lambda>_. vw_time_variable vw v)"
| "declared_column vw (StringPointer n v) = StringColumn n (\<lambda>_. vw_text_variable vw v)"

end
