(* ===== verification/Core_Tables.thy ===== *)
theory Core_Tables
  imports Core_Columns
begin

text \<open>
  The tables of the objects of the core and of the program (\<open>addColumns\<close>, the constructors and the \<open>answerQuery\<close> of the \<open>src/Table*.cc\<close>
  files): the columns each declares, with a prefix for their names and an indirection, its natural order, the tables that
  join others, and the rows it offers to a query. What a member is called in the struct of the core is its offset. The numbers
  are those of the headers: the state columns have the numbers of \<open>State_Columns\<close>, the counters those of
  \<open>Counters\<close>, and the kinds of exceptions of a time period those of the core.
\<close>

section \<open>Declared columns\<close>

text \<open>Hosts.\<close>

definition host_columns1 :: "string \<Rightarrow> string option \<Rightarrow> column_decl list" where
  "host_columns1 prefix ind =
     [OffsetInt (prefix @ ''id'') ''id'' ind,
      OffsetString (prefix @ ''name'') ''name'' ind,
      OffsetString (prefix @ ''display_name'') ''display_name'' ind,
      OffsetString (prefix @ ''alias'') ''alias'' ind,
      OffsetString (prefix @ ''address'') ''address'' ind,
      OffsetString (prefix @ ''check_command'') ''check_command'' ind,
      OffsetInt (prefix @ ''check_timeout'') ''check_timeout'' ind,
      OffsetString (prefix @ ''event_handler'') ''event_handler'' ind,
      OffsetString (prefix @ ''notification_period'') ''notification_period'' ind,
      OffsetString (prefix @ ''check_period'') ''check_period'' ind,
      OffsetString (prefix @ ''notes'') ''notes'' ind,
      OffsetStringHostMacro (prefix @ ''notes_expanded'') ''notes'' ind,
      OffsetString (prefix @ ''notes_url'') ''notes_url'' ind,
      OffsetStringHostMacro (prefix @ ''notes_url_expanded'') ''notes_url'' ind,
      OffsetString (prefix @ ''action_url'') ''action_url'' ind,
      OffsetStringHostMacro (prefix @ ''action_url_expanded'') ''action_url'' ind,
      OffsetString (prefix @ ''plugin_output'') ''plugin_output'' ind,
      OffsetString (prefix @ ''perf_data'') ''perf_data'' ind,
      OffsetString (prefix @ ''icon_image'') ''icon_image'' ind,
      OffsetStringHostMacro (prefix @ ''icon_image_expanded'') ''icon_image'' ind,
      OffsetString (prefix @ ''icon_image_alt'') ''icon_image_alt'' ind,
      OffsetString (prefix @ ''statusmap_image'') ''statusmap_image'' ind,
      OffsetString (prefix @ ''long_plugin_output'') ''long_plugin_output'' ind,
      OffsetInt (prefix @ ''notified_on'') ''notified_on'' ind,
      OffsetInt (prefix @ ''initial_state'') ''initial_state'' ind,
      OffsetInt (prefix @ ''max_check_attempts'') ''max_attempts'' ind,
      OffsetInt (prefix @ ''flap_detection_enabled'') ''flap_detection_enabled'' ind,
      OffsetInt (prefix @ ''check_freshness'') ''check_freshness'' ind,
      OffsetInt (prefix @ ''process_performance_data'') ''process_performance_data'' ind,
      OffsetInt (prefix @ ''accept_passive_checks'') ''accept_passive_checks'' ind,
      OffsetInt (prefix @ ''event_handler_enabled'') ''event_handler_enabled'' ind,
      OffsetInt (prefix @ ''acknowledgement_type'') ''acknowledgement_type'' ind,
      OffsetInt (prefix @ ''check_type'') ''check_type'' ind,
      OffsetInt (prefix @ ''last_state'') ''last_state'' ind,
      OffsetInt (prefix @ ''last_hard_state'') ''last_hard_state'' ind,
      OffsetInt (prefix @ ''current_attempt'') ''current_attempt'' ind,
      OffsetTime (prefix @ ''last_notification'') ''last_notification'' ind,
      OffsetTime (prefix @ ''next_notification'') ''next_notification'' ind,
      OffsetTime (prefix @ ''next_check'') ''next_check'' ind,
      OffsetTime (prefix @ ''last_hard_state_change'') ''last_hard_state_change'' ind,
      OffsetTimeVal (prefix @ ''last_update'') ''last_update'' ind,
      OffsetInt (prefix @ ''has_been_checked'') ''has_been_checked'' ind,
      OffsetInt (prefix @ ''hourly_value'') ''hourly_value'' ind,
      OffsetInt (prefix @ ''current_notification_number'') ''current_notification_number'' ind,
      OffsetInt (prefix @ ''pending_flex_downtime'') ''pending_flex_downtime'' ind,
      OffsetInt (prefix @ ''total_services'') ''total_services'' ind,
      OffsetInt (prefix @ ''checks_enabled'') ''checks_enabled'' ind,
      OffsetString (prefix @ ''check_source'') ''check_source'' ind,
      OffsetInt (prefix @ ''notifications_enabled'') ''notifications_enabled'' ind,
      OffsetInt (prefix @ ''acknowledged'') ''problem_has_been_acknowledged'' ind,
      OffsetInt (prefix @ ''state'') ''current_state'' ind,
      OffsetInt (prefix @ ''state_type'') ''state_type'' ind,
      OffsetInt (prefix @ ''no_more_notifications'') ''no_more_notifications'' ind,
      OffsetInt (prefix @ ''check_flapping_recovery_notification'') ''check_flapping_recovery_notification'' ind,
      OffsetTime (prefix @ ''last_check'') ''last_check'' ind,
      OffsetTime (prefix @ ''last_state_change'') ''last_state_change'' ind,
      HostSpecialInt (prefix @ ''should_be_scheduled'') 2 ind,
      OffsetTime (prefix @ ''last_time_up'') ''last_time_up'' ind,
      OffsetTime (prefix @ ''last_time_down'') ''last_time_down'' ind,
      OffsetTime (prefix @ ''last_time_unreachable'') ''last_time_unreachable'' ind,
      OffsetInt (prefix @ ''is_flapping'') ''is_flapping'' ind,
      OffsetInt (prefix @ ''scheduled_downtime_depth'') ''scheduled_downtime_depth'' ind,
      OffsetInt (prefix @ ''is_executing'') ''is_executing'' ind,
      OffsetInt (prefix @ ''active_checks_enabled'') ''checks_enabled'' ind,
      OffsetInt (prefix @ ''check_options'') ''check_options'' ind,
      OffsetInt (prefix @ ''obsess_over_host'') ''obsess'' ind,
      OffsetInt (prefix @ ''obsess'') ''obsess'' ind,
      Attributelist (prefix @ ''modified_attributes'') ''modified_attributes'' ind False,
      Attributelist (prefix @ ''modified_attributes_list'') ''modified_attributes'' ind True]"

definition host_columns2 :: "string \<Rightarrow> string option \<Rightarrow> column_decl list" where
  "host_columns2 prefix ind =
     [OffsetDouble (prefix @ ''check_interval'') ''check_interval'' ind,
      OffsetDouble (prefix @ ''retry_interval'') ''retry_interval'' ind,
      OffsetDouble (prefix @ ''notification_interval'') ''notification_interval'' ind,
      OffsetDouble (prefix @ ''first_notification_delay'') ''first_notification_delay'' ind,
      OffsetDouble (prefix @ ''low_flap_threshold'') ''low_flap_threshold'' ind,
      OffsetDouble (prefix @ ''high_flap_threshold'') ''high_flap_threshold'' ind,
      OffsetDouble (prefix @ ''x_3d'') ''x_3d'' ind,
      OffsetDouble (prefix @ ''y_3d'') ''y_3d'' ind,
      OffsetDouble (prefix @ ''z_3d'') ''z_3d'' ind,
      OffsetDouble (prefix @ ''latency'') ''latency'' ind,
      OffsetDouble (prefix @ ''execution_time'') ''execution_time'' ind,
      OffsetDouble (prefix @ ''percent_state_change'') ''percent_state_change'' ind,
      OffsetTimeperiod (prefix @ ''in_notification_period'') (Some ''notification_period_ptr'') ind,
      OffsetTimeperiod (prefix @ ''in_check_period'') (Some ''check_period_ptr'') ind,
      HostContacts (prefix @ ''contacts'') ind,
      DownComm (prefix @ ''downtimes'') ind True False,
      DownComm (prefix @ ''downtimes_with_info'') ind True True,
      DownComm (prefix @ ''comments'') ind False False,
      DownComm (prefix @ ''comments_with_info'') ind False True,
      CustomVars (prefix @ ''custom_variable_names'') ''custom_variables'' ind CVT_VARNAMES,
      CustomVars (prefix @ ''custom_variable_values'') ''custom_variables'' ind CVT_VALUES,
      CustomVars (prefix @ ''custom_variables'') ''custom_variables'' ind CVT_DICT,
      CustomVarsExplicit (prefix @ ''filename'') ''custom_variables'' ind ''FILENAME'',
      Hostlist (prefix @ ''parents'') ''parent_hosts'' ind False,
      Hostlist (prefix @ ''childs'') ''child_hosts'' ind False,
      HostlistDependency (prefix @ ''depends_exec'') ''exec_deps'' ind False,
      HostlistDependency (prefix @ ''depends_exec_with_info'') ''exec_deps'' ind True,
      HostlistDependency (prefix @ ''depends_notify'') ''notify_deps'' ind False,
      HostlistDependency (prefix @ ''depends_notify_with_info'') ''notify_deps'' ind True,
      ServicelistState (prefix @ ''num_services'') (- 1) ''services'' ind,
      ServicelistState (prefix @ ''worst_service_state'') (- 2) ''services'' ind,
      ServicelistState (prefix @ ''num_services_ok'') 0 ''services'' ind,
      ServicelistState (prefix @ ''num_services_warn'') 1 ''services'' ind,
      ServicelistState (prefix @ ''num_services_crit'') 2 ''services'' ind,
      ServicelistState (prefix @ ''num_services_unknown'') 3 ''services'' ind,
      ServicelistState (prefix @ ''num_services_pending'') 4 ''services'' ind,
      ServicelistState (prefix @ ''worst_service_hard_state'') 62 ''services'' ind,
      ServicelistState (prefix @ ''num_services_hard_ok'') 64 ''services'' ind,
      ServicelistState (prefix @ ''num_services_hard_warn'') 65 ''services'' ind,
      ServicelistState (prefix @ ''num_services_hard_crit'') 66 ''services'' ind,
      ServicelistState (prefix @ ''num_services_hard_unknown'') 67 ''services'' ind,
      HostSpecialInt (prefix @ ''hard_state'') 0 ind,
      HostSpecialInt (prefix @ ''pnpgraph_present'') 1 ind,
      HostStaleness (prefix @ ''staleness'') ind,
      Hostgroups (prefix @ ''groups'') ''hostgroups_ptr'' ind,
      Contactgroups (prefix @ ''contact_groups'') ''contact_groups'' ind,
      Servicelist (prefix @ ''services'') ''services'' ind False 0,
      Servicelist (prefix @ ''services_with_state'') ''services'' ind False 1,
      Servicelist (prefix @ ''services_with_info'') ''services'' ind False 2]"

definition host_columns :: "string \<Rightarrow> string option \<Rightarrow> column_decl list" where
  "host_columns prefix ind = host_columns1 prefix ind @ host_columns2 prefix ind"

text \<open>Services, with the columns of their hosts in the table of services itself.\<close>

definition service_columns1 :: "string \<Rightarrow> string option \<Rightarrow> column_decl list" where
  "service_columns1 prefix ind =
     [OffsetInt (prefix @ ''id'') ''id'' ind,
      OffsetString (prefix @ ''description'') ''description'' ind,
      OffsetString (prefix @ ''display_name'') ''display_name'' ind,
      OffsetString (prefix @ ''check_command'') ''check_command'' ind,
      OffsetInt (prefix @ ''check_timeout'') ''check_timeout'' ind,
      OffsetString (prefix @ ''event_handler'') ''event_handler'' ind,
      OffsetString (prefix @ ''plugin_output'') ''plugin_output'' ind,
      OffsetString (prefix @ ''long_plugin_output'') ''long_plugin_output'' ind,
      OffsetString (prefix @ ''perf_data'') ''perf_data'' ind,
      OffsetString (prefix @ ''notification_period'') ''notification_period'' ind,
      OffsetString (prefix @ ''check_period'') ''check_period'' ind,
      OffsetString (prefix @ ''notes'') ''notes'' ind,
      OffsetStringServiceMacro (prefix @ ''notes_expanded'') ''notes'' ind,
      OffsetString (prefix @ ''notes_url'') ''notes_url'' ind,
      OffsetStringServiceMacro (prefix @ ''notes_url_expanded'') ''notes_url'' ind,
      OffsetString (prefix @ ''action_url'') ''action_url'' ind,
      OffsetStringServiceMacro (prefix @ ''action_url_expanded'') ''action_url'' ind,
      OffsetString (prefix @ ''icon_image'') ''icon_image'' ind,
      OffsetStringServiceMacro (prefix @ ''icon_image_expanded'') ''icon_image'' ind,
      OffsetString (prefix @ ''icon_image_alt'') ''icon_image_alt'' ind,
      OffsetInt (prefix @ ''notified_on'') ''notified_on'' ind,
      OffsetInt (prefix @ ''initial_state'') ''initial_state'' ind,
      OffsetInt (prefix @ ''max_check_attempts'') ''max_attempts'' ind,
      OffsetInt (prefix @ ''current_attempt'') ''current_attempt'' ind,
      OffsetInt (prefix @ ''state'') ''current_state'' ind,
      OffsetInt (prefix @ ''has_been_checked'') ''has_been_checked'' ind,
      OffsetInt (prefix @ ''last_state'') ''last_state'' ind,
      OffsetInt (prefix @ ''last_hard_state'') ''last_hard_state'' ind,
      OffsetInt (prefix @ ''state_type'') ''state_type'' ind,
      OffsetInt (prefix @ ''check_type'') ''check_type'' ind,
      OffsetInt (prefix @ ''acknowledged'') ''problem_has_been_acknowledged'' ind,
      OffsetInt (prefix @ ''acknowledgement_type'') ''acknowledgement_type'' ind,
      OffsetInt (prefix @ ''no_more_notifications'') ''no_more_notifications'' ind,
      OffsetTime (prefix @ ''last_state_change'') ''last_state_change'' ind,
      OffsetTime (prefix @ ''last_time_ok'') ''last_time_ok'' ind,
      OffsetTime (prefix @ ''last_time_warning'') ''last_time_warning'' ind,
      OffsetTime (prefix @ ''last_time_critical'') ''last_time_critical'' ind,
      OffsetTime (prefix @ ''last_time_unknown'') ''last_time_unknown'' ind,
      OffsetInt (prefix @ ''hourly_value'') ''hourly_value'' ind,
      ServiceSpecialInt (prefix @ ''should_be_scheduled'') 2 ind]"

definition service_columns2 :: "string \<Rightarrow> string option \<Rightarrow> column_decl list" where
  "service_columns2 prefix ind =
     [OffsetTime (prefix @ ''last_check'') ''last_check'' ind,
      OffsetTime (prefix @ ''next_check'') ''next_check'' ind,
      OffsetTime (prefix @ ''last_notification'') ''last_notification'' ind,
      OffsetTime (prefix @ ''next_notification'') ''next_notification'' ind,
      OffsetInt (prefix @ ''current_notification_number'') ''current_notification_number'' ind,
      OffsetTime (prefix @ ''last_state_change'') ''last_state_change'' ind,
      OffsetTime (prefix @ ''last_hard_state_change'') ''last_hard_state_change'' ind,
      OffsetTimeVal (prefix @ ''last_update'') ''last_update'' ind,
      OffsetInt (prefix @ ''scheduled_downtime_depth'') ''scheduled_downtime_depth'' ind,
      OffsetInt (prefix @ ''is_flapping'') ''is_flapping'' ind,
      OffsetInt (prefix @ ''checks_enabled'') ''checks_enabled'' ind,
      OffsetString (prefix @ ''check_source'') ''check_source'' ind,
      OffsetInt (prefix @ ''accept_passive_checks'') ''accept_passive_checks'' ind,
      OffsetInt (prefix @ ''event_handler_enabled'') ''event_handler_enabled'' ind,
      OffsetInt (prefix @ ''notifications_enabled'') ''notifications_enabled'' ind,
      OffsetInt (prefix @ ''process_performance_data'') ''process_performance_data'' ind,
      OffsetInt (prefix @ ''is_executing'') ''is_executing'' ind,
      OffsetInt (prefix @ ''active_checks_enabled'') ''checks_enabled'' ind,
      OffsetInt (prefix @ ''check_options'') ''check_options'' ind,
      OffsetInt (prefix @ ''flap_detection_enabled'') ''flap_detection_enabled'' ind,
      OffsetInt (prefix @ ''check_freshness'') ''check_freshness'' ind,
      OffsetInt (prefix @ ''obsess_over_service'') ''obsess'' ind,
      OffsetInt (prefix @ ''obsess'') ''obsess'' ind,
      Attributelist (prefix @ ''modified_attributes'') ''modified_attributes'' ind False,
      Attributelist (prefix @ ''modified_attributes_list'') ''modified_attributes'' ind True,
      ServiceSpecialInt (prefix @ ''pnpgraph_present'') 1 ind,
      ServiceStaleness (prefix @ ''staleness'') ind,
      OffsetDouble (prefix @ ''check_interval'') ''check_interval'' ind,
      OffsetDouble (prefix @ ''retry_interval'') ''retry_interval'' ind,
      OffsetDouble (prefix @ ''notification_interval'') ''notification_interval'' ind,
      OffsetDouble (prefix @ ''first_notification_delay'') ''first_notification_delay'' ind,
      OffsetDouble (prefix @ ''low_flap_threshold'') ''low_flap_threshold'' ind,
      OffsetDouble (prefix @ ''high_flap_threshold'') ''high_flap_threshold'' ind,
      OffsetDouble (prefix @ ''latency'') ''latency'' ind,
      OffsetDouble (prefix @ ''execution_time'') ''execution_time'' ind,
      OffsetDouble (prefix @ ''percent_state_change'') ''percent_state_change'' ind,
      OffsetTimeperiod (prefix @ ''in_check_period'') (Some ''check_period_ptr'') ind,
      OffsetTimeperiod (prefix @ ''in_notification_period'') (Some ''notification_period_ptr'') ind,
      ServicelistDependency (prefix @ ''depends_exec'') ''exec_deps'' ind False,
      ServicelistDependency (prefix @ ''depends_exec_with_info'') ''exec_deps'' ind True,
      ServicelistDependency (prefix @ ''depends_notify'') ''notify_deps'' ind False,
      ServicelistDependency (prefix @ ''depends_notify_with_info'') ''notify_deps'' ind True,
      Servicelist (prefix @ ''parents'') ''parents'' ind True 0,
      ServiceContacts (prefix @ ''contacts'') ind,
      DownComm (prefix @ ''downtimes'') ind True False,
      DownComm (prefix @ ''downtimes_with_info'') ind True True,
      DownComm (prefix @ ''comments'') ind False False,
      DownComm (prefix @ ''comments_with_info'') ind False True]"

definition service_columns3 :: "string \<Rightarrow> string option \<Rightarrow> column_decl list" where
  "service_columns3 prefix ind =
     [CustomVars (prefix @ ''custom_variable_names'') ''custom_variables'' ind CVT_VARNAMES,
      CustomVars (prefix @ ''custom_variable_values'') ''custom_variables'' ind CVT_VALUES,
      CustomVars (prefix @ ''custom_variables'') ''custom_variables'' ind CVT_DICT,
      Servicegroups (prefix @ ''groups'') ''servicegroups_ptr'' ind,
      Contactgroups (prefix @ ''contact_groups'') ''contact_groups'' ind]"

definition service_columns :: "string \<Rightarrow> string option \<Rightarrow> bool \<Rightarrow> column_decl list" where
  "service_columns prefix ind add_hosts =
     service_columns1 prefix ind @ service_columns2 prefix ind @
     (if add_hosts then host_columns ''host_'' (Some ''host_ptr'') else []) @
     service_columns3 prefix ind"

text \<open>Groups. The column \<open>id\<close> of service groups reads the pointer to the name as a number.\<close>

definition hostgroup_columns :: "string \<Rightarrow> string option \<Rightarrow> column_decl list" where
  "hostgroup_columns prefix ind =
     [OffsetInt (prefix @ ''id'') ''id'' ind,
      OffsetString (prefix @ ''name'') ''group_name'' ind,
      OffsetString (prefix @ ''alias'') ''alias'' ind,
      OffsetString (prefix @ ''notes'') ''notes'' ind,
      OffsetString (prefix @ ''notes_url'') ''notes_url'' ind,
      OffsetString (prefix @ ''action_url'') ''action_url'' ind,
      Hostlist (prefix @ ''members'') ''members'' ind False,
      Hostlist (prefix @ ''members_with_state'') ''members'' ind True,
      HostlistState (prefix @ ''worst_host_state'') (- 12) ''members'' ind,
      HostlistState (prefix @ ''num_hosts'') (- 11) ''members'' ind,
      HostlistState (prefix @ ''num_hosts_pending'') 13 ''members'' ind,
      HostlistState (prefix @ ''num_hosts_up'') 10 ''members'' ind,
      HostlistState (prefix @ ''num_hosts_down'') 11 ''members'' ind,
      HostlistState (prefix @ ''num_hosts_unreach'') 12 ''members'' ind,
      HostlistState (prefix @ ''num_services'') (- 1) ''members'' ind,
      HostlistState (prefix @ ''worst_service_state'') (- 2) ''members'' ind,
      HostlistState (prefix @ ''num_services_pending'') 4 ''members'' ind,
      HostlistState (prefix @ ''num_services_ok'') 0 ''members'' ind,
      HostlistState (prefix @ ''num_services_warn'') 1 ''members'' ind,
      HostlistState (prefix @ ''num_services_crit'') 2 ''members'' ind,
      HostlistState (prefix @ ''num_services_unknown'') 3 ''members'' ind,
      HostlistState (prefix @ ''worst_service_hard_state'') 62 ''members'' ind,
      HostlistState (prefix @ ''num_services_hard_ok'') 64 ''members'' ind,
      HostlistState (prefix @ ''num_services_hard_warn'') 65 ''members'' ind,
      HostlistState (prefix @ ''num_services_hard_crit'') 66 ''members'' ind,
      HostlistState (prefix @ ''num_services_hard_unknown'') 67 ''members'' ind]"

definition servicegroup_columns :: "string \<Rightarrow> string option \<Rightarrow> column_decl list" where
  "servicegroup_columns prefix ind =
     [OffsetInt (prefix @ ''id'') ''group_name'' ind,
      OffsetString (prefix @ ''name'') ''group_name'' ind,
      OffsetString (prefix @ ''alias'') ''alias'' ind,
      OffsetString (prefix @ ''notes'') ''notes'' ind,
      OffsetString (prefix @ ''notes_url'') ''notes_url'' ind,
      OffsetString (prefix @ ''action_url'') ''action_url'' ind,
      Servicelist (prefix @ ''members'') ''members'' ind True 0,
      Servicelist (prefix @ ''members_with_state'') ''members'' ind True 1,
      ServicelistState (prefix @ ''worst_service_state'') (- 2) ''members'' ind,
      ServicelistState (prefix @ ''num_services'') (- 1) ''members'' ind,
      ServicelistState (prefix @ ''num_services_ok'') 0 ''members'' ind,
      ServicelistState (prefix @ ''num_services_warn'') 1 ''members'' ind,
      ServicelistState (prefix @ ''num_services_crit'') 2 ''members'' ind,
      ServicelistState (prefix @ ''num_services_unknown'') 3 ''members'' ind,
      ServicelistState (prefix @ ''num_services_pending'') 4 ''members'' ind,
      ServicelistState (prefix @ ''num_services_hard_ok'') 64 ''members'' ind,
      ServicelistState (prefix @ ''num_services_hard_warn'') 65 ''members'' ind,
      ServicelistState (prefix @ ''num_services_hard_crit'') 66 ''members'' ind,
      ServicelistState (prefix @ ''num_services_hard_unknown'') 67 ''members'' ind]"

text \<open>Contacts have a number of additional addresses that is a constant of the core.\<close>

definition contact_columns1 :: "string \<Rightarrow> string option \<Rightarrow> column_decl list" where
  "contact_columns1 prefix ind =
     [OffsetInt (prefix @ ''id'') ''id'' ind,
      OffsetString (prefix @ ''name'') ''name'' ind,
      OffsetString (prefix @ ''alias'') ''alias'' ind,
      OffsetString (prefix @ ''email'') ''email'' ind,
      OffsetString (prefix @ ''pager'') ''pager'' ind,
      OffsetString (prefix @ ''host_notification_period'') ''host_notification_period'' ind,
      OffsetString (prefix @ ''service_notification_period'') ''service_notification_period'' ind]"

definition contact_columns2 :: "string \<Rightarrow> string option \<Rightarrow> column_decl list" where
  "contact_columns2 prefix ind =
     [OffsetInt (prefix @ ''can_submit_commands'') ''can_submit_commands'' ind,
      OffsetInt (prefix @ ''host_notifications_enabled'') ''host_notifications_enabled'' ind,
      OffsetInt (prefix @ ''service_notifications_enabled'') ''service_notifications_enabled'' ind,
      OffsetTimeperiod (prefix @ ''in_host_notification_period'') (Some ''host_notification_period_ptr'') ind,
      OffsetTimeperiod (prefix @ ''in_service_notification_period'') (Some ''service_notification_period_ptr'') ind,
      CustomVars (prefix @ ''custom_variable_names'') ''custom_variables'' ind CVT_VARNAMES,
      CustomVars (prefix @ ''custom_variable_values'') ''custom_variables'' ind CVT_VALUES,
      CustomVars (prefix @ ''custom_variables'') ''custom_variables'' ind CVT_DICT,
      Attributelist (prefix @ ''modified_attributes'') ''modified_attributes'' ind False,
      Attributelist (prefix @ ''modified_attributes_list'') ''modified_attributes'' ind True,
      Contactgroups (prefix @ ''groups'') ''contactgroups_ptr'' ind,
      CommandsMember (prefix @ ''host_notification_commands'') ''host_notification_commands'' ind,
      CommandsMember (prefix @ ''service_notification_commands'') ''service_notification_commands'' ind]"

definition contact_columns :: "nat \<Rightarrow> string \<Rightarrow> string option \<Rightarrow> column_decl list" where
  "contact_columns max_addresses prefix ind =
     contact_columns1 prefix ind @
     map (\<lambda>i. OffsetString (prefix @ ''address'' @ show_nat (i + 1)) (''address'' @ show_nat i) ind) [0..<max_addresses] @
     contact_columns2 prefix ind"

definition contactgroup_columns :: "string \<Rightarrow> string option \<Rightarrow> column_decl list" where
  "contactgroup_columns prefix ind =
     [OffsetInt (prefix @ ''id'') ''id'' ind,
      OffsetString (prefix @ ''name'') ''group_name'' ind,
      OffsetString (prefix @ ''alias'') ''alias'' ind,
      ContactgroupsMember (prefix @ ''members'') ind]"

definition command_columns :: "string \<Rightarrow> string option \<Rightarrow> column_decl list" where
  "command_columns prefix ind =
     [OffsetInt (prefix @ ''id'') ''id'' ind,
      OffsetString (prefix @ ''name'') ''name'' ind,
      OffsetString (prefix @ ''line'') ''command_line'' ind]"

definition timeperiod_columns :: "string \<Rightarrow> string option \<Rightarrow> column_decl list" where
  "timeperiod_columns prefix ind =
     [OffsetInt (prefix @ ''id'') ''id'' ind,
      OffsetString (prefix @ ''name'') ''name'' ind,
      OffsetString (prefix @ ''alias'') ''alias'' ind,
      TimeperiodDays (prefix @ ''days'') ind,
      TimeperiodExceptions (prefix @ ''exceptions_calendar_dates'') ind 0,
      TimeperiodExceptions (prefix @ ''exceptions_month_date'') ind 1,
      TimeperiodExceptions (prefix @ ''exceptions_month_day'') ind 2,
      TimeperiodExceptions (prefix @ ''exceptions_month_week_day'') ind 3,
      TimeperiodExceptions (prefix @ ''exceptions_week_day'') ind 4,
      TimeperiodExclusion (prefix @ ''exclusions'') ''exclusions'' ind,
      OffsetTimeperiod (prefix @ ''in'') None ind]"

text \<open>The program.\<close>

definition status_columns :: "column_decl list" where
  "status_columns =
     [GlobalCounters ''neb_callbacks'' 0 False,
      GlobalCounters ''neb_callbacks_rate'' 0 True,
      GlobalCounters ''requests'' 1 False,
      GlobalCounters ''requests_rate'' 1 True,
      GlobalCounters ''connections'' 2 False,
      GlobalCounters ''connections_rate'' 2 True,
      GlobalCounters ''service_checks'' 3 False,
      GlobalCounters ''service_checks_rate'' 3 True,
      GlobalCounters ''host_checks'' 4 False,
      GlobalCounters ''host_checks_rate'' 4 True,
      GlobalCounters ''forks'' 5 False,
      GlobalCounters ''forks_rate'' 5 True,
      GlobalCounters ''log_messages'' 6 False,
      GlobalCounters ''log_messages_rate'' 6 True,
      GlobalCounters ''livechecks'' 8 False,
      GlobalCounters ''livechecks_rate'' 8 True,
      GlobalCounters ''livecheck_overflows'' 9 False,
      GlobalCounters ''livecheck_overflows_rate'' 9 True,
      IntPointer ''nagios_pid'' ''nagios_pid'',
      IntPointer ''enable_notifications'' ''enable_notifications'',
      IntPointer ''execute_service_checks'' ''execute_service_checks'',
      IntPointer ''accept_passive_service_checks'' ''accept_passive_service_checks'',
      IntPointer ''execute_host_checks'' ''execute_host_checks'',
      IntPointer ''accept_passive_host_checks'' ''accept_passive_host_checks'',
      IntPointer ''enable_event_handlers'' ''enable_event_handlers'',
      IntPointer ''obsess_over_services'' ''obsess_over_services'',
      IntPointer ''obsess_over_hosts'' ''obsess_over_hosts'',
      IntPointer ''check_service_freshness'' ''check_service_freshness'',
      IntPointer ''check_host_freshness'' ''check_host_freshness'',
      IntPointer ''enable_flap_detection'' ''enable_flap_detection'',
      IntPointer ''process_performance_data'' ''process_performance_data'',
      IntPointer ''check_external_commands'' ''check_external_commands'',
      TimePointer ''program_start'' ''program_start'',
      TimePointer ''last_command_check'' ''last_command_check'',
      TimePointer ''last_log_rotation'' ''last_log_rotation'',
      IntPointer ''interval_length'' ''interval_length'',
      IntPointer ''num_hosts'' ''num_objects.hosts'',
      IntPointer ''num_services'' ''num_objects.services'',
      StringPointer ''program_version'' ''program_version'',
      IntPointer ''cached_log_messages'' ''num_cached_log_messages'',
      StringPointer ''livestatus_version'' ''livestatus_version'']"

end
