(* ===== verification/Object_Tables.thy ===== *)
theory Object_Tables
  imports Core_Tables Table Filter_Narrowing
begin

text \<open>
  The tables of the core's objects as the query sees them (constructors, \<open>isAuthorized\<close>, \<open>findObject\<close> and \<open>answerQuery\<close> of
  \<open>src/TableHosts.cc\<close>, \<open>src/TableServices.cc\<close>, \<open>src/TableHostgroups.cc\<close>, \<open>src/TableServicegroups.cc\<close>,
  \<open>src/TableContacts.cc\<close>, \<open>src/TableContactgroups.cc\<close>, \<open>src/TableCommands.cc\<close>, \<open>src/TableTimeperiods.cc\<close>,
  \<open>src/TableStatus.cc\<close>). The tables by group offer structs of their own that live as long as the query. The tables of hosts and of
  services ask the filters of the query for a reference they can start from instead of reading all objects.
\<close>

section \<open>Tables\<close>

definition new_table :: "string \<Rightarrow> string \<Rightarrow> (auth_user \<Rightarrow> data_ptr \<Rightarrow> bool) \<Rightarrow> (string \<Rightarrow> data_ptr option) \<Rightarrow> data_ptr table" where
  "new_table name prefixname authorized find_object =
     \<lparr> t_name = name, t_prefixname = prefixname, t_columns = [], t_nat_sort = [], t_is_authorized = authorized,
       t_find_object = find_object, t_has_logcache = False \<rparr>"

text \<open>Every \<open>addColumns\<close> adds its columns and then replaces the natural order of the table it is given.\<close>

definition add_columns :: "core_view \<Rightarrow> column_decl list \<Rightarrow> string list \<Rightarrow> data_ptr table \<Rightarrow> data_ptr table" where
  "add_columns vw ds nat_sort t = fold addNatSort nat_sort (clearNatSort (fold addColumn (map (declared_column vw) ds) t))"

definition find_by_name :: "core_view \<Rightarrow> string \<Rightarrow> string \<Rightarrow> data_ptr option" where
  "find_by_name vw kind spec = map_option At (cm_find (vw_memory vw) kind spec)"

definition hosts_authorized :: "core_view \<Rightarrow> string option \<Rightarrow> auth_user \<Rightarrow> data_ptr \<Rightarrow> bool" where
  "hosts_authorized vw ind ctc data =
     is_authorized_for (vw_contacts vw) (vw_service_authorization vw) ctc (shiftPointer (vw_memory vw) ind data) None"

definition table_hosts :: "core_view \<Rightarrow> bool \<Rightarrow> data_ptr table" where
  "table_hosts vw by_group =
     (if by_group
      then add_columns vw (hostgroup_columns ''hostgroup_'' (Some ''_hostgroup'')) [''hostgroup_name'']
             (add_columns vw (host_columns [] (Some ''_host'')) [''name'']
               (new_table ''hostsbygroup'' ''hosts'' (hosts_authorized vw (Some ''_host'')) (find_by_name vw ''host'')))
      else add_columns vw (host_columns [] None) [''name'']
             (new_table ''hosts'' ''hosts'' (hosts_authorized vw None) (find_by_name vw ''host'')))"

text \<open>The name of a service is that of its host and its own, with a semicolon between them or else white space.\<close>

definition services_findObject :: "core_memory \<Rightarrow> string \<Rightarrow> data_ptr option" where
  "services_findObject m objectspec =
     map_option At
       (if CHR '';'' \<in> set objectspec
        then cm_find_service m (Some (rstrip (takeWhile (\<lambda>c. c \<noteq> CHR '';'') objectspec)))
               (rstrip (drop 1 (dropWhile (\<lambda>c. c \<noteq> CHR '';'') objectspec)))
        else case next_field objectspec of (host_name, description) \<Rightarrow> cm_find_service m host_name description)"

definition services_authorized :: "core_view \<Rightarrow> string option \<Rightarrow> auth_user \<Rightarrow> data_ptr \<Rightarrow> bool" where
  "services_authorized vw ind ctc data =
     (case shiftPointer (vw_memory vw) ind data of
        None \<Rightarrow> False
      | Some svc \<Rightarrow> is_authorized_for (vw_contacts vw) (vw_service_authorization vw) ctc (cm_ptr (vw_memory vw) svc ''host_ptr'') (Some svc))"

definition table_services :: "core_view \<Rightarrow> bool \<Rightarrow> bool \<Rightarrow> data_ptr table" where
  "table_services vw by_group by_hostgroup =
     (let find_spec = services_findObject (vw_memory vw)
      in if by_group
         then add_columns vw (servicegroup_columns ''servicegroup_'' (Some ''_servicegroup'')) [''servicegroup_name'']
                (add_columns vw (host_columns ''host_'' (Some ''_host'')) [''host_name'']
                  (add_columns vw (service_columns [] (Some ''_service'') False) [''description'']
                    (new_table ''servicesbygroup'' ''services'' (services_authorized vw (Some ''_service'')) find_spec)))
         else if by_hostgroup
         then add_columns vw (hostgroup_columns ''hostgroup_'' (Some ''_hostgroup'')) [''hostgroup_name'']
                (add_columns vw (host_columns ''host_'' (Some ''_host'')) [''host_name'']
                  (add_columns vw (service_columns [] (Some ''_service'') False) [''description'']
                    (new_table ''servicesbyhostgroup'' ''services'' (services_authorized vw (Some ''_service'')) find_spec)))
         else add_columns vw (service_columns [] None True) [''host_name'', ''description'']
                (new_table ''services'' ''services'' (services_authorized vw None) find_spec))"

definition table_hostgroups :: "core_view \<Rightarrow> auth_mode \<Rightarrow> data_ptr table" where
  "table_hostgroups vw group_authorization =
     add_columns vw (hostgroup_columns [] None) [''name'']
       (new_table ''hostgroups'' ''hostgroups''
         (\<lambda>ctc data. case data of At g \<Rightarrow>
              hostgroup_authorized (vw_contacts vw) (vw_service_authorization vw) group_authorization ctc (cm_list (vw_memory vw) g ''members'')
            | _ \<Rightarrow> False)
         (find_by_name vw ''hostgroup''))"

definition table_servicegroups :: "core_view \<Rightarrow> auth_mode \<Rightarrow> data_ptr table" where
  "table_servicegroups vw group_authorization =
     add_columns vw (servicegroup_columns [] None) [''name'']
       (new_table ''servicegroups'' ''servicegroups''
         (\<lambda>ctc data. case data of At g \<Rightarrow>
              servicegroup_authorized (vw_contacts vw) (vw_service_authorization vw) group_authorization
                (\<lambda>s. cm_ptr (vw_memory vw) s ''host_ptr'') ctc (cm_list (vw_memory vw) g ''members'')
            | _ \<Rightarrow> False)
         (find_by_name vw ''servicegroup''))"

definition table_contacts :: "core_view \<Rightarrow> nat \<Rightarrow> data_ptr table" where
  "table_contacts vw max_addresses =
     add_columns vw (contact_columns max_addresses [] None) [''name''] (new_table ''contacts'' ''contacts'' (\<lambda>_ _. True) (find_by_name vw ''contact''))"

definition table_contactgroups :: "core_view \<Rightarrow> data_ptr table" where
  "table_contactgroups vw =
     fold addColumn (map (declared_column vw) (contactgroup_columns [] None))
       (new_table ''contactgroups'' ''contactgroups'' (\<lambda>_ _. True) (find_by_name vw ''contactgroup''))"

definition table_commands :: "core_view \<Rightarrow> data_ptr table" where
  "table_commands vw =
     fold addColumn (map (declared_column vw) (command_columns [] None)) (new_table ''commands'' ''commands'' (\<lambda>_ _. True) (\<lambda>_. None))"

definition table_timeperiods :: "core_view \<Rightarrow> data_ptr table" where
  "table_timeperiods vw =
     fold addColumn (map (declared_column vw) (timeperiod_columns [] None)) (new_table ''timeperiods'' ''timeperiods'' (\<lambda>_ _. True) (\<lambda>_. None))"

definition table_status :: "core_view \<Rightarrow> data_ptr table" where
  "table_status vw = fold addColumn (map (declared_column vw) status_columns) (new_table ''status'' ''status'' (\<lambda>_ _. True) (\<lambda>_. None))"

section \<open>Rows\<close>

text \<open>A table that offers all objects of a kind, and the one row of the status.\<close>

definition all_objects_answer :: "core_memory \<Rightarrow> string \<Rightarrow> (data_ptr \<Rightarrow> 's \<Rightarrow> bool \<times> 's) \<Rightarrow> 's \<Rightarrow> 's" where
  "all_objects_answer m kind consume st = offer_rows consume (map At (cm_all m kind)) st"

definition status_answer :: "(data_ptr \<Rightarrow> 's \<Rightarrow> bool \<times> 's) \<Rightarrow> 's \<Rightarrow> 's" where
  "status_answer consume st = snd (consume (At 0) st)"

text \<open>
  The hosts by group. A query that wants no more rows ends the walk over the members of one group, not the loop over
  the groups.
\<close>

definition hosts_by_group_answer :: "core_memory \<Rightarrow> (data_ptr \<Rightarrow> 's \<Rightarrow> bool \<times> 's) \<Rightarrow> 's \<Rightarrow> 's" where
  "hosts_by_group_answer m consume st =
     fold (\<lambda>g. offer_rows consume (map (\<lambda>h. Joined [(''_host'', h), (''_hostgroup'', g)]) (cm_list m g ''members''))) (cm_all m ''hostgroup'') st"

definition hosts_answer :: "core_memory \<Rightarrow> data_ptr filter list \<Rightarrow> (data_ptr \<Rightarrow> 's \<Rightarrow> bool \<times> 's) \<Rightarrow> 's \<Rightarrow> 's" where
  "hosts_answer m fs consume st =
     (case find_index_filter fs ''groups'' of
        Some (IndexObject g) \<Rightarrow> offer_rows consume (map At (cm_list m g ''members'')) st
      | _ \<Rightarrow> all_objects_answer m ''host'' consume st)"

definition service_row :: "core_memory \<Rightarrow> string \<Rightarrow> nat \<Rightarrow> nat \<Rightarrow> data_ptr" where
  "service_row m group_member g s = Joined [(''_service'', s), (''_host'', ptr_at m s ''host_ptr''), (group_member, g)]"

definition services_by_group_answer :: "core_memory \<Rightarrow> (data_ptr \<Rightarrow> 's \<Rightarrow> bool \<times> 's) \<Rightarrow> 's \<Rightarrow> 's" where
  "services_by_group_answer m consume st =
     fold (\<lambda>g. offer_rows consume (map (service_row m ''_servicegroup'' g) (cm_list m g ''members''))) (cm_all m ''servicegroup'') st"

definition services_by_hostgroup_answer :: "core_memory \<Rightarrow> (data_ptr \<Rightarrow> 's \<Rightarrow> bool \<times> 's) \<Rightarrow> 's \<Rightarrow> 's" where
  "services_by_hostgroup_answer m consume st =
     fold (\<lambda>g. fold (\<lambda>h. offer_rows consume (map (service_row m ''_hostgroup'' g) (cm_list m h ''services''))) (cm_list m g ''members''))
       (cm_all m ''hostgroup'') st"

text \<open>The services of a host that does not exist are none; the reference of a text column is a text, that of a list an object.\<close>

definition services_answer :: "core_memory \<Rightarrow> data_ptr filter list \<Rightarrow> (data_ptr \<Rightarrow> 's \<Rightarrow> bool \<times> 's) \<Rightarrow> 's \<Rightarrow> 's" where
  "services_answer m fs consume st =
     (case find_index_filter fs ''host_name'' of
        Some (IndexString host_name) \<Rightarrow>
          (case cm_find m ''host'' host_name of
             Some h \<Rightarrow> offer_rows consume (map At (cm_list m h ''services'')) st
           | None \<Rightarrow> st)
      | _ \<Rightarrow>
        (case find_index_filter fs ''groups'' of
           Some (IndexObject g) \<Rightarrow> offer_rows consume (map At (cm_list m g ''members'')) st
         | _ \<Rightarrow>
           (case find_index_filter fs ''host_groups'' of
              Some (IndexObject g) \<Rightarrow> fold (\<lambda>h. offer_rows consume (map At (cm_list m h ''services''))) (cm_list m g ''members'') st
            | _ \<Rightarrow> all_objects_answer m ''service'' consume st)))"

section \<open>The columns a table finds\<close>

fun decl_name :: "column_decl \<Rightarrow> string" where
  "decl_name (OffsetInt n _ _) = n"
| "decl_name (OffsetString n _ _) = n"
| "decl_name (OffsetTime n _ _) = n"
| "decl_name (OffsetTimeVal n _ _) = n"
| "decl_name (OffsetDouble n _ _) = n"
| "decl_name (OffsetTimeperiod n _ _) = n"
| "decl_name (OffsetStringHostMacro n _ _) = n"
| "decl_name (OffsetStringServiceMacro n _ _) = n"
| "decl_name (Attributelist n _ _ _) = n"
| "decl_name (CustomVars n _ _ _) = n"
| "decl_name (CustomVarsExplicit n _ _ _) = n"
| "decl_name (Hostlist n _ _ _) = n"
| "decl_name (Servicelist n _ _ _ _) = n"
| "decl_name (ServicelistState n _ _ _) = n"
| "decl_name (HostlistState n _ _ _) = n"
| "decl_name (HostSpecialInt n _ _) = n"
| "decl_name (ServiceSpecialInt n _ _) = n"
| "decl_name (HostStaleness n _) = n"
| "decl_name (ServiceStaleness n _) = n"
| "decl_name (DownComm n _ _ _) = n"
| "decl_name (HostContacts n _) = n"
| "decl_name (ServiceContacts n _) = n"
| "decl_name (ContactgroupsMember n _) = n"
| "decl_name (Hostgroups n _ _) = n"
| "decl_name (Servicegroups n _ _) = n"
| "decl_name (Contactgroups n _ _) = n"
| "decl_name (CommandsMember n _ _) = n"
| "decl_name (TimeperiodExclusion n _ _) = n"
| "decl_name (HostlistDependency n _ _ _) = n"
| "decl_name (ServicelistDependency n _ _ _) = n"
| "decl_name (TimeperiodDays n _) = n"
| "decl_name (TimeperiodExceptions n _ _) = n"
| "decl_name (GlobalCounters n _ _) = n"
| "decl_name (IntPointer n _) = n"
| "decl_name (TimePointer n _) = n"
| "decl_name (StringPointer n _) = n"

lemma declared_name [simp]: "column_name (declared_column vw d) = decl_name d"
  by (cases d) (simp_all add: down_comm_column_def contacts_column_def contactgroup_members_column_def object_list_column_def
      host_dependency_column_def service_dependency_column_def timeperiod_days_column_def timeperiod_exceptions_column_def counter_column_def Let_def)

lemma t_columns_addNatSort [simp]: "t_columns (fold addNatSort ns t) = t_columns t"
  by (induction ns arbitrary: t) (simp_all add: addNatSort_def split: option.splits)

lemma set_addColumns: "set (t_columns (fold addColumn cs t)) \<subseteq> set (t_columns t) \<union> set cs"
proof (induction cs arbitrary: t)
  case (Cons c cs)
  have "set (t_columns (addColumn c t)) \<subseteq> insert c (set (t_columns t))" by (auto simp: addColumn_def)
  with Cons [of "addColumn c t"] show ?case by auto
qed simp

lemma set_add_columns: "set (t_columns (add_columns vw ds ns t)) \<subseteq> set (t_columns t) \<union> declared_column vw ` set ds"
  using set_addColumns [of "map (declared_column vw) ds" t] by (simp add: add_columns_def clearNatSort_def)

lemma services_column_declared:
  "c \<in> set (t_columns (table_services vw False False)) \<Longrightarrow> \<exists>d \<in> set (service_columns [] None True). c = declared_column vw d"
  using set_add_columns [of vw "service_columns [] None True" "[''host_name'', ''description'']"]
  by (fastforce simp: table_services_def new_table_def)

lemma hosts_column_declared:
  "c \<in> set (t_columns (table_hosts vw False)) \<Longrightarrow> \<exists>d \<in> set (host_columns [] None). c = declared_column vw d"
  using set_add_columns [of vw "host_columns [] None" "[''name'']"]
  by (fastforce simp: table_hosts_def new_table_def)

definition declared_as :: "string \<Rightarrow> column_decl \<Rightarrow> column_decl list \<Rightarrow> bool" where
  "declared_as n e ds = list_all (\<lambda>d. decl_name d = n \<longrightarrow> d = e) ds"

lemma declared_asD:
  "declared_as n e ds \<Longrightarrow> \<exists>d \<in> set ds. c = declared_column vw d \<Longrightarrow> column_name c = n \<Longrightarrow> c = declared_column vw e"
  unfolding declared_as_def list_all_iff by (metis declared_name)

lemma service_index_declarations:
  "declared_as ''host_name'' (OffsetString ''host_name'' ''name'' (Some ''host_ptr'')) (service_columns [] None True)"
  "declared_as ''groups'' (Servicegroups ''groups'' ''servicegroups_ptr'' None) (service_columns [] None True)"
  "declared_as ''host_groups'' (Hostgroups ''host_groups'' ''hostgroups_ptr'' (Some ''host_ptr'')) (service_columns [] None True)"
  by (simp_all add: declared_as_def service_columns_def service_columns1_def service_columns2_def service_columns3_def
      host_columns_def host_columns1_def host_columns2_def)

lemma host_index_declarations:
  "declared_as ''groups'' (Hostgroups ''groups'' ''hostgroups_ptr'' None) (host_columns [] None)"
  by (simp add: declared_as_def host_columns_def host_columns1_def host_columns2_def)

section \<open>Reading by an index\<close>

text \<open>
  What the core keeps of its lists: the services of a host are those that point to it, the members of a group are the objects
  that list the group, and what is found by a name is in the list of its kind.
\<close>

definition members_agree :: "core_memory \<Rightarrow> nat list \<Rightarrow> nat list \<Rightarrow> (nat \<Rightarrow> nat \<Rightarrow> bool) \<Rightarrow> string \<Rightarrow> bool" where
  "members_agree m owners objects belongs off =
     (\<forall>g \<in> set owners. distinct (cm_list m g off) \<and> set (cm_list m g off) = {x \<in> set objects. belongs x g})"

definition finds_listed :: "core_memory \<Rightarrow> string \<Rightarrow> bool" where
  "finds_listed m kind = (\<forall>n g. cm_find m kind n = Some g \<longrightarrow> g \<in> set (cm_all m kind))"

definition core_consistent :: "core_memory \<Rightarrow> bool" where
  "core_consistent m =
     (distinct (cm_all m ''service'') \<and> distinct (cm_all m ''host'') \<and>
      finds_listed m ''host'' \<and> finds_listed m ''hostgroup'' \<and> finds_listed m ''servicegroup'' \<and>
      (\<forall>h \<in> set (cm_all m ''host''). cm_find m ''host'' (text_at m h ''name'') = Some h) \<and>
      (\<forall>s \<in> set (cm_all m ''service''). \<exists>h \<in> set (cm_all m ''host''). cm_ptr m s ''host_ptr'' = Some h) \<and>
      members_agree m (cm_all m ''host'') (cm_all m ''service'') (\<lambda>s h. cm_ptr m s ''host_ptr'' = Some h) ''services'' \<and>
      members_agree m (cm_all m ''hostgroup'') (cm_all m ''host'') (\<lambda>h g. g \<in> set (cm_list m h ''hostgroups_ptr'')) ''members'' \<and>
      members_agree m (cm_all m ''servicegroup'') (cm_all m ''service'') (\<lambda>s g. g \<in> set (cm_list m s ''servicegroups_ptr'')) ''members'')"

text \<open>A filter as the headers of a request build it from the columns of a table, without a negated equality of the name of the host.\<close>

fun filter_from :: "filter_env \<Rightarrow> 'r column list \<Rightarrow> 'r filter \<Rightarrow> bool" where
  "filter_from env cs (AndingFilter fs) = True"
| "filter_from env cs (OringFilter fs) = True"
| "filter_from env cs (NegatingFilter f) = True"
| "filter_from env cs f =
     (\<exists>c opid text. c \<in> set cs \<and> f = fst (create_filter env c opid text) \<and> \<not> (column_name c = ''host_name'' \<and> opid = - OP_EQUAL))"

text \<open>The kinds of references the filters of a table can offer for a column.\<close>

lemma index_from:
  assumes "filter_from env cs f" and "index_filter f col = Some r"
  obtains c opid ref where "c \<in> set cs" "column_name c = col" "f = fst (create_filter env c opid ref)"
    "\<not> (column_name c = ''host_name'' \<and> opid = - OP_EQUAL)"
proof -
  have "\<exists>c opid text. c \<in> set cs \<and> f = fst (create_filter env c opid text) \<and> \<not> (column_name c = ''host_name'' \<and> opid = - OP_EQUAL)"
    using assms by (cases f) auto
  then obtain c opid ref where c: "c \<in> set cs" "f = fst (create_filter env c opid ref)" "\<not> (column_name c = ''host_name'' \<and> opid = - OP_EQUAL)"
    by blast
  moreover have "column_name c = col"
    using assms(2) unfolding c(2) by (cases c) (auto simp: Let_def split: if_splits prod.splits option.splits)
  ultimately show thesis using that by blast
qed

lemma string_index:
  assumes "index_filter (fst (create_filter env (StringColumn n g) opid ref)) col = Some r"
  shows "r = IndexString ref"
    and "opid \<noteq> - OP_EQUAL \<Longrightarrow> accepts (fst (create_filter env (StringColumn n g) opid ref)) x \<Longrightarrow> g x = ref"
  using assms by (auto simp: string_accepts_def split: if_splits prod.splits)

lemma list_index:
  assumes "index_filter (fst (create_filter env (ListColumn n look g) opid ref)) col = Some r"
  obtains a where "r = IndexObject a" "look ref = Some a"
    "\<And>x. accepts (fst (create_filter env (ListColumn n look g) opid ref)) x \<Longrightarrow> \<exists>ms. g x = Some ms \<and> a \<in> fst ` set ms"
proof -
  from assms obtain a where a: "opid = - OP_LESS" "look ref = Some a" "r = IndexObject a" by (auto split: if_splits)
  show thesis by (rule that [OF a(3,2)]) (use a in \<open>auto simp: list_accepts_def is_member_def split: option.splits\<close>)
qed

lemma find_index_from:
  assumes "find_index_filter fs col = Some r"
  obtains f where "f \<in> set fs" "index_filter f col = Some r"
  using assms by (induction fs) (auto split: option.splits)

text \<open>Two scans that offer, of a list without duplicates, rows that include all those that are accepted.\<close>

lemma scans_agree:
  assumes "distinct xs" and "distinct ys" and "set ys = {x \<in> set xs. Q x}" and "\<And>x. x \<in> set xs \<Longrightarrow> P (At x) \<Longrightarrow> Q x"
  shows "mset (filter P (map At ys)) = mset (filter P (map At xs))"
proof -
  have "mset (filter (P \<circ> At) ys) = mset (filter (P \<circ> At) xs)"
    using assms by (subst set_eq_iff_mset_eq_distinct [symmetric]) auto
  then have "image_mset At (mset (filter (P \<circ> At) ys)) = image_mset At (mset (filter (P \<circ> At) xs))" by (rule arg_cong)
  then show ?thesis by (simp add: filter_map)
qed

lemma offer_all_keep: "fold (\<lambda>h. offer_rows (keep_if P) (map At (rows h))) hs acc = acc @ filter P (map At (concat (map rows hs)))"
  by (induction hs arbitrary: acc) simp_all

lemma service_host_index:
  assumes "list_all (filter_from env (t_columns (table_services vw False False))) fs" and "find_index_filter fs ''host_name'' = Some r"
  obtains ref where "r = IndexString ref"
    "\<And>x. accepts (AndingFilter fs) x \<Longrightarrow> offset_string (vw_memory vw) ''name'' (Some ''host_ptr'') x = ref"
proof -
  obtain f where f: "f \<in> set fs" "index_filter f ''host_name'' = Some r" using assms(2) by (rule find_index_from)
  have "filter_from env (t_columns (table_services vw False False)) f" using assms(1) f(1) by (simp add: list_all_iff)
  then obtain c opid ref where c: "c \<in> set (t_columns (table_services vw False False))" "column_name c = ''host_name''"
    "f = fst (create_filter env c opid ref)" "\<not> (column_name c = ''host_name'' \<and> opid = - OP_EQUAL)"
    using f(2) by (rule index_from)
  have "c = StringColumn ''host_name'' (offset_string (vw_memory vw) ''name'' (Some ''host_ptr''))"
    using declared_asD [OF service_index_declarations(1) services_column_declared [OF c(1)] c(2)] by simp
  with f c string_index [of env "''host_name''" "offset_string (vw_memory vw) ''name'' (Some ''host_ptr'')" opid ref "''host_name''" r] that
  show thesis by (auto simp: list_all_iff)
qed

lemma object_index:
  assumes "list_all (filter_from env cs) fs" and "find_index_filter fs col = Some r"
    and column: "\<And>c. c \<in> set cs \<Longrightarrow> column_name c = col \<Longrightarrow> c = object_list_column vw kind ''group_name'' col off ind"
  obtains g where "r = IndexObject g" "\<exists>n. cm_find (vw_memory vw) kind n = Some g"
    "\<And>x. accepts (AndingFilter fs) x \<Longrightarrow>
       \<exists>p. shiftPointer (vw_memory vw) ind x = Some p \<and> g \<in> set (cm_list (vw_memory vw) p off)"
proof -
  obtain f where f: "f \<in> set fs" "index_filter f col = Some r" using assms(2) by (rule find_index_from)
  have "filter_from env cs f" using assms(1) f(1) by (simp add: list_all_iff)
  then obtain c opid ref where c: "c \<in> set cs" "column_name c = col" "f = fst (create_filter env c opid ref)"
    using f(2) by (rule index_from)
  from column [OF c(1,2)] have c': "c = ListColumn col (cm_find (vw_memory vw) kind) (object_list vw ''group_name'' off ind)"
    by (simp add: object_list_column_def)
  from f(2) obtain g where g: "r = IndexObject g" "cm_find (vw_memory vw) kind ref = Some g"
    "\<And>x. accepts f x \<Longrightarrow> \<exists>ms. object_list vw ''group_name'' off ind x = Some ms \<and> g \<in> fst ` set ms"
    unfolding c(3) c' by (rule list_index) blast
  have "\<exists>p. shiftPointer (vw_memory vw) ind x = Some p \<and> g \<in> set (cm_list (vw_memory vw) p off)" if "accepts (AndingFilter fs) x" for x
    using g(3) [of x] that f(1) by (auto simp: list_all_iff object_list_def)
  with g that show thesis by blast
qed

lemma services_group_column:
  assumes "c \<in> set (t_columns (table_services vw False False))"
  shows "column_name c = ''groups'' \<Longrightarrow> c = object_list_column vw ''servicegroup'' ''group_name'' ''groups'' ''servicegroups_ptr'' None"
    and "column_name c = ''host_groups'' \<Longrightarrow> c = object_list_column vw ''hostgroup'' ''group_name'' ''host_groups'' ''hostgroups_ptr'' (Some ''host_ptr'')"
  using declared_asD [OF service_index_declarations(2) services_column_declared [OF assms]]
    declared_asD [OF service_index_declarations(3) services_column_declared [OF assms]] by simp_all

lemma hosts_group_column:
  assumes "c \<in> set (t_columns (table_hosts vw False))" and "column_name c = ''groups''"
  shows "c = object_list_column vw ''hostgroup'' ''group_name'' ''groups'' ''hostgroups_ptr'' None"
  using declared_asD [OF host_index_declarations hosts_column_declared [OF assms(1)] assms(2)] by simp

lemma shifted_to_host:
  assumes "core_consistent m" and "s \<in> set (cm_all m ''service'')"
  obtains h where "shiftPointer m (Some ''host_ptr'') (At s) = Some h" "h \<in> set (cm_all m ''host'')" "cm_ptr m s ''host_ptr'' = Some h"
  using assms by (auto simp: core_consistent_def)

text \<open>A group that a filter names, and its members.\<close>

lemma group_members:
  assumes "core_consistent m" and "\<exists>n. cm_find m kind n = Some g"
  shows "kind = ''hostgroup'' \<Longrightarrow> distinct (cm_list m g ''members'')"
    and "kind = ''hostgroup'' \<Longrightarrow> set (cm_list m g ''members'') = {h \<in> set (cm_all m ''host''). g \<in> set (cm_list m h ''hostgroups_ptr'')}"
    and "kind = ''servicegroup'' \<Longrightarrow> distinct (cm_list m g ''members'')"
    and "kind = ''servicegroup'' \<Longrightarrow> set (cm_list m g ''members'') = {s \<in> set (cm_all m ''service''). g \<in> set (cm_list m s ''servicegroups_ptr'')}"
  using assms unfolding core_consistent_def members_agree_def finds_listed_def by blast+

lemma services_of_host:
  assumes "core_consistent m" and "h \<in> set (cm_all m ''host'')"
  shows "distinct (cm_list m h ''services'')"
    and "set (cm_list m h ''services'') = {s \<in> set (cm_all m ''service''). cm_ptr m s ''host_ptr'' = Some h}"
  using assms unfolding core_consistent_def members_agree_def by blast+

lemma services_of_hosts:
  assumes ok: "core_consistent m" and "distinct hs" and "set hs \<subseteq> set (cm_all m ''host'')"
  shows "distinct (concat (map (\<lambda>h. cm_list m h ''services'') hs)) \<and>
    set (concat (map (\<lambda>h. cm_list m h ''services'') hs)) =
      {s \<in> set (cm_all m ''service''). \<exists>h \<in> set hs. cm_ptr m s ''host_ptr'' = Some h}"
  using assms(2,3)
proof (induction hs)
  case (Cons h hs)
  with services_of_host [OF ok, of h] show ?case by auto
qed simp

abbreviation accepted :: "data_ptr filter list \<Rightarrow> nat list \<Rightarrow> data_ptr list" where
  "accepted fs xs \<equiv> filter (accepts (AndingFilter fs)) (map At xs)"

lemma hosts_of_group:
  assumes ok: "core_consistent (vw_memory vw)" and fs: "list_all (filter_from env (t_columns (table_hosts vw False))) fs"
    and r: "find_index_filter fs ''groups'' = Some r"
  obtains g where "r = IndexObject g"
    "mset (accepted fs (cm_list (vw_memory vw) g ''members'')) = mset (accepted fs (cm_all (vw_memory vw) ''host''))"
proof -
  let ?m = "vw_memory vw"
  obtain g where g: "r = IndexObject g" "\<exists>n. cm_find ?m ''hostgroup'' n = Some g"
    "\<And>x. accepts (AndingFilter fs) x \<Longrightarrow> \<exists>p. shiftPointer ?m None x = Some p \<and> g \<in> set (cm_list ?m p ''hostgroups_ptr'')"
    using object_index [OF fs r hosts_group_column] by blast
  have d: "distinct (cm_all ?m ''host'')" using ok by (simp add: core_consistent_def)
  have "g \<in> set (cm_list ?m h ''hostgroups_ptr'')" if "accepts (AndingFilter fs) (At h)" for h using g(3) [OF that] by simp
  from that [OF g(1) scans_agree [OF d group_members(1,2) [OF ok g(2) refl] this]] show thesis by blast
qed

lemma services_of_named_host:
  assumes ok: "core_consistent (vw_memory vw)" and fs: "list_all (filter_from env (t_columns (table_services vw False False))) fs"
    and r: "find_index_filter fs ''host_name'' = Some r"
  obtains ref where "r = IndexString ref"
    "mset (accepted fs (case cm_find (vw_memory vw) ''host'' ref of None \<Rightarrow> [] | Some h \<Rightarrow> cm_list (vw_memory vw) h ''services'')) =
     mset (accepted fs (cm_all (vw_memory vw) ''service''))"
proof -
  let ?m = "vw_memory vw" and ?P = "accepts (AndingFilter fs)"
  obtain ref where ref: "r = IndexString ref" "\<And>x. ?P x \<Longrightarrow> offset_string ?m ''name'' (Some ''host_ptr'') x = ref"
    using fs r by (rule service_host_index) blast
  have found: "cm_ptr ?m s ''host_ptr'' = cm_find ?m ''host'' ref \<and> cm_find ?m ''host'' ref \<noteq> None"
    if s: "s \<in> set (cm_all ?m ''service'')" and a: "?P (At s)" for s
  proof -
    obtain h where h: "shiftPointer ?m (Some ''host_ptr'') (At s) = Some h" "h \<in> set (cm_all ?m ''host'')" "cm_ptr ?m s ''host_ptr'' = Some h"
      using ok s by (rule shifted_to_host) blast
    moreover have "text_at ?m h ''name'' = ref" using ref(2) [OF a] h(1) by (simp add: offset_string_def behind_def)
    moreover have "cm_find ?m ''host'' (text_at ?m h ''name'') = Some h" using ok h(2) by (simp add: core_consistent_def)
    ultimately show ?thesis by simp
  qed
  let ?ys = "case cm_find ?m ''host'' ref of None \<Rightarrow> [] | Some h \<Rightarrow> cm_list ?m h ''services''"
  have d: "distinct (cm_all ?m ''service'')" using ok by (simp add: core_consistent_def)
  have "distinct ?ys \<and> set ?ys = {s \<in> set (cm_all ?m ''service''). cm_ptr ?m s ''host_ptr'' = cm_find ?m ''host'' ref \<and> cm_find ?m ''host'' ref \<noteq> None}"
  proof (cases "cm_find ?m ''host'' ref")
    case (Some h)
    then have "h \<in> set (cm_all ?m ''host'')" using ok unfolding core_consistent_def finds_listed_def by blast
    with services_of_host [OF ok] Some show ?thesis by simp
  qed simp
  note ys = this
  have "mset (accepted fs ?ys) = mset (accepted fs (cm_all ?m ''service''))"
    by (rule scans_agree [OF d conjunct1 [OF ys] conjunct2 [OF ys]]) (rule found)
  then show thesis by (rule that [OF ref(1)])
qed

lemma services_of_group:
  assumes ok: "core_consistent (vw_memory vw)" and fs: "list_all (filter_from env (t_columns (table_services vw False False))) fs"
    and r: "find_index_filter fs ''groups'' = Some r"
  obtains g where "r = IndexObject g"
    "mset (accepted fs (cm_list (vw_memory vw) g ''members'')) = mset (accepted fs (cm_all (vw_memory vw) ''service''))"
proof -
  let ?m = "vw_memory vw"
  obtain g where g: "r = IndexObject g" "\<exists>n. cm_find ?m ''servicegroup'' n = Some g"
    "\<And>x. accepts (AndingFilter fs) x \<Longrightarrow> \<exists>p. shiftPointer ?m None x = Some p \<and> g \<in> set (cm_list ?m p ''servicegroups_ptr'')"
    using object_index [OF fs r services_group_column(1)] by blast
  have d: "distinct (cm_all ?m ''service'')" using ok by (simp add: core_consistent_def)
  have "g \<in> set (cm_list ?m s ''servicegroups_ptr'')" if "accepts (AndingFilter fs) (At s)" for s using g(3) [OF that] by simp
  from that [OF g(1) scans_agree [OF d group_members(3,4) [OF ok g(2) refl] this]] show thesis by blast
qed

lemma services_of_hostgroup:
  assumes ok: "core_consistent (vw_memory vw)" and fs: "list_all (filter_from env (t_columns (table_services vw False False))) fs"
    and r: "find_index_filter fs ''host_groups'' = Some r"
  obtains g where "r = IndexObject g"
    "mset (accepted fs (concat (map (\<lambda>h. cm_list (vw_memory vw) h ''services'') (cm_list (vw_memory vw) g ''members'')))) =
     mset (accepted fs (cm_all (vw_memory vw) ''service''))"
proof -
  let ?m = "vw_memory vw"
  obtain g where g: "r = IndexObject g" "\<exists>n. cm_find ?m ''hostgroup'' n = Some g"
    "\<And>x. accepts (AndingFilter fs) x \<Longrightarrow> \<exists>p. shiftPointer ?m (Some ''host_ptr'') x = Some p \<and> g \<in> set (cm_list ?m p ''hostgroups_ptr'')"
    using object_index [OF fs r services_group_column(2)] by blast
  have d: "distinct (cm_all ?m ''service'')" using ok by (simp add: core_consistent_def)
  note hs = group_members(1,2) [OF ok g(2) refl]
  have "\<exists>h \<in> set (cm_list ?m g ''members''). cm_ptr ?m s ''host_ptr'' = Some h"
    if s: "s \<in> set (cm_all ?m ''service'')" and a: "accepts (AndingFilter fs) (At s)" for s
  proof -
    obtain h where h: "shiftPointer ?m (Some ''host_ptr'') (At s) = Some h" "h \<in> set (cm_all ?m ''host'')" "cm_ptr ?m s ''host_ptr'' = Some h"
      using ok s by (rule shifted_to_host) blast
    with g(3) [OF a] hs(2) show ?thesis by auto
  qed
  note one = this
  have "set (cm_list ?m g ''members'') \<subseteq> set (cm_all ?m ''host'')" using hs(2) by simp
  note ss = services_of_hosts [OF ok hs(1) this]
  have "mset (accepted fs (concat (map (\<lambda>h. cm_list ?m h ''services'') (cm_list ?m g ''members'')))) = mset (accepted fs (cm_all ?m ''service''))"
    by (rule scans_agree [OF d conjunct1 [OF ss] conjunct2 [OF ss]]) (rule one)
  then show thesis by (rule that [OF g(1)])
qed

lemma services_from_index:
  assumes ok: "core_consistent (vw_memory vw)" and fs: "list_all (filter_from env (t_columns (table_services vw False False))) fs"
  shows "mset (services_answer (vw_memory vw) fs (keep_if (accepts (AndingFilter fs))) []) = mset (accepted fs (cm_all (vw_memory vw) ''service''))"
proof -
  let ?m = "vw_memory vw" and ?all = "cm_all (vw_memory vw) ''service''"
  consider (named) r where "find_index_filter fs ''host_name'' = Some r"
    | (group) r where "find_index_filter fs ''host_name'' = None" "find_index_filter fs ''groups'' = Some r"
    | (hostgroup) r where "find_index_filter fs ''host_name'' = None" "find_index_filter fs ''groups'' = None"
        "find_index_filter fs ''host_groups'' = Some r"
    | (scan) "find_index_filter fs ''host_name'' = None" "find_index_filter fs ''groups'' = None" "find_index_filter fs ''host_groups'' = None"
    by (cases "find_index_filter fs ''host_name''"; cases "find_index_filter fs ''groups''"; cases "find_index_filter fs ''host_groups''") auto
  then show ?thesis
  proof cases
    case named
    obtain ref where ref: "r = IndexString ref"
      "mset (accepted fs (case cm_find ?m ''host'' ref of None \<Rightarrow> [] | Some h \<Rightarrow> cm_list ?m h ''services'')) = mset (accepted fs ?all)"
      using ok fs named by (rule services_of_named_host) blast
    then show ?thesis using named by (cases "cm_find ?m ''host'' ref") (simp_all add: services_answer_def del: accepts.simps)
  next
    case group
    obtain g where "r = IndexObject g" "mset (accepted fs (cm_list ?m g ''members'')) = mset (accepted fs ?all)"
      using ok fs group(2) by (rule services_of_group) blast
    with group show ?thesis by (simp add: services_answer_def del: accepts.simps)
  next
    case hostgroup
    obtain g where "r = IndexObject g"
      "mset (accepted fs (concat (map (\<lambda>h. cm_list ?m h ''services'') (cm_list ?m g ''members'')))) = mset (accepted fs ?all)"
      using ok fs hostgroup(3) by (rule services_of_hostgroup) blast
    with hostgroup show ?thesis by (simp add: services_answer_def offer_all_keep del: accepts.simps)
  next
    case scan
    then show ?thesis by (simp add: services_answer_def all_objects_answer_def del: accepts.simps)
  qed
qed

lemma t_prefixname_addColumns [simp]: "t_prefixname (fold addColumn cs t) = t_prefixname t"
  by (induction cs arbitrary: t) (simp_all add: addColumn_def)

lemma filter_from_created:
  assumes "c \<in> set cs" and "\<not> (column_name c = ''host_name'' \<and> opid = - OP_EQUAL)"
  shows "filter_from env cs (fst (create_filter env c opid text))"
proof -
  have "filter_from env cs f" if f: "f = fst (create_filter env c opid text)" for f
  proof -
    have "\<exists>c opid text. c \<in> set cs \<and> f = fst (create_filter env c opid text) \<and> \<not> (column_name c = ''host_name'' \<and> opid = - OP_EQUAL)"
      using assms f by blast
    then show ?thesis by (cases f) (simp_all del: create_filter.simps)
  qed
  then show ?thesis by blast
qed

lemma column_found:
  assumes "d \<in> set ds" and "\<not> has_prefix (butlast (t_prefixname t) @ ''_'') (decl_name d)"
  shows "\<exists>c \<in> set (t_columns (add_columns vw ds ns t)). column_name c = decl_name d"
proof -
  let ?t = "fold addColumn (map (declared_column vw) ds) t"
  obtain c where "table_column ?t (decl_name d) = Some c"
    using fold_addColumn_reachable [of "declared_column vw d" "map (declared_column vw) ds" t] assms(1) by auto
  moreover have "t_prefixname ?t = t_prefixname t" by simp
  ultimately have "columns_find (t_columns ?t) (decl_name d) = Some c"
    using assms(2) by (simp add: table_column_def lookup_column.simps split: option.splits if_splits)
  then have "c \<in> set (t_columns ?t) \<and> column_name c = decl_name d" by (rule columns_find_SomeD)
  then show ?thesis by (auto simp: add_columns_def clearNatSort_def)
qed

text \<open>
  C4. The tables of hosts and services answer a query from an index as they answer it from a scan of everything: whether they
  start from the host, the service group or the host group a filter names, the rows the filters accept are
  the rows they accept among all hosts or services, each once. The filters are built from columns of the table, none of them is a negated
  equality of the name of the host, and the lists of the core agree with each other.
\<close>

theorem indexes_find_every_row:
  assumes ok: "core_consistent (vw_memory vw)"
    and fs: "list_all (filter_from env (t_columns (table_services vw False False))) fs"
    and gs: "list_all (filter_from env (t_columns (table_hosts vw False))) gs"
  shows "mset (services_answer (vw_memory vw) fs (keep_if (accepts (AndingFilter fs))) []) = mset (accepted fs (cm_all (vw_memory vw) ''service'')) \<and>
    mset (hosts_answer (vw_memory vw) gs (keep_if (accepts (AndingFilter gs))) []) = mset (accepted gs (cm_all (vw_memory vw) ''host''))"
proof
  let ?m = "vw_memory vw"
  show "mset (hosts_answer ?m gs (keep_if (accepts (AndingFilter gs))) []) = mset (accepted gs (cm_all ?m ''host''))"
  proof (cases "find_index_filter gs ''groups''")
    case (Some r)
    obtain g where "r = IndexObject g" "mset (accepted gs (cm_list ?m g ''members'')) = mset (accepted gs (cm_all ?m ''host''))"
      using ok gs Some by (rule hosts_of_group) blast
    with Some show ?thesis by (simp add: hosts_answer_def del: accepts.simps)
  qed (simp add: hosts_answer_def all_objects_answer_def del: accepts.simps)
  show "mset (services_answer ?m fs (keep_if (accepts (AndingFilter fs))) []) = mset (accepted fs (cm_all ?m ''service''))"
    using ok fs by (rule services_from_index)
qed


text \<open>Two hosts with a service each, the first host in a group.\<close>

definition two_hosts :: core_memory where
  "two_hosts = blank_memory\<lparr>
     cm_text := (\<lambda>a f. if f = ''name'' then (if a = 0 then Some ''web'' else if a = 1 then Some ''db'' else None) else None),
     cm_ptr := (\<lambda>a f. if f = ''host_ptr'' then (if a = 2 then Some 0 else if a = 3 then Some 1 else None) else None),
     cm_list := (\<lambda>a f. if f = ''services'' then (if a = 0 then [2] else if a = 1 then [3] else [])
       else if f = ''members'' then (if a = 4 then [0] else [])
       else if f = ''hostgroups_ptr'' then (if a = 0 then [4] else []) else []),
     cm_all := (\<lambda>k. if k = ''host'' then [0, 1] else if k = ''service'' then [2, 3] else if k = ''hostgroup'' then [4] else []),
     cm_find := (\<lambda>k n. if k = ''host'' then (if n = ''web'' then Some 0 else if n = ''db'' then Some 1 else None)
       else if k = ''hostgroup'' \<and> n = ''linux'' then Some 4 else None) \<rparr>"

definition services_of_db :: "data_ptr filter list" where
  "services_of_db = [fst (create_filter demo_env (StringColumn ''host_name'' (offset_string two_hosts ''name'' (Some ''host_ptr''))) OP_EQUAL ''db'')]"

definition linux_hosts :: "data_ptr filter list" where
  "linux_hosts = [fst (create_filter demo_env (ListColumn ''groups'' (cm_find two_hosts ''hostgroup'')
      (\<lambda>data. map_option (\<lambda>p. map (\<lambda>a. (a, text_at two_hosts a ''group_name'')) (cm_list two_hosts p ''hostgroups_ptr'')) (shiftPointer two_hosts None data)))
      (- OP_LESS) ''linux'')]"

lemma two_hosts_consistent: "core_consistent two_hosts"
  by (auto simp: core_consistent_def finds_listed_def members_agree_def two_hosts_def blank_memory_def text_at_def split: if_splits)

theorem indexes_find_every_row_witness:
  "mset (services_answer two_hosts services_of_db (keep_if (accepts (AndingFilter services_of_db))) []) = {# At 3 #} \<and>
   mset (hosts_answer two_hosts linux_hosts (keep_if (accepts (AndingFilter linux_hosts))) []) = {# At 0 #}"
proof -
  have "mset (services_answer two_hosts services_of_db (keep_if (accepts (AndingFilter services_of_db))) []) =
      mset (accepted services_of_db (cm_all two_hosts ''service'')) \<and>
    mset (hosts_answer two_hosts linux_hosts (keep_if (accepts (AndingFilter linux_hosts))) []) = mset (accepted linux_hosts (cm_all two_hosts ''host''))"
    for w :: core_view
  proof -
    let ?vw = "w\<lparr> vw_memory := two_hosts \<rparr>"
    have "\<exists>c \<in> set (t_columns (table_services ?vw False False)). column_name c = decl_name (OffsetString ''host_name'' ''name'' (Some ''host_ptr''))"
      unfolding table_services_def by (simp only: Let_def if_False, rule column_found)
        (simp_all add: service_columns_def service_columns3_def host_columns_def host_columns1_def new_table_def has_prefix_def)
    then have s: "StringColumn ''host_name'' (offset_string two_hosts ''name'' (Some ''host_ptr'')) \<in> set (t_columns (table_services ?vw False False))"
      using declared_asD [OF service_index_declarations(1) services_column_declared] by fastforce
    have "\<exists>c \<in> set (t_columns (table_hosts ?vw False)). column_name c = decl_name (Hostgroups ''groups'' ''hostgroups_ptr'' None)"
      unfolding table_hosts_def by (simp only: if_False, rule column_found)
        (simp_all add: host_columns_def host_columns2_def new_table_def has_prefix_def)
    then have h: "object_list_column ?vw ''hostgroup'' ''group_name'' ''groups'' ''hostgroups_ptr'' None \<in> set (t_columns (table_hosts ?vw False))"
      using hosts_group_column [of _ ?vw] by auto
    have "list_all (filter_from demo_env (t_columns (table_services ?vw False False))) services_of_db"
      using filter_from_created [OF s] by (simp add: services_of_db_def del: create_filter.simps)
    moreover have "list_all (filter_from demo_env (t_columns (table_hosts ?vw False))) linux_hosts"
      using filter_from_created [OF h] by (simp add: linux_hosts_def object_list_column_def object_list_def [abs_def] del: create_filter.simps)
    ultimately show ?thesis
      using indexes_find_every_row [of ?vw demo_env services_of_db linux_hosts] two_hosts_consistent by simp
  qed
  moreover have "accepted services_of_db (cm_all two_hosts ''service'') = [At 3]"
    by (simp add: services_of_db_def two_hosts_def offset_string_def behind_def text_at_def string_accepts_def compile_regex_def)
  moreover have "accepted linux_hosts (cm_all two_hosts ''host'') = [At 0]"
    by (simp add: linux_hosts_def two_hosts_def list_accepts_def is_member_def)
  ultimately show ?thesis by simp
qed

end
