(* ===== verification/Joined_Tables.thy ===== *)
theory Joined_Tables
  imports Object_Tables Query_Output Table_Log State_History
begin

text \<open>
  The tables whose rows are structs of the module that point to objects of the core (the constructors and \<open>addColumns\<close> of
  \<open>src/TableLog.cc\<close>, \<open>src/TableStateHistory.cc\<close>, \<open>src/TableDownComm.cc\<close>), and the table of all columns
  (\<open>src/TableColumns.cc\<close>). They join the columns of hosts, services, contacts and commands under a prefix, with an
  indirection through the pointer of the row. A member of the module's own structs that is longer than the column that reads it is
  cut to its low 32 bits, as on a little-endian machine.
\<close>

section \<open>A column of joined objects\<close>

text \<open>
  A row of the module's own is to a joined column the pointers it holds. The column is the same object as in the table it is
  declared for: every method first shifts by the indirection.
\<close>

fun retarget :: "('s \<Rightarrow> 'r) \<Rightarrow> 'r column \<Rightarrow> 's column" where
  "retarget f (IntColumn n g) = IntColumn n (g \<circ> f)"
| "retarget f (DoubleColumn n g) = DoubleColumn n (g \<circ> f)"
| "retarget f (StringColumn n g) = StringColumn n (g \<circ> f)"
| "retarget f (MacroColumn n g h) = MacroColumn n (g \<circ> f) (h \<circ> f)"
| "retarget f (TimeColumn n g) = TimeColumn n (g \<circ> f)"
| "retarget f (TimeValColumn n g) = TimeValColumn n (g \<circ> f)"
| "retarget f (AttributelistColumn n show_list g) = AttributelistColumn n show_list (g \<circ> f)"
| "retarget f (ListColumn n look g) = ListColumn n look (g \<circ> f)"
| "retarget f (HostlistColumn n show_state g) = HostlistColumn n show_state (g \<circ> f)"
| "retarget f (ServicelistColumn n show_host info_depth g) = ServicelistColumn n show_host info_depth (g \<circ> f)"
| "retarget f (CustomVarsColumn n what g) = CustomVarsColumn n what (g \<circ> f)"
| "retarget f (StructColumn n ty test shown) = StructColumn n ty (map_option (\<lambda>m opid text x. m opid text (f x)) test) (shown \<circ> f)"
| "retarget f (EmptyColumn n) = EmptyColumn n"

lemma retarget_name [simp]: "column_name (retarget f c) = column_name c"
  by (cases c) simp_all

lemma retarget_output [simp]: "column_output e (retarget f c) x = column_output e c (f x)"
  by (cases c) simp_all

definition row_pointers :: "(string \<times> nat option) list \<Rightarrow> data_ptr" where
  "row_pointers ms = Joined (map (\<lambda>(i, p). (i, the p)) (filter (\<lambda>(i, p). p \<noteq> None) ms))"

definition join_columns :: "core_view \<Rightarrow> ('r \<Rightarrow> data_ptr) \<Rightarrow> column_decl list \<Rightarrow> string list \<Rightarrow> 'r table \<Rightarrow> 'r table" where
  "join_columns vw pointers ds nat_sort t =
     fold addNatSort nat_sort (clearNatSort (fold addColumn (map (retarget pointers \<circ> declared_column vw) ds) t))"

definition text_or_empty :: "string option \<Rightarrow> string" where
  "text_or_empty s = (case s of None \<Rightarrow> [] | Some t \<Rightarrow> t)"

section \<open>The log\<close>

definition log_pointers :: "log_entry \<Rightarrow> data_ptr" where
  "log_pointers e = row_pointers [(''_host'', le_host e), (''_service'', le_service e), (''_contact'', le_contact e), (''_command'', le_command e)]"

definition log_columns :: "log_entry column list" where
  "log_columns =
     [TimeColumn ''time'' le_time,
      IntColumn ''lineno'' (\<lambda>e. wrap32 (int (le_lineno e))),
      IntColumn ''class'' le_logclass,
      StringColumn ''message'' le_complete,
      StringColumn ''type'' (\<lambda>e. text_or_empty (le_text e)),
      StringColumn ''options'' le_options,
      StringColumn ''comment'' (\<lambda>e. text_or_empty (le_comment e)),
      StringColumn ''plugin_output'' (\<lambda>e. text_or_empty (le_check_output e)),
      IntColumn ''state'' le_state,
      StringColumn ''state_type'' (\<lambda>e. text_or_empty (le_state_type e)),
      IntColumn ''attempt'' le_attempt,
      StringColumn ''service_description'' (\<lambda>e. text_or_empty (le_svc_desc e)),
      StringColumn ''host_name'' (\<lambda>e. text_or_empty (le_host_name e)),
      StringColumn ''contact_name'' (\<lambda>e. text_or_empty (le_contact_name e)),
      StringColumn ''command_name'' (\<lambda>e. text_or_empty (le_command_name e))]"

definition table_log :: "core_view \<Rightarrow> nat \<Rightarrow> log_entry table" where
  "table_log vw max_addresses =
     (let own = fold addColumn log_columns
            \<lparr> t_name = ''log'', t_prefixname = ''logs'', t_columns = [], t_nat_sort = [],
              t_is_authorized = log_authorized (is_authorized_for (vw_contacts vw) (vw_service_authorization vw)),
              t_find_object = (\<lambda>_. None), t_has_logcache = True \<rparr>;
          hosts = join_columns vw log_pointers (host_columns ''current_host_'' (Some ''_host'')) [''current_host_name''] own;
          services = join_columns vw log_pointers (service_columns ''current_service_'' (Some ''_service'') False) [''current_service_description''] hosts;
          contacts = join_columns vw log_pointers (contact_columns max_addresses ''current_contact_'' (Some ''_contact'')) [''current_contact_name''] services;
          commands = fold addColumn (map (retarget log_pointers \<circ> declared_column vw) (command_columns ''current_command_'' (Some ''_command''))) contacts
      in addNatSort ''time'' (clearNatSort commands))"

section \<open>State histories\<close>

definition history_pointers :: "host_service_state \<Rightarrow> data_ptr" where
  "history_pointers hs = row_pointers [(''_host'', hs_host hs), (''_service'', hs_service hs)]"

definition history_columns :: "host_service_state column list" where
  "history_columns =
     [TimeColumn ''time'' hs_time,
      IntColumn ''lineno'' hs_lineno,
      TimeColumn ''from'' hs_from,
      TimeColumn ''until'' hs_until,
      IntColumn ''duration'' (\<lambda>hs. wrap32 (hs_duration hs)),
      DoubleColumn ''duration_part'' hs_duration_part,
      IntColumn ''state'' hs_state,
      IntColumn ''host_down'' hs_host_down,
      IntColumn ''in_downtime'' hs_in_downtime,
      IntColumn ''in_host_downtime'' hs_in_host_downtime,
      IntColumn ''is_flapping'' hs_is_flapping,
      IntColumn ''in_notification_period'' hs_in_notification_period,
      StringColumn ''notification_period'' hs_notification_period,
      IntColumn ''in_service_period'' hs_in_service_period,
      StringColumn ''service_period'' hs_service_period,
      StringColumn ''debug_info'' (\<lambda>hs. text_or_empty (hs_debug_info hs)),
      StringColumn ''host_name'' hs_host_name,
      StringColumn ''service_description'' hs_service_description,
      StringColumn ''log_output'' (\<lambda>hs. text_or_empty (hs_log_output hs)),
      IntColumn ''duration_ok'' (\<lambda>hs. wrap32 (hs_duration_OK hs)),
      DoubleColumn ''duration_part_ok'' hs_part_OK,
      IntColumn ''duration_warning'' (\<lambda>hs. wrap32 (hs_duration_WARNING hs)),
      DoubleColumn ''duration_part_warning'' hs_part_WARNING,
      IntColumn ''duration_critical'' (\<lambda>hs. wrap32 (hs_duration_CRITICAL hs)),
      DoubleColumn ''duration_part_critical'' hs_part_CRITICAL,
      IntColumn ''duration_unknown'' (\<lambda>hs. wrap32 (hs_duration_UNKNOWN hs)),
      DoubleColumn ''duration_part_unknown'' hs_part_UNKNOWN,
      IntColumn ''duration_unmonitored'' (\<lambda>hs. wrap32 (hs_duration_UNMONITORED hs)),
      DoubleColumn ''duration_part_unmonitored'' hs_part_UNMONITORED]"

definition table_statehist :: "core_view \<Rightarrow> host_service_state table" where
  "table_statehist vw =
     (let own = fold addColumn history_columns
            \<lparr> t_name = ''statehist'', t_prefixname = ''statehist_'', t_columns = [], t_nat_sort = [],
              t_is_authorized = statehist_authorized (is_authorized_for (vw_contacts vw) (vw_service_authorization vw)),
              t_find_object = (\<lambda>_. None), t_has_logcache = True \<rparr>;
          hosts = join_columns vw history_pointers (host_columns ''current_host_'' (Some ''_host'')) [''current_host_name''] own;
          services = join_columns vw history_pointers (service_columns ''current_service_'' (Some ''_service'') False) [''current_service_description''] hosts
      in fold addNatSort [''host_name'', ''service_description''] (clearNatSort services))"

section \<open>Downtimes and comments\<close>

definition down_comm_pointers :: "down_comm \<Rightarrow> data_ptr" where
  "down_comm_pointers dc = row_pointers [(''_host'', dc_host dc), (''_service'', dc_service dc)]"

definition down_comm_columns :: "bool \<Rightarrow> down_comm column list" where
  "down_comm_columns is_downtime =
     [StringColumn ''author'' dc_author_name,
      StringColumn ''comment'' dc_comment,
      IntColumn ''id'' (\<lambda>dc. wrap32 (uint (dc_id dc))),
      TimeColumn ''entry_time'' dc_entry_time,
      IntColumn ''type'' dc_type,
      IntColumn ''is_service'' dc_is_service] @
     (if is_downtime
      then [TimeColumn ''start_time'' (dx_start_time \<circ> dc_extra),
            TimeColumn ''end_time'' (dx_end_time \<circ> dc_extra),
            IntColumn ''fixed'' (dx_fixed \<circ> dc_extra),
            IntColumn ''duration'' (dx_duration \<circ> dc_extra),
            IntColumn ''triggered_by'' (dx_triggered_by \<circ> dc_extra)]
      else [IntColumn ''persistent'' (cx_persistent \<circ> dc_extra),
            IntColumn ''source'' (cx_persistent \<circ> dc_extra),
            IntColumn ''entry_type'' (cx_entry_type \<circ> dc_extra),
            IntColumn ''expires'' (cx_expires \<circ> dc_extra),
            TimeColumn ''expire_time'' (cx_expire_time \<circ> dc_extra)])"

definition table_down_comm :: "core_view \<Rightarrow> bool \<Rightarrow> down_comm table" where
  "table_down_comm vw is_downtime =
     (let name = if is_downtime then ''downtimes'' else ''comments'';
          own = fold addColumn (down_comm_columns is_downtime)
            \<lparr> t_name = name, t_prefixname = name, t_columns = [], t_nat_sort = [],
              t_is_authorized = down_comm_authorized (vw_contacts vw) (vw_service_authorization vw),
              t_find_object = (\<lambda>_. None), t_has_logcache = False \<rparr>;
          hosts = join_columns vw down_comm_pointers (host_columns ''host_'' (Some ''_host'')) [''host_name''] own
      in join_columns vw down_comm_pointers (service_columns ''service_'' (Some ''_service'') False) [''service_description''] hosts)"

section \<open>The table of the columns\<close>

text \<open>
  Its rows are the columns of all tables, in the order of the names of the tables and of the columns. A column here is its
  table, its name and its type; the descriptions are constant texts of the declarations and are left to a parameter. A query that wants no
  more rows ends the walk over one table.
\<close>

record column_row =
  cr_table :: string
  cr_name :: string
  cr_type :: coltype

definition columns_of_table :: "'r table \<Rightarrow> column_row list" where
  "columns_of_table t = map (\<lambda>c. \<lparr> cr_table = t_name t, cr_name = column_name c, cr_type = column_type c \<rparr>) (t_columns t)"

definition type_names :: "coltype \<Rightarrow> string" where
  "type_names ty = (case ty of COLTYPE_INT \<Rightarrow> ''int'' | COLTYPE_DOUBLE \<Rightarrow> ''float'' | COLTYPE_STRING \<Rightarrow> ''string''
     | COLTYPE_LIST \<Rightarrow> ''list'' | COLTYPE_TIME \<Rightarrow> ''time'' | COLTYPE_DICT \<Rightarrow> ''dict'')"

definition table_columns_columns :: "(column_row \<Rightarrow> string) \<Rightarrow> column_row column list" where
  "table_columns_columns description =
     [StringColumn ''table'' cr_table, StringColumn ''name'' cr_name, StringColumn ''description'' description,
      StringColumn ''type'' (type_names \<circ> cr_type)]"

definition table_columns :: "(column_row \<Rightarrow> string) \<Rightarrow> column_row table" where
  "table_columns description = fold addColumn (table_columns_columns description)
     \<lparr> t_name = ''columns'', t_prefixname = ''columns'', t_columns = [], t_nat_sort = [],
       t_is_authorized = (\<lambda>_ _. True), t_find_object = (\<lambda>_. None), t_has_logcache = False \<rparr>"

text \<open>The tables in the order of their names.\<close>

definition listed_columns :: "core_view \<Rightarrow> nat \<Rightarrow> auth_mode \<Rightarrow> (column_row \<Rightarrow> string) \<Rightarrow> column_row list list" where
  "listed_columns vw max_addresses group_authorization description =
     [columns_of_table (table_columns description),
      columns_of_table (table_commands vw),
      columns_of_table (table_down_comm vw False),
      columns_of_table (table_contactgroups vw),
      columns_of_table (table_contacts vw max_addresses),
      columns_of_table (table_down_comm vw True),
      columns_of_table (table_hostgroups vw group_authorization),
      columns_of_table (table_hosts vw False),
      columns_of_table (table_hosts vw True),
      columns_of_table (table_log vw max_addresses),
      columns_of_table (table_servicegroups vw group_authorization),
      columns_of_table (table_services vw False False),
      columns_of_table (table_services vw True False),
      columns_of_table (table_services vw False True),
      columns_of_table (table_statehist vw),
      columns_of_table (table_status vw),
      columns_of_table (table_timeperiods vw)]"

definition columns_answer :: "column_row list list \<Rightarrow> (column_row \<Rightarrow> 's \<Rightarrow> bool \<times> 's) \<Rightarrow> 's \<Rightarrow> 's" where
  "columns_answer tables consume st = fold (offer_rows consume) tables st"

section \<open>What a joined column shows\<close>

text \<open>The declaration of a column of the object itself, made one of a joined object by a prefix and an indirection.\<close>

fun joined_decl :: "string \<Rightarrow> string \<Rightarrow> column_decl \<Rightarrow> column_decl" where
  "joined_decl p i (OffsetInt n off None) = OffsetInt (p @ n) off (Some i)"
| "joined_decl p i (OffsetString n off None) = OffsetString (p @ n) off (Some i)"
| "joined_decl p i (OffsetTime n off None) = OffsetTime (p @ n) off (Some i)"
| "joined_decl p i (OffsetTimeVal n off None) = OffsetTimeVal (p @ n) off (Some i)"
| "joined_decl p i (OffsetDouble n off None) = OffsetDouble (p @ n) off (Some i)"
| "joined_decl p i (OffsetTimeperiod n off None) = OffsetTimeperiod (p @ n) off (Some i)"
| "joined_decl p i (OffsetStringHostMacro n off None) = OffsetStringHostMacro (p @ n) off (Some i)"
| "joined_decl p i (OffsetStringServiceMacro n off None) = OffsetStringServiceMacro (p @ n) off (Some i)"
| "joined_decl p i (Attributelist n off None show_list) = Attributelist (p @ n) off (Some i) show_list"
| "joined_decl p i (CustomVars n off None what) = CustomVars (p @ n) off (Some i) what"
| "joined_decl p i (CustomVarsExplicit n off None varname) = CustomVarsExplicit (p @ n) off (Some i) varname"
| "joined_decl p i (Hostlist n off None show_state) = Hostlist (p @ n) off (Some i) show_state"
| "joined_decl p i (Servicelist n off None show_host info_depth) = Servicelist (p @ n) off (Some i) show_host info_depth"
| "joined_decl p i (ServicelistState n logictype off None) = ServicelistState (p @ n) logictype off (Some i)"
| "joined_decl p i (HostlistState n logictype off None) = HostlistState (p @ n) logictype off (Some i)"
| "joined_decl p i (HostSpecialInt n ty None) = HostSpecialInt (p @ n) ty (Some i)"
| "joined_decl p i (ServiceSpecialInt n ty None) = ServiceSpecialInt (p @ n) ty (Some i)"
| "joined_decl p i (HostStaleness n None) = HostStaleness (p @ n) (Some i)"
| "joined_decl p i (ServiceStaleness n None) = ServiceStaleness (p @ n) (Some i)"
| "joined_decl p i (DownComm n None is_downtime with_info) = DownComm (p @ n) (Some i) is_downtime with_info"
| "joined_decl p i (HostContacts n None) = HostContacts (p @ n) (Some i)"
| "joined_decl p i (ServiceContacts n None) = ServiceContacts (p @ n) (Some i)"
| "joined_decl p i (ContactgroupsMember n None) = ContactgroupsMember (p @ n) (Some i)"
| "joined_decl p i (Hostgroups n off None) = Hostgroups (p @ n) off (Some i)"
| "joined_decl p i (Servicegroups n off None) = Servicegroups (p @ n) off (Some i)"
| "joined_decl p i (Contactgroups n off None) = Contactgroups (p @ n) off (Some i)"
| "joined_decl p i (CommandsMember n off None) = CommandsMember (p @ n) off (Some i)"
| "joined_decl p i (TimeperiodExclusion n off None) = TimeperiodExclusion (p @ n) off (Some i)"
| "joined_decl p i (HostlistDependency n off None with_info) = HostlistDependency (p @ n) off (Some i) with_info"
| "joined_decl p i (ServicelistDependency n off None with_info) = ServicelistDependency (p @ n) off (Some i) with_info"
| "joined_decl p i (TimeperiodDays n None) = TimeperiodDays (p @ n) (Some i)"
| "joined_decl p i (TimeperiodExceptions n None kind) = TimeperiodExceptions (p @ n) (Some i) kind"
| "joined_decl p i d = d"

fun unshifted :: "column_decl \<Rightarrow> bool" where
  "unshifted (OffsetInt _ _ ind) = (ind = None)"
| "unshifted (OffsetString _ _ ind) = (ind = None)"
| "unshifted (OffsetTime _ _ ind) = (ind = None)"
| "unshifted (OffsetTimeVal _ _ ind) = (ind = None)"
| "unshifted (OffsetDouble _ _ ind) = (ind = None)"
| "unshifted (OffsetTimeperiod _ _ ind) = (ind = None)"
| "unshifted (OffsetStringHostMacro _ _ ind) = (ind = None)"
| "unshifted (OffsetStringServiceMacro _ _ ind) = (ind = None)"
| "unshifted (Attributelist _ _ ind _) = (ind = None)"
| "unshifted (CustomVars _ _ ind _) = (ind = None)"
| "unshifted (CustomVarsExplicit _ _ ind _) = (ind = None)"
| "unshifted (Hostlist _ _ ind _) = (ind = None)"
| "unshifted (Servicelist _ _ ind _ _) = (ind = None)"
| "unshifted (ServicelistState _ _ _ ind) = (ind = None)"
| "unshifted (HostlistState _ _ _ ind) = (ind = None)"
| "unshifted (HostSpecialInt _ _ ind) = (ind = None)"
| "unshifted (ServiceSpecialInt _ _ ind) = (ind = None)"
| "unshifted (HostStaleness _ ind) = (ind = None)"
| "unshifted (ServiceStaleness _ ind) = (ind = None)"
| "unshifted (DownComm _ ind _ _) = (ind = None)"
| "unshifted (HostContacts _ ind) = (ind = None)"
| "unshifted (ServiceContacts _ ind) = (ind = None)"
| "unshifted (ContactgroupsMember _ ind) = (ind = None)"
| "unshifted (Hostgroups _ _ ind) = (ind = None)"
| "unshifted (Servicegroups _ _ ind) = (ind = None)"
| "unshifted (Contactgroups _ _ ind) = (ind = None)"
| "unshifted (CommandsMember _ _ ind) = (ind = None)"
| "unshifted (TimeperiodExclusion _ _ ind) = (ind = None)"
| "unshifted (HostlistDependency _ _ ind _) = (ind = None)"
| "unshifted (ServicelistDependency _ _ ind _) = (ind = None)"
| "unshifted (TimeperiodDays _ ind) = (ind = None)"
| "unshifted (TimeperiodExceptions _ ind _) = (ind = None)"
| "unshifted _ = False"

text \<open>What a column reads in a row, whatever its name.\<close>

datatype reading =
    Reads_int int
  | Reads_double real
  | Reads_text string
  | Reads_macro string string
  | Reads_time int
  | Reads_timeval "int \<times> int"
  | Reads_attributes bool "64 word"
  | Reads_list "(nat \<times> string) list option"
  | Reads_hosts bool "host_member list"
  | Reads_services bool nat "svc_member list"
  | Reads_variables cvt "(string \<times> string) list"
  | Reads_struct printed
  | Reads_nothing

fun reading_of :: "'r column \<Rightarrow> 'r \<Rightarrow> reading" where
  "reading_of (IntColumn _ g) x = Reads_int (g x)"
| "reading_of (DoubleColumn _ g) x = Reads_double (g x)"
| "reading_of (StringColumn _ g) x = Reads_text (g x)"
| "reading_of (MacroColumn _ g h) x = Reads_macro (g x) (h x)"
| "reading_of (TimeColumn _ g) x = Reads_time (g x)"
| "reading_of (TimeValColumn _ g) x = Reads_timeval (g x)"
| "reading_of (AttributelistColumn _ show_list g) x = Reads_attributes show_list (g x)"
| "reading_of (ListColumn _ _ g) x = Reads_list (g x)"
| "reading_of (HostlistColumn _ show_state g) x = Reads_hosts show_state (g x)"
| "reading_of (ServicelistColumn _ show_host info_depth g) x = Reads_services show_host info_depth (g x)"
| "reading_of (CustomVarsColumn _ what g) x = Reads_variables what (g x)"
| "reading_of (StructColumn _ _ _ g) x = Reads_struct (g x)"
| "reading_of (EmptyColumn _) x = Reads_nothing"

lemma same_reading_output:
  assumes "reading_of c x = reading_of d y"
  shows "column_output e c x = column_output e d y"
  using assms by (cases c; cases d) auto

lemma behind_joined: "shiftPointer m (Some i) x = Some a \<Longrightarrow> behind m (Some i) z v x = behind m None z v (At a)"
  by (simp add: behind_def)

lemma joined_reads:
  assumes d: "unshifted d" and a: "shiftPointer (vw_memory vw) (Some i) x = Some a"
  shows "reading_of (declared_column vw (joined_decl p i d)) x = reading_of (declared_column vw d) (At a)"
  using d by (cases d) (simp_all add: offset_int_def offset_string_def offset_time_def offset_timeval_def offset_double_def offset_timeperiod_def
      host_macro_text_def service_macro_text_def behind_def a servicelist_state_def hostlist_state_def host_special_int_def service_special_int_def
      host_staleness_def service_staleness_def down_comm_column_def contacts_column_def contactgroup_members_column_def object_list_column_def object_list_def
      host_dependency_column_def service_dependency_column_def dependencies_at_def timeperiod_days_column_def timeperiod_exceptions_column_def
      custom_variable_def Let_def)

lemma joined_decl_name: "unshifted d \<Longrightarrow> decl_name (joined_decl p i d) = p @ decl_name d"
  by (cases d) simp_all

lemma joined_columns_show:
  assumes "list_all unshifted ds" and "shiftPointer (vw_memory vw) (Some i) x = Some a"
  shows "map (\<lambda>d. (decl_name d, column_output e (declared_column vw d) x)) (map (joined_decl p i) ds) =
    map (\<lambda>d. (p @ decl_name d, column_output e (declared_column vw d) (At a))) ds"
  using assms(1)
  by (induction ds) (simp_all add: joined_decl_name same_reading_output [OF joined_reads [OF _ assms(2)]])

definition joinable :: "(string \<Rightarrow> string option \<Rightarrow> column_decl list) \<Rightarrow> bool" where
  "joinable columns = (list_all unshifted (columns [] None) \<and> (\<forall>p i. columns p (Some i) = map (joined_decl p i) (columns [] None)))"

lemma tables_joinable:
  "joinable host_columns" "joinable (\<lambda>p i. service_columns p i False)" "joinable (contact_columns n)" "joinable command_columns"
  "joinable hostgroup_columns" "joinable servicegroup_columns"
  by (simp_all add: joinable_def host_columns_def host_columns1_def host_columns2_def service_columns_def service_columns1_def service_columns2_def
      service_columns3_def contact_columns_def contact_columns1_def contact_columns2_def command_columns_def hostgroup_columns_def servicegroup_columns_def list.pred_map comp_def list.pred_True)

definition shown_row :: "out_env \<Rightarrow> core_view \<Rightarrow> column_decl list \<Rightarrow> data_ptr \<Rightarrow> (string \<times> string option) list" where
  "shown_row e vw ds x = map (\<lambda>d. (decl_name d, column_output e (declared_column vw d) x)) ds"

lemma joinable_shown:
  assumes "joinable columns" and "shiftPointer (vw_memory vw) (Some i) x = Some a"
  shows "shown_row e vw (columns p (Some i)) x = map (\<lambda>(n, t). (p @ n, t)) (shown_row e vw (columns [] None) (At a))"
proof -
  have "list_all unshifted (columns [] None)" and "columns p (Some i) = map (joined_decl p i) (columns [] None)"
    using assms(1) by (auto simp: joinable_def)
  then show ?thesis using joined_columns_show [OF _ assms(2), of "columns [] None" e p] by (simp add: shown_row_def)
qed

text \<open>
  C5. A joined column shows the joined object: under the names of its own table with the prefix, and in whatever row whose pointer
  leads to a host, a service, a contact, a command or a group, it prints what it prints in that table for that object.
\<close>

theorem joined_columns_show_the_joined_object:
  assumes "shiftPointer (vw_memory vw) (Some i) x = Some a"
  shows "shown_row e vw (host_columns p (Some i)) x = map (\<lambda>(n, t). (p @ n, t)) (shown_row e vw (host_columns [] None) (At a)) \<and>
    shown_row e vw (service_columns p (Some i) False) x = map (\<lambda>(n, t). (p @ n, t)) (shown_row e vw (service_columns [] None False) (At a)) \<and>
    shown_row e vw (contact_columns k p (Some i)) x = map (\<lambda>(n, t). (p @ n, t)) (shown_row e vw (contact_columns k [] None) (At a)) \<and>
    shown_row e vw (command_columns p (Some i)) x = map (\<lambda>(n, t). (p @ n, t)) (shown_row e vw (command_columns [] None) (At a)) \<and>
    shown_row e vw (hostgroup_columns p (Some i)) x = map (\<lambda>(n, t). (p @ n, t)) (shown_row e vw (hostgroup_columns [] None) (At a)) \<and>
    shown_row e vw (servicegroup_columns p (Some i)) x = map (\<lambda>(n, t). (p @ n, t)) (shown_row e vw (servicegroup_columns [] None) (At a))"
  using tables_joinable [THEN joinable_shown, OF assms] by blast

text \<open>The host of a message in the log.\<close>

theorem joined_columns_show_the_joined_object_witness:
  "\<forall>e (vw :: core_view) (m :: log_entry) h. shown_row e vw (host_columns ''current_host_'' (Some ''_host'')) (log_pointers (m\<lparr> le_host := Some h \<rparr>)) =
     map (\<lambda>(n, t). (''current_host_'' @ n, t)) (shown_row e vw (host_columns [] None) (At h))"
proof (intro allI)
  fix e and vw :: core_view and m :: log_entry and h
  have "shiftPointer (vw_memory vw) (Some ''_host'') (log_pointers (m\<lparr> le_host := Some h \<rparr>)) = Some h"
    by (simp add: log_pointers_def row_pointers_def)
  from joined_columns_show_the_joined_object [OF this, THEN conjunct1]
  show "shown_row e vw (host_columns ''current_host_'' (Some ''_host'')) (log_pointers (m\<lparr> le_host := Some h \<rparr>)) =
     map (\<lambda>(n, t). (''current_host_'' @ n, t)) (shown_row e vw (host_columns [] None) (At h))" .
qed

section \<open>What the table of the columns lists\<close>

lemma t_name_simps [simp]:
  "t_name (fold addColumn cs t) = t_name t"
  "t_name (fold addNatSort ns t) = t_name t"
  "t_name (addNatSort n t) = t_name t"
  "t_name (clearNatSort t) = t_name t"
proof -
  show one: "t_name (addNatSort n t) = t_name t" for n t by (simp add: addNatSort_def split: option.splits)
  show "t_name (fold addNatSort ns t) = t_name t" by (induction ns arbitrary: t) (simp_all add: one)
  show "t_name (fold addColumn cs t) = t_name t" by (induction cs arbitrary: t) (simp_all add: addColumn_def)
  show "t_name (clearNatSort t) = t_name t" by (simp add: clearNatSort_def)
qed

lemma t_name_add [simp]: "t_name (add_columns vw ds ns t) = t_name t" "t_name (join_columns vw f ds ns u) = t_name u"
  by (simp_all add: add_columns_def join_columns_def)

lemma wf_natural_order [simp]: "table_wf (clearNatSort t) = table_wf t" "table_wf (addNatSort n t) = table_wf t"
    "table_wf (fold addNatSort ns t) = table_wf t"
  by (simp_all add: table_wf_def clearNatSort_def t_columns_addNatSort [of "[n]", simplified])

lemma add_wf: "table_wf t \<Longrightarrow> table_wf (add_columns vw ds ns t)" "table_wf u \<Longrightarrow> table_wf (join_columns vw f ds ns u)"
  by (simp_all add: add_columns_def join_columns_def fold_addColumn_wf)

lemma empty_wf [simp]: "t_columns t = [] \<Longrightarrow> table_wf t"
  by (simp add: table_wf_def)

lemmas table_defs = table_columns_def table_commands_def table_down_comm_def table_contactgroups_def table_contacts_def table_hostgroups_def
  table_hosts_def table_log_def table_servicegroups_def table_services_def table_statehist_def table_status_def table_timeperiods_def new_table_def

lemma tables_wf:
  "table_wf (table_columns description)" "table_wf (table_commands vw)" "table_wf (table_down_comm vw is_downtime)"
  "table_wf (table_contactgroups vw)" "table_wf (table_contacts vw k)" "table_wf (table_hostgroups vw ga)" "table_wf (table_hosts vw by_group)"
  "table_wf (table_log vw k)" "table_wf (table_servicegroups vw ga)" "table_wf (table_services vw by_group by_hostgroup)"
  "table_wf (table_statehist vw)" "table_wf (table_status vw)" "table_wf (table_timeperiods vw)"
  by (simp_all add: table_defs Let_def add_wf fold_addColumn_wf)

text \<open>What a request finds under a name of a table and a name of a column.\<close>

definition find_column_type :: "core_view \<Rightarrow> nat \<Rightarrow> auth_mode \<Rightarrow> (column_row \<Rightarrow> string) \<Rightarrow> string \<Rightarrow> string \<Rightarrow> coltype option" where
  "find_column_type vw max_addresses group_authorization description name n =
     (if name = ''columns'' then map_option column_type (table_column (table_columns description) n)
         else if name = ''downtimes'' \<or> name = ''comments''
         then map_option column_type (table_column (table_down_comm vw (name = ''downtimes'')) n)
         else if name = ''log'' then map_option column_type (table_column (table_log vw max_addresses) n)
         else if name = ''statehist'' then map_option column_type (table_column (table_statehist vw) n)
         else (case map_of
            [(''commands'', table_commands vw), (''contactgroups'', table_contactgroups vw), (''contacts'', table_contacts vw max_addresses),
             (''hostgroups'', table_hostgroups vw group_authorization), (''hosts'', table_hosts vw False), (''hostsbygroup'', table_hosts vw True),
             (''servicegroups'', table_servicegroups vw group_authorization), (''services'', table_services vw False False),
             (''servicesbygroup'', table_services vw True False), (''servicesbyhostgroup'', table_services vw False True),
             (''status'', table_status vw), (''timeperiods'', table_timeperiods vw)] name of
           None \<Rightarrow> None
         | Some t \<Rightarrow> map_option column_type (table_column t n)))"

lemma sorted_names_inject:
  assumes "sorted_wrt (\<lambda>a b. strcmp (column_name a) (column_name b) < 0) cs"
    and "c \<in> set cs" and "d \<in> set cs" and "column_name c = column_name d"
  shows "c = d"
  using assms by (induction cs) auto

lemma listed_found:
  assumes "table_wf t" and "r \<in> set (columns_of_table t)"
  shows "cr_table r = t_name t" and "map_option column_type (table_column t (cr_name r)) = Some (cr_type r)"
proof -
  from assms(2) obtain c where c: "c \<in> set (t_columns t)" "r = \<lparr> cr_table = t_name t, cr_name = column_name c, cr_type = column_type c \<rparr>"
    by (auto simp: columns_of_table_def)
  obtain d where "columns_find (t_columns t) (column_name c) = Some d"
    using c(1) columns_find_None [of "t_columns t" "column_name c"] by auto
  moreover from columns_find_SomeD [OF this] have "d = c" using assms(1) c(1) by (metis sorted_names_inject table_wf_def)
  ultimately show "cr_table r = t_name t" and "map_option column_type (table_column t (cr_name r)) = Some (cr_type r)"
    using c(2) by (simp_all add: table_column_def lookup_column.simps)
qed

lemma distinct_names: "sorted_wrt (\<lambda>a b. strcmp (column_name a) (column_name b) < 0) cs \<Longrightarrow> distinct (map column_name cs)"
  by (induction cs) auto

definition rows_of :: "string \<Rightarrow> column_row list \<Rightarrow> bool" where
  "rows_of n rows = (distinct (map cr_name rows) \<and> list_all (\<lambda>r. cr_table r = n) rows)"

lemma listed_rows: "table_wf t \<Longrightarrow> t_name t = n \<Longrightarrow> rows_of n (columns_of_table t)"
  using distinct_names [of "t_columns t"] by (simp add: rows_of_def table_wf_def columns_of_table_def list.pred_map comp_def list.pred_True)

lemma distinct_listing:
  assumes "list_all2 rows_of ns xss" and "distinct ns"
  shows "distinct (map (\<lambda>r. (cr_table r, cr_name r)) (concat xss)) \<and> (\<forall>r \<in> set (concat xss). cr_table r \<in> set ns)"
  using assms
proof (induction rule: list_all2_induct)
  case (Cons n ns rows xss)
  have "distinct (map (\<lambda>r. (cr_table r, cr_name r)) rows)"
    using Cons.hyps(1) by (auto simp: rows_of_def distinct_map inj_on_def)
  moreover have "(\<lambda>r. (cr_table r, cr_name r)) ` set rows \<inter> (\<lambda>r. (cr_table r, cr_name r)) ` set (concat xss) = {}"
    using Cons by (fastforce simp: rows_of_def list_all_iff)
  ultimately show ?case using Cons by (auto simp: rows_of_def list_all_iff)
qed simp

lemma offer_lists_keep: "fold (offer_rows (keep_if P)) xss acc = acc @ filter P (concat xss)"
  by (induction xss arbitrary: acc) simp_all

lemma table_names:
  "t_name (table_columns d) = ''columns''" "t_name (table_commands vw) = ''commands''"
  "t_name (table_down_comm vw is_downtime) = (if is_downtime then ''downtimes'' else ''comments'')"
  "t_name (table_contactgroups vw) = ''contactgroups''" "t_name (table_contacts vw k) = ''contacts''"
  "t_name (table_hostgroups vw ga) = ''hostgroups''" "t_name (table_hosts vw by_group) = (if by_group then ''hostsbygroup'' else ''hosts'')"
  "t_name (table_log vw k) = ''log''" "t_name (table_servicegroups vw ga) = ''servicegroups''"
  "t_name (table_services vw by_group by_hostgroup) = (if by_group then ''servicesbygroup'' else if by_hostgroup then ''servicesbyhostgroup'' else ''services'')"
  "t_name (table_statehist vw) = ''statehist''" "t_name (table_status vw) = ''status''" "t_name (table_timeperiods vw) = ''timeperiods''"
  by (simp_all add: table_defs Let_def)

lemma found_rows:
  assumes "table_wf t" and "\<And>n. find_column_type vw k ga d (t_name t) n = map_option column_type (table_column t n)"
  shows "list_all (\<lambda>r. find_column_type vw k ga d (cr_table r) (cr_name r) = Some (cr_type r)) (columns_of_table t)"
  using listed_found [OF assms(1)] assms(2) by (simp add: list_all_iff)

text \<open>
  C6. A query of the table of the columns is offered every column of every table once, under a name of a table and a
  name of a column by which a request for that table finds a column of the type it says.
\<close>

theorem listed_columns_are_found:
  "columns_answer (listed_columns vw k ga d) (keep_if P) [] = filter P (concat (listed_columns vw k ga d)) \<and>
   list_all (\<lambda>r. find_column_type vw k ga d (cr_table r) (cr_name r) = Some (cr_type r)) (concat (listed_columns vw k ga d)) \<and>
   distinct (map (\<lambda>r. (cr_table r, cr_name r)) (concat (listed_columns vw k ga d)))"
proof (intro conjI)
  show "columns_answer (listed_columns vw k ga d) (keep_if P) [] = filter P (concat (listed_columns vw k ga d))"
    by (simp add: columns_answer_def offer_lists_keep)
  have "list_all2 rows_of [''columns'', ''commands'', ''comments'', ''contactgroups'', ''contacts'', ''downtimes'', ''hostgroups'', ''hosts'', ''hostsbygroup'',
      ''log'', ''servicegroups'', ''services'', ''servicesbygroup'', ''servicesbyhostgroup'', ''statehist'', ''status'', ''timeperiods'']
      (listed_columns vw k ga d)"
    unfolding listed_columns_def list_all2_Cons list_all2_Nil by (intro conjI TrueI listed_rows tables_wf) (simp_all add: table_names)
  from distinct_listing [OF this] show "distinct (map (\<lambda>r. (cr_table r, cr_name r)) (concat (listed_columns vw k ga d)))" by simp
  have "list_all (list_all (\<lambda>r. find_column_type vw k ga d (cr_table r) (cr_name r) = Some (cr_type r))) (listed_columns vw k ga d)"
    unfolding listed_columns_def list.pred_inject by (intro conjI TrueI found_rows tables_wf) (simp_all add: find_column_type_def table_names)
  then show "list_all (\<lambda>r. find_column_type vw k ga d (cr_table r) (cr_name r) = Some (cr_type r)) (concat (listed_columns vw k ga d))"
    by (auto simp: list_all_iff)
qed

end
