(* ===== verification/Spec2Isabelle.thy ===== *)
theory Spec2Isabelle
  imports Paging Input_Buffer State_Columns Aggregators Store History_Periods Module_Life Joined_Tables
begin

text \<open>
  The Livestatus module of Naemon: a library the monitoring core loads, which answers queries for the core's hosts, services,
  groups, contacts, downtimes, log messages and state histories over a socket.

  The parts and how they interact. The core loads the module (\<open>nebmodule_init\<close> of \<open>src/module.c\<close>), which parses its argument,
  opens a socket and registers callbacks with the event broker. The core then delivers events (checks, comments, downtimes, log
  lines), which count, wake waiting queries and bring the tables of downtimes and comments and the cache of time periods up to
  date. Every client that connects gets a thread. The thread reads a request (\<open>src/InputBuffer.cc\<close>), hands it to the store
  (\<open>src/Store.cc\<close>), which finds the table and builds a query from the headers (\<open>src/Query.cc\<close>); the table offers its rows to the
  query, which tests authorization and filters, sorts or counts, prints, and fills the response (\<open>src/OutputBuffer.cc\<close>).

  Theories, from the bottom up.

  \<^item> \<open>Prelude\<close>: characters, numbers and strings of the C library, and the wrap-around of 32 and 64 bits; \<open>Std_Map\<close>: ordered maps;
    \<open>Strutil\<close>: \<open>src/strutil.cc\<close>, with the contract of a tokenizer as a locale.
  \<^item> \<open>Columns\<close>: the classes of columns and their \<open>compare\<close>; \<open>Filters\<close>: all filter classes, the stack of filters that the headers
    use and how a filter is made of a column; \<open>Filter_Narrowing\<close>: \<open>findTimeLimits\<close>, \<open>optimizeBitmask\<close> and \<open>findIndexFilter\<close> never
    lose an answer, as interpretations of one contract for narrowing a scan.
  \<^item> \<open>Row_Sorted_Set\<close> and \<open>Paging\<close>: the bounded heap of \<open>src/RowSortedSet.cc\<close>; the page it prints is the slice of the sorted result.
  \<^item> \<open>Output_Buffer\<close>, \<open>Input_Buffer\<close>: the two buffers. The response never overflows its block; the reader meets a specification on
    the stream of bytes, however the reads cut it.
  \<^item> \<open>State_Columns\<close>: the columns that summarise services and hosts, through the caches of the query; \<open>Aggregators\<close>: the statistics.
  \<^item> \<open>Table\<close>: columns by name; \<open>Query_Output\<close>: how values are printed; \<open>Json_Text\<close>: a reader of JSON that takes back what is printed.
  \<^item> \<open>Query\<close>, \<open>Query_Headers\<close>: the query and the headers that build it; filter headers compile boolean expressions, and no request
    leaves an ill-formed query. \<open>Query_Run\<close>, \<open>Query_Response\<close>: the run over the rows and the document it prints.
    \<open>Query_Wait\<close>: waiting for a condition or a time. \<open>Store\<close>: the request from its bytes to the bytes of the response, and the loop
    of a client's thread.
  \<^item> \<open>Log_Entry\<close>, \<open>Log_Cache\<close>, \<open>Log_Loading\<close>, \<open>Table_Log\<close>: lines of the log, the cache of log files with its limit of messages,
    and the log table, whose answer is that of a full scan. \<open>State_History\<close>, \<open>History_Periods\<close>: the state histories, whose rows
    follow each other without a gap.
  \<^item> \<open>Authorization\<close>: who sees what (\<open>src/auth.cc\<close>); \<open>Downtimes\<close>: the tables of downtimes and comments as a registry of what the core said;
    \<open>Timeperiods\<close>: the cache of time periods.
  \<^item> \<open>Counters\<close>, \<open>Client_Threads\<close>, \<open>Event_Broker\<close>, \<open>Settings\<close>, \<open>Listener\<close>, \<open>Module_Life\<close>: the module itself (\<open>src/module.c\<close>,
    \<open>src/global_counters.c\<close>). Its life is a relation of steps, by which every thread of a client is found ended or joined.
  \<^item> \<open>Core_Objects\<close>, \<open>Core_Columns\<close>, \<open>Core_Tables\<close>, \<open>Object_Tables\<close>: what the columns read from the structs of the core, every
    class of columns the object tables use, the columns every table declares, and the rows the tables offer; reading by an index loses
    no row. \<open>Joined_Tables\<close>: the tables of the log, the state histories, the downtimes and the comments with the objects they join, and
    the table of all columns.

  How the model corresponds to the code. A class or struct is a record or a datatype with the source's fields; a method is a
  function of the same name from the state to its result and the new state. A row (\<open>void *\<close>) is a type variable until the
  tables fix it: a \<open>data_ptr\<close> for objects of the core, a record for the module's own structs. The memory of the core is the record
  \<open>core_memory\<close> of functions from an address and a member to a value; what the core computes (regular expressions, whether a contact
  is responsible, whether a time period holds, the objects by name), the clock, files and system calls are parameters. Texts are byte
  lists up to their NUL. Integers are kept in the range of their width with the wrap-around written out, or are words; a \<open>double\<close> is a
  real or an extended number. Undefined behaviour of the code is \<open>None\<close>. Where a mutex makes an operation atomic it is one step.

  Bounds and fuel. The loops that need an argument why they end are \<open>partial_function (option)\<close>, and a theorem says they return: the
  growth of the response buffer and the tidying of the thread array. The loop over the log of a state history has its measure in
  the file and message of its iterator. The loop of a client is a function of the list of values its termination flag shows, and the
  reads of a request are a list of events with an end. Sizes are those of the code: 65536 bytes of read-ahead, log lines of 65536 bytes,
  numbers of rows below 2147483648 and times below 4294967296 where a theorem needs it.

  What is not modelled. Logging to the module's own file (\<open>src/logger.c\<close>) only writes; the client \<open>src/unixcat.c\<close> only copies bytes between
  a socket and its standard streams; the C interface in \<open>src/store.cc\<close> passes its arguments on. The descriptions of columns are constant
  texts. Memory does not run out, and freeing is left out except where the cache of the log frees messages. The interleaving of two threads inside
  one operation is not modelled: the code reads the objects of the core without a lock. The declarations of the core, the API libraries under
  \<open>api\<close> and the test programs are not part of the module.
\<close>

end
